(* ===== verification/Atoha_Prelude.thy ===== *)
theory Atoha_Prelude
  imports Main "HOL-Library.Word" "HOL-Library.Sublist"
begin

text \<open>
  Shared vocabulary of the development: byte strings, the pieces of the Go standard library on
  strings that several components use (\<open>strings.TrimSpace\<close>, \<open>strings.Cut\<close>, UTF-8 decoding,
  hexadecimal and decimal digits, \<open>strconv.Quote\<close>), Go's pair results \<open>(value, error)\<close>, and the
  collections of simplification facts the component theories use.

  A Go string is a sequence of bytes, and so is a \<^typ>\<open>string\<close>: a list of 8-bit characters.
  A \<open>[]byte\<close> is modelled by its contents, also a \<^typ>\<open>string\<close>; a nil slice and an empty slice
  have the same contents, and the code copies every slice it stores (\<open>cloneBytes\<close>), so that no
  component observes the difference.
\<close>

named_theorems go_defs \<open>definitions of the model that unfold to a case analysis of the code\<close>
named_theorems status_defs \<open>the numeric values of the status constants\<close>

type_synonym bytes = string
type_synonym u8 = "8 word"

subsection \<open>Results of Go functions\<close>

text \<open>
  A constructor that returns \<open>(T{}, err)\<close> or \<open>(value, nil)\<close> is a sum, \<^const>\<open>Inl\<close> the error.
  Where the caller keeps both components, the sum becomes the Go pair with the type's zero value.
\<close>

fun go_pair :: "'a \<Rightarrow> 'e + 'a \<Rightarrow> 'a \<times> 'e option" where
  "go_pair z (Inl e) = (z, Some e)"
| "go_pair z (Inr v) = (v, None)"

fun sum_error :: "'e + 'a \<Rightarrow> 'e option" where
  "sum_error (Inl e) = Some e"
| "sum_error (Inr v) = None"

fun result_bind :: "'e + 'a \<Rightarrow> ('a \<Rightarrow> 'e + 'b) \<Rightarrow> 'e + 'b" where
  "result_bind (Inl e) f = Inl e"
| "result_bind (Inr v) f = f v"

lemma result_bind_Inr_iff [simp]:
  "result_bind r f = Inr b \<longleftrightarrow> (\<exists>a. r = Inr a \<and> f a = Inr b)"
  by (cases r) auto

lemma result_bind_Inl_iff [simp]:
  "result_bind r f = Inl e \<longleftrightarrow> r = Inl e \<or> (\<exists>a. r = Inr a \<and> f a = Inl e)"
  by (cases r) auto

lemma result_bind_assoc: "result_bind (result_bind r f) g = result_bind r (\<lambda>a. result_bind (f a) g)"
  by (cases r) simp_all

subsection \<open>Lists\<close>

lemma count_list_distinct: "distinct xs \<Longrightarrow> count_list xs x \<le> 1"
  by (induction xs) (auto simp: count_list_0_iff)

subsection \<open>Bytes, digits\<close>

definition byte :: "nat \<Rightarrow> char" where
  "byte n = char_of n"

definition code :: "char \<Rightarrow> nat" where
  "code c = of_char c"

lemma code_less [simp]: "code c < 256"
  by (simp add: code_def)

lemma code_byte [simp]: "n < 256 \<Longrightarrow> code (byte n) = n"
  by (simp add: code_def byte_def)

lemma byte_code [simp]: "byte (code c) = c"
  by (simp add: code_def byte_def)

text \<open>Lower-case hexadecimal digits, as \<open>encoding/hex\<close> and \<open>strconv\<close> print them.\<close>

definition hex_digit :: "nat \<Rightarrow> char" where
  "hex_digit n = (if n < 10 then byte (48 + n) else byte (87 + n))"

definition hex_byte :: "char \<Rightarrow> string" where
  "hex_byte c = [hex_digit (code c div 16), hex_digit (code c mod 16)]"

definition hex_encode :: "bytes \<Rightarrow> string" where
  "hex_encode bs = concat (map hex_byte bs)"

fun hex_fixed :: "nat \<Rightarrow> nat \<Rightarrow> string" where
  "hex_fixed 0 n = []"
| "hex_fixed (Suc w) n = hex_fixed w (n div 16) @ [hex_digit (n mod 16)]"

lemma hex_digit_inj: "i < 16 \<Longrightarrow> j < 16 \<Longrightarrow> hex_digit i = hex_digit j \<Longrightarrow> i = j"
proof -
  assume ij: "i < 16" "j < 16" and eq: "hex_digit i = hex_digit j"
  from eq have "code (hex_digit i) = code (hex_digit j)" by simp
  with ij show "i = j" by (auto simp: hex_digit_def split: if_splits)
qed

lemma hex_byte_inj: "hex_byte c = hex_byte d \<Longrightarrow> c = d"
proof -
  assume "hex_byte c = hex_byte d"
  then have "hex_digit (code c div 16) = hex_digit (code d div 16)"
    and "hex_digit (code c mod 16) = hex_digit (code d mod 16)"
    by (simp_all add: hex_byte_def)
  moreover have "code c div 16 < 16" "code d div 16 < 16" "code c mod 16 < 16" "code d mod 16 < 16"
    using code_less [of c] code_less [of d] by linarith+
  ultimately have "code c div 16 = code d div 16" and "code c mod 16 = code d mod 16"
    using hex_digit_inj by blast+
  then have "code c = code d" by (metis div_mult_mod_eq)
  then show "c = d" by (metis byte_code)
qed

text \<open>The hexadecimal text determines the bytes it prints.\<close>

lemma hex_encode_inj: "hex_encode xs = hex_encode ys \<Longrightarrow> xs = ys"
proof (induction xs arbitrary: ys)
  case Nil
  then show ?case by (cases ys) (auto simp: hex_encode_def hex_byte_def)
next
  case (Cons x xs)
  show ?case
  proof (cases ys)
    case Nil
    with Cons.prems show ?thesis by (simp add: hex_encode_def hex_byte_def)
  next
    case (Cons y ys')
    with Cons.prems have "hex_byte x = hex_byte y" and "hex_encode xs = hex_encode ys'"
      by (auto simp: hex_encode_def hex_byte_def)
    with Cons.IH Cons show ?thesis by (auto dest: hex_byte_inj)
  qed
qed

lemma length_hex_encode [simp]: "length (hex_encode xs) = 2 * length xs"
  by (induction xs) (auto simp: hex_encode_def hex_byte_def)

text \<open>
  Decimal digits, without and with zero padding (\<open>strconv.Itoa\<close>, \<open>time.appendInt\<close>), of
  non-negative integers.
\<close>

definition dec_digit :: "int \<Rightarrow> char" where
  "dec_digit n = byte (48 + nat n)"

function dec_nat :: "int \<Rightarrow> string" where
  "dec_nat n = (if n < 10 then [dec_digit n] else dec_nat (n div 10) @ [dec_digit (n mod 10)])"
  by pat_completeness auto
termination
  by (relation "measure nat") auto

declare dec_nat.simps [simp del]

fun dec_fixed :: "nat \<Rightarrow> int \<Rightarrow> string" where
  "dec_fixed 0 n = []"
| "dec_fixed (Suc w) n = dec_fixed w (n div 10) @ [dec_digit (n mod 10)]"

definition is_digit :: "char \<Rightarrow> bool" where
  "is_digit c \<longleftrightarrow> 48 \<le> code c \<and> code c \<le> 57"

definition digit_val :: "char \<Rightarrow> int" where
  "digit_val c = int (code c) - 48"

fun dec_value :: "int \<Rightarrow> string \<Rightarrow> int" where
  "dec_value acc [] = acc"
| "dec_value acc (c # cs) = dec_value (10 * acc + digit_val c) cs"

lemma code_dec_digit [simp]: "0 \<le> n \<Longrightarrow> n < 10 \<Longrightarrow> code (dec_digit n) = 48 + nat n"
  by (simp add: dec_digit_def)

lemma is_digit_dec_digit [simp]: "0 \<le> n \<Longrightarrow> n < 10 \<Longrightarrow> is_digit (dec_digit n)"
  by (simp add: is_digit_def)

lemma digit_val_dec_digit [simp]: "0 \<le> n \<Longrightarrow> n < 10 \<Longrightarrow> digit_val (dec_digit n) = n"
  by (simp add: digit_val_def)

lemma dec_value_append: "dec_value acc (xs @ ys) = dec_value (dec_value acc xs) ys"
  by (induction xs arbitrary: acc) auto

lemma length_dec_fixed [simp]: "length (dec_fixed w n) = w"
  by (induction w arbitrary: n) auto

lemma dec_fixed_digits: "list_all is_digit (dec_fixed w n)"
  by (induction w arbitrary: n) auto

lemma dec_value_fixed: "0 \<le> n \<Longrightarrow> n < 10 ^ w \<Longrightarrow> dec_value 0 (dec_fixed w n) = n"
proof (induction w arbitrary: n)
  case 0
  then show ?case by simp
next
  case (Suc w)
  from Suc.prems have "0 \<le> n div 10" and "n div 10 < 10 ^ w" by simp_all
  with Suc.IH show ?case by (simp add: dec_value_append)
qed

end
