(* ===== verification/Go_Strings.thy ===== *)
theory Go_Strings
  imports Atoha_Prelude
begin

text \<open>
  The operations of Go's \<open>strings\<close>, \<open>unicode/utf8\<close> and \<open>strconv\<close> the program uses:
  \<open>strings.TrimSpace\<close>, \<open>strings.Cut\<close>, \<open>utf8.DecodeRune\<close> and \<open>strconv.Quote\<close> (the verb
  \<open>%q\<close>). Identities of the core are compared with their trimmed form, so the lemmas say exactly
  which strings trimming leaves alone.
\<close>

subsection \<open>UTF-8\<close>

definition cont_byte :: "char \<Rightarrow> bool" where
  "cont_byte c \<longleftrightarrow> 128 \<le> code c \<and> code c \<le> 191"

text \<open>
  \<open>utf8.DecodeRune\<close>: the rune and its width, or \<^const>\<open>None\<close> where Go returns
  \<open>(RuneError, 1)\<close> for bytes that start no well-formed sequence. The admissible second bytes
  exclude overlong forms, surrogates and values above 10FFFF.
\<close>

definition second_ok :: "nat \<Rightarrow> nat \<Rightarrow> bool" where
  "second_ok x0 x1 \<longleftrightarrow>
     (if x0 = 224 then 160 else if x0 = 240 then 144 else 128) \<le> x1 \<and>
     x1 \<le> (if x0 = 237 then 159 else if x0 = 244 then 143 else 191)"

fun decode_rune :: "bytes \<Rightarrow> (nat \<times> nat) option" where
  "decode_rune [] = None"
| "decode_rune (c0 # cs) =
    (let x0 = code c0 in
     if x0 < 128 then Some (x0, 1)
     else if 194 \<le> x0 \<and> x0 \<le> 223 then
       (case cs of c1 # _ \<Rightarrow>
          if cont_byte c1 then Some ((x0 mod 32) * 64 + code c1 mod 64, 2) else None
        | _ \<Rightarrow> None)
     else if 224 \<le> x0 \<and> x0 \<le> 239 then
       (case cs of c1 # c2 # _ \<Rightarrow>
          if second_ok x0 (code c1) \<and> cont_byte c2
          then Some ((x0 mod 16) * 4096 + (code c1 mod 64) * 64 + code c2 mod 64, 3) else None
        | _ \<Rightarrow> None)
     else if 240 \<le> x0 \<and> x0 \<le> 244 then
       (case cs of c1 # c2 # c3 # _ \<Rightarrow>
          if second_ok x0 (code c1) \<and> cont_byte c2 \<and> cont_byte c3
          then Some ((x0 mod 8) * 262144 + (code c1 mod 64) * 4096 + (code c2 mod 64) * 64
                      + code c3 mod 64, 4) else None
        | _ \<Rightarrow> None)
     else None)"

lemma decode_rune_width:
  "decode_rune s = Some (r, n) \<Longrightarrow> 0 < n \<and> n \<le> length s"
  by (cases s) (auto simp: Let_def split: if_splits list.splits)

declare decode_rune.simps [simp del]

subsection \<open>Trimming white space\<close>

text \<open>
  The UTF-8 encodings of the runes for which \<open>unicode.IsSpace\<close> holds: tab to carriage return,
  blank, U+0085, U+00A0, U+1680, U+2000 to U+200A, U+2028, U+2029, U+202F, U+205F, U+3000.
\<close>

definition space_encodings :: "bytes list" where
  "space_encodings =
     map (map byte) ([[9], [10], [11], [12], [13], [32], [194, 133], [194, 160], [225, 154, 128]]
       @ map (\<lambda>k. [226, 128, k]) ([128 ..< 139] @ [168, 169, 175])
       @ [[226, 129, 159], [227, 128, 128]])"

lemma space_encodings_nonempty: "p \<in> set space_encodings \<Longrightarrow> p \<noteq> []"
  by (auto simp: space_encodings_def)

definition starts_with_any :: "bytes list \<Rightarrow> bytes \<Rightarrow> bytes option" where
  "starts_with_any ps s = find (\<lambda>p. p \<noteq> [] \<and> prefix p s) ps"

lemma starts_with_any_Some:
  "starts_with_any ps s = Some p \<Longrightarrow> p \<in> set ps \<and> p \<noteq> [] \<and> prefix p s"
  by (auto simp: starts_with_any_def find_Some_iff)

function trim_prefixes :: "bytes list \<Rightarrow> bytes \<Rightarrow> bytes" where
  "trim_prefixes ps s =
    (case starts_with_any ps s of None \<Rightarrow> s | Some p \<Rightarrow> trim_prefixes ps (drop (length p) s))"
  by pat_completeness auto
termination
proof (relation "measure (\<lambda>(ps, s). length s)")
  fix ps :: "bytes list" and s p :: bytes
  assume "starts_with_any ps s = Some p"
  then have "0 < length p" and "length p \<le> length s"
    by (auto dest!: starts_with_any_Some prefix_length_le)
  then have "length s - length p < length s" by linarith
  then show "((ps, drop (length p) s), (ps, s)) \<in> measure (\<lambda>(ps, s). length s)" by simp
qed simp

declare trim_prefixes.simps [simp del]

definition TrimLeftSpace :: "bytes \<Rightarrow> bytes" where
  "TrimLeftSpace s = trim_prefixes space_encodings s"

definition TrimRightSpace :: "bytes \<Rightarrow> bytes" where
  "TrimRightSpace s = rev (trim_prefixes (map rev space_encodings) (rev s))"

definition TrimSpace :: "bytes \<Rightarrow> bytes" where
  "TrimSpace s = TrimRightSpace (TrimLeftSpace s)"

lemma trim_prefixes_suffix: "suffix (trim_prefixes ps s) s"
proof (induction ps s rule: trim_prefixes.induct)
  case (1 ps s)
  show ?case
  proof (cases "starts_with_any ps s")
    case None
    then show ?thesis by (simp add: trim_prefixes.simps [of ps s])
  next
    case (Some p)
    with 1 have "suffix (trim_prefixes ps (drop (length p) s)) (drop (length p) s)" by blast
    with Some show ?thesis
      by (simp add: trim_prefixes.simps [of ps s]) (meson suffix_drop suffix_order.trans)
  qed
qed

lemma trim_prefixes_fixed:
  "starts_with_any ps (trim_prefixes ps s) = None"
proof (induction ps s rule: trim_prefixes.induct)
  case (1 ps s)
  then show ?case
    by (cases "starts_with_any ps s") (simp_all add: trim_prefixes.simps [of ps s])
qed

lemma trim_prefixes_id_iff: "trim_prefixes ps s = s \<longleftrightarrow> starts_with_any ps s = None"
proof
  assume "trim_prefixes ps s = s"
  then show "starts_with_any ps s = None" using trim_prefixes_fixed [of ps s] by simp
next
  assume "starts_with_any ps s = None"
  then show "trim_prefixes ps s = s" by (simp add: trim_prefixes.simps [of ps s])
qed

lemma starts_with_any_None_iff:
  "starts_with_any ps s = None \<longleftrightarrow> (\<forall>p\<in>set ps. p \<noteq> [] \<longrightarrow> \<not> prefix p s)"
  by (auto simp: starts_with_any_def find_None_iff)

lemma starts_with_any_prefix:
  "prefix t s \<Longrightarrow> starts_with_any ps s = None \<Longrightarrow> starts_with_any ps t = None"
  by (auto simp: starts_with_any_None_iff dest: prefix_order.trans)

lemma TrimSpace_sublist: "sublist (TrimSpace s) s"
proof -
  have "suffix (TrimLeftSpace s) s" by (simp add: TrimLeftSpace_def trim_prefixes_suffix)
  moreover have "prefix (TrimSpace s) (TrimLeftSpace s)"
    using trim_prefixes_suffix [of "map rev space_encodings" "rev (TrimLeftSpace s)"]
    by (simp add: TrimSpace_def TrimRightSpace_def suffix_to_prefix)
  ultimately show ?thesis
    by (meson prefix_imp_sublist suffix_imp_sublist sublist_order.order_trans)
qed

text \<open>
  Trimming leaves a string alone exactly when no encoded space starts or ends it.
\<close>

lemma TrimSpace_id_iff:
  "TrimSpace s = s \<longleftrightarrow> (\<forall>p\<in>set space_encodings. \<not> prefix p s \<and> \<not> suffix p s)"
proof
  assume eq: "TrimSpace s = s"
  have suf: "suffix (TrimLeftSpace s) s" by (simp add: TrimLeftSpace_def trim_prefixes_suffix)
  have pre: "prefix (TrimSpace s) (TrimLeftSpace s)"
    using trim_prefixes_suffix [of "map rev space_encodings" "rev (TrimLeftSpace s)"]
    by (simp add: TrimSpace_def TrimRightSpace_def suffix_to_prefix)
  have left: "TrimLeftSpace s = s"
  proof -
    from pre eq have "length s \<le> length (TrimLeftSpace s)" by (metis prefix_length_le)
    with suf show ?thesis
      by (metis le_antisym suffix_length_le suffix_def append_eq_append_conv self_append_conv2)
  qed
  then have "starts_with_any space_encodings s = None"
    by (simp add: TrimLeftSpace_def trim_prefixes_id_iff)
  moreover from eq left have "trim_prefixes (map rev space_encodings) (rev s) = rev s"
    by (metis TrimRightSpace_def TrimSpace_def rev_rev_ident)
  then have "starts_with_any (map rev space_encodings) (rev s) = None"
    by (simp add: trim_prefixes_id_iff)
  ultimately show "\<forall>p\<in>set space_encodings. \<not> prefix p s \<and> \<not> suffix p s"
    using space_encodings_nonempty by (auto simp: starts_with_any_None_iff suffix_to_prefix)
next
  assume "\<forall>p\<in>set space_encodings. \<not> prefix p s \<and> \<not> suffix p s"
  then have "starts_with_any space_encodings s = None"
    and "starts_with_any (map rev space_encodings) (rev s) = None"
    by (auto simp: starts_with_any_None_iff suffix_to_prefix)
  then show "TrimSpace s = s"
    by (simp add: TrimSpace_def TrimLeftSpace_def TrimRightSpace_def trim_prefixes_id_iff [THEN iffD2])
qed

lemma TrimSpace_idem [simp]: "TrimSpace (TrimSpace s) = TrimSpace s"
proof -
  let ?l = "TrimLeftSpace s"
  have pre: "prefix (TrimSpace s) ?l"
    using trim_prefixes_suffix [of "map rev space_encodings" "rev ?l"]
    by (simp add: TrimSpace_def TrimRightSpace_def suffix_to_prefix)
  have "starts_with_any space_encodings ?l = None"
    by (simp add: TrimLeftSpace_def trim_prefixes_fixed)
  then have "starts_with_any space_encodings (TrimSpace s) = None"
    using pre starts_with_any_prefix by blast
  moreover have "starts_with_any (map rev space_encodings) (rev (TrimSpace s)) = None"
    by (simp add: TrimSpace_def TrimRightSpace_def trim_prefixes_fixed)
  ultimately show ?thesis
    using space_encodings_nonempty
    by (auto simp: TrimSpace_id_iff starts_with_any_None_iff suffix_to_prefix)
qed

lemma TrimSpace_Nil [simp]: "TrimSpace [] = []"
  using TrimSpace_sublist [of "[]"] by simp

subsection \<open>Cutting at a separator byte\<close>

fun Cut :: "char \<Rightarrow> string \<Rightarrow> string \<times> string \<times> bool" where
  "Cut sep [] = ([], [], False)"
| "Cut sep (c # cs) =
    (if c = sep then ([], cs, True)
     else (case Cut sep cs of (before, after, found) \<Rightarrow> (c # before, after, found)))"

lemma Cut_found:
  "Cut sep s = (before, after, True) \<Longrightarrow> s = before @ sep # after \<and> sep \<notin> set before"
  by (induction s arbitrary: before after) (auto split: if_splits prod.splits)

lemma Cut_append: "sep \<notin> set before \<Longrightarrow> Cut sep (before @ sep # after) = (before, after, True)"
  by (induction before) auto

lemma Cut_not_found: "Cut sep s = (before, after, False) \<Longrightarrow> sep \<notin> set s"
  by (induction s arbitrary: before after) (auto split: if_splits prod.splits)

subsection \<open>Quoting\<close>

text \<open>
  \<open>strconv.Quote\<close>. Which runes above U+00FF are printable is decided by the Unicode tables of the
  standard library, data that is not part of this repository: the predicate \<open>prt\<close> stands for them.
\<close>

definition is_print :: "(nat \<Rightarrow> bool) \<Rightarrow> nat \<Rightarrow> bool" where
  "is_print prt r \<longleftrightarrow>
     (if r \<le> 255 then (32 \<le> r \<and> r < 127) \<or> (161 \<le> r \<and> r \<noteq> 173) else prt r)"

definition escape_rune :: "(nat \<Rightarrow> bool) \<Rightarrow> nat \<Rightarrow> bytes \<Rightarrow> string" where
  "escape_rune prt r raw =
    (if r = 34 \<or> r = 92 then CHR 0x5C # raw
     else if is_print prt r then raw
     else if r = 7 then [CHR 0x5C, CHR ''a'']
     else if r = 8 then [CHR 0x5C, CHR ''b'']
     else if r = 12 then [CHR 0x5C, CHR ''f'']
     else if r = 10 then [CHR 0x5C, CHR ''n'']
     else if r = 13 then [CHR 0x5C, CHR ''r'']
     else if r = 9 then [CHR 0x5C, CHR ''t'']
     else if r = 11 then [CHR 0x5C, CHR ''v'']
     else if r < 32 \<or> r = 127 then CHR 0x5C # CHR ''x'' # hex_fixed 2 r
     else if r < 65536 then CHR 0x5C # CHR ''u'' # hex_fixed 4 r
     else CHR 0x5C # CHR ''U'' # hex_fixed 8 r)"

function quote_body :: "(nat \<Rightarrow> bool) \<Rightarrow> bytes \<Rightarrow> string" where
  "quote_body prt [] = []"
| "quote_body prt (c # cs) =
    (case decode_rune (c # cs) of
       None \<Rightarrow> CHR 0x5C # CHR ''x'' # hex_byte c @ quote_body prt cs
     | Some (r, n) \<Rightarrow> escape_rune prt r (take n (c # cs)) @ quote_body prt (drop n (c # cs)))"
  by pat_completeness auto
termination
proof (relation "measure (\<lambda>(prt, s). length s)")
  fix prt :: "nat \<Rightarrow> bool" and c cs p r n
  assume "decode_rune (c # cs) = Some p" and "(r, n) = p"
  then have "0 < n" by (metis decode_rune_width)
  then show "((prt, drop n (c # cs)), (prt, c # cs)) \<in> measure (\<lambda>(prt, s). length s)" by simp
qed simp_all

definition Quote :: "(nat \<Rightarrow> bool) \<Rightarrow> bytes \<Rightarrow> string" where
  "Quote prt s = CHR 0x22 # quote_body prt s @ [CHR 0x22]"

end
