(* ===== verification/Go_Errors.thy ===== *)
theory Go_Errors
  imports Go_Strings
begin

text \<open>
  Go errors as values. Every package-level \<open>errors.New\<close> variable of the program that is tested with
  \<open>errors.Is\<close> is a constructor of \<open>sentinel\<close>; an error value is a sentinel, a message, the result of
  \<open>fmt.Errorf\<close> (its format split into parts, \<open>W\<close> a wrapped operand \<open>%w\<close> and \<open>V\<close> an operand printed
  with \<open>%v\<close>), of \<open>errors.Join\<close>, or the \<open>*Error\<close> of \<open>execution/errors.go\<close> that adds the stage. A Go
  value of type \<open>error\<close> is an \<open>err option\<close>, with \<^const>\<open>None\<close> for nil.
\<close>

datatype sentinel =
    ErrInvalidAction | ErrInvalidExecutionAttempt | ErrActionIdentityConflict
  | ErrInvalidExecutionEvent | ErrInvalidOutcome | ErrInvalidObservation | ErrInvalidVerification
  | ErrInvalidResolvedTarget | ErrInvalidReceipt | ErrInvalidDispatchResult
  | ErrInvalidInput | ErrAttemptAlreadyStarted | ErrAttemptNotFound | ErrActionMismatch
  | ErrAdmissionUnknown | ErrVerificationUnknown | ErrRecoveryNotAuthorized
  | ErrInvalidProviderResult
  | ErrInvalidIdentity | ErrUnrelatedEvent
  | Memory_ErrEventConflict
  | Sqlite_ErrInvalidConfig | Sqlite_ErrEventConflict | Sqlite_ErrCorruptData
  | HA_ErrInvalidConfig | HA_ErrTargetNotFound | HA_ErrInvalidTarget | HA_ErrTargetMismatch
  | HA_ErrAttemptMismatch | HA_ErrInvalidAction | HA_ErrUnexpectedStatus | HA_ErrResponseTooLarge
  | Context_Canceled | Context_DeadlineExceeded

fun sentinel_text :: "sentinel \<Rightarrow> string" where
  "sentinel_text ErrInvalidAction = ''atoha: invalid action''"
| "sentinel_text ErrInvalidExecutionAttempt = ''atoha: invalid execution attempt''"
| "sentinel_text ErrActionIdentityConflict = ''atoha: action identity conflict''"
| "sentinel_text ErrInvalidExecutionEvent = ''atoha: invalid execution event''"
| "sentinel_text ErrInvalidOutcome = ''atoha: invalid outcome''"
| "sentinel_text ErrInvalidObservation = ''atoha: invalid observation''"
| "sentinel_text ErrInvalidVerification = ''atoha: invalid verification''"
| "sentinel_text ErrInvalidResolvedTarget = ''atoha: invalid resolved target''"
| "sentinel_text ErrInvalidReceipt = ''atoha: invalid receipt''"
| "sentinel_text ErrInvalidDispatchResult = ''atoha: invalid dispatch result''"
| "sentinel_text ErrInvalidInput = ''atoha execution: invalid input''"
| "sentinel_text ErrAttemptAlreadyStarted = ''atoha execution: attempt already started''"
| "sentinel_text ErrAttemptNotFound = ''atoha execution: attempt not found''"
| "sentinel_text ErrActionMismatch = ''atoha execution: action does not match attempt''"
| "sentinel_text ErrAdmissionUnknown = ''atoha execution: admission is unknown''"
| "sentinel_text ErrVerificationUnknown = ''atoha execution: verification is unknown''"
| "sentinel_text ErrRecoveryNotAuthorized = ''atoha execution: recovery is not authorized''"
| "sentinel_text ErrInvalidProviderResult = ''atoha execution: invalid provider result''"
| "sentinel_text ErrInvalidIdentity = ''atoha projection: invalid identity''"
| "sentinel_text ErrUnrelatedEvent = ''atoha projection: unrelated event''"
| "sentinel_text Memory_ErrEventConflict = ''atoha memory event log: event ID conflict''"
| "sentinel_text Sqlite_ErrInvalidConfig = ''atoha sqlite event log: invalid config''"
| "sentinel_text Sqlite_ErrEventConflict = ''atoha sqlite event log: event ID conflict''"
| "sentinel_text Sqlite_ErrCorruptData = ''atoha sqlite event log: corrupt data''"
| "sentinel_text HA_ErrInvalidConfig = ''homeassistant: invalid config''"
| "sentinel_text HA_ErrTargetNotFound = ''homeassistant: logical target not found''"
| "sentinel_text HA_ErrInvalidTarget = ''homeassistant: invalid resolved target''"
| "sentinel_text HA_ErrTargetMismatch = ''homeassistant: resolved target does not match action''"
| "sentinel_text HA_ErrAttemptMismatch = ''homeassistant: execution attempt does not match action''"
| "sentinel_text HA_ErrInvalidAction = ''homeassistant: invalid action''"
| "sentinel_text HA_ErrUnexpectedStatus = ''homeassistant: unexpected HTTP status''"
| "sentinel_text HA_ErrResponseTooLarge = ''homeassistant: response too large''"
| "sentinel_text Context_Canceled = ''context canceled''"
| "sentinel_text Context_DeadlineExceeded = ''context deadline exceeded''"

datatype Stage =
    StageValidate | StageRecord | StageAdmit | StageResolve
  | StageDispatch | StageObserve | StageVerify | StageRecover

fun stage_text :: "Stage \<Rightarrow> string" where
  "stage_text StageValidate = ''validate''"
| "stage_text StageRecord = ''record''"
| "stage_text StageAdmit = ''admit''"
| "stage_text StageResolve = ''resolve''"
| "stage_text StageDispatch = ''dispatch''"
| "stage_text StageObserve = ''observe''"
| "stage_text StageVerify = ''verify''"
| "stage_text StageRecover = ''recover''"

datatype err =
    Sentinel sentinel
  | Message string
  | Errorf "errpart list"
  | Joined "err list"
  | StageError Stage err
and errpart = T string | Q string | D nat | W err | V err

text \<open>
  Facts of the Go runtime that the program reads but that are no part of this repository:
  \<open>sha256.Sum256\<close>, the Unicode table behind \<open>strconv.IsPrint\<close>.
\<close>

record go_runtime =
  rt_sha256 :: "bytes \<Rightarrow> bytes"
  rt_printable :: "nat \<Rightarrow> bool"

subsection \<open>Matching and printing\<close>

text \<open>\<open>errors.Is\<close> walks the wrapped operands, the joined errors and \<open>(*Error).Unwrap\<close>.\<close>

fun errorsIs :: "err \<Rightarrow> sentinel \<Rightarrow> bool"
  and partIs :: "errpart \<Rightarrow> sentinel \<Rightarrow> bool" where
  "errorsIs (Sentinel s) t \<longleftrightarrow> s = t"
| "errorsIs (Message m) t \<longleftrightarrow> False"
| "errorsIs (Errorf ps) t \<longleftrightarrow> list_ex (\<lambda>p. partIs p t) ps"
| "errorsIs (Joined es) t \<longleftrightarrow> list_ex (\<lambda>e. errorsIs e t) es"
| "errorsIs (StageError st e) t \<longleftrightarrow> errorsIs e t"
| "partIs (W e) t \<longleftrightarrow> errorsIs e t"
| "partIs (T s) t \<longleftrightarrow> False"
| "partIs (Q s) t \<longleftrightarrow> False"
| "partIs (D n) t \<longleftrightarrow> False"
| "partIs (V e) t \<longleftrightarrow> False"

definition error_is :: "err option \<Rightarrow> sentinel \<Rightarrow> bool" where
  "error_is e t = (case e of None \<Rightarrow> False | Some e' \<Rightarrow> errorsIs e' t)"

fun join_lines :: "string list \<Rightarrow> string" where
  "join_lines [] = []"
| "join_lines [l] = l"
| "join_lines (l # ls) = l @ CHR 0x0A # join_lines ls"

fun err_text :: "go_runtime \<Rightarrow> err \<Rightarrow> string"
  and part_text :: "go_runtime \<Rightarrow> errpart \<Rightarrow> string" where
  "err_text rt (Sentinel s) = sentinel_text s"
| "err_text rt (Message m) = m"
| "err_text rt (Errorf ps) = concat (map (part_text rt) ps)"
| "err_text rt (Joined es) = join_lines (map (err_text rt) es)"
| "err_text rt (StageError st e) = ''atoha execution '' @ stage_text st @ '': '' @ err_text rt e"
| "part_text rt (T s) = s"
| "part_text rt (Q s) = Quote (rt_printable rt) s"
| "part_text rt (D n) = dec_nat (int n)"
| "part_text rt (W e) = err_text rt e"
| "part_text rt (V e) = err_text rt e"

text \<open>The two usual wrappers: \<open>fmt.Errorf("%w: %v", sentinel, err)\<close> and \<open>fmt.Errorf("%w: text", sentinel)\<close>.\<close>

definition wrap_err :: "sentinel \<Rightarrow> err \<Rightarrow> err" where
  "wrap_err s e = Errorf [W (Sentinel s), T '': '', V e]"

definition wrap_msg :: "sentinel \<Rightarrow> string \<Rightarrow> err" where
  "wrap_msg s m = Errorf [W (Sentinel s), T ('': '' @ m)]"

text \<open>\<open>errors.Join\<close> drops nil operands and is nil when none remains.\<close>

definition errorsJoin :: "err option list \<Rightarrow> err option" where
  "errorsJoin es = (case List.map_filter (\<lambda>e. e) es of [] \<Rightarrow> None | es' \<Rightarrow> Some (Joined es'))"

definition stageError :: "Stage \<Rightarrow> err option \<Rightarrow> err option" where
  "stageError st e = map_option (StageError st) e"

definition errorText :: "go_runtime \<Rightarrow> err option \<Rightarrow> string" where
  "errorText rt e = (case e of None \<Rightarrow> [] | Some e' \<Rightarrow> err_text rt e')"

subsection \<open>Laws\<close>

lemma errorsIs_wrap_err [simp]: "errorsIs (wrap_err s e) t \<longleftrightarrow> s = t"
  by (simp add: wrap_err_def)

lemma errorsIs_wrap_msg [simp]: "errorsIs (wrap_msg s m) t \<longleftrightarrow> s = t"
  by (simp add: wrap_msg_def)

lemma error_is_simps [simp]:
  "error_is None t = False" "error_is (Some e) t = errorsIs e t"
  by (simp_all add: error_is_def)

lemma errorsJoin_None_iff [simp]: "errorsJoin es = None \<longleftrightarrow> set es \<subseteq> {None}"
  by (induction es) (auto simp: errorsJoin_def List.map_filter_def split: list.splits option.splits)

lemma stageError_simps [simp]:
  "stageError st None = None" "stageError st (Some e) = Some (StageError st e)"
  by (simp_all add: stageError_def)

lemma stageError_None_iff [simp]: "stageError st e = None \<longleftrightarrow> e = None"
  by (cases e) simp_all

text \<open>Joining and adding a stage keep exactly the sentinels of the operands.\<close>

lemma error_is_stageError [simp]: "error_is (stageError st e) t = error_is e t"
  by (cases e) simp_all

lemma error_is_errorsJoin [simp]: "error_is (errorsJoin es) t \<longleftrightarrow> (\<exists>e\<in>set es. error_is e t)"
proof -
  have "list_ex (\<lambda>e. errorsIs e t) (List.map_filter (\<lambda>e. e) es) \<longleftrightarrow> (\<exists>e\<in>set es. error_is e t)"
    by (induction es) (auto simp: List.map_filter_simps error_is_def split: option.splits)
  then show ?thesis
    by (auto simp: errorsJoin_def error_is_def split: list.splits)
qed

end
