(* ===== verification/Go_Time.thy ===== *)
theory Go_Time
  imports Atoha_Prelude "HOL-Library.Monad_Syntax"
begin

text \<open>
  What the program uses of Go's package \<open>time\<close>. A \<open>time.Time\<close> is an instant, in nanoseconds since
  1 January of year 1 UTC (so that the zero value is instant 0), and the offset of its location in
  seconds. \<open>IsZero\<close>, \<open>Equal\<close>, \<open>After\<close> and \<open>Sub\<close> read the instant; \<open>UTC\<close> changes the offset only;
  \<open>Format(time.RFC3339Nano)\<close> prints the local date and clock. The reading function accepts what
  \<open>time.Parse\<close> accepts with the layouts \<open>RFC3339\<close> and \<open>RFC3339Nano\<close>. The main
  result is that reading a printed UTC time gives the same instant back for the years 0 to 9999, the
  range outside which the text has no four-digit year and cannot be read.
\<close>

record gtime =
  t_ns :: int
  t_off :: int

definition zero_time :: gtime where
  "zero_time = \<lparr>t_ns = 0, t_off = 0\<rparr>"

definition IsZero :: "gtime \<Rightarrow> bool" where
  "IsZero t \<longleftrightarrow> t_ns t = 0"

definition TimeEqual :: "gtime \<Rightarrow> gtime \<Rightarrow> bool" where
  "TimeEqual a b \<longleftrightarrow> t_ns a = t_ns b"

definition TimeAfter :: "gtime \<Rightarrow> gtime \<Rightarrow> bool" where
  "TimeAfter a b \<longleftrightarrow> t_ns b < t_ns a"

definition UTC :: "gtime \<Rightarrow> gtime" where
  "UTC t = t\<lparr>t_off := 0\<rparr>"

text \<open>\<open>Sub\<close> saturates at the range of the 64-bit \<open>time.Duration\<close>.\<close>

definition TimeSub :: "gtime \<Rightarrow> gtime \<Rightarrow> int" where
  "TimeSub a b = max (- (2 ^ 63)) (min (2 ^ 63 - 1) (t_ns a - t_ns b))"

text \<open>The clock of a component: \<open>time.Now\<close> or the function its configuration supplies.\<close>

datatype clock = TimeNow | ConfiguredNow

lemma UTC_simps [simp]: "t_ns (UTC t) = t_ns t" "t_off (UTC t) = 0" "UTC (UTC t) = UTC t"
  by (simp_all add: UTC_def)

lemma IsZero_UTC [simp]: "IsZero (UTC t) = IsZero t"
  by (simp add: IsZero_def)

lemma IsZero_zero_time [simp]: "IsZero zero_time"
  by (simp add: IsZero_def zero_time_def)

lemma TimeEqual_refl [simp]: "TimeEqual t t"
  by (simp add: TimeEqual_def)

lemma TimeEqual_sym: "TimeEqual a b \<Longrightarrow> TimeEqual b a"
  by (simp add: TimeEqual_def)

lemma TimeEqual_trans: "TimeEqual a b \<Longrightarrow> TimeEqual b c \<Longrightarrow> TimeEqual a c"
  by (simp add: TimeEqual_def)

lemma TimeEqual_UTC [simp]: "TimeEqual (UTC a) b = TimeEqual a b" "TimeEqual a (UTC b) = TimeEqual a b"
  by (simp_all add: TimeEqual_def)

lemma TimeEqual_UTC_eq: "TimeEqual a b \<Longrightarrow> UTC a = UTC b"
  by (simp add: TimeEqual_def UTC_def)

subsection \<open>The proleptic Gregorian calendar\<close>

definition leap_year :: "int \<Rightarrow> bool" where
  "leap_year y \<longleftrightarrow> y mod 4 = 0 \<and> (y mod 100 \<noteq> 0 \<or> y mod 400 = 0)"

definition year_length :: "int \<Rightarrow> int" where
  "year_length y = (if leap_year y then 366 else 365)"

text \<open>Days from 1 January of year 1 to 1 January of year \<open>y\<close>.\<close>

definition year_start :: "int \<Rightarrow> int" where
  "year_start y = 365 * (y - 1) + (y - 1) div 4 - (y - 1) div 100 + (y - 1) div 400"

text \<open>
  \<open>time.absDate\<close>: 400-year cycles, then centuries, 4-year cycles and years, the last century and the
  last year of a cycle cut off at 3.
\<close>

definition year_and_yday :: "int \<Rightarrow> int \<times> int" where
  "year_and_yday d =
    (let n400 = d div 146097; d1 = d mod 146097;
         n100 = min 3 (d1 div 36524); d2 = d1 - 36524 * n100;
         n4 = d2 div 1461; d3 = d2 mod 1461;
         n1 = min 3 (d3 div 365); d4 = d3 - 365 * n1
     in (400 * n400 + 100 * n100 + 4 * n4 + n1 + 1, d4))"

definition month_lengths :: "bool \<Rightarrow> int list" where
  "month_lengths leap = [31, if leap then 29 else 28, 31, 30, 31, 30, 31, 31, 30, 31, 30, 31]"

fun split_month :: "int list \<Rightarrow> nat \<Rightarrow> int \<Rightarrow> nat \<times> int" where
  "split_month [] m d = (m, d)"
| "split_month (l # ls) m d = (if d < l then (m, d) else split_month ls (Suc m) (d - l))"

definition days_before_month :: "bool \<Rightarrow> nat \<Rightarrow> int" where
  "days_before_month leap m = sum_list (take (m - 1) (month_lengths leap))"

lemma capped_div:
  fixes x m :: int
  assumes "0 \<le> x" and "x \<le> 4 * m" and "0 < m" and q: "q = min 3 (x div m)"
  shows "0 \<le> q" and "q \<le> 3" and "0 \<le> x - m * q" and "x - m * q \<le> m" and "q < 3 \<Longrightarrow> x - m * q < m"
proof -
  have x: "x = m * (x div m) + x mod m" by simp
  have r: "0 \<le> x mod m" "x mod m < m" using assms by simp_all
  have pos: "0 \<le> x div m" using assms by (simp add: pos_imp_zdiv_nonneg_iff)
  show "0 \<le> q" and "q \<le> 3" using pos q by simp_all
  have "0 \<le> x - m * q \<and> x - m * q \<le> m \<and> (q < 3 \<longrightarrow> x - m * q < m)"
  proof (cases "x div m \<le> 3")
    case True
    then have "x - m * q = x mod m" using q x by (simp add: min_def algebra_simps)
    with r show ?thesis by simp
  next
    case False
    then have "q = 3" using q by simp
    moreover have "m * 4 \<le> m * (x div m)" using False assms(3) by (intro mult_left_mono) auto
    then have "m * 4 \<le> x" using x r by linarith
    ultimately show ?thesis using assms by simp
  qed
  then show "0 \<le> x - m * q" and "x - m * q \<le> m" and "q < 3 \<Longrightarrow> x - m * q < m" by simp_all
qed

lemma div_of_sum:
  fixes a b c :: int
  assumes "0 \<le> a" "a < b"
  shows "(a + b * c) div b = c"
  using assms by (simp add: div_mult_self2)

lemma cycle_divs:
  fixes n400 n100 n4 n1 :: int
  assumes n100: "0 \<le> n100" "n100 \<le> 3" and n4: "0 \<le> n4" "n4 \<le> 24" and n1: "0 \<le> n1" "n1 \<le> 3"
  shows "(400 * n400 + 100 * n100 + 4 * n4 + n1) div 4 = 100 * n400 + 25 * n100 + n4"
    and "(400 * n400 + 100 * n100 + 4 * n4 + n1) div 100 = 4 * n400 + n100"
    and "(400 * n400 + 100 * n100 + 4 * n4 + n1) div 400 = n400"
  using div_of_sum [of n1 4 "100 * n400 + 25 * n100 + n4"] div_of_sum [of "4 * n4 + n1" 100 "4 * n400 + n100"]
    div_of_sum [of "100 * n100 + 4 * n4 + n1" 400 n400] n100 n4 n1
  by (simp_all add: algebra_simps)

lemma leap_year_of_cycle:
  fixes n400 n100 n4 n1 :: int
  assumes n100: "0 \<le> n100" "n100 \<le> 3" and n4: "0 \<le> n4" "n4 \<le> 24" and n1: "0 \<le> n1" "n1 \<le> 3"
  shows "leap_year (400 * n400 + 100 * n100 + 4 * n4 + n1 + 1) \<longleftrightarrow> n1 = 3 \<and> (n4 < 24 \<or> n100 = 3)"
    (is "leap_year ?y \<longleftrightarrow> _")
proof -
  have "?y = (n1 + 1) + 4 * (100 * n400 + 25 * n100 + n4)" by simp
  then have "?y mod 4 = (n1 + 1) mod 4" by (metis mod_mult_self2)
  moreover have "(n1 + 1) mod 4 = 0 \<longleftrightarrow> n1 = 3" using n1 by presburger
  ultimately have m4: "?y mod 4 = 0 \<longleftrightarrow> n1 = 3" by simp
  have m100: "?y mod 100 = 0 \<longleftrightarrow> n4 = 24" and m400: "n4 = 24 \<Longrightarrow> ?y mod 400 = 0 \<longleftrightarrow> n100 = 3"
    if "n1 = 3"
  proof -
    have "?y = (4 * n4 + 4) + 100 * (4 * n400 + n100)" using that by simp
    then have "?y mod 100 = (4 * n4 + 4) mod 100" by (metis mod_mult_self2)
    moreover have "(4 * n4 + 4) mod 100 = 0 \<longleftrightarrow> n4 = 24"
    proof (cases "n4 = 24")
      case False
      with n4 have "(4 * n4 + 4) mod 100 = 4 * n4 + 4" by (intro mod_pos_pos_trivial) auto
      with n4 False show ?thesis by simp
    qed simp
    ultimately show "?y mod 100 = 0 \<longleftrightarrow> n4 = 24" by simp
    assume "n4 = 24"
    with that have "?y = (100 * n100 + 100) + 400 * n400" by simp
    then have "?y mod 400 = (100 * n100 + 100) mod 400" by (metis mod_mult_self2)
    moreover have "(100 * n100 + 100) mod 400 = 0 \<longleftrightarrow> n100 = 3"
    proof (cases "n100 = 3")
      case False
      with n100 have "(100 * n100 + 100) mod 400 = 100 * n100 + 100" by (intro mod_pos_pos_trivial) auto
      with n100 False show ?thesis by simp
    qed simp
    ultimately show "?y mod 400 = 0 \<longleftrightarrow> n100 = 3" by simp
  qed
  show ?thesis
  proof (cases "n1 = 3")
    case True
    have "leap_year ?y \<longleftrightarrow> ?y mod 100 \<noteq> 0 \<or> ?y mod 400 = 0"
      unfolding leap_year_def by (simp only: iffD2 [OF m4 True] simp_thms)
    also have "\<dots> \<longleftrightarrow> n4 < 24 \<or> n100 = 3"
      using m100 [OF True] m400 [OF True] n4 by (cases "n4 = 24") auto
    finally show ?thesis using True by simp
  next
    case False
    with m4 have "?y mod 4 \<noteq> 0" by simp
    then show ?thesis using False unfolding leap_year_def by (simp only: simp_thms)
  qed
qed

lemma year_and_yday_start:
  assumes "year_and_yday d = (y, k)"
  shows "year_start y + k = d" and "0 \<le> k" and "k < year_length y"
proof -
  define n400 where "n400 = d div 146097"
  define d1 where "d1 = d mod 146097"
  define n100 where "n100 = min 3 (d1 div 36524)"
  define d2 where "d2 = d1 - 36524 * n100"
  define n4 where "n4 = d2 div 1461"
  define d3 where "d3 = d2 mod 1461"
  define n1 where "n1 = min 3 (d3 div 365)"
  have y: "y = 400 * n400 + 100 * n100 + 4 * n4 + n1 + 1" and k: "k = d3 - 365 * n1"
    using assms by (simp_all only: year_and_yday_def Let_def prod.inject n400_def d1_def n100_def d2_def n4_def d3_def n1_def)
  have d: "d = 146097 * n400 + d1" and d1: "0 \<le> d1" "d1 < 146097"
    by (simp_all add: n400_def d1_def)
  have n100: "0 \<le> n100" "n100 \<le> 3" and d2: "0 \<le> d2" "d2 \<le> 36524" "n100 < 3 \<Longrightarrow> d2 < 36524"
    using d1 capped_div [of d1 36524 n100] by (simp_all add: n100_def d2_def)
  have n4: "0 \<le> n4" "n4 \<le> 24" and d3: "0 \<le> d3" "d3 < 1461" and d2_eq: "d2 = 1461 * n4 + d3"
    using d2 unfolding n4_def d3_def by (simp_all add: div_le_mono pos_imp_zdiv_nonneg_iff)
  have d3_last: "n4 = 24 \<Longrightarrow> n100 < 3 \<Longrightarrow> d3 < 1460"
    using d2(3) d2_eq by linarith
  have n1: "0 \<le> n1" "n1 \<le> 3" and k0: "0 \<le> k" and k365: "k \<le> 365" "n1 < 3 \<Longrightarrow> k < 365"
    using d3 capped_div [of d3 365 n1] by (simp_all add: n1_def k)
  have divs: "(y - 1) div 4 = 100 * n400 + 25 * n100 + n4" "(y - 1) div 100 = 4 * n400 + n100"
    "(y - 1) div 400 = n400"
    using cycle_divs [OF n100 n4 n1, of n400] by (simp_all add: y)
  show "year_start y + k = d"
    unfolding year_start_def divs unfolding y k d2_eq d2_def d using d2_eq d2_def by simp
  show "0 \<le> k" by (fact k0)
  have leap: "leap_year y \<longleftrightarrow> n1 = 3 \<and> (n4 < 24 \<or> n100 = 3)"
    using leap_year_of_cycle [OF n100 n4 n1] by (simp add: y)
  show "k < year_length y"
  proof (cases "leap_year y")
    case True
    then show ?thesis using k365 by (simp add: year_length_def)
  next
    case False
    then have "n1 < 3 \<or> (n4 = 24 \<and> n100 < 3)" using leap n1 n4 n100 by linarith
    then have "k < 365"
    proof
      assume "n1 < 3"
      then show ?thesis by (rule k365)
    next
      assume a: "n4 = 24 \<and> n100 < 3"
      with d3_last have "d3 < 1460" by blast
      with n1 d3 k show ?thesis unfolding n1_def by (simp add: min_def split: if_splits)
    qed
    with False show ?thesis by (simp add: year_length_def)
  qed
qed

lemma split_month_spec:
  assumes "split_month ls m d = (m', k)" and "0 \<le> d" and "d < sum_list ls" and "\<forall>l\<in>set ls. 0 < l"
  shows "m \<le> m' \<and> m' < m + length ls \<and> sum_list (take (m' - m) ls) + k = d \<and> 0 \<le> k \<and> k < ls ! (m' - m)"
  using assms
proof (induction ls m d arbitrary: m' k rule: split_month.induct)
  case (1 m d)
  then show ?case by simp
next
  case (2 l ls m d)
  show ?case
  proof (cases "d < l")
    case True
    with 2 show ?thesis by simp
  next
    case False
    with 2 have "Suc m \<le> m' \<and> m' < Suc m + length ls \<and> sum_list (take (m' - Suc m) ls) + k = d - l
        \<and> 0 \<le> k \<and> k < ls ! (m' - Suc m)"
      by simp
    moreover from this obtain j where "m' = Suc m + j" using le_Suc_ex by blast
    ultimately show ?thesis by simp
  qed
qed

lemma month_lengths_simps [simp]:
  "length (month_lengths leap) = 12"
  "sum_list (month_lengths leap) = (if leap then 366 else 365)"
  "\<forall>l\<in>set (month_lengths leap). 0 < l"
  by (simp_all add: month_lengths_def)

lemma month_lengths_bound: "i < 12 \<Longrightarrow> month_lengths leap ! i \<le> 31"
proof -
  assume "i < 12"
  then have "month_lengths leap ! i \<in> set (month_lengths leap)" by simp
  moreover have "\<forall>l\<in>set (month_lengths leap). l \<le> 31" by (simp add: month_lengths_def)
  ultimately show ?thesis by blast
qed

text \<open>The date of a day: year, month from 1, day from 1; and the day of a date (\<open>time.Date\<close>).\<close>

definition date_of_day :: "int \<Rightarrow> int \<times> nat \<times> int" where
  "date_of_day d =
    (case year_and_yday d of (y, k) \<Rightarrow>
       case split_month (month_lengths (leap_year y)) 1 k of (m, r) \<Rightarrow> (y, m, r + 1))"

definition day_of_date :: "int \<Rightarrow> nat \<Rightarrow> int \<Rightarrow> int" where
  "day_of_date y m dd = year_start y + days_before_month (leap_year y) m + dd - 1"

definition daysIn :: "int \<Rightarrow> nat \<Rightarrow> int" where
  "daysIn y m = month_lengths (leap_year y) ! (m - 1)"

lemma date_of_day_spec:
  assumes "date_of_day d = (y, m, dd)"
  shows "day_of_date y m dd = d" and "1 \<le> m" and "m \<le> 12" and "1 \<le> dd" and "dd \<le> daysIn y m"
proof -
  obtain k where yk: "year_and_yday d = (y, k)"
    and sm: "split_month (month_lengths (leap_year y)) 1 k = (m, dd - 1)"
    using assms by (auto simp: date_of_day_def split: prod.splits)
  note yd = year_and_yday_start [OF yk]
  have "1 \<le> m \<and> m < 1 + 12 \<and> sum_list (take (m - 1) (month_lengths (leap_year y))) + (dd - 1) = k
      \<and> 0 \<le> dd - 1 \<and> dd - 1 < month_lengths (leap_year y) ! (m - 1)"
    using split_month_spec [OF sm yd(2)] yd(3) by (simp add: year_length_def)
  then show "day_of_date y m dd = d" and "1 \<le> m" and "m \<le> 12" and "1 \<le> dd" and "dd \<le> daysIn y m"
    using yd(1) by (simp_all add: day_of_date_def days_before_month_def daysIn_def)
qed

subsection \<open>Printing and reading RFC 3339\<close>

text \<open>\<open>time.appendInt\<close>: a sign, then at least \<open>w\<close> digits.\<close>

definition dec_pad :: "nat \<Rightarrow> int \<Rightarrow> string" where
  "dec_pad w n = (if n < 10 ^ w then dec_fixed w n else dec_nat n)"

definition appendInt :: "int \<Rightarrow> nat \<Rightarrow> string" where
  "appendInt x w = (if x < 0 then CHR ''-'' # dec_pad w (- x) else dec_pad w x)"

text \<open>The fraction \<open>.999999999\<close>: nine digits without their trailing zeros, nothing for zero.\<close>

definition strip_zeros :: "string \<Rightarrow> string" where
  "strip_zeros ds = rev (dropWhile (\<lambda>c. c = CHR ''0'') (rev ds))"

definition format_fraction :: "int \<Rightarrow> string" where
  "format_fraction n = (case strip_zeros (dec_fixed 9 n) of [] \<Rightarrow> [] | ds \<Rightarrow> CHR ''.'' # ds)"

definition format_zone :: "int \<Rightarrow> string" where
  "format_zone off =
    (if off = 0 then ''Z''
     else let zone = (if off < 0 then - ((- off) div 60) else off div 60);
              z = (if zone < 0 then - zone else zone)
          in (if zone < 0 then ''-'' else ''+'') @ dec_pad 2 (z div 60) @ '':'' @ dec_pad 2 (z mod 60))"

definition local_seconds :: "gtime \<Rightarrow> int" where
  "local_seconds t = t_ns t div 1000000000 + t_off t"

definition local_day :: "gtime \<Rightarrow> int" where
  "local_day t = local_seconds t div 86400"

definition local_year :: "gtime \<Rightarrow> int" where
  "local_year t = fst (date_of_day (local_day t))"

definition FormatRFC3339Nano :: "gtime \<Rightarrow> string" where
  "FormatRFC3339Nano t =
    (case date_of_day (local_day t) of (y, m, d) \<Rightarrow>
      let sod = local_seconds t mod 86400 in
      appendInt y 4 @ CHR ''-'' # dec_pad 2 (int m) @ CHR ''-'' # dec_pad 2 d
      @ CHR ''T'' # dec_pad 2 (sod div 3600) @ CHR '':'' # dec_pad 2 (sod div 60 mod 60)
      @ CHR '':'' # dec_pad 2 (sod mod 60)
      @ format_fraction (t_ns t mod 1000000000) @ format_zone (t_off t))"

text \<open>
  The reader, \<open>time.Parse\<close> with the layouts \<open>RFC3339\<close> and \<open>RFC3339Nano\<close>: fixed-width numbers within
  bounds, the separators, an optional fraction (digits beyond the ninth are dropped), and \<open>Z\<close> or a
  numeric offset. It is as lenient as the package: an hour of one digit, a comma before the fraction,
  and offsets up to 24 hours and 60 minutes are read too.
\<close>

definition parseUint :: "nat \<Rightarrow> int \<Rightarrow> int \<Rightarrow> string \<Rightarrow> (int \<times> string) option" where
  "parseUint w lo hi s =
    (let ds = take w s; v = dec_value 0 ds in
     if length ds = w \<and> list_all is_digit ds \<and> lo \<le> v \<and> v \<le> hi then Some (v, drop w s) else None)"

text \<open>The hour of the layout may have one digit only.\<close>

definition parse_hour :: "string \<Rightarrow> (int \<times> string) option" where
  "parse_hour s =
    (if list_all is_digit (take 2 s) then parseUint 2 0 23 s else parseUint 1 0 23 s)"

fun parseChar :: "char \<Rightarrow> string \<Rightarrow> string option" where
  "parseChar c [] = None"
| "parseChar c (x # xs) = (if x = c then Some xs else None)"

definition fraction_value :: "string \<Rightarrow> int" where
  "fraction_value ds = dec_value 0 (take 9 ds) * 10 ^ (9 - length (take 9 ds))"

fun parse_fraction :: "string \<Rightarrow> int \<times> string" where
  "parse_fraction (c # d # s) =
    (if (c = CHR ''.'' \<or> c = CHR '','') \<and> is_digit d
     then (fraction_value (takeWhile is_digit (d # s)), dropWhile is_digit (d # s)) else (0, c # d # s))"
| "parse_fraction s = (0, s)"

definition parse_zone :: "string \<Rightarrow> int option" where
  "parse_zone s =
    (if s = ''Z'' then Some 0
     else case s of [] \<Rightarrow> None
       | sg # s' \<Rightarrow>
         if length s = 6 \<and> (sg = CHR ''-'' \<or> sg = CHR ''+'') then do {
           (hr, s1) \<leftarrow> parseUint 2 0 24 s';
           s2 \<leftarrow> parseChar CHR '':'' s1;
           (mm, _) \<leftarrow> parseUint 2 0 60 s2;
           Some ((if sg = CHR ''-'' then - 1 else 1) * (hr * 60 + mm) * 60)
         } else None)"

definition ParseRFC3339Nano :: "string \<Rightarrow> gtime option" where
  "ParseRFC3339Nano s = do {
     (year, s1) \<leftarrow> parseUint 4 0 9999 s;
     s2 \<leftarrow> parseChar CHR ''-'' s1;
     (month, s3) \<leftarrow> parseUint 2 1 12 s2;
     s4 \<leftarrow> parseChar CHR ''-'' s3;
     (day, s5) \<leftarrow> parseUint 2 1 (daysIn year (nat month)) s4;
     s6 \<leftarrow> parseChar CHR ''T'' s5;
     (hour, s7) \<leftarrow> parse_hour s6;
     s8 \<leftarrow> parseChar CHR '':'' s7;
     (minute, s9) \<leftarrow> parseUint 2 0 59 s8;
     s10 \<leftarrow> parseChar CHR '':'' s9;
     (second, s11) \<leftarrow> parseUint 2 0 59 s10;
     let (nsec, s12) = parse_fraction s11;
     off \<leftarrow> parse_zone s12;
     Some \<lparr>t_ns = (day_of_date year (nat month) day * 86400 + hour * 3600 + minute * 60 + second - off)
                    * 1000000000 + nsec,
           t_off = off\<rparr>
   }"

subsection \<open>The round trip\<close>

lemma dec_pad_small: "n < 10 ^ w \<Longrightarrow> dec_pad w n = dec_fixed w n"
  by (simp add: dec_pad_def)

lemma parseUint_pad:
  assumes "0 \<le> n" and "n < 10 ^ w" and "lo \<le> n" and "n \<le> hi"
  shows "parseUint w lo hi (dec_pad w n @ s) = Some (n, s)"
  using assms by (simp add: parseUint_def dec_pad_small dec_value_fixed dec_fixed_digits)

lemma parse_hour_pad:
  assumes "0 \<le> n" and "n \<le> 23"
  shows "parse_hour (dec_pad 2 n @ s) = Some (n, s)"
proof -
  have "dec_pad 2 n = dec_fixed 2 n" using assms by (simp add: dec_pad_small)
  then have "take 2 (dec_pad 2 n @ s) = dec_fixed 2 n" by simp
  then have "list_all is_digit (take 2 (dec_pad 2 n @ s))" using dec_fixed_digits by simp
  with assms show ?thesis by (simp add: parse_hour_def parseUint_pad)
qed

lemma strip_zeros_spec: "\<exists>k. ds = strip_zeros ds @ replicate k CHR ''0''"
proof -
  let ?zs = "takeWhile (\<lambda>c. c = CHR ''0'') (rev ds)"
  have "rev ds = ?zs @ rev (strip_zeros ds)" by (simp add: strip_zeros_def)
  then have "ds = strip_zeros ds @ rev ?zs" by (metis rev_append rev_rev_ident)
  moreover have "rev ?zs = replicate (length ?zs) CHR ''0''"
    by (rule replicate_eqI) (auto dest: set_takeWhileD)
  ultimately show ?thesis by metis
qed

lemma digit_val_0 [simp]: "digit_val CHR ''0'' = 0" "is_digit CHR ''0''"
  by (simp_all add: digit_val_def is_digit_def code_def)

lemma dec_value_zeros: "dec_value acc (replicate k CHR ''0'') = acc * 10 ^ k"
  by (induction k arbitrary: acc) (auto simp: algebra_simps)

lemma fraction_value_strip:
  assumes "0 \<le> n" and "n < 1000000000"
  shows "fraction_value (strip_zeros (dec_fixed 9 n)) = n"
proof -
  obtain k where k: "dec_fixed 9 n = strip_zeros (dec_fixed 9 n) @ replicate k CHR ''0''"
    using strip_zeros_spec by blast
  then have len: "length (strip_zeros (dec_fixed 9 n)) + k = 9"
    by (metis length_append length_dec_fixed length_replicate)
  have "n = dec_value 0 (dec_fixed 9 n)" using assms by (simp add: dec_value_fixed)
  also have "\<dots> = dec_value 0 (strip_zeros (dec_fixed 9 n)) * 10 ^ k"
    by (metis k dec_value_append dec_value_zeros)
  also have "k = 9 - length (strip_zeros (dec_fixed 9 n))" using len by simp
  finally show ?thesis using len by (simp add: fraction_value_def)
qed

lemma parse_fraction_format:
  assumes "0 \<le> n" and "n < 1000000000" and "\<not> is_digit z" and "z \<noteq> CHR ''.''"
  shows "parse_fraction (format_fraction n @ [z]) = (n, [z])"
proof (cases "strip_zeros (dec_fixed 9 n)")
  case Nil
  then have "n = 0" using fraction_value_strip [OF assms(1,2)] by (simp add: fraction_value_def)
  with Nil show ?thesis by (simp add: format_fraction_def)
next
  case (Cons d ds)
  obtain k where k: "dec_fixed 9 n = (d # ds) @ replicate k CHR ''0''"
    using strip_zeros_spec [of "dec_fixed 9 n"] Cons by auto
  have digits: "\<forall>c\<in>set (d # ds). is_digit c"
    using dec_fixed_digits [of 9 n] unfolding k by (auto simp: list_all_iff)
  then have "takeWhile is_digit ((d # ds) @ [z]) = d # ds" and "dropWhile is_digit ((d # ds) @ [z]) = [z]"
    using assms(3) by (auto simp: takeWhile_append2 dropWhile_append2)
  then show ?thesis
    using Cons digits fraction_value_strip [OF assms(1,2)] by (simp add: format_fraction_def)
qed

lemma clock_split:
  fixes sod :: int
  assumes "0 \<le> sod" and "sod < 86400"
  shows "0 \<le> sod div 3600" "sod div 3600 \<le> 23" "0 \<le> sod div 60 mod 60" "sod div 60 mod 60 \<le> 59"
    "0 \<le> sod mod 60" "sod mod 60 \<le> 59"
    "sod div 3600 * 3600 + sod div 60 mod 60 * 60 + sod mod 60 = sod"
proof -
  define m where "m = sod div 60"
  have hour: "sod div 3600 = m div 60" using zdiv_zmult2_eq [of 60 sod 60] by (simp add: m_def)
  have m: "0 \<le> m" "m < 1440" using assms unfolding m_def by linarith+
  show "0 \<le> sod div 3600" "sod div 3600 \<le> 23" using m unfolding hour by linarith+
  show "0 \<le> sod div 60 mod 60" "sod div 60 mod 60 \<le> 59" "0 \<le> sod mod 60" "sod mod 60 \<le> 59"
    by (simp_all add: zle_diff1_eq [symmetric] del: zle_diff1_eq)
  have "60 * m + sod mod 60 = sod" and "60 * (m div 60) + m mod 60 = m" by (simp_all add: m_def)
  then show "sod div 3600 * 3600 + sod div 60 mod 60 * 60 + sod mod 60 = sod"
    unfolding hour m_def [symmetric] by linarith
qed

lemma not_digit_Z: "\<not> is_digit CHR ''Z''"
  by (simp add: is_digit_def code_def)

lemma parse_zone_Z [simp]: "parse_zone ''Z'' = Some 0"
  by (simp add: parse_zone_def)

theorem parse_format_utc:
  assumes off: "t_off t = 0" and year: "0 \<le> local_year t" "local_year t \<le> 9999"
  shows "ParseRFC3339Nano (FormatRFC3339Nano t) = Some t"
proof -
  obtain y m d where date: "date_of_day (local_day t) = (y, m, d)" by (cases "date_of_day (local_day t)")
  define sod where "sod = local_seconds t mod 86400"
  note spec = date_of_day_spec [OF date]
  have y: "0 \<le> y" "y \<le> 9999" using year date by (simp_all add: local_year_def)
  have "m - 1 < 12" using spec by simp
  then have d31: "d \<le> 31" using spec month_lengths_bound [of "m - 1" "leap_year y"] by (simp add: daysIn_def)
  have sod: "0 \<le> sod" "sod < 86400" by (simp_all add: sod_def)
  note clock = clock_split [OF sod]
  have frac: "parse_fraction (format_fraction (t_ns t mod 1000000000) @ ''Z'') = (t_ns t mod 1000000000, ''Z'')"
    by (rule parse_fraction_format) (simp_all add: not_digit_Z)
  have secs: "local_day t * 86400 + sod = t_ns t div 1000000000"
    using off by (simp add: sod_def local_day_def local_seconds_def)
  define h mi se n where "h = sod div 3600" and "mi = sod div 60 mod 60" and "se = sod mod 60"
    and "n = t_ns t mod 1000000000"
  note fields = h_def [symmetric] mi_def [symmetric] se_def [symmetric] n_def [symmetric]
  have printed: "FormatRFC3339Nano t =
      dec_pad 4 y @ CHR ''-'' # dec_pad 2 (int m) @ CHR ''-'' # dec_pad 2 d @ CHR ''T'' # dec_pad 2 h
      @ CHR '':'' # dec_pad 2 mi @ CHR '':'' # dec_pad 2 se @ format_fraction n @ ''Z''"
    using date y off
    by (simp add: FormatRFC3339Nano_def sod_def appendInt_def format_zone_def Let_def h_def mi_def se_def n_def)
  have "parseUint 4 0 9999 (dec_pad 4 y @ s) = Some (y, s)"
    and "parseUint 2 1 12 (dec_pad 2 (int m) @ s) = Some (int m, s)"
    and "parseUint 2 1 (daysIn y m) (dec_pad 2 d @ s) = Some (d, s)"
    and "parse_hour (dec_pad 2 h @ s) = Some (h, s)"
    and "parseUint 2 0 59 (dec_pad 2 mi @ s) = Some (mi, s)"
    and "parseUint 2 0 59 (dec_pad 2 se @ s) = Some (se, s)" for s
    using y spec d31 clock unfolding fields by (auto intro!: parseUint_pad parse_hour_pad)
  with frac have "ParseRFC3339Nano (FormatRFC3339Nano t) =
      Some \<lparr>t_ns = (day_of_date y m d * 86400 + h * 3600 + mi * 60 + se) * 1000000000 + n, t_off = 0\<rparr>"
    unfolding printed fields ParseRFC3339Nano_def by simp
  moreover have "day_of_date y m d * 86400 + h * 3600 + mi * 60 + se = t_ns t div 1000000000"
    using spec(1) clock(7) secs unfolding fields by linarith
  moreover have "t_ns t div 1000000000 * 1000000000 + n = t_ns t" by (simp add: n_def)
  ultimately show ?thesis using off by simp
qed

end
