(* ===== verification/Core_Action.thy ===== *)
theory Core_Action
  imports Go_Errors Go_Time
begin

text \<open>
  \<open>action.go\<close>: the immutable intent (\<open>Action\<close>), the individual attempt to carry it out
  (\<open>ExecutionAttempt\<close>) and the validation of identities. The exported specification structs are
  records with the prefixes \<open>as_\<close> and \<open>es_\<close>, the opaque structs records with \<open>act_\<close> and \<open>att_\<close>; the
  accessor methods are the record's selectors. A constructor returns \<^const>\<open>Inl\<close> of its error or
  \<^const>\<open>Inr\<close> of the value.
\<close>

type_synonym ActionID = string
type_synonym AttemptID = string

record ActionSpec =
  as_ID :: ActionID
  as_Target :: string
  as_Name :: string
  as_Input :: bytes
  as_RequestedAt :: gtime

record Action =
  act_id :: ActionID
  act_target :: string
  act_name :: string
  act_input :: bytes
  act_requestedAt :: gtime

definition validateText :: "string \<Rightarrow> string \<Rightarrow> err option" where
  "validateText name val =
    (if val = '''' then Some (Errorf [T name, T '' is required''])
     else if val \<noteq> TrimSpace val
     then Some (Errorf [T name, T '' must not have leading or trailing whitespace''])
     else None)"

definition validateIdentity :: "string \<Rightarrow> string \<Rightarrow> err option" where
  "validateIdentity name val = validateText name val"

definition NewAction :: "ActionSpec \<Rightarrow> err + Action" where
  "NewAction spec =
    (case validateIdentity ''action ID'' (as_ID spec) of
       Some e \<Rightarrow> Inl (wrap_err ErrInvalidAction e)
     | None \<Rightarrow>
     (case validateText ''target'' (as_Target spec) of
       Some e \<Rightarrow> Inl (wrap_err ErrInvalidAction e)
     | None \<Rightarrow>
     (case validateText ''name'' (as_Name spec) of
       Some e \<Rightarrow> Inl (wrap_err ErrInvalidAction e)
     | None \<Rightarrow>
       if IsZero (as_RequestedAt spec)
       then Inl (wrap_msg ErrInvalidAction ''requested time is required'')
       else Inr \<lparr>act_id = as_ID spec, act_target = as_Target spec, act_name = as_Name spec,
                 act_input = as_Input spec, act_requestedAt = as_RequestedAt spec\<rparr>)))"

definition zero_action :: Action where
  "zero_action = \<lparr>act_id = [], act_target = [], act_name = [], act_input = [], act_requestedAt = zero_time\<rparr>"

record ExecutionAttemptSpec =
  es_ID :: AttemptID
  es_ActionID :: ActionID
  es_StartedAt :: gtime
  es_RecoveryOf :: AttemptID

record ExecutionAttempt =
  att_id :: AttemptID
  att_actionID :: ActionID
  att_startedAt :: gtime
  att_recoveryOf :: AttemptID

definition NewExecutionAttempt :: "ExecutionAttemptSpec \<Rightarrow> err + ExecutionAttempt" where
  "NewExecutionAttempt spec =
    (case validateIdentity ''attempt ID'' (es_ID spec) of
       Some e \<Rightarrow> Inl (wrap_err ErrInvalidExecutionAttempt e)
     | None \<Rightarrow>
     (case validateIdentity ''action ID'' (es_ActionID spec) of
       Some e \<Rightarrow> Inl (wrap_err ErrInvalidExecutionAttempt e)
     | None \<Rightarrow>
       if IsZero (es_StartedAt spec)
       then Inl (wrap_msg ErrInvalidExecutionAttempt ''start time is required'')
       else
         let attempt = \<lparr>att_id = es_ID spec, att_actionID = es_ActionID spec,
                        att_startedAt = es_StartedAt spec, att_recoveryOf = es_RecoveryOf spec\<rparr>
         in if es_RecoveryOf spec \<noteq> ''''
            then (case validateIdentity ''recovery attempt ID'' (es_RecoveryOf spec) of
                    Some e \<Rightarrow> Inl (wrap_err ErrInvalidExecutionAttempt e)
                  | None \<Rightarrow>
                      if es_RecoveryOf spec = es_ID spec
                      then Inl (wrap_msg ErrInvalidExecutionAttempt ''an attempt cannot recover itself'')
                      else Inr attempt)
            else Inr attempt))"

definition zero_attempt :: ExecutionAttempt where
  "zero_attempt = \<lparr>att_id = [], att_actionID = [], att_startedAt = zero_time, att_recoveryOf = []\<rparr>"

text \<open>The method \<open>RecoveryOf\<close>: the prior attempt and whether there is one.\<close>

definition RecoveryOf :: "ExecutionAttempt \<Rightarrow> AttemptID \<times> bool" where
  "RecoveryOf a = (att_recoveryOf a, att_recoveryOf a \<noteq> '''')"

subsection \<open>What construction guarantees\<close>

text \<open>A valid text is not empty and no white space, in the sense of Unicode, starts or ends it.\<close>

definition text_ok :: "string \<Rightarrow> bool" where
  "text_ok s \<longleftrightarrow> s \<noteq> [] \<and> TrimSpace s = s"

lemma text_ok_not_Nil [simp]: "\<not> text_ok []"
  by (simp add: text_ok_def)

definition text_err :: "string \<Rightarrow> string \<Rightarrow> err" where
  "text_err name val =
    (if val = [] then Errorf [T name, T '' is required'']
     else Errorf [T name, T '' must not have leading or trailing whitespace''])"

lemma validateText_eq [simp]: "validateText n v = (if text_ok v then None else Some (text_err n v))"
  by (auto simp: validateText_def text_ok_def text_err_def)

lemma validateIdentity_eq [simp]:
  "validateIdentity n v = (if text_ok v then None else Some (text_err n v))"
  by (simp add: validateIdentity_def)

lemma text_ok_iff:
  "text_ok s \<longleftrightarrow> s \<noteq> [] \<and> (\<forall>p\<in>set space_encodings. \<not> prefix p s \<and> \<not> suffix p s)"
  by (simp add: text_ok_def TrimSpace_id_iff)

text \<open>Texts of visible ASCII characters are valid.\<close>

lemma space_ends:
  "p \<in> set space_encodings \<Longrightarrow> (code (hd p) \<le> 32 \<or> 128 \<le> code (hd p)) \<and> (code (last p) \<le> 32 \<or> 128 \<le> code (last p))"
  by (auto simp: space_encodings_def upt_rec)

lemma prefix_hd: "prefix p s \<Longrightarrow> p \<noteq> [] \<Longrightarrow> hd p = hd s"
  by (auto simp: prefix_def)

lemma suffix_last: "suffix p s \<Longrightarrow> p \<noteq> [] \<Longrightarrow> last p = last s"
  by (auto simp: suffix_def)

definition visible :: "char \<Rightarrow> bool" where
  "visible c \<longleftrightarrow> 32 < code c \<and> code c < 128"

lemma visible_text_ok:
  assumes "s \<noteq> []" and "visible (hd s)" and "visible (last s)"
  shows "text_ok s"
  unfolding text_ok_iff
  using assms space_ends space_encodings_nonempty prefix_hd suffix_last
  by (metis leD visible_def)

definition action_ok :: "Action \<Rightarrow> bool" where
  "action_ok a \<longleftrightarrow> text_ok (act_id a) \<and> text_ok (act_target a) \<and> text_ok (act_name a)
     \<and> \<not> IsZero (act_requestedAt a)"

definition attempt_ok :: "ExecutionAttempt \<Rightarrow> bool" where
  "attempt_ok a \<longleftrightarrow> text_ok (att_id a) \<and> text_ok (att_actionID a) \<and> \<not> IsZero (att_startedAt a)
     \<and> (att_recoveryOf a \<noteq> [] \<longrightarrow> text_ok (att_recoveryOf a) \<and> att_recoveryOf a \<noteq> att_id a)"

lemma NewAction_Inr_iff:
  "NewAction spec = Inr a \<longleftrightarrow>
     action_ok a \<and> act_id a = as_ID spec \<and> act_target a = as_Target spec \<and> act_name a = as_Name spec
     \<and> act_input a = as_Input spec \<and> act_requestedAt a = as_RequestedAt spec"
  by (cases a) (auto simp: NewAction_def action_ok_def)

lemma NewAction_Inl: "NewAction spec = Inl e \<Longrightarrow> errorsIs e t \<longleftrightarrow> t = ErrInvalidAction"
  by (auto simp: NewAction_def split: if_splits)

lemma NewExecutionAttempt_Inr_iff:
  "NewExecutionAttempt spec = Inr a \<longleftrightarrow>
     attempt_ok a \<and> att_id a = es_ID spec \<and> att_actionID a = es_ActionID spec
     \<and> att_startedAt a = es_StartedAt spec \<and> att_recoveryOf a = es_RecoveryOf spec"
  by (cases a) (auto simp: NewExecutionAttempt_def attempt_ok_def Let_def)

lemma NewExecutionAttempt_Inl:
  "NewExecutionAttempt spec = Inl e \<Longrightarrow> errorsIs e t \<longleftrightarrow> t = ErrInvalidExecutionAttempt"
  by (auto simp: NewExecutionAttempt_def Let_def split: if_splits)

lemma zero_action_simps [simp]: "act_id zero_action = []" "\<not> action_ok zero_action"
  by (simp_all add: zero_action_def action_ok_def)

lemma zero_attempt_simps [simp]: "att_id zero_attempt = []" "\<not> attempt_ok zero_attempt"
  by (simp_all add: zero_attempt_def attempt_ok_def)

subsection \<open>Equal intents\<close>

text \<open>
  Two actions with the same contents, times compared as instants: \<open>sameAction\<close> of
  \<open>execution/execute.go\<close>, \<open>equalAction\<close> of \<open>eventlog/memory\<close>.
\<close>

definition sameAction :: "Action \<Rightarrow> Action \<Rightarrow> bool" where
  "sameAction a b \<longleftrightarrow> act_id a = act_id b \<and> act_target a = act_target b \<and> act_name a = act_name b
     \<and> TimeEqual (act_requestedAt a) (act_requestedAt b) \<and> act_input a = act_input b"

lemma sameAction_refl [simp]: "sameAction a a"
  by (simp add: sameAction_def)

lemma sameAction_sym: "sameAction a b \<Longrightarrow> sameAction b a"
  by (simp add: sameAction_def TimeEqual_def)

lemma sameAction_trans: "sameAction a b \<Longrightarrow> sameAction b c \<Longrightarrow> sameAction a c"
  by (simp add: sameAction_def TimeEqual_def)

lemma sameAction_id: "sameAction a b \<Longrightarrow> act_id a = act_id b"
  by (simp add: sameAction_def)

text \<open>Example values for the witnesses.\<close>

definition example_action :: Action where
  "example_action = \<lparr>act_id = ''a'', act_target = ''lamp'', act_name = ''turn_on'', act_input = [],
     act_requestedAt = \<lparr>t_ns = 1, t_off = 0\<rparr>\<rparr>"

definition example_attempt :: ExecutionAttempt where
  "example_attempt = \<lparr>att_id = ''t'', att_actionID = ''a'', att_startedAt = \<lparr>t_ns = 1, t_off = 0\<rparr>,
     att_recoveryOf = []\<rparr>"

end
