(* ===== verification/Core_Outcome.thy ===== *)
theory Core_Outcome
  imports Go_Errors
begin

text \<open>
  \<open>outcome.go\<close>: the three independent dimensions of knowledge about an execution. Each status is the
  unsigned byte of the source, so that values no constant names exist here as they do in Go.
\<close>

type_synonym AdmissionStatus = u8
type_synonym DispatchStatus = u8
type_synonym EffectStatus = u8

definition AdmissionUnknown :: AdmissionStatus where "AdmissionUnknown = 0"
definition AdmissionRejected :: AdmissionStatus where "AdmissionRejected = 1"
definition AdmissionAdmitted :: AdmissionStatus where "AdmissionAdmitted = 2"

definition DispatchUnknown :: DispatchStatus where "DispatchUnknown = 0"
definition DispatchNotDispatched :: DispatchStatus where "DispatchNotDispatched = 1"
definition DispatchDispatched :: DispatchStatus where "DispatchDispatched = 2"
definition DispatchAcknowledged :: DispatchStatus where "DispatchAcknowledged = 3"

definition EffectUnknown :: EffectStatus where "EffectUnknown = 0"
definition EffectUnverified :: EffectStatus where "EffectUnverified = 1"
definition EffectObservedSatisfied :: EffectStatus where "EffectObservedSatisfied = 2"
definition EffectObservedUnsatisfied :: EffectStatus where "EffectObservedUnsatisfied = 3"

lemmas admission_status_defs [status_defs] =
  AdmissionUnknown_def AdmissionRejected_def AdmissionAdmitted_def

lemmas dispatch_status_defs [status_defs] =
  DispatchUnknown_def DispatchNotDispatched_def DispatchDispatched_def DispatchAcknowledged_def

lemmas effect_status_defs [status_defs] =
  EffectUnknown_def EffectUnverified_def EffectObservedSatisfied_def EffectObservedUnsatisfied_def

definition admission_valid :: "AdmissionStatus \<Rightarrow> bool" where
  "admission_valid s \<longleftrightarrow> s \<le> AdmissionAdmitted"

definition dispatch_valid :: "DispatchStatus \<Rightarrow> bool" where
  "dispatch_valid s \<longleftrightarrow> s \<le> DispatchAcknowledged"

definition effect_valid :: "EffectStatus \<Rightarrow> bool" where
  "effect_valid s \<longleftrightarrow> s \<le> EffectObservedUnsatisfied"

definition admission_String :: "AdmissionStatus \<Rightarrow> string" where
  "admission_String s =
    (if s = AdmissionUnknown then ''unknown''
     else if s = AdmissionRejected then ''rejected''
     else if s = AdmissionAdmitted then ''admitted''
     else ''AdmissionStatus('' @ dec_nat (uint s) @ '')'')"

definition dispatch_String :: "DispatchStatus \<Rightarrow> string" where
  "dispatch_String s =
    (if s = DispatchUnknown then ''unknown''
     else if s = DispatchNotDispatched then ''not-dispatched''
     else if s = DispatchDispatched then ''dispatched''
     else if s = DispatchAcknowledged then ''acknowledged''
     else ''DispatchStatus('' @ dec_nat (uint s) @ '')'')"

definition effect_String :: "EffectStatus \<Rightarrow> string" where
  "effect_String s =
    (if s = EffectUnknown then ''unknown''
     else if s = EffectUnverified then ''unverified''
     else if s = EffectObservedSatisfied then ''observed-satisfied''
     else if s = EffectObservedUnsatisfied then ''observed-unsatisfied''
     else ''EffectStatus('' @ dec_nat (uint s) @ '')'')"

record OutcomeSpec =
  os_Admission :: AdmissionStatus
  os_Dispatch :: DispatchStatus
  os_Effect :: EffectStatus

record Outcome =
  o_admission :: AdmissionStatus
  o_dispatch :: DispatchStatus
  o_effect :: EffectStatus

definition zero_outcome :: Outcome where
  "zero_outcome = \<lparr>o_admission = 0, o_dispatch = 0, o_effect = 0\<rparr>"

definition status_err :: "string \<Rightarrow> u8 \<Rightarrow> err" where
  "status_err what s = Errorf [W (Sentinel ErrInvalidOutcome), T ('': '' @ what @ '' status ''), D (unat s)]"

definition NewOutcome :: "OutcomeSpec \<Rightarrow> err + Outcome" where
  "NewOutcome spec =
    (if \<not> admission_valid (os_Admission spec) then Inl (status_err ''admission'' (os_Admission spec))
     else if \<not> dispatch_valid (os_Dispatch spec) then Inl (status_err ''dispatch'' (os_Dispatch spec))
     else if \<not> effect_valid (os_Effect spec) then Inl (status_err ''effect'' (os_Effect spec))
     else Inr \<lparr>o_admission = os_Admission spec, o_dispatch = os_Dispatch spec, o_effect = os_Effect spec\<rparr>)"

definition outcome_IsUnknown :: "Outcome \<Rightarrow> bool" where
  "outcome_IsUnknown o1 \<longleftrightarrow>
     o_admission o1 = AdmissionUnknown \<and> o_dispatch o1 = DispatchUnknown \<and> o_effect o1 = EffectUnknown"

subsection \<open>Case analysis on the bytes\<close>

lemma u8_le_2: "(s :: u8) \<le> 2 \<longleftrightarrow> s = 0 \<or> s = 1 \<or> s = 2"
  by (auto simp: word_le_nat_alt word_unat_eq_iff)

lemma u8_le_3: "(s :: u8) \<le> 3 \<longleftrightarrow> s = 0 \<or> s = 1 \<or> s = 2 \<or> s = 3"
  by (auto simp: word_le_nat_alt word_unat_eq_iff)

lemma admission_valid_iff:
  "admission_valid s \<longleftrightarrow> s = AdmissionUnknown \<or> s = AdmissionRejected \<or> s = AdmissionAdmitted"
  by (simp add: admission_valid_def status_defs u8_le_2)

lemma dispatch_valid_iff:
  "dispatch_valid s \<longleftrightarrow>
     s = DispatchUnknown \<or> s = DispatchNotDispatched \<or> s = DispatchDispatched \<or> s = DispatchAcknowledged"
  by (simp add: dispatch_valid_def status_defs u8_le_3)

lemma effect_valid_iff:
  "effect_valid s \<longleftrightarrow>
     s = EffectUnknown \<or> s = EffectUnverified \<or> s = EffectObservedSatisfied \<or> s = EffectObservedUnsatisfied"
  by (simp add: effect_valid_def status_defs u8_le_3)

lemma NewOutcome_Inr_iff:
  "NewOutcome spec = Inr o1 \<longleftrightarrow>
     admission_valid (o_admission o1) \<and> dispatch_valid (o_dispatch o1) \<and> effect_valid (o_effect o1)
     \<and> o_admission o1 = os_Admission spec \<and> o_dispatch o1 = os_Dispatch spec \<and> o_effect o1 = os_Effect spec"
  by (cases o1) (auto simp: NewOutcome_def)

end
