(* ===== verification/Core_Evidence.thy ===== *)
theory Core_Evidence
  imports Core_Action Core_Outcome
begin

text \<open>
  \<open>observation.go\<close> and \<open>verification.go\<close>: pieces of observed evidence and a named verifier's
  assessment of them. The specification structs have the prefixes \<open>bs_\<close> and \<open>vs_\<close>, the opaque
  structs \<open>obs_\<close> and \<open>vr_\<close>.
\<close>

type_synonym ObservationID = string

record ObservationSpec =
  bs_ID :: ObservationID
  bs_Source :: string
  bs_Target :: string
  bs_Value :: bytes
  bs_Evidence :: bytes
  bs_ObservedAt :: gtime
  bs_RecordedAt :: gtime

record Observation =
  obs_id :: ObservationID
  obs_source :: string
  obs_target :: string
  obs_value :: bytes
  obs_evidence :: bytes
  obs_observedAt :: gtime
  obs_recordedAt :: gtime

definition NewObservation :: "ObservationSpec \<Rightarrow> err + Observation" where
  "NewObservation spec =
    (case validateIdentity ''observation ID'' (bs_ID spec) of
       Some e \<Rightarrow> Inl (wrap_err ErrInvalidObservation e)
     | None \<Rightarrow>
     (case validateText ''source'' (bs_Source spec) of
       Some e \<Rightarrow> Inl (wrap_err ErrInvalidObservation e)
     | None \<Rightarrow>
     (case validateText ''target'' (bs_Target spec) of
       Some e \<Rightarrow> Inl (wrap_err ErrInvalidObservation e)
     | None \<Rightarrow>
       if IsZero (bs_ObservedAt spec)
       then Inl (wrap_msg ErrInvalidObservation ''observed time is required'')
       else if IsZero (bs_RecordedAt spec)
       then Inl (wrap_msg ErrInvalidObservation ''recorded time is required'')
       else Inr \<lparr>obs_id = bs_ID spec, obs_source = bs_Source spec, obs_target = bs_Target spec,
                 obs_value = bs_Value spec, obs_evidence = bs_Evidence spec,
                 obs_observedAt = bs_ObservedAt spec, obs_recordedAt = bs_RecordedAt spec\<rparr>)))"

definition observation_ok :: "Observation \<Rightarrow> bool" where
  "observation_ok b \<longleftrightarrow> text_ok (obs_id b) \<and> text_ok (obs_source b) \<and> text_ok (obs_target b)
     \<and> \<not> IsZero (obs_observedAt b) \<and> \<not> IsZero (obs_recordedAt b)"

lemma NewObservation_Inr_iff:
  "NewObservation spec = Inr b \<longleftrightarrow>
     observation_ok b \<and> obs_id b = bs_ID spec \<and> obs_source b = bs_Source spec \<and> obs_target b = bs_Target spec
     \<and> obs_value b = bs_Value spec \<and> obs_evidence b = bs_Evidence spec
     \<and> obs_observedAt b = bs_ObservedAt spec \<and> obs_recordedAt b = bs_RecordedAt spec"
  by (cases b) (auto simp: NewObservation_def observation_ok_def)

lemma NewObservation_Inl: "NewObservation spec = Inl e \<Longrightarrow> errorsIs e t \<longleftrightarrow> t = ErrInvalidObservation"
  by (auto simp: NewObservation_def split: if_splits)

subsection \<open>Verification\<close>

type_synonym VerificationStatus = u8

definition VerificationUnknown :: VerificationStatus where "VerificationUnknown = 0"
definition VerificationVerified :: VerificationStatus where "VerificationVerified = 1"
definition VerificationUnsatisfied :: VerificationStatus where "VerificationUnsatisfied = 2"
definition VerificationInconclusive :: VerificationStatus where "VerificationInconclusive = 3"

lemmas verification_status_defs [status_defs] =
  VerificationUnknown_def VerificationVerified_def VerificationUnsatisfied_def VerificationInconclusive_def

definition verification_valid :: "VerificationStatus \<Rightarrow> bool" where
  "verification_valid s \<longleftrightarrow> s \<le> VerificationInconclusive"

definition verification_String :: "VerificationStatus \<Rightarrow> string" where
  "verification_String s =
    (if s = VerificationUnknown then ''unknown''
     else if s = VerificationVerified then ''verified''
     else if s = VerificationUnsatisfied then ''unsatisfied''
     else if s = VerificationInconclusive then ''inconclusive''
     else ''VerificationStatus('' @ dec_nat (uint s) @ '')'')"

record VerificationResultSpec =
  vs_Status :: VerificationStatus
  vs_Verifier :: string
  vs_CheckedAt :: gtime
  vs_ObservationIDs :: "ObservationID list"
  vs_Reason :: string

record VerificationResult =
  vr_status :: VerificationStatus
  vr_verifier :: string
  vr_checkedAt :: gtime
  vr_observationIDs :: "ObservationID list"
  vr_reason :: string

definition zero_verification :: VerificationResult where
  "zero_verification =
    \<lparr>vr_status = 0, vr_verifier = [], vr_checkedAt = zero_time, vr_observationIDs = [], vr_reason = []\<rparr>"

text \<open>The loop over the observation identities: the first invalid one is the error.\<close>

fun check_observation_ids :: "ObservationID list \<Rightarrow> err option" where
  "check_observation_ids [] = None"
| "check_observation_ids (i # is) =
    (case validateIdentity ''observation ID'' i of
       Some e \<Rightarrow> Some (wrap_err ErrInvalidVerification e)
     | None \<Rightarrow> check_observation_ids is)"

definition NewVerificationResult :: "VerificationResultSpec \<Rightarrow> err + VerificationResult" where
  "NewVerificationResult spec =
    (if \<not> verification_valid (vs_Status spec)
     then Inl (Errorf [W (Sentinel ErrInvalidVerification), T '': status '', D (unat (vs_Status spec))])
     else if vs_Status spec = VerificationUnknown then
       (if vs_Verifier spec \<noteq> '''' \<or> \<not> IsZero (vs_CheckedAt spec) \<or> vs_ObservationIDs spec \<noteq> []
           \<or> vs_Reason spec \<noteq> ''''
        then Inl (wrap_msg ErrInvalidVerification ''unknown result cannot claim an assessment'')
        else Inr zero_verification)
     else
     (case validateText ''verifier'' (vs_Verifier spec) of
       Some e \<Rightarrow> Inl (wrap_err ErrInvalidVerification e)
     | None \<Rightarrow>
       if IsZero (vs_CheckedAt spec)
       then Inl (wrap_msg ErrInvalidVerification ''checked time is required'')
       else if (vs_Status spec = VerificationVerified \<or> vs_Status spec = VerificationUnsatisfied)
               \<and> vs_ObservationIDs spec = []
       then Inl (Errorf [W (Sentinel ErrInvalidVerification), T '': '', T (verification_String (vs_Status spec)),
                         T '' result requires observation evidence''])
       else
       (case check_observation_ids (vs_ObservationIDs spec) of
          Some e \<Rightarrow> Inl e
        | None \<Rightarrow>
            Inr \<lparr>vr_status = vs_Status spec, vr_verifier = vs_Verifier spec, vr_checkedAt = vs_CheckedAt spec,
                 vr_observationIDs = vs_ObservationIDs spec, vr_reason = vs_Reason spec\<rparr>)))"

text \<open>
  A result is either the zero value, which claims nothing, or names its verifier and time; a
  conclusive one rests on at least one observation.
\<close>

definition verification_ok :: "VerificationResult \<Rightarrow> bool" where
  "verification_ok r \<longleftrightarrow>
     r = zero_verification \<or>
     (verification_valid (vr_status r) \<and> vr_status r \<noteq> VerificationUnknown \<and> text_ok (vr_verifier r)
      \<and> \<not> IsZero (vr_checkedAt r) \<and> list_all text_ok (vr_observationIDs r)
      \<and> (vr_status r \<in> {VerificationVerified, VerificationUnsatisfied} \<longrightarrow> vr_observationIDs r \<noteq> []))"

lemma verification_valid_iff:
  "verification_valid s \<longleftrightarrow> s = VerificationUnknown \<or> s = VerificationVerified
     \<or> s = VerificationUnsatisfied \<or> s = VerificationInconclusive"
  by (simp add: verification_valid_def status_defs u8_le_3)

lemma check_observation_ids_None_iff [simp]:
  "check_observation_ids is = None \<longleftrightarrow> list_all text_ok is"
  by (induction "is") auto

lemma check_observation_ids_Some:
  "check_observation_ids is = Some e \<Longrightarrow> errorsIs e t \<longleftrightarrow> t = ErrInvalidVerification"
  by (induction "is") (auto split: if_splits)

lemma NewVerificationResult_ok: "NewVerificationResult spec = Inr r \<Longrightarrow> verification_ok r"
  by (auto simp: NewVerificationResult_def verification_ok_def split: if_splits option.splits)

lemma NewVerificationResult_status: "NewVerificationResult spec = Inr r \<Longrightarrow> vr_status r = vs_Status spec"
  by (auto simp: NewVerificationResult_def zero_verification_def VerificationUnknown_def
      split: if_splits option.splits)

lemma NewVerificationResult_Inl:
  "NewVerificationResult spec = Inl e \<Longrightarrow> errorsIs e t \<longleftrightarrow> t = ErrInvalidVerification"
  by (auto simp: NewVerificationResult_def dest: check_observation_ids_Some split: if_splits option.splits)

text \<open>Every admissible result is constructed from the specification that lists its own fields.\<close>

lemma NewVerificationResult_complete:
  assumes "verification_ok r"
  shows "NewVerificationResult \<lparr>vs_Status = vr_status r, vs_Verifier = vr_verifier r,
    vs_CheckedAt = vr_checkedAt r, vs_ObservationIDs = vr_observationIDs r, vs_Reason = vr_reason r\<rparr> = Inr r"
  using assms
  by (cases r) (auto simp: NewVerificationResult_def verification_ok_def zero_verification_def
      verification_valid_iff status_defs check_observation_ids_None_iff [THEN iffD2])

end
