(* ===== verification/Core_Event.thy ===== *)
theory Core_Event
  imports Core_Evidence
begin

text \<open>
  \<open>event.go\<close>: immutable execution facts. An \<open>EventKind\<close> is a string in the source, so kinds read
  from storage can be any string; \<open>kind_valid\<close> is the switch that admits the seventeen of v0.1.
\<close>

type_synonym EventID = string
type_synonym EventKind = string

named_theorems kind_defs \<open>the strings of the event kinds\<close>

definition EventActionRequested :: EventKind where [kind_defs]: "EventActionRequested = ''action-requested''"
definition EventAttemptStarted :: EventKind where [kind_defs]: "EventAttemptStarted = ''attempt-started''"
definition EventRecoveryAuthorized :: EventKind where [kind_defs]: "EventRecoveryAuthorized = ''recovery-authorized''"
definition EventActionAdmitted :: EventKind where [kind_defs]: "EventActionAdmitted = ''action-admitted''"
definition EventActionRejected :: EventKind where [kind_defs]: "EventActionRejected = ''action-rejected''"
definition EventDispatchUnknown :: EventKind where [kind_defs]: "EventDispatchUnknown = ''dispatch-unknown''"
definition EventNotDispatched :: EventKind where [kind_defs]: "EventNotDispatched = ''not-dispatched''"
definition EventActionDispatched :: EventKind where [kind_defs]: "EventActionDispatched = ''action-dispatched''"
definition EventProviderAcknowledged :: EventKind where [kind_defs]: "EventProviderAcknowledged = ''provider-acknowledged''"
definition EventObservationRecorded :: EventKind where [kind_defs]: "EventObservationRecorded = ''observation-recorded''"
definition EventEffectUnknown :: EventKind where [kind_defs]: "EventEffectUnknown = ''effect-unknown''"
definition EventEffectUnverified :: EventKind where [kind_defs]: "EventEffectUnverified = ''effect-unverified''"
definition EventEffectObservedSatisfied :: EventKind where [kind_defs]: "EventEffectObservedSatisfied = ''effect-observed-satisfied''"
definition EventEffectObservedUnsatisfied :: EventKind where [kind_defs]: "EventEffectObservedUnsatisfied = ''effect-observed-unsatisfied''"
definition EventVerificationVerified :: EventKind where [kind_defs]: "EventVerificationVerified = ''verification-verified''"
definition EventVerificationUnsatisfied :: EventKind where [kind_defs]: "EventVerificationUnsatisfied = ''verification-unsatisfied''"
definition EventVerificationInconclusive :: EventKind where [kind_defs]: "EventVerificationInconclusive = ''verification-inconclusive''"

definition event_kinds :: "EventKind list" where
  "event_kinds =
    [EventActionRequested, EventAttemptStarted, EventRecoveryAuthorized, EventActionAdmitted,
     EventActionRejected, EventDispatchUnknown, EventNotDispatched, EventActionDispatched,
     EventProviderAcknowledged, EventObservationRecorded, EventEffectUnknown, EventEffectUnverified,
     EventEffectObservedSatisfied, EventEffectObservedUnsatisfied, EventVerificationVerified,
     EventVerificationUnsatisfied, EventVerificationInconclusive]"

definition kind_valid :: "EventKind \<Rightarrow> bool" where
  "kind_valid k \<longleftrightarrow> List.member event_kinds k"

record ExecutionEventSpec =
  xs_ID :: EventID
  xs_ActionID :: ActionID
  xs_AttemptID :: AttemptID
  xs_Kind :: EventKind
  xs_OccurredAt :: gtime
  xs_RecordedAt :: gtime
  xs_Data :: bytes

record ExecutionEvent =
  ev_id :: EventID
  ev_actionID :: ActionID
  ev_attemptID :: AttemptID
  ev_kind :: EventKind
  ev_occurredAt :: gtime
  ev_recordedAt :: gtime
  ev_data :: bytes

definition check_event_attempt :: "EventKind \<Rightarrow> AttemptID \<Rightarrow> err option" where
  "check_event_attempt kind attempt =
    (if kind \<noteq> EventActionRequested then validateIdentity ''attempt ID'' attempt
     else if attempt \<noteq> '''' then validateIdentity ''attempt ID'' attempt
     else None)"

definition NewExecutionEvent :: "ExecutionEventSpec \<Rightarrow> err + ExecutionEvent" where
  "NewExecutionEvent spec =
    (case validateIdentity ''event ID'' (xs_ID spec) of
       Some e \<Rightarrow> Inl (wrap_err ErrInvalidExecutionEvent e)
     | None \<Rightarrow>
     (case validateIdentity ''action ID'' (xs_ActionID spec) of
       Some e \<Rightarrow> Inl (wrap_err ErrInvalidExecutionEvent e)
     | None \<Rightarrow>
       if \<not> kind_valid (xs_Kind spec)
       then Inl (Errorf [W (Sentinel ErrInvalidExecutionEvent), T '': unsupported kind '', Q (xs_Kind spec)])
       else
       (case check_event_attempt (xs_Kind spec) (xs_AttemptID spec) of
          Some e \<Rightarrow> Inl (wrap_err ErrInvalidExecutionEvent e)
        | None \<Rightarrow>
          if IsZero (xs_OccurredAt spec)
          then Inl (wrap_msg ErrInvalidExecutionEvent ''occurrence time is required'')
          else if IsZero (xs_RecordedAt spec)
          then Inl (wrap_msg ErrInvalidExecutionEvent ''recorded time is required'')
          else Inr \<lparr>ev_id = xs_ID spec, ev_actionID = xs_ActionID spec, ev_attemptID = xs_AttemptID spec,
                    ev_kind = xs_Kind spec, ev_occurredAt = xs_OccurredAt spec,
                    ev_recordedAt = xs_RecordedAt spec, ev_data = xs_Data spec\<rparr>)))"

subsection \<open>Valid events\<close>

definition event_ok :: "ExecutionEvent \<Rightarrow> bool" where
  "event_ok e \<longleftrightarrow> text_ok (ev_id e) \<and> text_ok (ev_actionID e) \<and> kind_valid (ev_kind e)
     \<and> (text_ok (ev_attemptID e) \<or> ev_kind e = EventActionRequested \<and> ev_attemptID e = [])
     \<and> \<not> IsZero (ev_occurredAt e) \<and> \<not> IsZero (ev_recordedAt e)"

lemma event_kinds_distinct: "distinct event_kinds"
  by (simp add: event_kinds_def kind_defs)

lemma event_kinds_distinct_rev: "distinct (rev event_kinds)"
  using event_kinds_distinct by simp

text \<open>The kinds are pairwise different, in both orientations.\<close>

lemmas kind_neqs [simp] =
  event_kinds_distinct [unfolded event_kinds_def distinct.simps list.set insert_iff empty_iff de_Morgan_disj simp_thms]
  event_kinds_distinct_rev [unfolded event_kinds_def rev.simps append.simps distinct.simps list.set insert_iff
    empty_iff de_Morgan_disj simp_thms]

lemma kind_valid_constants [simp]:
  "kind_valid EventActionRequested" "kind_valid EventAttemptStarted" "kind_valid EventRecoveryAuthorized"
  "kind_valid EventActionAdmitted" "kind_valid EventActionRejected" "kind_valid EventDispatchUnknown"
  "kind_valid EventNotDispatched" "kind_valid EventActionDispatched" "kind_valid EventProviderAcknowledged"
  "kind_valid EventObservationRecorded" "kind_valid EventEffectUnknown" "kind_valid EventEffectUnverified"
  "kind_valid EventEffectObservedSatisfied" "kind_valid EventEffectObservedUnsatisfied"
  "kind_valid EventVerificationVerified" "kind_valid EventVerificationUnsatisfied"
  "kind_valid EventVerificationInconclusive"
  by (simp_all add: kind_valid_def event_kinds_def)

lemma check_event_attempt_None_iff [simp]:
  "check_event_attempt k a = None \<longleftrightarrow> text_ok a \<or> k = EventActionRequested \<and> a = []"
  by (auto simp: check_event_attempt_def)

lemma NewExecutionEvent_Inr_iff:
  "NewExecutionEvent spec = Inr e \<longleftrightarrow>
     event_ok e \<and> ev_id e = xs_ID spec \<and> ev_actionID e = xs_ActionID spec \<and> ev_attemptID e = xs_AttemptID spec
     \<and> ev_kind e = xs_Kind spec \<and> ev_occurredAt e = xs_OccurredAt spec \<and> ev_recordedAt e = xs_RecordedAt spec
     \<and> ev_data e = xs_Data spec"
  by (cases e) (auto simp: NewExecutionEvent_def event_ok_def check_event_attempt_def)

lemma NewExecutionEvent_Inl:
  "NewExecutionEvent spec = Inl e \<Longrightarrow> errorsIs e t \<longleftrightarrow> t = ErrInvalidExecutionEvent"
  by (auto simp: NewExecutionEvent_def split: if_splits option.splits)

text \<open>
  The comparison the two event logs share (\<open>equal\<close> in \<open>eventlog/memory\<close> and in \<open>eventlog/sqlite\<close>):
  the same fact, with times compared as instants.
\<close>

definition same_fact :: "ExecutionEvent \<Rightarrow> ExecutionEvent \<Rightarrow> bool" where
  "same_fact a b \<longleftrightarrow> ev_id a = ev_id b \<and> ev_actionID a = ev_actionID b \<and> ev_attemptID a = ev_attemptID b
     \<and> ev_kind a = ev_kind b \<and> TimeEqual (ev_occurredAt a) (ev_occurredAt b)
     \<and> TimeEqual (ev_recordedAt a) (ev_recordedAt b) \<and> ev_data a = ev_data b"

lemma same_fact_refl [simp]: "same_fact e e"
  by (simp add: same_fact_def)

lemma same_fact_sym: "same_fact a b \<Longrightarrow> same_fact b a"
  by (simp add: same_fact_def TimeEqual_def)

lemma same_fact_trans: "same_fact a b \<Longrightarrow> same_fact b c \<Longrightarrow> same_fact a c"
  by (simp add: same_fact_def TimeEqual_def)

lemma same_fact_id: "same_fact a b \<Longrightarrow> ev_id a = ev_id b"
  by (simp add: same_fact_def)

text \<open>Example facts of the attempt \<open>t\<close> of the action \<open>a\<close>, for the witnesses.\<close>

definition example_fact :: "EventID \<Rightarrow> EventKind \<Rightarrow> ExecutionEvent" where
  "example_fact i k = \<lparr>ev_id = i, ev_actionID = ''a'', ev_attemptID = ''t'', ev_kind = k,
     ev_occurredAt = \<lparr>t_ns = 1, t_off = 0\<rparr>, ev_recordedAt = \<lparr>t_ns = 1, t_off = 0\<rparr>, ev_data = []\<rparr>"

lemma example_fact_simps [simp]:
  "ev_id (example_fact i k) = i" "ev_actionID (example_fact i k) = ''a''"
  "ev_attemptID (example_fact i k) = ''t''" "ev_kind (example_fact i k) = k"
  by (simp_all add: example_fact_def)

end
