(* ===== verification/Journal_Spec.thy ===== *)
theory Journal_Spec
  imports Core_Event
begin

text \<open>
  The contract of \<open>execution/journal.go\<close>, which its comments state and every use case relies on, as
  two locales. \<open>claim_register\<close> is the part about claims: \<open>BeginAttempt\<close> wins an identity at most
  once. \<open>journal\<close> extends it with the facts: \<open>BeginAttempt\<close> also records the initial facts or changes
  nothing, \<open>AppendAll\<close> records a group of facts or changes nothing. A provider shows its facts in
  append order, the claimed identities in claim order and the registered intents. The type \<open>'c\<close> is
  what a call depends on beside its arguments (the context's error for the memory log, the failures
  of the database for the SQLite log); \<open>storable\<close> are the facts the provider can read back.
\<close>

type_synonym ('c, 's) begin_attempt_op =
  "'c \<Rightarrow> Action \<Rightarrow> ExecutionAttempt \<Rightarrow> ExecutionEvent list \<Rightarrow> 's \<Rightarrow> (bool \<times> err option) \<times> 's"

type_synonym ('c, 's) append_all_op = "'c \<Rightarrow> ExecutionEvent list \<Rightarrow> 's \<Rightarrow> err option \<times> 's"

text \<open>
  \<open>extends fs es fs'\<close>: the facts \<open>fs'\<close> are \<open>fs\<close> followed by facts of the group \<open>es\<close>, and hold every
  fact of the group.
\<close>

definition extends :: "ExecutionEvent list \<Rightarrow> ExecutionEvent list \<Rightarrow> ExecutionEvent list \<Rightarrow> bool" where
  "extends fs es fs' \<longleftrightarrow>
     (\<exists>new. fs' = fs @ new \<and> (\<forall>n\<in>set new. \<exists>x\<in>set es. same_fact n x)) \<and>
     (\<forall>x\<in>set es. \<exists>n\<in>set fs'. same_fact n x)"

lemma extends_prefix: "extends fs es fs' \<Longrightarrow> prefix fs fs'"
  by (auto simp: extends_def)

lemma extends_source:
  "extends fs es fs' \<Longrightarrow> n \<in> set fs' \<Longrightarrow> n \<in> set fs \<or> (\<exists>x\<in>set es. same_fact n x)"
  by (auto simp: extends_def)

lemma extends_recorded: "extends fs es fs' \<Longrightarrow> x \<in> set es \<Longrightarrow> \<exists>n\<in>set fs'. same_fact n x"
  by (simp add: extends_def)

text \<open>The operations of a journal as data, and the outcome of a sequence of them.\<close>

datatype 'c journal_op =
    OpBegin 'c Action ExecutionAttempt "ExecutionEvent list"
  | OpAppend 'c "ExecutionEvent list"

fun op_events :: "'c journal_op \<Rightarrow> ExecutionEvent list" where
  "op_events (OpBegin c a t es) = es"
| "op_events (OpAppend c es) = es"

fun op_storable :: "(ExecutionEvent \<Rightarrow> bool) \<Rightarrow> (Action \<Rightarrow> bool) \<Rightarrow> 'c journal_op \<Rightarrow> bool" where
  "op_storable st sta (OpBegin c a t es) \<longleftrightarrow> list_all st es \<and> sta a"
| "op_storable st sta (OpAppend c es) \<longleftrightarrow> list_all st es"

datatype journal_reply = Claimed AttemptID | NotClaimed | Appended | Refused

fun claimed_ids :: "journal_reply list \<Rightarrow> AttemptID list" where
  "claimed_ids [] = []"
| "claimed_ids (Claimed t # rs) = t # claimed_ids rs"
| "claimed_ids (_ # rs) = claimed_ids rs"

lemma count_claimed_ids: "count_list (claimed_ids rs) t = count_list rs (Claimed t)"
  by (induction rs rule: claimed_ids.induct) auto

lemma set_claimed_ids: "t \<in> set (claimed_ids rs) \<longleftrightarrow> Claimed t \<in> set rs"
  by (induction rs rule: claimed_ids.induct) auto

fun journal_step :: "('c, 's) begin_attempt_op \<Rightarrow> ('c, 's) append_all_op \<Rightarrow> 'c journal_op \<Rightarrow> 's \<Rightarrow> journal_reply \<times> 's"
where
  "journal_step b ap (OpBegin c a t es) s =
     (case b c a t es s of ((won, e), s') \<Rightarrow> (if won then Claimed (att_id t) else NotClaimed, s'))"
| "journal_step b ap (OpAppend c es) s =
     (case ap c es s of (e, s') \<Rightarrow> (if e = None then Appended else Refused, s'))"

fun journal_run :: "('c, 's) begin_attempt_op \<Rightarrow> ('c, 's) append_all_op \<Rightarrow> 'c journal_op list \<Rightarrow> 's \<Rightarrow> journal_reply list \<times> 's"
where
  "journal_run b ap [] s = ([], s)"
| "journal_run b ap (x # xs) s =
     (case journal_step b ap x s of (r, s') \<Rightarrow>
        case journal_run b ap xs s' of (rs, s'') \<Rightarrow> (r # rs, s''))"

locale claim_register =
  fixes beginAttempt :: "('c, 's) begin_attempt_op"
    and appendAll :: "('c, 's) append_all_op"
    and claims :: "'s \<Rightarrow> AttemptID list"
    and inv :: "'s \<Rightarrow> bool"
  assumes claim_won:
      "inv s \<Longrightarrow> beginAttempt c a t es s = ((True, er), s') \<Longrightarrow>
         er = None \<and> inv s' \<and> att_id t \<notin> set (claims s) \<and> claims s' = claims s @ [att_id t]"
    and claim_match:
      "beginAttempt c a t es s = ((True, er), s') \<Longrightarrow>
         att_actionID t = act_id a \<and> (\<forall>x\<in>set es. ev_attemptID x = att_id t \<and> ev_actionID x = act_id a)"
    and claim_lost: "beginAttempt c a t es s = ((False, er), s') \<Longrightarrow> s' = s"
    and append_inv: "inv s \<Longrightarrow> appendAll c es s = (e, s') \<Longrightarrow> inv s' \<and> claims s' = claims s"
    and append_failed: "appendAll c es s = (Some cause, s') \<Longrightarrow> s' = s"
    and inv_distinct: "inv s \<Longrightarrow> distinct (claims s)"
begin

abbreviation jstep :: "'c journal_op \<Rightarrow> 's \<Rightarrow> journal_reply \<times> 's" where
  "jstep \<equiv> journal_step beginAttempt appendAll"

abbreviation jrun :: "'c journal_op list \<Rightarrow> 's \<Rightarrow> journal_reply list \<times> 's" where
  "jrun \<equiv> journal_run beginAttempt appendAll"

text \<open>One operation adds the identity it claimed and nothing else; a refused one changes nothing.\<close>

lemma step_claims:
  assumes "inv s" and "jstep x s = (r, s')"
  shows "inv s' \<and> claims s' = claims s @ claimed_ids [r] \<and> (r \<in> {NotClaimed, Refused} \<longrightarrow> s' = s)"
proof (cases x)
  case (OpBegin c a t es)
  obtain won e s1 where b: "beginAttempt c a t es s = ((won, e), s1)" by (metis surj_pair)
  with claim_won [OF assms(1), of c a t es e s1] claim_lost [of c a t es s e s1] assms OpBegin
  show ?thesis by (cases won) auto
next
  case (OpAppend c es)
  obtain e s1 where ap: "appendAll c es s = (e, s1)" by (metis surj_pair)
  with append_inv [OF assms(1) ap] append_failed [of c es s _ s1] assms OpAppend
  show ?thesis by (cases e) auto
qed

lemma run_claims:
  "inv s \<Longrightarrow> jrun xs s = (rs, s') \<Longrightarrow> inv s' \<and> claims s' = claims s @ claimed_ids rs"
proof (induction xs arbitrary: s rs)
  case Nil
  then show ?case by simp
next
  case (Cons x xs)
  obtain r s1 rs' where st: "jstep x s = (r, s1)" and run: "jrun xs s1 = (rs', s')" and rs: "rs = r # rs'"
    using Cons.prems(2) by (auto split: prod.splits)
  from step_claims [OF Cons.prems(1) st] have "inv s1" and s1: "claims s1 = claims s @ claimed_ids [r]"
    by simp_all
  from Cons.IH [OF this(1) run] s1 show ?case unfolding rs by (cases r) simp_all
qed

text \<open>Along any sequence of operations an identity is claimed at most once, a claimed one never again.\<close>

lemma claim_once:
  assumes "inv s" and "jrun xs s = (rs, s')"
  shows "count_list rs (Claimed t) \<le> 1" and "t \<in> set (claims s) \<Longrightarrow> Claimed t \<notin> set rs"
proof -
  have grow: "inv s'" "claims s' = claims s @ claimed_ids rs"
    using run_claims [OF assms] by simp_all
  have "distinct (claims s @ claimed_ids rs)" using inv_distinct [OF grow(1)] grow(2) by simp
  then have "distinct (claimed_ids rs)" and d: "set (claims s) \<inter> set (claimed_ids rs) = {}" by simp_all
  then show "count_list rs (Claimed t) \<le> 1"
    using count_list_distinct by (metis count_claimed_ids)
  show "t \<in> set (claims s) \<Longrightarrow> Claimed t \<notin> set rs" using d by (auto simp: set_claimed_ids [symmetric])
qed

end

locale journal = claim_register beginAttempt appendAll claims inv
  for beginAttempt :: "('c, 's) begin_attempt_op"
    and appendAll :: "('c, 's) append_all_op"
    and claims :: "'s \<Rightarrow> AttemptID list"
    and inv :: "'s \<Rightarrow> bool" +
  fixes facts :: "'s \<Rightarrow> ExecutionEvent list"
    and intent :: "'s \<Rightarrow> ActionID \<Rightarrow> Action option"
    and storable :: "ExecutionEvent \<Rightarrow> bool"
    and storable_action :: "Action \<Rightarrow> bool"
  assumes begin_facts:
      "inv s \<Longrightarrow> list_all storable es \<Longrightarrow> beginAttempt c a t es s = ((True, er), s') \<Longrightarrow>
         extends (facts s) es (facts s')"
    and begin_intent:
      "inv s \<Longrightarrow> storable_action a \<Longrightarrow> beginAttempt c a t es s = ((True, er), s') \<Longrightarrow>
         (\<forall>b. intent s (act_id a) = Some b \<longrightarrow> sameAction b a)
         \<and> (\<exists>b. intent s' (act_id a) = Some b \<and> sameAction b a)
         \<and> (\<forall>i. i \<noteq> act_id a \<longrightarrow> intent s' i = intent s i)"
    and append_facts:
      "inv s \<Longrightarrow> list_all storable es \<Longrightarrow> appendAll c es s = (None, s') \<Longrightarrow>
         extends (facts s) es (facts s') \<and> intent s' = intent s"
    and facts_distinct: "inv s \<Longrightarrow> distinct (map ev_id (facts s))"
begin

abbreviation jstorable :: "'c journal_op \<Rightarrow> bool" where
  "jstorable \<equiv> op_storable storable storable_action"

text \<open>An accepted operation records its group and keeps what was there.\<close>

lemma step_facts:
  assumes "inv s" and "jstorable x" and "jstep x s = (r, s')"
  shows "if r \<in> {NotClaimed, Refused} then s' = s else extends (facts s) (op_events x) (facts s')"
proof (cases x)
  case (OpBegin c a t es)
  obtain won e s1 where b: "beginAttempt c a t es s = ((won, e), s1)" by (metis surj_pair)
  with begin_facts [OF assms(1), of es c a t e s1] claim_lost [of c a t es s e s1] assms OpBegin
  show ?thesis by (cases won) auto
next
  case (OpAppend c es)
  obtain e s1 where ap: "appendAll c es s = (e, s1)" by (metis surj_pair)
  with append_facts [OF assms(1), of es c s1] append_failed [of c es s _ s1] assms OpAppend
  show ?thesis by (cases e) auto
qed

lemma run_facts:
  "inv s \<Longrightarrow> list_all jstorable xs \<Longrightarrow> jrun xs s = (rs, s') \<Longrightarrow> prefix (facts s) (facts s')"
proof (induction xs arbitrary: s rs)
  case Nil
  then show ?case by simp
next
  case (Cons x xs)
  obtain r s1 rs' where st: "jstep x s = (r, s1)" and run: "jrun xs s1 = (rs', s')" and rs: "rs = r # rs'"
    using Cons.prems(3) by (auto split: prod.splits)
  from Cons.prems(2) have x: "jstorable x" and xs: "list_all jstorable xs" by simp_all
  have "inv s1" using step_claims [OF Cons.prems(1) st] by simp
  from Cons.IH [OF this xs run] have "prefix (facts s1) (facts s')" .
  moreover have "prefix (facts s) (facts s1)"
    using step_facts [OF Cons.prems(1) x st] by (auto dest: extends_prefix split: if_splits)
  ultimately show ?case by (rule prefix_order.trans [rotated])
qed

end

end
