(* ===== verification/Memory_Log.thy ===== *)
theory Memory_Log
  imports Journal_Spec
begin

text \<open>
  \<open>eventlog/memory/log.go\<close>. The struct \<open>Log\<close> is a record; a nil map and an empty map read the same,
  so \<open>initialize\<close> leaves the contents alone. Every method holds the mutex for its whole body, so a
  method is one atomic function of the state; the context enters as the value of \<open>ctx.Err()\<close> at the
  start of the call. The log is shown to be a \<open>journal\<close> for every fact.
\<close>

record Log =
  log_events :: "ExecutionEvent list"
  log_byID :: "EventID \<rightharpoonup> ExecutionEvent"
  log_actions :: "ActionID \<rightharpoonup> Action"
  log_attempts :: "AttemptID set"
  log_attemptOrder :: "AttemptID list"

definition New_Log :: Log where
  "New_Log = \<lparr>log_events = [], log_byID = Map.empty, log_actions = Map.empty, log_attempts = {},
              log_attemptOrder = []\<rparr>"

definition event_conflict :: "EventID \<Rightarrow> err" where
  "event_conflict i = wrap_msg Memory_ErrEventConflict i"

text \<open>\<open>equalAction\<close> of this package is the comparison the use cases have too.\<close>

definition equalAction :: "Action \<Rightarrow> Action \<Rightarrow> bool" where
  "equalAction a b \<longleftrightarrow> act_id a = act_id b \<and> act_target a = act_target b \<and> act_name a = act_name b
     \<and> TimeEqual (act_requestedAt a) (act_requestedAt b) \<and> act_input a = act_input b"

lemma equalAction_same [simp]: "equalAction a b = sameAction a b"
  by (auto simp: equalAction_def sameAction_def)

text \<open>The loop of \<open>preflight\<close>: the log first, then the facts of the same batch.\<close>

fun preflight_loop :: "Log \<Rightarrow> (EventID \<rightharpoonup> ExecutionEvent) \<Rightarrow> ExecutionEvent list \<Rightarrow> err option" where
  "preflight_loop l batch [] = None"
| "preflight_loop l batch (event # events) =
    (if (case log_byID l (ev_id event) of Some existing \<Rightarrow> \<not> same_fact existing event | None \<Rightarrow> False)
     then Some (event_conflict (ev_id event))
     else if (case batch (ev_id event) of Some existing \<Rightarrow> \<not> same_fact existing event | None \<Rightarrow> False)
     then Some (event_conflict (ev_id event))
     else preflight_loop l (batch(ev_id event \<mapsto> event)) events)"

definition preflight :: "Log \<Rightarrow> ExecutionEvent list \<Rightarrow> err option" where
  "preflight l events = preflight_loop l Map.empty events"

fun appendPrepared :: "Log \<Rightarrow> ExecutionEvent list \<Rightarrow> Log" where
  "appendPrepared l [] = l"
| "appendPrepared l (event # events) =
    (case log_byID l (ev_id event) of
       Some _ \<Rightarrow> appendPrepared l events
     | None \<Rightarrow> appendPrepared (l\<lparr>log_byID := (log_byID l)(ev_id event \<mapsto> event),
                                 log_events := log_events l @ [event]\<rparr>) events)"

definition memory_BeginAttempt :: "(err option, Log) begin_attempt_op" where
  "memory_BeginAttempt ctxErr action attempt events l =
    (if ctxErr \<noteq> None then ((False, ctxErr), l)
     else if att_actionID attempt \<noteq> act_id action
     then ((False, Some (wrap_msg ErrActionIdentityConflict ''attempt does not match action'')), l)
     else if (case log_actions l (act_id action) of Some existing \<Rightarrow> \<not> equalAction existing action | None \<Rightarrow> False)
     then ((False, Some (wrap_msg ErrActionIdentityConflict (act_id action))), l)
     else if att_id attempt \<in> log_attempts l then ((False, None), l)
     else if list_ex (\<lambda>event. ev_attemptID event \<noteq> att_id attempt
                              \<or> ev_actionID event \<noteq> att_actionID attempt) events
     then ((False, Some (Message ''atoha memory event log: initial event does not match claimed attempt'')), l)
     else (case preflight l events of
             Some e \<Rightarrow> ((False, Some e), l)
           | None \<Rightarrow>
               ((True, None),
                appendPrepared (l\<lparr>log_attempts := insert (att_id attempt) (log_attempts l),
                                  log_actions := (log_actions l)(act_id action \<mapsto> action),
                                  log_attemptOrder := log_attemptOrder l @ [att_id attempt]\<rparr>) events)))"

definition memory_AppendAll :: "(err option, Log) append_all_op" where
  "memory_AppendAll ctxErr events l =
    (if ctxErr \<noteq> None then (ctxErr, l)
     else (case preflight l events of
             Some e \<Rightarrow> (Some e, l)
           | None \<Rightarrow> (None, appendPrepared l events)))"

definition memory_Append :: "err option \<Rightarrow> ExecutionEvent \<Rightarrow> Log \<Rightarrow> err option \<times> Log" where
  "memory_Append ctxErr event l = memory_AppendAll ctxErr [event] l"

definition memory_Events :: "Log \<Rightarrow> ExecutionEvent list" where
  "memory_Events l = log_events l"

definition memory_EventsByAttempt :: "err option \<Rightarrow> AttemptID \<Rightarrow> Log \<Rightarrow> ExecutionEvent list \<times> err option" where
  "memory_EventsByAttempt ctxErr attemptID l =
    (if ctxErr \<noteq> None then ([], ctxErr)
     else (filter (\<lambda>event. ev_attemptID event = attemptID) (log_events l), None))"

definition memory_ActionByID :: "err option \<Rightarrow> ActionID \<Rightarrow> Log \<Rightarrow> Action \<times> bool \<times> err option" where
  "memory_ActionByID ctxErr actionID l =
    (if ctxErr \<noteq> None then (zero_action, False, ctxErr)
     else (case log_actions l actionID of
             Some action \<Rightarrow> (action, True, None)
           | None \<Rightarrow> (zero_action, False, None)))"

definition memory_AttemptIDs :: "err option \<Rightarrow> Log \<Rightarrow> AttemptID list \<times> err option" where
  "memory_AttemptIDs ctxErr l = (if ctxErr \<noteq> None then ([], ctxErr) else (log_attemptOrder l, None))"

subsection \<open>The invariant\<close>

text \<open>
  The index holds exactly the events of the list, each identity once; the set of attempts is the set
  of the claim order, each once; an intent is registered under its own identity.
\<close>

definition log_inv :: "Log \<Rightarrow> bool" where
  "log_inv l \<longleftrightarrow>
     (\<forall>i e. log_byID l i = Some e \<longleftrightarrow> e \<in> set (log_events l) \<and> ev_id e = i)
     \<and> distinct (map ev_id (log_events l))
     \<and> log_attempts l = set (log_attemptOrder l) \<and> distinct (log_attemptOrder l)
     \<and> (\<forall>i a. log_actions l i = Some a \<longrightarrow> act_id a = i)"

lemma log_inv_New [simp]: "log_inv New_Log"
  by (simp add: log_inv_def New_Log_def)

lemma log_inv_byID: "log_inv l \<Longrightarrow> log_byID l (ev_id e) = None \<longleftrightarrow> ev_id e \<notin> ev_id ` set (log_events l)"
  unfolding log_inv_def by (metis (no_types, lifting) imageE imageI not_None_eq)

lemma appendPrepared_frame [simp]:
  "log_actions (appendPrepared l es) = log_actions l"
  "log_attempts (appendPrepared l es) = log_attempts l"
  "log_attemptOrder (appendPrepared l es) = log_attemptOrder l"
  by (induction l es rule: appendPrepared.induct) (auto split: option.splits)

lemma log_inv_append_one:
  assumes "log_inv l" and "log_byID l (ev_id e) = None"
  shows "log_inv (l\<lparr>log_byID := (log_byID l)(ev_id e \<mapsto> e), log_events := log_events l @ [e]\<rparr>)"
proof -
  have new: "ev_id e \<notin> ev_id ` set (log_events l)" using log_inv_byID [OF assms(1), of e] assms(2) by blast
  then have "x \<in> set (log_events l) \<Longrightarrow> ev_id x \<noteq> ev_id e" for x by (metis imageI)
  with new assms show ?thesis unfolding log_inv_def by auto
qed

lemma appendPrepared_inv: "log_inv l \<Longrightarrow> log_inv (appendPrepared l es)"
proof (induction l es rule: appendPrepared.induct)
  case (1 l)
  then show ?case by simp
next
  case (2 l event events)
  then show ?case
    using log_inv_append_one [of l event] by (cases "log_byID l (ev_id event)") simp_all
qed

text \<open>Appending adds at the end, only facts of the group.\<close>

lemma appendPrepared_suffix:
  "\<exists>new. log_events (appendPrepared l es) = log_events l @ new \<and> set new \<subseteq> set es"
proof (induction l es rule: appendPrepared.induct)
  case (1 l)
  then show ?case by simp
next
  case (2 l event events)
  show ?case
  proof (cases "log_byID l (ev_id event)")
    case None
    with 2 obtain new where "log_events (appendPrepared l (event # events)) = log_events l @ event # new"
      "set new \<subseteq> set events"
      by auto
    then show ?thesis by (intro exI [of _ "event # new"]) auto
  next
    case (Some e)
    with 2 show ?thesis by force
  qed
qed

lemma appendPrepared_byID_mono:
  "log_byID l i = Some e \<Longrightarrow> log_byID (appendPrepared l es) i = Some e"
proof (induction l es rule: appendPrepared.induct)
  case (1 l)
  then show ?case by simp
next
  case (2 l event events)
  show ?case
  proof (cases "log_byID l (ev_id event)")
    case None
    with 2(3) have "ev_id event \<noteq> i" by auto
    with 2 None show ?thesis by simp
  next
    case (Some x)
    with 2 show ?thesis by simp
  qed
qed

text \<open>After a successful preflight every fact of the group is in the log, up to equality of facts.\<close>

lemma preflight_loop_recorded:
  assumes "preflight_loop l0 batch es = None"
    and "\<And>i e. log_byID l i = Some e \<Longrightarrow>
          log_byID l0 i = Some e \<or> (\<exists>x. batch i = Some x \<and> same_fact e x)"
    and "x \<in> set es"
  shows "\<exists>e. log_byID (appendPrepared l es) (ev_id x) = Some e \<and> same_fact e x"
  using assms
proof (induction es arbitrary: l batch)
  case Nil
  then show ?case by simp
next
  case (Cons event events)
  let ?batch = "batch(ev_id event \<mapsto> event)"
  from Cons.prems(1) have old: "log_byID l0 (ev_id event) = Some e \<Longrightarrow> same_fact e event"
    and bat: "batch (ev_id event) = Some e \<Longrightarrow> same_fact e event"
    and rest: "preflight_loop l0 ?batch events = None" for e
    by (auto split: if_splits option.splits)
  let ?l = "if log_byID l (ev_id event) = None
            then l\<lparr>log_byID := (log_byID l)(ev_id event \<mapsto> event), log_events := log_events l @ [event]\<rparr> else l"
  have step: "appendPrepared l (event # events) = appendPrepared ?l events" by (auto split: option.splits)
  have here: "\<exists>e. log_byID ?l (ev_id event) = Some e \<and> same_fact e event"
  proof (cases "log_byID l (ev_id event)")
    case (Some e)
    from Cons.prems(2) [OF this] have "same_fact e event"
      using old bat same_fact_trans by blast
    with Some show ?thesis by simp
  qed simp
  have inv: "log_byID l0 i = Some e \<or> (\<exists>x. ?batch i = Some x \<and> same_fact e x)"
    if "log_byID ?l i = Some e" for i e
    using that Cons.prems(2) [of i e] here by (auto split: if_splits)
  show ?case
  proof (cases "x \<in> set events")
    case True
    from Cons.IH [OF rest inv True] show ?thesis unfolding step .
  next
    case False
    with Cons.prems(3) have "x = event" by simp
    from here obtain e where "log_byID ?l (ev_id event) = Some e" and e: "same_fact e event" by blast
    from appendPrepared_byID_mono [OF this(1)]
    have "log_byID (appendPrepared ?l events) (ev_id event) = Some e" .
    with e show ?thesis unfolding step \<open>x = event\<close> by blast
  qed
qed

lemma appendPrepared_extends:
  assumes "log_inv l" and "preflight l es = None"
    and "log_byID l' = log_byID l" and "log_events l' = log_events l" and "log_inv l'"
  shows "extends (log_events l) es (log_events (appendPrepared l' es))"
proof -
  obtain new where new: "log_events (appendPrepared l' es) = log_events l @ new" "set new \<subseteq> set es"
    using appendPrepared_suffix [of l' es] assms(4) by auto
  have "\<exists>n\<in>set (log_events (appendPrepared l' es)). same_fact n x" if "x \<in> set es" for x
  proof -
    have "\<exists>e. log_byID (appendPrepared l' es) (ev_id x) = Some e \<and> same_fact e x"
      by (rule preflight_loop_recorded [of l Map.empty]) (use assms that in \<open>simp_all add: preflight_def\<close>)
    moreover have "log_inv (appendPrepared l' es)" using assms(5) by (rule appendPrepared_inv)
    ultimately show ?thesis unfolding log_inv_def by blast
  qed
  with new show ?thesis unfolding extends_def by (meson same_fact_refl subsetD)
qed

lemma log_inv_claim:
  assumes "log_inv l" and "att_id t \<notin> log_attempts l"
  shows "log_inv (l\<lparr>log_attempts := insert (att_id t) (log_attempts l),
                    log_actions := (log_actions l)(act_id a \<mapsto> a),
                    log_attemptOrder := log_attemptOrder l @ [att_id t]\<rparr>)"
  using assms by (auto simp: log_inv_def)

lemma memory_begin_won:
  assumes "log_inv l" and "memory_BeginAttempt c a t es l = ((True, er), l')"
  shows "er = None \<and> log_inv l' \<and> att_id t \<notin> set (log_attemptOrder l)
    \<and> log_attemptOrder l' = log_attemptOrder l @ [att_id t] \<and> extends (log_events l) es (log_events l')"
proof -
  let ?l = "l\<lparr>log_attempts := insert (att_id t) (log_attempts l),
              log_actions := (log_actions l)(act_id a \<mapsto> a),
              log_attemptOrder := log_attemptOrder l @ [att_id t]\<rparr>"
  have fresh: "att_id t \<notin> log_attempts l" and pre: "preflight l es = None" and er: "er = None"
    and l': "l' = appendPrepared ?l es"
    using assms(2) by (auto simp: memory_BeginAttempt_def split: if_splits option.splits)
  have inv: "log_inv ?l" using log_inv_claim [OF assms(1) fresh] .
  have "extends (log_events l) es (log_events (appendPrepared ?l es))"
    by (rule appendPrepared_extends [OF assms(1) pre _ _ inv]) simp_all
  moreover have "log_inv (appendPrepared ?l es)" using inv by (rule appendPrepared_inv)
  moreover have "log_attempts l = set (log_attemptOrder l)" using assms(1) by (simp add: log_inv_def)
  ultimately show ?thesis using fresh er l' by simp
qed

lemma memory_append_ok:
  assumes "log_inv l" and "memory_AppendAll c es l = (None, l')"
  shows "log_inv l' \<and> extends (log_events l) es (log_events l')
    \<and> log_attemptOrder l' = log_attemptOrder l \<and> log_actions l' = log_actions l"
proof -
  have pre: "preflight l es = None" and l': "l' = appendPrepared l es"
    using assms(2) by (auto simp: memory_AppendAll_def split: if_splits option.splits)
  have "extends (log_events l) es (log_events (appendPrepared l es))"
    by (rule appendPrepared_extends [OF assms(1) pre]) (simp_all add: assms(1))
  with l' appendPrepared_inv [OF assms(1)] show ?thesis by simp
qed

lemma memory_begin_intent:
  assumes "log_inv l" and "memory_BeginAttempt c a t es l = ((True, er), l')"
  shows "(\<forall>b. log_actions l (act_id a) = Some b \<longrightarrow> sameAction b a)
      \<and> (\<exists>b. log_actions l' (act_id a) = Some b \<and> sameAction b a)
      \<and> (\<forall>i. i \<noteq> act_id a \<longrightarrow> log_actions l' i = log_actions l i)"
  using assms by (auto simp: memory_BeginAttempt_def split: if_splits option.splits)

lemma memory_begin_match:
  "memory_BeginAttempt c a t es l = ((True, er), l') \<Longrightarrow>
     att_actionID t = act_id a \<and> (\<forall>x\<in>set es. ev_attemptID x = att_id t \<and> ev_actionID x = act_id a)"
  by (auto simp: memory_BeginAttempt_def list_ex_iff split: if_splits option.splits)

lemma memory_begin_lost: "memory_BeginAttempt c a t es l = ((False, er), l') \<Longrightarrow> l' = l"
  by (auto simp: memory_BeginAttempt_def split: if_splits option.splits)

lemma memory_append_failed: "memory_AppendAll c es l = (Some cause, l') \<Longrightarrow> l' = l"
  by (auto simp: memory_AppendAll_def split: if_splits option.splits)

lemma memory_append_inv:
  assumes "log_inv l" and "memory_AppendAll c es l = (e, l')"
  shows "log_inv l' \<and> log_attemptOrder l' = log_attemptOrder l"
proof (cases e)
  case None
  with memory_append_ok [OF assms(1)] assms(2) show ?thesis by simp
next
  case (Some cause)
  with memory_append_failed assms show ?thesis by metis
qed

lemma log_inv_distinct:
  "log_inv l \<Longrightarrow> distinct (log_attemptOrder l)" "log_inv l \<Longrightarrow> distinct (map ev_id (log_events l))"
  by (simp_all add: log_inv_def)

text \<open>The memory log is a journal for every fact and every intent.\<close>

interpretation memory: journal memory_BeginAttempt memory_AppendAll log_attemptOrder log_inv log_events
  log_actions "\<lambda>_. True" "\<lambda>_. True"
proof
  show "er = None \<and> log_inv l' \<and> att_id t \<notin> set (log_attemptOrder l)
      \<and> log_attemptOrder l' = log_attemptOrder l @ [att_id t]"
    and "extends (log_events l) es (log_events l')"
    if "log_inv l" "memory_BeginAttempt c a t es l = ((True, er), l')" for l l' c a t es er
    using memory_begin_won [OF that] by simp_all
  show "extends (log_events l) es (log_events l') \<and> log_actions l' = log_actions l"
    if "log_inv l" "memory_AppendAll c es l = (None, l')" for l l' c es
    using memory_append_ok [OF that] by simp
  show "(\<forall>b. log_actions l (act_id a) = Some b \<longrightarrow> sameAction b a)
      \<and> (\<exists>b. log_actions l' (act_id a) = Some b \<and> sameAction b a)
      \<and> (\<forall>i. i \<noteq> act_id a \<longrightarrow> log_actions l' i = log_actions l i)"
    if "log_inv l" "memory_BeginAttempt c a t es l = ((True, er), l')" for l l' c a t es er
    using that by (rule memory_begin_intent)
qed (fact memory_begin_match memory_begin_lost memory_append_inv memory_append_failed log_inv_distinct)+

subsection \<open>When a group is accepted\<close>

text \<open>The facts of a group agree with those of the log and with each other wherever identities meet.\<close>

definition group_agrees :: "ExecutionEvent list \<Rightarrow> ExecutionEvent list \<Rightarrow> bool" where
  "group_agrees fs es \<longleftrightarrow>
     (\<forall>x\<in>set es. \<forall>y\<in>set fs \<union> set es. ev_id y = ev_id x \<longrightarrow> same_fact y x)"

lemma preflight_loop_None_iff:
  assumes "\<And>i e. batch i = Some e \<Longrightarrow> ev_id e = i"
  shows "preflight_loop l batch es = None \<longleftrightarrow>
    (\<forall>x\<in>set es. (\<forall>e. log_byID l (ev_id x) = Some e \<longrightarrow> same_fact e x)
       \<and> (\<forall>e. batch (ev_id x) = Some e \<longrightarrow> same_fact e x)
       \<and> (\<forall>y\<in>set es. ev_id y = ev_id x \<longrightarrow> same_fact y x))"
  using assms
proof (induction es arbitrary: batch)
  case Nil
  then show ?case by simp
next
  case (Cons event events)
  let ?batch = "batch(ev_id event \<mapsto> event)"
  let ?ok = "\<lambda>b x. (\<forall>e. log_byID l (ev_id x) = Some e \<longrightarrow> same_fact e x) \<and> (\<forall>e. b (ev_id x) = Some e \<longrightarrow> same_fact e x)"
  have step: "preflight_loop l batch (event # events) = None
      \<longleftrightarrow> ?ok batch event \<and> preflight_loop l ?batch events = None"
    by (auto split: option.splits)
  have "?batch i = Some e \<Longrightarrow> ev_id e = i" for i e
    using Cons.prems [of i e] by (simp split: if_splits)
  then have IH: "preflight_loop l ?batch events = None \<longleftrightarrow>
    (\<forall>x\<in>set events. (\<forall>e. log_byID l (ev_id x) = Some e \<longrightarrow> same_fact e x)
       \<and> (\<forall>e. ?batch (ev_id x) = Some e \<longrightarrow> same_fact e x)
       \<and> (\<forall>y\<in>set events. ev_id y = ev_id x \<longrightarrow> same_fact y x))"
    by (rule Cons.IH)
  have rest: "preflight_loop l ?batch events = None \<longleftrightarrow>
      (\<forall>x\<in>set events. ?ok ?batch x \<and> (\<forall>y\<in>set events. ev_id y = ev_id x \<longrightarrow> same_fact y x))"
    by (subst IH) blast
  have swap: "?ok ?batch x \<longleftrightarrow> ?ok batch x \<and> (ev_id event = ev_id x \<longrightarrow> same_fact event x)"
    if "?ok batch event" for x
  proof (cases "ev_id event = ev_id x")
    case True
    have "same_fact event x \<Longrightarrow> batch (ev_id x) = Some e \<Longrightarrow> same_fact e x" for e
      using that same_fact_trans [of e event x] unfolding True by blast
    then show ?thesis unfolding True by (simp del: split_paired_All) blast
  qed auto
  have sym: "(ev_id event = ev_id x \<longrightarrow> same_fact event x) \<longleftrightarrow> (ev_id x = ev_id event \<longrightarrow> same_fact x event)" for x
    using same_fact_sym by metis
  have "preflight_loop l batch (event # events) = None \<longleftrightarrow> ?ok batch event \<and>
      (\<forall>x\<in>set events. ?ok batch x \<and> (ev_id event = ev_id x \<longrightarrow> same_fact event x)
        \<and> (\<forall>y\<in>set events. ev_id y = ev_id x \<longrightarrow> same_fact y x))"
    unfolding step rest using swap by blast
  then show ?case by (simp del: preflight_loop.simps add: sym ball_conj_distrib) blast
qed

lemma preflight_None_iff:
  assumes "log_inv l"
  shows "preflight l es = None \<longleftrightarrow> group_agrees (log_events l) es"
proof -
  have "log_byID l (ev_id x) = Some e \<longleftrightarrow> e \<in> set (log_events l) \<and> ev_id e = ev_id x" for x e
    using assms by (simp add: log_inv_def)
  then show ?thesis
    unfolding preflight_def by (subst preflight_loop_None_iff) (auto simp: group_agrees_def)
qed

lemma preflight_Some: "preflight l es = Some e \<Longrightarrow> errorsIs e t \<longleftrightarrow> t = Memory_ErrEventConflict"
proof -
  have "preflight_loop l b es = Some e \<Longrightarrow> errorsIs e t \<longleftrightarrow> t = Memory_ErrEventConflict" for b
    by (induction l b es rule: preflight_loop.induct)
      (auto simp: event_conflict_def split: if_splits option.splits)
  then show "preflight l es = Some e \<Longrightarrow> errorsIs e t \<longleftrightarrow> t = Memory_ErrEventConflict"
    by (simp add: preflight_def)
qed

lemma appendPrepared_present:
  assumes "\<And>x. x \<in> set es \<Longrightarrow> log_byID l (ev_id x) \<noteq> None"
  shows "appendPrepared l es = l"
  using assms
proof (induction es)
  case (Cons x es)
  from Cons.prems [of x] obtain e where "log_byID l (ev_id x) = Some e" by auto
  with Cons show ?case by simp
qed simp

subsection \<open>Properties of the memory log\<close>

text \<open>In a memory log, whatever sequence of claims and appends it has served since \<open>New\<close>, with
  whatever contexts, each attempt identity was claimed with success at most once, the claim order is
  the order of the successful claims, and no event identity is recorded twice.\<close>

lemma memory_claims_once:
  "case journal_run memory_BeginAttempt memory_AppendAll ops New_Log of (rs, l) \<Rightarrow>
     memory_AttemptIDs None l = (claimed_ids rs, None) \<and> distinct (claimed_ids rs)
     \<and> distinct (map ev_id (memory_Events l)) \<and> log_inv l"
proof -
  obtain rs l where run: "journal_run memory_BeginAttempt memory_AppendAll ops New_Log = (rs, l)"
    by (metis surj_pair)
  have "log_inv l \<and> log_attemptOrder l = log_attemptOrder New_Log @ claimed_ids rs"
    using memory.run_claims [OF log_inv_New run] .
  then have "log_inv l" and "log_attemptOrder l = claimed_ids rs" by (simp_all add: New_Log_def)
  with log_inv_distinct [of l] run show ?thesis
    by (simp add: memory_AttemptIDs_def memory_Events_def)
qed

text \<open>\<open>AppendAll\<close> of the memory log is atomic and idempotent. A group that agrees with the log and
  with itself is recorded, every fact of it, after what was there, and appending it again changes
  nothing; any other group is refused with \<open>ErrEventConflict\<close> and changes nothing.\<close>

lemma memory_append_atomic:
  assumes "log_inv l"
  shows "if group_agrees (log_events l) es
    then \<exists>l'. memory_AppendAll None es l = (None, l') \<and> log_inv l' \<and> extends (log_events l) es (log_events l')
           \<and> memory_AppendAll None es l' = (None, l')
    else \<exists>e. memory_AppendAll None es l = (Some e, l) \<and> (\<forall>s. errorsIs e s = (s = Memory_ErrEventConflict))"
proof (cases "preflight l es")
  case None
  let ?l = "appendPrepared l es"
  have ap: "memory_AppendAll None es l = (None, ?l)" using None by (simp add: memory_AppendAll_def)
  note ok = memory_append_ok [OF assms ap]
  have agrees: "group_agrees (log_events l) es" using None preflight_None_iff [OF assms, of es] by simp
  have present: "\<exists>e. log_byID ?l (ev_id x) = Some e \<and> same_fact e x" if "x \<in> set es" for x
    by (rule preflight_loop_recorded [of l Map.empty]) (use None that in \<open>simp_all add: preflight_def\<close>)
  have "preflight ?l es = None"
  proof -
    have "same_fact y x" if "x \<in> set es" and "y \<in> set (log_events ?l) \<union> set es" and "ev_id y = ev_id x" for x y
    proof (cases "y \<in> set es")
      case True
      with agrees that show ?thesis by (simp add: group_agrees_def)
    next
      case False
      with that ok have "log_byID ?l (ev_id x) = Some y" by (auto simp: log_inv_def)
      with present [OF that(1)] show ?thesis by simp
    qed
    then show ?thesis using ok by (simp add: preflight_None_iff group_agrees_def)
  qed
  moreover have "appendPrepared ?l es = ?l" by (rule appendPrepared_present) (use present in force)
  ultimately have "memory_AppendAll None es ?l = (None, ?l)" by (simp add: memory_AppendAll_def)
  with agrees ap ok show ?thesis by simp
next
  case (Some e)
  then have "memory_AppendAll None es l = (Some e, l)" by (simp add: memory_AppendAll_def)
  moreover have "\<not> group_agrees (log_events l) es" using Some preflight_None_iff [OF assms, of es] by simp
  ultimately show ?thesis using preflight_Some [OF Some] by simp
qed

lemma memory_append_atomic_witness:
  "\<exists>e. memory_AppendAll None [example_fact ''1'' EventActionAdmitted, example_fact ''1'' EventActionRejected]
     New_Log = (Some e, New_Log) \<and> errorsIs e Memory_ErrEventConflict"
  using memory_append_atomic [OF log_inv_New, of "[example_fact ''1'' EventActionAdmitted,
    example_fact ''1'' EventActionRejected]"]
  by (auto simp: group_agrees_def same_fact_def)

text \<open>C14: the memory log grants a claim exactly when the context is alive, the attempt and every initial
  fact belong to the action, the action's identity carries no other intent, the attempt identity is
  new and the initial facts agree with the log; a claim that is not granted changes nothing.\<close>

theorem memory_begin_exact:
  assumes "log_inv l"
  shows "(fst (fst (memory_BeginAttempt c a t es l)) \<longleftrightarrow>
      c = None \<and> att_actionID t = act_id a
      \<and> (\<forall>b. log_actions l (act_id a) = Some b \<longrightarrow> sameAction b a)
      \<and> att_id t \<notin> set (log_attemptOrder l)
      \<and> (\<forall>x\<in>set es. ev_attemptID x = att_id t \<and> ev_actionID x = act_id a)
      \<and> group_agrees (log_events l) es)
    \<and> (\<not> fst (fst (memory_BeginAttempt c a t es l)) \<longrightarrow> snd (memory_BeginAttempt c a t es l) = l)"
proof -
  have "log_attempts l = set (log_attemptOrder l)" using assms by (simp add: log_inv_def)
  moreover have "preflight l es = None \<longleftrightarrow> group_agrees (log_events l) es" using assms by (rule preflight_None_iff)
  ultimately show ?thesis
    by (auto simp: memory_BeginAttempt_def list_ex_iff split: option.splits)
qed

lemma memory_begin_exact_witness:
  "fst (fst (memory_BeginAttempt None example_action example_attempt
     [example_fact ''1'' EventActionRequested, example_fact ''2'' EventAttemptStarted] New_Log))"
  by (subst memory_begin_exact [OF log_inv_New, THEN conjunct1])
    (simp add: example_action_def example_attempt_def New_Log_def group_agrees_def)

end
