(* ===== verification/Sqlite_Log.thy ===== *)
theory Sqlite_Log
  imports Journal_Spec
begin

text \<open>
  \<open>eventlog/sqlite/log.go\<close>. The three tables are lists of rows in the order of their \<open>sequence\<close> column
  (\<open>AUTOINCREMENT\<close>, never deleted from); a time column holds the text \<open>formatTime\<close> writes. A SQL
  statement of the source is a function of the tables: \<open>INSERT OR IGNORE\<close> under the \<open>UNIQUE\<close> or primary
  key of its table, with the number of affected rows, and \<open>SELECT\<close> by key.

  The database driver is not part of the repository. Every call to it can fail: \<open>env_fault\<close> says which
  of the calls of one operation fail with which error, a parameter of every operation. A transaction
  works on its own copy of the tables, which replaces the tables when \<open>Commit\<close> succeeds and is dropped
  otherwise; a \<open>Commit\<close> that fails leaves the tables as they were. A nil log is \<^const>\<open>None\<close>.
\<close>

subsection \<open>Tables\<close>

record action_row =
  ra_action_id :: string
  ra_target :: string
  ra_name :: string
  ra_input :: bytes
  ra_requested_at :: string

record attempt_row =
  rt_attempt_id :: string
  rt_action_id :: string
  rt_started_at :: string
  rt_recovery_of :: "string option"

record event_row =
  re_event_id :: string
  re_action_id :: string
  re_attempt_id :: string
  re_kind :: string
  re_occurred_at :: string
  re_recorded_at :: string
  re_data :: bytes

record DB =
  db_actions :: "action_row list"
  db_attempts :: "attempt_row list"
  db_events :: "event_row list"

definition empty_db :: DB where
  "empty_db = \<lparr>db_actions = [], db_attempts = [], db_events = []\<rparr>"

text \<open>The calls to the driver, numbered where a loop makes them, and what they answer.\<close>

datatype db_call =
    OpenDB | InitStatement nat | BeginTx | InsertAction | ActionRowsAffected | QueryAction
  | InsertAttempt | AttemptRowsAffected | RollbackTx | CommitTx
  | InsertEvent nat | EventRowsAffected nat | QueryEvent nat
  | QueryEvents | EventRowsErr | QueryAttempts | AttemptRowsErr

record db_env =
  env_fault :: "db_call \<Rightarrow> err option"
  env_delivered :: nat
  env_parse_error :: "string \<Rightarrow> err"

definition db_call_ok :: "db_env \<Rightarrow> db_call \<Rightarrow> err + unit" where
  "db_call_ok env call = (case env_fault env call of Some e \<Rightarrow> Inl e | None \<Rightarrow> Inr ())"

lemma db_call_ok_Inr [simp]: "db_call_ok env call = Inr u \<longleftrightarrow> env_fault env call = None"
  by (simp add: db_call_ok_def split: option.split)

text \<open>The statements.\<close>

definition insert_action :: "action_row \<Rightarrow> DB \<Rightarrow> nat \<times> DB" where
  "insert_action row db =
    (if list_ex (\<lambda>r. ra_action_id r = ra_action_id row) (db_actions db) then (0, db)
     else (1, db\<lparr>db_actions := db_actions db @ [row]\<rparr>))"

definition insert_attempt :: "attempt_row \<Rightarrow> DB \<Rightarrow> nat \<times> DB" where
  "insert_attempt row db =
    (if list_ex (\<lambda>r. rt_attempt_id r = rt_attempt_id row) (db_attempts db) then (0, db)
     else (1, db\<lparr>db_attempts := db_attempts db @ [row]\<rparr>))"

definition insert_event :: "event_row \<Rightarrow> DB \<Rightarrow> nat \<times> DB" where
  "insert_event row db =
    (if list_ex (\<lambda>r. re_event_id r = re_event_id row) (db_events db) then (0, db)
     else (1, db\<lparr>db_events := db_events db @ [row]\<rparr>))"

definition select_action :: "ActionID \<Rightarrow> DB \<Rightarrow> action_row option" where
  "select_action i db = find (\<lambda>r. ra_action_id r = i) (db_actions db)"

definition select_event :: "EventID \<Rightarrow> DB \<Rightarrow> event_row option" where
  "select_event i db = find (\<lambda>r. re_event_id r = i) (db_events db)"

subsection \<open>Rows and values\<close>

definition formatTime :: "gtime \<Rightarrow> string" where
  "formatTime t = FormatRFC3339Nano (UTC t)"

definition action_to_row :: "Action \<Rightarrow> action_row" where
  "action_to_row a = \<lparr>ra_action_id = act_id a, ra_target = act_target a, ra_name = act_name a,
     ra_input = act_input a, ra_requested_at = formatTime (act_requestedAt a)\<rparr>"

definition attempt_to_row :: "ExecutionAttempt \<Rightarrow> attempt_row" where
  "attempt_to_row t =
    (let (recoveryOf, hasRecovery) = RecoveryOf t
     in \<lparr>rt_attempt_id = att_id t, rt_action_id = att_actionID t, rt_started_at = formatTime (att_startedAt t),
         rt_recovery_of = (if hasRecovery then Some recoveryOf else None)\<rparr>)"

definition event_to_row :: "ExecutionEvent \<Rightarrow> event_row" where
  "event_to_row e = \<lparr>re_event_id = ev_id e, re_action_id = ev_actionID e, re_attempt_id = ev_attemptID e,
     re_kind = ev_kind e, re_occurred_at = formatTime (ev_occurredAt e),
     re_recorded_at = formatTime (ev_recordedAt e), re_data = ev_data e\<rparr>"

text \<open>\<open>time.Parse\<close> of a column: the time, or \<open>ErrCorruptData\<close> with the column's name.\<close>

definition parse_column :: "db_env \<Rightarrow> string \<Rightarrow> string \<Rightarrow> err + gtime" where
  "parse_column env column text =
    (case ParseRFC3339Nano text of
       None \<Rightarrow> Inl (Errorf [W (Sentinel Sqlite_ErrCorruptData), T ('': '' @ column @ '': ''), V (env_parse_error env text)])
     | Some t \<Rightarrow> Inr t)"

text \<open>The error of a constructor becomes \<open>ErrCorruptData\<close>.\<close>

definition corrupt :: "err + 'a \<Rightarrow> err + 'a" where
  "corrupt r = (case r of Inl e \<Rightarrow> Inl (wrap_err Sqlite_ErrCorruptData e) | Inr v \<Rightarrow> Inr v)"

definition readEvent :: "db_env \<Rightarrow> event_row \<Rightarrow> err + ExecutionEvent" where
  "readEvent env row =
    result_bind (parse_column env ''occurred_at'' (re_occurred_at row)) (\<lambda>occurredAt.
    result_bind (parse_column env ''recorded_at'' (re_recorded_at row)) (\<lambda>recordedAt.
    corrupt (NewExecutionEvent \<lparr>xs_ID = re_event_id row, xs_ActionID = re_action_id row,
      xs_AttemptID = re_attempt_id row, xs_Kind = re_kind row, xs_OccurredAt = occurredAt,
      xs_RecordedAt = recordedAt, xs_Data = re_data row\<rparr>)))"

definition readAction :: "db_env \<Rightarrow> action_row \<Rightarrow> err + Action" where
  "readAction env row =
    result_bind (parse_column env ''requested_at'' (ra_requested_at row)) (\<lambda>requested.
    corrupt (NewAction \<lparr>as_ID = ra_action_id row, as_Target = ra_target row, as_Name = ra_name row,
      as_Input = ra_input row, as_RequestedAt = requested\<rparr>))"

subsection \<open>Operations\<close>

type_synonym SqliteLog = "DB option"

definition nil_log :: err where
  "nil_log = wrap_msg Sqlite_ErrInvalidConfig ''log is nil''"

text \<open>\<open>initialize\<close> runs six statements; the tables that exist already are kept.\<close>

fun initialize_loop :: "db_env \<Rightarrow> nat list \<Rightarrow> err + unit" where
  "initialize_loop env [] = Inr ()"
| "initialize_loop env (n # ns) =
    (case env_fault env (InitStatement n) of
       Some e \<Rightarrow> Inl (Errorf [T ''atoha sqlite event log: initialize: '', W e])
     | None \<Rightarrow> initialize_loop env ns)"

definition sqlite_initialize :: "db_env \<Rightarrow> err + unit" where
  "sqlite_initialize env = initialize_loop env [0 ..< 6]"

definition sqlite_Open :: "db_env \<Rightarrow> string \<Rightarrow> DB \<Rightarrow> err + SqliteLog" where
  "sqlite_Open env path stored =
    (if TrimSpace path = '''' \<or> path \<noteq> TrimSpace path
     then Inl (wrap_msg Sqlite_ErrInvalidConfig ''database path is required'')
     else result_bind (db_call_ok env OpenDB) (\<lambda>_.
          result_bind (sqlite_initialize env) (\<lambda>_. Inr (Some stored))))"

text \<open>The comparison of the stored intent with the action, when its identity is taken.\<close>

definition check_action :: "db_env \<Rightarrow> Action \<Rightarrow> DB \<Rightarrow> err + unit" where
  "check_action env action db =
    result_bind (db_call_ok env QueryAction) (\<lambda>_.
    case select_action (act_id action) db of
      None \<Rightarrow> Inl (Message ''sql: no rows in result set'')
    | Some row \<Rightarrow>
        result_bind (parse_column env ''requested_at'' (ra_requested_at row)) (\<lambda>storedAt.
          if ra_action_id row \<noteq> act_id action \<or> ra_target row \<noteq> act_target action
             \<or> ra_name row \<noteq> act_name action \<or> ra_input row \<noteq> act_input action
             \<or> \<not> TimeEqual storedAt (act_requestedAt action)
          then Inl (wrap_msg ErrActionIdentityConflict (act_id action)) else Inr ()))"

text \<open>\<open>equal\<close> of this package: the comparison of the memory log once more.\<close>

definition sqlite_equal :: "ExecutionEvent \<Rightarrow> ExecutionEvent \<Rightarrow> bool" where
  "sqlite_equal a b \<longleftrightarrow> ev_id a = ev_id b \<and> ev_actionID a = ev_actionID b \<and> ev_attemptID a = ev_attemptID b
     \<and> ev_kind a = ev_kind b \<and> TimeEqual (ev_occurredAt a) (ev_occurredAt b)
     \<and> TimeEqual (ev_recordedAt a) (ev_recordedAt b) \<and> ev_data a = ev_data b"

lemma sqlite_equal_same [simp]: "sqlite_equal a b = same_fact a b"
  by (simp add: sqlite_equal_def same_fact_def)

fun appendEvents :: "db_env \<Rightarrow> nat \<Rightarrow> ExecutionEvent list \<Rightarrow> DB \<Rightarrow> err + DB" where
  "appendEvents env n [] db = Inr db"
| "appendEvents env n (event # events) db =
    result_bind (db_call_ok env (InsertEvent n)) (\<lambda>_.
    let (rows, db1) = insert_event (event_to_row event) db in
    result_bind (db_call_ok env (EventRowsAffected n)) (\<lambda>_.
    if rows = 0
    then result_bind (db_call_ok env (QueryEvent n)) (\<lambda>_.
         case select_event (ev_id event) db1 of
           None \<Rightarrow> Inl (Message ''sql: no rows in result set'')
         | Some row \<Rightarrow>
             result_bind (readEvent env row) (\<lambda>existing.
               if \<not> sqlite_equal existing event then Inl (wrap_msg Sqlite_ErrEventConflict (ev_id event))
               else appendEvents env (Suc n) events db1))
    else appendEvents env (Suc n) events db1))"

text \<open>The body of the transaction of \<open>BeginAttempt\<close>: an error, no claim, or the tables to commit.\<close>

definition begin_tx ::
    "db_env \<Rightarrow> Action \<Rightarrow> ExecutionAttempt \<Rightarrow> ExecutionEvent list \<Rightarrow> DB \<Rightarrow> err + DB option" where
  "begin_tx env action attempt events db =
    result_bind (db_call_ok env BeginTx) (\<lambda>_.
    result_bind (db_call_ok env InsertAction) (\<lambda>_.
    let (actionRows, db1) = insert_action (action_to_row action) db in
    result_bind (db_call_ok env ActionRowsAffected) (\<lambda>_.
    result_bind (if actionRows = 0 then check_action env action db1 else Inr ()) (\<lambda>_.
    result_bind (db_call_ok env InsertAttempt) (\<lambda>_.
    let (rows, db2) = insert_attempt (attempt_to_row attempt) db1 in
    result_bind (db_call_ok env AttemptRowsAffected) (\<lambda>_.
    if rows = 0 then result_bind (db_call_ok env RollbackTx) (\<lambda>_. Inr None)
    else result_bind (appendEvents env 0 events db2) (\<lambda>db3.
         result_bind (db_call_ok env CommitTx) (\<lambda>_. Inr (Some db3)))))))))"

definition sqlite_BeginAttempt :: "(db_env, SqliteLog) begin_attempt_op" where
  "sqlite_BeginAttempt env action attempt events l =
    (case l of
       None \<Rightarrow> ((False, Some nil_log), l)
     | Some db \<Rightarrow>
       if att_actionID attempt \<noteq> act_id action
       then ((False, Some (wrap_msg ErrActionIdentityConflict ''attempt does not match action'')), l)
       else if list_ex (\<lambda>event. ev_attemptID event \<noteq> att_id attempt
                                \<or> ev_actionID event \<noteq> att_actionID attempt) events
       then ((False, Some (wrap_msg Sqlite_ErrInvalidConfig ''initial event does not match claimed attempt'')), l)
       else (case begin_tx env action attempt events db of
               Inl e \<Rightarrow> ((False, Some e), l)
             | Inr None \<Rightarrow> ((False, None), l)
             | Inr (Some db') \<Rightarrow> ((True, None), Some db')))"

definition sqlite_AppendAll :: "(db_env, SqliteLog) append_all_op" where
  "sqlite_AppendAll env events l =
    (case l of
       None \<Rightarrow> (Some nil_log, l)
     | Some db \<Rightarrow>
       (case result_bind (db_call_ok env BeginTx) (\<lambda>_.
               result_bind (appendEvents env 0 events db) (\<lambda>db1.
               result_bind (db_call_ok env CommitTx) (\<lambda>_. Inr db1))) of
          Inl e \<Rightarrow> (Some e, l)
        | Inr db1 \<Rightarrow> (None, Some db1)))"

definition sqlite_Append :: "db_env \<Rightarrow> ExecutionEvent \<Rightarrow> SqliteLog \<Rightarrow> err option \<times> SqliteLog" where
  "sqlite_Append env event l = sqlite_AppendAll env [event] l"

text \<open>
  Reading a result set: when the iteration fails, \<open>env_delivered\<close> rows came before the failure, and
  the values read so far are returned with the error.
\<close>

definition delivered :: "db_env \<Rightarrow> db_call \<Rightarrow> 'a list \<Rightarrow> 'a list" where
  "delivered env call rows = (if env_fault env call = None then rows else take (env_delivered env) rows)"

fun read_events :: "db_env \<Rightarrow> event_row list \<Rightarrow> ExecutionEvent list \<Rightarrow> err + ExecutionEvent list" where
  "read_events env [] acc = Inr acc"
| "read_events env (row # rows) acc = result_bind (readEvent env row) (\<lambda>event. read_events env rows (acc @ [event]))"

definition sqlite_EventsByAttempt ::
    "db_env \<Rightarrow> AttemptID \<Rightarrow> SqliteLog \<Rightarrow> ExecutionEvent list \<times> err option" where
  "sqlite_EventsByAttempt env attemptID l =
    (case l of
       None \<Rightarrow> ([], Some nil_log)
     | Some db \<Rightarrow>
       (case env_fault env QueryEvents of
          Some e \<Rightarrow> ([], Some e)
        | None \<Rightarrow>
          (case read_events env (delivered env EventRowsErr
                  (filter (\<lambda>row. re_attempt_id row = attemptID) (db_events db))) [] of
             Inl e \<Rightarrow> ([], Some e)
           | Inr events \<Rightarrow> (events, env_fault env EventRowsErr))))"

definition sqlite_ActionByID :: "db_env \<Rightarrow> ActionID \<Rightarrow> SqliteLog \<Rightarrow> Action \<times> bool \<times> err option" where
  "sqlite_ActionByID env actionID l =
    (case l of
       None \<Rightarrow> (zero_action, False, Some nil_log)
     | Some db \<Rightarrow>
       (case env_fault env QueryAction of
          Some e \<Rightarrow> (zero_action, False, Some e)
        | None \<Rightarrow>
          (case select_action actionID db of
             None \<Rightarrow> (zero_action, False, None)
           | Some row \<Rightarrow>
             (case readAction env row of
                Inl e \<Rightarrow> (zero_action, False, Some e)
              | Inr action \<Rightarrow> (action, True, None)))))"

definition sqlite_AttemptIDs :: "db_env \<Rightarrow> SqliteLog \<Rightarrow> AttemptID list \<times> err option" where
  "sqlite_AttemptIDs env l =
    (case l of
       None \<Rightarrow> ([], Some nil_log)
     | Some db \<Rightarrow>
       (case env_fault env QueryAttempts of
          Some e \<Rightarrow> ([], Some e)
        | None \<Rightarrow> (map rt_attempt_id (delivered env AttemptRowsErr (db_attempts db)), env_fault env AttemptRowsErr)))"

definition Close_sqlite :: "err option \<Rightarrow> SqliteLog \<Rightarrow> err option" where
  "Close_sqlite closed l = (case l of None \<Rightarrow> None | Some db \<Rightarrow> closed)"

subsection \<open>What a row reads back as\<close>

text \<open>The reference reading of the tables: an environment without failures.\<close>

definition quiet_db :: db_env where
  "quiet_db = \<lparr>env_fault = \<lambda>_. None, env_delivered = 0, env_parse_error = \<lambda>_. Message ''parsing time''\<rparr>"

lemma quiet_db_simps [simp]: "env_fault quiet_db call = None" "db_call_ok quiet_db call = Inr ()"
  by (simp_all add: quiet_db_def)

definition time_storable :: "gtime \<Rightarrow> bool" where
  "time_storable t \<longleftrightarrow> 0 \<le> local_year (UTC t) \<and> local_year (UTC t) \<le> 9999"

definition storable_fact :: "ExecutionEvent \<Rightarrow> bool" where
  "storable_fact e \<longleftrightarrow> event_ok e \<and> time_storable (ev_occurredAt e) \<and> time_storable (ev_recordedAt e)"

definition storable_intent :: "Action \<Rightarrow> bool" where
  "storable_intent a \<longleftrightarrow> action_ok a \<and> time_storable (act_requestedAt a)"

lemma parse_column_formatTime [simp]:
  "time_storable t \<Longrightarrow> parse_column env column (formatTime t) = Inr (UTC t)"
  by (simp add: parse_column_def formatTime_def time_storable_def parse_format_utc)

lemma parse_column_Inr: "parse_column env column text = Inr t \<longleftrightarrow> ParseRFC3339Nano text = Some t"
  by (simp add: parse_column_def split: option.split)

lemma corrupt_Inr [simp]: "corrupt r = Inr v \<longleftrightarrow> r = Inr v"
  by (simp add: corrupt_def split: sum.split)

lemma readEvent_Inr_iff:
  "readEvent env row = Inr e \<longleftrightarrow>
     event_ok e \<and> ev_id e = re_event_id row \<and> ev_actionID e = re_action_id row
     \<and> ev_attemptID e = re_attempt_id row \<and> ev_kind e = re_kind row \<and> ev_data e = re_data row
     \<and> ParseRFC3339Nano (re_occurred_at row) = Some (ev_occurredAt e)
     \<and> ParseRFC3339Nano (re_recorded_at row) = Some (ev_recordedAt e)"
  by (auto simp: readEvent_def result_bind_Inr_iff parse_column_Inr NewExecutionEvent_Inr_iff)

lemma readAction_Inr_iff:
  "readAction env row = Inr a \<longleftrightarrow>
     action_ok a \<and> act_id a = ra_action_id row \<and> act_target a = ra_target row \<and> act_name a = ra_name row
     \<and> act_input a = ra_input row \<and> ParseRFC3339Nano (ra_requested_at row) = Some (act_requestedAt a)"
  by (auto simp: readAction_def result_bind_Inr_iff parse_column_Inr NewAction_Inr_iff)

definition stored_fact :: "ExecutionEvent \<Rightarrow> ExecutionEvent" where
  "stored_fact e = e\<lparr>ev_occurredAt := UTC (ev_occurredAt e), ev_recordedAt := UTC (ev_recordedAt e)\<rparr>"

lemma stored_fact_same [simp]: "same_fact (stored_fact e) e"
  by (simp add: stored_fact_def same_fact_def)

lemma stored_fact_ok [simp]: "event_ok (stored_fact e) = event_ok e"
  by (simp add: stored_fact_def event_ok_def)

lemma format_storable: "time_storable t \<Longrightarrow> ParseRFC3339Nano (formatTime t) = Some (UTC t)"
  by (simp add: formatTime_def time_storable_def parse_format_utc)

lemma read_event_row: "storable_fact e \<Longrightarrow> readEvent env (event_to_row e) = Inr (stored_fact e)"
  unfolding readEvent_Inr_iff
  by (auto simp: storable_fact_def event_to_row_def format_storable stored_fact_def event_ok_def)

definition event_of_row :: "event_row \<Rightarrow> ExecutionEvent option" where
  "event_of_row row = (case readEvent quiet_db row of Inl _ \<Rightarrow> None | Inr e \<Rightarrow> Some e)"

definition action_of_row :: "action_row \<Rightarrow> Action option" where
  "action_of_row row = (case readAction quiet_db row of Inl _ \<Rightarrow> None | Inr a \<Rightarrow> Some a)"

lemma event_of_row_iff: "event_of_row row = Some e \<longleftrightarrow> readEvent env row = Inr e"
proof -
  have "event_of_row row = Some e \<longleftrightarrow> readEvent quiet_db row = Inr e"
    by (simp add: event_of_row_def split: sum.split)
  then show ?thesis by (simp add: readEvent_Inr_iff)
qed

lemma action_of_row_iff: "action_of_row row = Some a \<longleftrightarrow> readAction env row = Inr a"
proof -
  have "action_of_row row = Some a \<longleftrightarrow> readAction quiet_db row = Inr a"
    by (simp add: action_of_row_def split: sum.split)
  then show ?thesis by (simp add: readAction_Inr_iff)
qed

lemma event_of_row_id: "event_of_row row = Some e \<Longrightarrow> ev_id e = re_event_id row"
  by (simp add: event_of_row_iff [of _ _ quiet_db] readEvent_Inr_iff)

lemma event_of_stored: "storable_fact e \<Longrightarrow> event_of_row (event_to_row e) = Some (stored_fact e)"
  by (simp add: event_of_row_iff [of _ _ quiet_db] read_event_row)

text \<open>What the log shows: the readable facts, the claims and the intents.\<close>

definition sqlite_facts :: "SqliteLog \<Rightarrow> ExecutionEvent list" where
  "sqlite_facts l = (case l of None \<Rightarrow> [] | Some db \<Rightarrow> List.map_filter event_of_row (db_events db))"

definition sqlite_claims :: "SqliteLog \<Rightarrow> AttemptID list" where
  "sqlite_claims l = (case l of None \<Rightarrow> [] | Some db \<Rightarrow> map rt_attempt_id (db_attempts db))"

definition sqlite_intent :: "SqliteLog \<Rightarrow> ActionID \<Rightarrow> Action option" where
  "sqlite_intent l i = (case l of None \<Rightarrow> None
     | Some db \<Rightarrow> Option.bind (select_action i db) action_of_row)"

definition db_ok :: "DB \<Rightarrow> bool" where
  "db_ok db \<longleftrightarrow> distinct (map ra_action_id (db_actions db)) \<and> distinct (map rt_attempt_id (db_attempts db))
     \<and> distinct (map re_event_id (db_events db))"

definition sqlite_inv :: "SqliteLog \<Rightarrow> bool" where
  "sqlite_inv l \<longleftrightarrow> (case l of None \<Rightarrow> True | Some db \<Rightarrow> db_ok db)"

lemmas sqlite_views = sqlite_facts_def sqlite_claims_def sqlite_intent_def sqlite_inv_def

lemma db_ok_empty [simp]: "db_ok empty_db"
  by (simp add: db_ok_def empty_db_def)

lemma db_ok_inserts:
  "db_ok db \<Longrightarrow> db_ok (snd (insert_action ra db))"
  "db_ok db \<Longrightarrow> db_ok (snd (insert_attempt rt db))"
  "db_ok db \<Longrightarrow> db_ok (snd (insert_event re db))"
  by (auto simp: db_ok_def insert_action_def insert_attempt_def insert_event_def list_ex_iff)

subsection \<open>The statements keep the laws\<close>

lemma insert_event_events:
  "insert_event row db = (n, db') \<Longrightarrow>
     (if n = 0 then db' = db \<and> (\<exists>r\<in>set (db_events db). re_event_id r = re_event_id row)
      else db' = db\<lparr>db_events := db_events db @ [row]\<rparr>)"
  by (auto simp: insert_event_def list_ex_iff split: if_splits)

lemma db_ok_insert_event: "db_ok db \<Longrightarrow> insert_event row db = (n, db') \<Longrightarrow> db_ok db'"
  using db_ok_inserts(3) [of db row] by simp

lemma select_event_Some: "select_event i db = Some row \<Longrightarrow> row \<in> set (db_events db) \<and> re_event_id row = i"
  unfolding select_event_def by (auto simp: find_Some_iff)

lemma select_action_Some: "select_action i db = Some row \<Longrightarrow> row \<in> set (db_actions db) \<and> ra_action_id row = i"
  unfolding select_action_def by (auto simp: find_Some_iff)

text \<open>A step of \<open>appendEvents\<close> that succeeds: the row is new, or it reads back as the same fact.\<close>

lemma appendEvents_step:
  assumes "appendEvents env n (e # es) db = Inr db'"
  obtains db1 where "appendEvents env (Suc n) es db1 = Inr db'"
    and "db1 = db \<and> (\<exists>row\<in>set (db_events db). \<exists>x. event_of_row row = Some x \<and> same_fact x e)
       \<or> db1 = db\<lparr>db_events := db_events db @ [event_to_row e]\<rparr>"
    and "db_ok db \<Longrightarrow> db_ok db1"
proof -
  obtain k db1 where ins: "insert_event (event_to_row e) db = (k, db1)" by (metis surj_pair)
  note ok = db_ok_insert_event [OF _ ins]
  show thesis
  proof (cases "k = 0")
    case True
    then have db1: "db1 = db" using insert_event_events [OF ins] by simp
    obtain row x where "select_event (ev_id e) db = Some row" "readEvent env row = Inr x" "same_fact x e"
      and rest: "appendEvents env (Suc n) es db1 = Inr db'"
      using assms True db1 ins by (auto split: option.splits if_splits)
    then have "row \<in> set (db_events db)" and "event_of_row row = Some x" and "same_fact x e"
      using select_event_Some by (simp_all add: event_of_row_iff [of _ _ env])
    with that [OF rest] db1 ok show thesis by blast
  next
    case False
    then have "appendEvents env (Suc n) es db1 = Inr db'" using assms ins by (auto split: if_splits)
    with that [OF this] insert_event_events [OF ins] False ok show thesis by simp
  qed
qed

lemma appendEvents_frame:
  "appendEvents env n es db = Inr db' \<Longrightarrow>
     db_actions db' = db_actions db \<and> db_attempts db' = db_attempts db \<and> (db_ok db \<longrightarrow> db_ok db')"
proof (induction es arbitrary: n db)
  case (Cons e es)
  from Cons.prems obtain db1 where rest: "appendEvents env (Suc n) es db1 = Inr db'"
    and db1: "db_actions db1 = db_actions db" "db_attempts db1 = db_attempts db" and ok: "db_ok db \<Longrightarrow> db_ok db1"
    by (elim appendEvents_step) auto
  from Cons.IH [OF rest] db1 ok show ?case by simp
qed simp

text \<open>The rows of the group that are new, in the order of the group.\<close>

lemma appendEvents_rows:
  "appendEvents env n es db = Inr db' \<Longrightarrow>
     \<exists>new. db_events db' = db_events db @ map event_to_row new \<and> set new \<subseteq> set es"
proof (induction es arbitrary: n db)
  case Nil
  then show ?case by auto
next
  case (Cons e es)
  from Cons.prems obtain db1 where rest: "appendEvents env (Suc n) es db1 = Inr db'"
    and db1: "db_events db1 = db_events db \<or> db_events db1 = db_events db @ [event_to_row e]"
    by (elim appendEvents_step) auto
  from Cons.IH [OF rest] obtain new where new: "db_events db' = db_events db1 @ map event_to_row new"
    "set new \<subseteq> set es" by blast
  from db1 show ?case
  proof
    assume "db_events db1 = db_events db"
    with new show ?case by auto
  next
    assume "db_events db1 = db_events db @ [event_to_row e]"
    with new have "db_events db' = db_events db @ map event_to_row (e # new)" by simp
    moreover have "set (e # new) \<subseteq> set (e # es)" using new by auto
    ultimately show ?case by blast
  qed
qed

lemma appendEvents_recorded:
  assumes "appendEvents env n es db = Inr db'" and "list_all storable_fact es" and "e \<in> set es"
  shows "\<exists>row\<in>set (db_events db'). \<exists>x. event_of_row row = Some x \<and> same_fact x e"
  using assms
proof (induction es arbitrary: n db)
  case (Cons y es)
  from Cons.prems(1) obtain db1 where rest: "appendEvents env (Suc n) es db1 = Inr db'"
    and db1: "(\<exists>row\<in>set (db_events db). \<exists>x. event_of_row row = Some x \<and> same_fact x y) \<and> db1 = db
       \<or> db1 = db\<lparr>db_events := db_events db @ [event_to_row y]\<rparr>"
    by (elim appendEvents_step) blast
  have kept: "set (db_events db1) \<subseteq> set (db_events db')" using appendEvents_rows [OF rest] by auto
  show ?case
  proof (cases "e \<in> set es")
    case True
    with Cons.IH [OF rest] Cons.prems(2) show ?thesis by simp
  next
    case False
    then have "e = y" using Cons.prems(3) by simp
    have "event_of_row (event_to_row y) = Some (stored_fact y)"
      using Cons.prems(2) by (simp add: event_of_stored)
    with db1 \<open>e = y\<close> have "\<exists>row\<in>set (db_events db1). \<exists>x. event_of_row row = Some x \<and> same_fact x e" by auto
    with kept show ?thesis by blast
  qed
qed simp

lemma map_filter_append [simp]:
  "List.map_filter f (xs @ ys) = List.map_filter f xs @ List.map_filter f ys"
  by (simp add: List.map_filter_def)

lemma map_filter_stored:
  "list_all storable_fact es \<Longrightarrow> List.map_filter event_of_row (map event_to_row es) = map stored_fact es"
  by (induction es) (simp_all add: event_of_stored)

lemma appendEvents_extends:
  assumes "appendEvents env n es db = Inr db'" and "list_all storable_fact es"
  shows "extends (sqlite_facts (Some db)) es (sqlite_facts (Some db'))"
proof -
  obtain new where rows: "db_events db' = db_events db @ map event_to_row new" and new: "set new \<subseteq> set es"
    using appendEvents_rows [OF assms(1)] by blast
  have st: "list_all storable_fact new" using assms(2) new by (auto simp: list_all_iff)
  have "sqlite_facts (Some db') = sqlite_facts (Some db) @ map stored_fact new"
    using map_filter_stored [OF st] by (simp add: sqlite_facts_def rows)
  moreover have "\<forall>x\<in>set (map stored_fact new). \<exists>y\<in>set es. same_fact x y"
    using new by (metis (no_types, lifting) in_set_conv_nth image_iff list.set_map stored_fact_same subsetD)
  moreover have "\<exists>x\<in>set (sqlite_facts (Some db')). same_fact x e" if "e \<in> set es" for e
    using appendEvents_recorded [OF assms that] by (force simp: sqlite_facts_def List.map_filter_def)
  ultimately show ?thesis unfolding extends_def by blast
qed

lemma sqlite_facts_ids: "sqlite_inv l \<Longrightarrow> distinct (map ev_id (sqlite_facts l))"
proof -
  have "distinct (map re_event_id rows) \<Longrightarrow> distinct (map ev_id (List.map_filter event_of_row rows))
      \<and> ev_id ` set (List.map_filter event_of_row rows) \<subseteq> re_event_id ` set rows" for rows
    by (induction rows) (auto simp: event_of_row_id split: option.splits)
  then show "sqlite_inv l \<Longrightarrow> ?thesis"
    by (cases l) (simp_all add: sqlite_facts_def sqlite_inv_def db_ok_def)
qed

text \<open>The transaction of \<open>BeginAttempt\<close> that commits.\<close>

lemma insert_action_cases:
  assumes "insert_action (action_to_row a) db = (n, db1)"
  shows "db_events db1 = db_events db \<and> db_attempts db1 = db_attempts db \<and> (db_ok db \<longrightarrow> db_ok db1)
    \<and> (if n = 0 then db1 = db else select_action (act_id a) db = None
         \<and> (\<forall>i. select_action i db1 = (if i = act_id a then Some (action_to_row a) else select_action i db)))"
proof -
  have "db_ok db \<Longrightarrow> db_ok db1" using db_ok_inserts(1) [of db "action_to_row a"] assms by simp
  moreover have "find (\<lambda>r. ra_action_id r = i) (rs @ [action_to_row a])
      = (if i = act_id a then Some (action_to_row a) else find (\<lambda>r. ra_action_id r = i) rs)"
    if "\<not> list_ex (\<lambda>r. ra_action_id r = act_id a) rs" for i rs
    using that by (induction rs) (auto simp: action_to_row_def)
  ultimately show ?thesis
    using assms by (auto simp: insert_action_def select_action_def action_to_row_def find_None_iff list_ex_iff
        split: if_splits)
qed

lemma insert_attempt_new:
  "insert_attempt row db = (n, db1) \<Longrightarrow> n \<noteq> 0 \<Longrightarrow>
     db1 = db\<lparr>db_attempts := db_attempts db @ [row]\<rparr>
     \<and> rt_attempt_id row \<notin> set (map rt_attempt_id (db_attempts db)) \<and> (db_ok db \<longrightarrow> db_ok db1)"
  using db_ok_inserts(2) [of db row] by (auto simp: insert_attempt_def list_ex_iff split: if_splits)

lemma begin_tx_Some:
  assumes "begin_tx env a t es db = Inr (Some db')"
  obtains n db1 db2 where "insert_action (action_to_row a) db = (n, db1)"
    and "n = 0 \<longrightarrow> check_action env a db1 = Inr ()"
    and "db2 = db1\<lparr>db_attempts := db_attempts db @ [attempt_to_row t]\<rparr>"
    and "att_id t \<notin> set (map rt_attempt_id (db_attempts db))"
    and "db_ok db \<longrightarrow> db_ok db2"
    and "appendEvents env 0 es db2 = Inr db'"
proof -
  obtain n db1 where ia: "insert_action (action_to_row a) db = (n, db1)" by (metis surj_pair)
  obtain k db2 where it: "insert_attempt (attempt_to_row t) db1 = (k, db2)" by (metis surj_pair)
  have k: "k \<noteq> 0" and app: "appendEvents env 0 es db2 = Inr db'"
    and chk: "n = 0 \<longrightarrow> check_action env a db1 = Inr ()"
    using assms ia it by (auto simp: begin_tx_def Let_def split: if_splits)
  have id: "rt_attempt_id (attempt_to_row t) = att_id t" by (simp add: attempt_to_row_def RecoveryOf_def)
  from insert_action_cases [OF ia] insert_attempt_new [OF it k]
  have "db2 = db1\<lparr>db_attempts := db_attempts db @ [attempt_to_row t]\<rparr>"
    and "att_id t \<notin> set (map rt_attempt_id (db_attempts db))" and "db_ok db \<longrightarrow> db_ok db2"
    unfolding id by auto
  with ia chk app that show thesis by blast
qed

lemma sqlite_begin_Some:
  assumes "sqlite_BeginAttempt env a t es l = ((True, er), l')"
  obtains db db' where "l = Some db" "l' = Some db'" "er = None" "begin_tx env a t es db = Inr (Some db')"
    and "att_actionID t = act_id a" "\<forall>x\<in>set es. ev_attemptID x = att_id t \<and> ev_actionID x = act_id a"
proof -
  obtain db where db: "l = Some db" using assms by (cases l) (auto simp: sqlite_BeginAttempt_def)
  show thesis
  proof (cases "begin_tx env a t es db")
    case (Inl e)
    then show ?thesis using assms db by (simp add: sqlite_BeginAttempt_def split: if_splits)
  next
    case (Inr r)
    then show ?thesis
      using assms db that [of db] by (cases r) (auto simp: sqlite_BeginAttempt_def list_ex_iff split: if_splits)
  qed
qed

lemma sqlite_begin_won:
  assumes "sqlite_inv l" and "sqlite_BeginAttempt env a t es l = ((True, er), l')"
  shows "er = None \<and> sqlite_inv l' \<and> att_id t \<notin> set (sqlite_claims l)
    \<and> sqlite_claims l' = sqlite_claims l @ [att_id t]"
proof -
  obtain db db' where l: "l = Some db" "l' = Some db'" "er = None"
    and tx: "begin_tx env a t es db = Inr (Some db')"
    using assms(2) by (elim sqlite_begin_Some)
  from tx obtain n db1 db2 where "insert_action (action_to_row a) db = (n, db1)"
    and "n = 0 \<longrightarrow> check_action env a db1 = Inr ()"
    and "db2 = db1\<lparr>db_attempts := db_attempts db @ [attempt_to_row t]\<rparr>"
    and "att_id t \<notin> set (map rt_attempt_id (db_attempts db))" and "db_ok db \<longrightarrow> db_ok db2"
    and app: "appendEvents env 0 es db2 = Inr db'"
    by (rule begin_tx_Some)
  with appendEvents_frame [OF app] assms(1) l show ?thesis
    by (simp add: sqlite_views attempt_to_row_def RecoveryOf_def)
qed

lemma sqlite_begin_match:
  "sqlite_BeginAttempt env a t es l = ((True, er), l') \<Longrightarrow>
     att_actionID t = act_id a \<and> (\<forall>x\<in>set es. ev_attemptID x = att_id t \<and> ev_actionID x = act_id a)"
  by (elim sqlite_begin_Some) simp

lemma sqlite_begin_lost: "sqlite_BeginAttempt env a t es l = ((False, er), l') \<Longrightarrow> l' = l"
  by (auto simp: sqlite_BeginAttempt_def split: option.splits if_splits sum.splits)

lemma sqlite_begin_facts:
  assumes "list_all storable_fact es" and "sqlite_BeginAttempt env a t es l = ((True, er), l')"
  shows "extends (sqlite_facts l) es (sqlite_facts l')"
proof -
  obtain db db' where l: "l = Some db" "l' = Some db'" and tx: "begin_tx env a t es db = Inr (Some db')"
    using assms(2) by (elim sqlite_begin_Some)
  from tx obtain n db1 db2 where "insert_action (action_to_row a) db = (n, db1)"
    and "db2 = db1\<lparr>db_attempts := db_attempts db @ [attempt_to_row t]\<rparr>"
    and app: "appendEvents env 0 es db2 = Inr db'"
    by (elim begin_tx_Some)
  with insert_action_cases have "db_events db2 = db_events db" by fastforce
  then have "sqlite_facts l = sqlite_facts (Some db2)" unfolding l by (simp add: sqlite_facts_def)
  with appendEvents_extends [OF app assms(1)] l show ?thesis by simp
qed

lemma check_action_ok:
  assumes "check_action env a db = Inr ()"
  obtains row t where "select_action (act_id a) db = Some row"
    and "ParseRFC3339Nano (ra_requested_at row) = Some t" and "TimeEqual t (act_requestedAt a)"
    and "ra_action_id row = act_id a" "ra_target row = act_target a" "ra_name row = act_name a"
      "ra_input row = act_input a"
  using assms by (auto simp: check_action_def parse_column_Inr split: option.splits if_splits)

lemma sqlite_begin_intent:
  assumes "storable_intent a" and "sqlite_BeginAttempt env a t es l = ((True, er), l')"
  shows "(\<forall>b. sqlite_intent l (act_id a) = Some b \<longrightarrow> sameAction b a)
      \<and> (\<exists>b. sqlite_intent l' (act_id a) = Some b \<and> sameAction b a)
      \<and> (\<forall>i. i \<noteq> act_id a \<longrightarrow> sqlite_intent l' i = sqlite_intent l i)"
proof -
  obtain db db' where l: "l = Some db" "l' = Some db'" and tx: "begin_tx env a t es db = Inr (Some db')"
    using assms(2) by (elim sqlite_begin_Some)
  from tx obtain n db1 db2 where ia: "insert_action (action_to_row a) db = (n, db1)"
    and chk: "n = 0 \<longrightarrow> check_action env a db1 = Inr ()"
    and "db2 = db1\<lparr>db_attempts := db_attempts db @ [attempt_to_row t]\<rparr>"
    and app: "appendEvents env 0 es db2 = Inr db'"
    by (elim begin_tx_Some)
  then have sel: "select_action i db' = select_action i db1" for i
    using appendEvents_frame [OF app] by (simp add: select_action_def)
  note cases = insert_action_cases [OF ia]
  have others: "sqlite_intent l' i = sqlite_intent l i" if "i \<noteq> act_id a" for i
    using that cases sel unfolding l by (auto simp: sqlite_intent_def split: if_splits)
  show ?thesis
  proof (cases "n = 0")
    case True
    obtain row tm where row: "select_action (act_id a) db1 = Some row"
      "ParseRFC3339Nano (ra_requested_at row) = Some tm" "TimeEqual tm (act_requestedAt a)"
      "ra_action_id row = act_id a" "ra_target row = act_target a" "ra_name row = act_name a"
      "ra_input row = act_input a"
      using chk True by (metis check_action_ok)
    let ?b = "a\<lparr>act_requestedAt := tm\<rparr>"
    have b: "action_ok ?b"
      using assms(1) row(3) by (simp add: storable_intent_def action_ok_def TimeEqual_def IsZero_def)
    have "action_of_row row = Some ?b"
      unfolding action_of_row_iff [of _ _ quiet_db] readAction_Inr_iff using b row by simp
    moreover have "sameAction ?b a" using row(3) by (simp add: sameAction_def)
    moreover have "db1 = db" using cases True by simp
    ultimately show ?thesis using others row(1) sel unfolding l by (simp add: sqlite_intent_def)
  next
    case False
    let ?b = "a\<lparr>act_requestedAt := UTC (act_requestedAt a)\<rparr>"
    have b: "action_ok ?b" using assms(1) by (simp add: storable_intent_def action_ok_def)
    have "action_of_row (action_to_row a) = Some ?b"
      unfolding action_of_row_iff [of _ _ quiet_db] readAction_Inr_iff
      using b assms(1) by (simp add: action_to_row_def storable_intent_def format_storable)
    moreover have "sameAction ?b a" by (simp add: sameAction_def)
    ultimately show ?thesis using others cases False sel unfolding l by (simp add: sqlite_intent_def)
  qed
qed

lemma sqlite_append_Some:
  assumes "sqlite_AppendAll env es l = (None, l')"
  obtains db db' where "l = Some db" "l' = Some db'" "appendEvents env 0 es db = Inr db'"
  using assms by (auto simp: sqlite_AppendAll_def split: option.splits sum.splits)

lemma sqlite_append_failed: "sqlite_AppendAll env es l = (Some cause, l') \<Longrightarrow> l' = l"
  by (auto simp: sqlite_AppendAll_def split: option.splits sum.splits)

lemma sqlite_append_ok:
  assumes "list_all storable_fact es" and "sqlite_AppendAll env es l = (None, l')"
  shows "extends (sqlite_facts l) es (sqlite_facts l') \<and> sqlite_intent l' = sqlite_intent l"
  using assms(2)
proof (rule sqlite_append_Some)
  fix db db' assume l: "l = Some db" "l' = Some db'" and app: "appendEvents env 0 es db = Inr db'"
  from appendEvents_extends [OF app assms(1)] appendEvents_frame [OF app] l show ?thesis
    by (simp add: sqlite_intent_def select_action_def fun_eq_iff)
qed

lemma sqlite_append_inv:
  assumes "sqlite_inv l" and "sqlite_AppendAll env es l = (e, l')"
  shows "sqlite_inv l' \<and> sqlite_claims l' = sqlite_claims l"
proof (cases e)
  case None
  with assms(2) have "sqlite_AppendAll env es l = (None, l')" by simp
  then show ?thesis
  proof (rule sqlite_append_Some)
    fix db db' assume "l = Some db" "l' = Some db'" and app: "appendEvents env 0 es db = Inr db'"
    with appendEvents_frame [OF app] assms(1) show ?thesis by (simp add: sqlite_views)
  qed
next
  case (Some cause)
  with sqlite_append_failed assms show ?thesis by metis
qed

lemma sqlite_claims_distinct: "sqlite_inv l \<Longrightarrow> distinct (sqlite_claims l)"
  by (cases l) (simp_all add: sqlite_views db_ok_def)

text \<open>
  The SQLite log is a journal for the facts and intents whose times it can read back, whatever calls
  to the database fail.
\<close>

interpretation sqlite: journal sqlite_BeginAttempt sqlite_AppendAll sqlite_claims sqlite_inv sqlite_facts
  sqlite_intent storable_fact storable_intent
proof
  show "extends (sqlite_facts l) es (sqlite_facts l')"
    if "list_all storable_fact es" "sqlite_BeginAttempt c a t es l = ((True, er), l')" for l l' c a t es er
    using that by (rule sqlite_begin_facts)
  show "(\<forall>b. sqlite_intent l (act_id a) = Some b \<longrightarrow> sameAction b a)
      \<and> (\<exists>b. sqlite_intent l' (act_id a) = Some b \<and> sameAction b a)
      \<and> (\<forall>i. i \<noteq> act_id a \<longrightarrow> sqlite_intent l' i = sqlite_intent l i)"
    if "storable_intent a" "sqlite_BeginAttempt c a t es l = ((True, er), l')" for l l' c a t es er
    using that by (rule sqlite_begin_intent)
  show "extends (sqlite_facts l) es (sqlite_facts l') \<and> sqlite_intent l' = sqlite_intent l"
    if "list_all storable_fact es" "sqlite_AppendAll c es l = (None, l')" for l l' c es
    using that by (rule sqlite_append_ok)
qed (fact sqlite_begin_won sqlite_begin_match sqlite_begin_lost sqlite_append_inv sqlite_append_failed
     sqlite_claims_distinct sqlite_facts_ids)+

end
