(* ===== verification/Journal_Refinement.thy ===== *)
theory Journal_Refinement
  imports Memory_Log Sqlite_Log
begin

text \<open>
  The SQLite log without database failures and the memory log with a live context are the same
  journal: a simulation between the tables of one and the maps of the other, under which every
  operation gives the same reply and every query the same answer, times compared as instants. It
  holds for facts and intents whose times have four-digit years, the ones a column can hold.
\<close>

definition row_shows :: "ExecutionEvent \<Rightarrow> event_row \<Rightarrow> bool" where
  "row_shows x row \<longleftrightarrow> (\<exists>y. event_of_row row = Some y \<and> same_fact y x)"

definition action_row_shows :: "Action \<Rightarrow> action_row \<Rightarrow> bool" where
  "action_row_shows a row \<longleftrightarrow> (\<exists>b. action_of_row row = Some b \<and> sameAction b a)"

definition logs_related :: "Log \<Rightarrow> DB \<Rightarrow> bool" where
  "logs_related l db \<longleftrightarrow> log_inv l \<and> db_ok db
     \<and> list_all2 row_shows (log_events l) (db_events db)
     \<and> log_attemptOrder l = map rt_attempt_id (db_attempts db)
     \<and> (\<forall>i. rel_option action_row_shows (log_actions l i) (select_action i db))"

lemma logs_related_new: "logs_related New_Log empty_db"
  by (simp add: logs_related_def New_Log_def empty_db_def db_ok_def log_inv_def select_action_def)

lemma row_shows_id: "row_shows x row \<Longrightarrow> re_event_id row = ev_id x"
  by (metis row_shows_def event_of_row_id same_fact_id)

lemma row_shows_self: "storable_fact e \<Longrightarrow> row_shows e (event_to_row e)"
  by (simp add: row_shows_def event_of_stored)

lemma related_ids:
  "list_all2 row_shows es rows \<Longrightarrow> map re_event_id rows = map ev_id es"
  by (induction rule: list_all2_induct) (simp_all add: row_shows_id)

lemma list_all2_set_left: "list_all2 P xs ys \<Longrightarrow> x \<in> set xs \<Longrightarrow> \<exists>y\<in>set ys. P x y"
  by (induction rule: list_all2_induct) auto

subsection \<open>Appending\<close>

text \<open>The lookup by identity finds the row that shows the recorded fact.\<close>

lemma related_find:
  assumes "list_all2 row_shows es rows" and "distinct (map ev_id es)" and "x \<in> set es"
  shows "\<exists>row. find (\<lambda>r. re_event_id r = ev_id x) rows = Some row \<and> row_shows x row"
  using assms
proof (induction rule: list_all2_induct)
  case (Cons y ys row rows)
  show ?case
  proof (cases "x = y")
    case True
    with Cons.hyps(1) show ?thesis by (simp add: row_shows_id)
  next
    case False
    with Cons.prems have "x \<in> set ys" and "ev_id x \<noteq> ev_id y" by (auto simp: image_iff)
    with Cons show ?thesis by (simp add: row_shows_id)
  qed
qed simp

lemma group_agrees_tail:
  assumes "group_agrees fs (e # es)"
  shows "group_agrees fs es" and "group_agrees (fs @ [e]) es"
  using assms by (auto simp: group_agrees_def)

lemma appendEvents_simulates:
  assumes "logs_related l db" and "group_agrees (log_events l) es" and "list_all storable_fact es"
  shows "\<exists>db'. appendEvents quiet_db n es db = Inr db' \<and> logs_related (appendPrepared l es) db'"
  using assms
proof (induction es arbitrary: l db n)
  case Nil
  then show ?case by simp
next
  case (Cons e es)
  have inv: "log_inv l" and rel: "list_all2 row_shows (log_events l) (db_events db)"
    using Cons.prems(1) by (simp_all add: logs_related_def)
  have e: "re_event_id (event_to_row e) = ev_id e" by (simp add: event_to_row_def)
  have ids: "re_event_id ` set (db_events db) = ev_id ` set (log_events l)"
    using related_ids [OF rel] by (metis list.set_map)
  have st: "storable_fact e" "list_all storable_fact es" using Cons.prems(3) by simp_all
  show ?case
  proof (cases "log_byID l (ev_id e)")
    case None
    let ?l = "l\<lparr>log_byID := (log_byID l)(ev_id e \<mapsto> e), log_events := log_events l @ [e]\<rparr>"
    let ?db = "db\<lparr>db_events := db_events db @ [event_to_row e]\<rparr>"
    have "ev_id e \<notin> re_event_id ` set (db_events db)"
      using log_inv_byID [OF inv, of e] None unfolding ids by simp
    then have ins: "insert_event (event_to_row e) db = (1, ?db)"
      by (auto simp: insert_event_def list_ex_iff e image_iff)
    have "logs_related ?l ?db"
      using Cons.prems(1) log_inv_append_one [OF inv None] db_ok_insert_event [OF _ ins] row_shows_self [OF st(1)]
      by (simp add: logs_related_def list_all2_appendI select_action_def)
    moreover have "group_agrees (log_events ?l) es" using group_agrees_tail(2) [OF Cons.prems(2)] by simp
    ultimately obtain db' where "appendEvents quiet_db (Suc n) es ?db = Inr db'"
      and "logs_related (appendPrepared ?l es) db'"
      using Cons.IH [OF _ _ st(2)] by blast
    with ins None show ?thesis by simp
  next
    case (Some x)
    then have x: "x \<in> set (log_events l)" "ev_id x = ev_id e" using inv by (simp_all add: log_inv_def)
    then have xe: "same_fact x e" using Cons.prems(2) by (auto simp: group_agrees_def)
    have "distinct (map ev_id (log_events l))" using inv by (simp add: log_inv_def)
    from related_find [OF rel this x(1)] obtain row y where sel: "select_event (ev_id e) db = Some row"
      and y: "event_of_row row = Some y" "same_fact y x"
      by (auto simp: select_event_def row_shows_def x(2))
    have "\<exists>r\<in>set (db_events db). re_event_id r = ev_id e" using select_event_Some [OF sel] by blast
    then have ins: "insert_event (event_to_row e) db = (0, db)"
      by (auto simp: insert_event_def list_ex_iff e)
    have "readEvent quiet_db row = Inr y" using y(1) by (simp add: event_of_row_iff [of _ _ quiet_db])
    moreover have "same_fact y e" using y(2) xe by (rule same_fact_trans)
    ultimately have step: "appendEvents quiet_db n (e # es) db = appendEvents quiet_db (Suc n) es db"
      using ins sel by simp
    from Cons.IH [OF Cons.prems(1) group_agrees_tail(1) [OF Cons.prems(2)] st(2)] obtain db' where
      "appendEvents quiet_db (Suc n) es db = Inr db'" "logs_related (appendPrepared l es) db'" by blast
    with step Some show ?thesis by simp
  qed
qed

text \<open>What the tables accept agrees with the facts recorded.\<close>

lemma appendEvents_agrees:
  assumes "logs_related l db" and "appendEvents env n es db = Inr db'" and "list_all storable_fact es"
  shows "group_agrees (log_events l) es"
proof -
  let ?shown = "\<lambda>row x. \<exists>y. event_of_row row = Some y \<and> same_fact y x"
  have distinct: "distinct (map re_event_id (db_events db'))"
    using appendEvents_frame [OF assms(2)] assms(1) by (simp add: logs_related_def db_ok_def)
  have recorded: "\<exists>row\<in>set (db_events db'). ?shown row x" if x: "x \<in> set (log_events l) \<union> set es" for x
  proof (cases "x \<in> set es")
    case True
    with appendEvents_recorded [OF assms(2,3)] show ?thesis by blast
  next
    case False
    then have "x \<in> set (log_events l)" using x by simp
    then have "\<exists>row\<in>set (db_events db). row_shows x row"
      using assms(1) by (meson logs_related_def list_all2_set_left)
    moreover have "set (db_events db) \<subseteq> set (db_events db')" using appendEvents_rows [OF assms(2)] by auto
    ultimately show ?thesis by (auto simp: row_shows_def)
  qed
  have "same_fact y x"
    if x: "x \<in> set es" and y: "y \<in> set (log_events l) \<union> set es" and same: "ev_id y = ev_id x" for x y
  proof -
    obtain r1 a where r1: "r1 \<in> set (db_events db')" "event_of_row r1 = Some a" "same_fact a x"
      using recorded [of x] x by blast
    obtain r2 b where r2: "r2 \<in> set (db_events db')" "event_of_row r2 = Some b" "same_fact b y"
      using recorded [OF y] by blast
    have "re_event_id r1 = re_event_id r2"
      using r1 r2 same by (metis event_of_row_id same_fact_id)
    then have "r1 = r2" using distinct r1(1) r2(1) by (auto simp: distinct_map dest: inj_onD)
    then have "same_fact b x" using r1 r2 by simp
    with r2(3) show ?thesis by (metis same_fact_sym same_fact_trans)
  qed
  then show ?thesis by (simp add: group_agrees_def)
qed

text \<open>The reply and the related states of one operation.\<close>

lemma append_simulates:
  assumes "logs_related l db" and "list_all storable_fact es"
  shows "\<exists>db'. sqlite_AppendAll quiet_db es (Some db) = (fst (sqlite_AppendAll quiet_db es (Some db)), Some db')
    \<and> (fst (sqlite_AppendAll quiet_db es (Some db)) = None) = (fst (memory_AppendAll None es l) = None)
    \<and> logs_related (snd (memory_AppendAll None es l)) db'"
proof (cases "group_agrees (log_events l) es")
  case True
  obtain db' where "appendEvents quiet_db 0 es db = Inr db'" "logs_related (appendPrepared l es) db'"
    using appendEvents_simulates [OF assms(1) True assms(2)] by blast
  moreover have "preflight l es = None"
    using True assms(1) preflight_None_iff by (simp add: logs_related_def)
  ultimately show ?thesis by (simp add: sqlite_AppendAll_def memory_AppendAll_def)
next
  case False
  then obtain e where "appendEvents quiet_db 0 es db = Inl e"
    using appendEvents_agrees [OF assms(1) _ assms(2)] by (metis sum.exhaust)
  moreover obtain e' where "preflight l es = Some e'"
    using False assms(1) preflight_None_iff by (metis logs_related_def not_None_eq)
  ultimately show ?thesis using assms(1) by (simp add: sqlite_AppendAll_def memory_AppendAll_def)
qed

text \<open>The comparison of intents decides alike in both logs.\<close>

lemma check_action_row:
  assumes "select_action (act_id a) db = Some row" and "action_row_shows b row"
  shows "check_action quiet_db a db = Inr () \<longleftrightarrow> sameAction b a"
proof -
  obtain c where "readAction quiet_db row = Inr c" and cb: "sameAction c b"
    using assms(2) by (auto simp: action_row_shows_def action_of_row_iff [of _ _ quiet_db])
  then have c: "act_id c = ra_action_id row" "act_target c = ra_target row" "act_name c = ra_name row"
    "act_input c = ra_input row" "ParseRFC3339Nano (ra_requested_at row) = Some (act_requestedAt c)"
    by (simp_all add: readAction_Inr_iff)
  then have "check_action quiet_db a db = Inr () \<longleftrightarrow> sameAction c a"
    using assms(1) by (auto simp: check_action_def parse_column_def sameAction_def)
  also have "\<dots> \<longleftrightarrow> sameAction b a" using cb sameAction_trans sameAction_sym by blast
  finally show ?thesis .
qed

lemma insert_action_zero:
  "insert_action (action_to_row a) db = (n, db1) \<Longrightarrow> n = 0 \<longleftrightarrow> select_action (act_id a) db \<noteq> None"
  by (auto simp: insert_action_def select_action_def action_to_row_def find_None_iff list_ex_iff split: if_splits)

lemma insert_action_old: "insert_action (action_to_row a) db = (0, db1) \<Longrightarrow> db1 = db"
  using insert_action_cases [of a db 0 db1] by simp

lemma insert_attempt_zero:
  "insert_attempt (attempt_to_row t) db = (k, db1) \<Longrightarrow> k = 0 \<longleftrightarrow> att_id t \<in> rt_attempt_id ` set (db_attempts db)"
  by (force simp: insert_attempt_def list_ex_iff attempt_to_row_def RecoveryOf_def split: if_splits)

lemma action_row_self: "storable_intent a \<Longrightarrow> action_row_shows a (action_to_row a)"
proof -
  assume a: "storable_intent a"
  let ?b = "a\<lparr>act_requestedAt := UTC (act_requestedAt a)\<rparr>"
  have "action_ok ?b" using a by (simp add: storable_intent_def action_ok_def)
  then have "action_of_row (action_to_row a) = Some ?b"
    unfolding action_of_row_iff [of _ _ quiet_db] readAction_Inr_iff
    using a by (simp add: action_to_row_def storable_intent_def format_storable)
  then show ?thesis by (simp add: action_row_shows_def sameAction_def)
qed

lemma action_row_same: "action_row_shows b row \<Longrightarrow> sameAction b a \<Longrightarrow> action_row_shows a row"
  unfolding action_row_shows_def using sameAction_trans by blast

text \<open>The tables and the maps after both have registered the intent and the claim.\<close>

lemma registered_related:
  assumes rel: "logs_related l db" and ia: "insert_action (action_to_row a) db = (n, db1)"
    and same: "\<forall>b. log_actions l (act_id a) = Some b \<longrightarrow> sameAction b a" and "storable_intent a"
    and fresh: "att_id t \<notin> log_attempts l"
    and db2: "db2 = db1\<lparr>db_attempts := db_attempts db @ [attempt_to_row t]\<rparr>" and ok: "db_ok db2"
  shows "logs_related (l\<lparr>log_attempts := insert (att_id t) (log_attempts l),
      log_actions := (log_actions l)(act_id a \<mapsto> a), log_attemptOrder := log_attemptOrder l @ [att_id t]\<rparr>) db2"
    (is "logs_related ?l db2")
proof -
  note cases = insert_action_cases [OF ia]
  have sel: "select_action i db2 = select_action i db1" for i by (simp add: db2 select_action_def)
  have "rel_option action_row_shows (((log_actions l)(act_id a \<mapsto> a)) i) (select_action i db2)" for i
  proof (cases "i = act_id a")
    case True
    have "rel_option action_row_shows (log_actions l i) (select_action i db)"
      using rel by (simp add: logs_related_def)
    then have at: "rel_option action_row_shows (log_actions l (act_id a)) (select_action (act_id a) db)" unfolding True .
    have "\<exists>row. select_action (act_id a) db1 = Some row \<and> action_row_shows a row"
    proof (cases "select_action (act_id a) db")
      case None
      then have "n \<noteq> 0" using insert_action_zero [OF ia] by simp
      with cases action_row_self [OF assms(4)] show ?thesis by simp
    next
      case (Some row)
      then have "n = 0" using insert_action_zero [OF ia] by simp
      then have "db1 = db" using ia insert_action_old by blast
      moreover obtain b where "log_actions l (act_id a) = Some b" "action_row_shows b row"
        using at Some by (auto simp: option_rel_Some2)
      ultimately show ?thesis using Some same action_row_same by blast
    qed
    then show ?thesis using True by (auto simp: sel)
  next
    case False
    have "rel_option action_row_shows (log_actions l i) (select_action i db)"
      using rel by (simp add: logs_related_def)
    moreover have "select_action i db1 = select_action i db" using cases False by (cases "n = 0") simp_all
    ultimately show ?thesis using False by (simp add: sel)
  qed
  moreover have "log_inv ?l" using log_inv_claim [OF _ fresh] rel by (simp add: logs_related_def)
  ultimately show ?thesis
    using rel cases ok by (simp add: logs_related_def db2 attempt_to_row_def RecoveryOf_def)
qed

text \<open>The guard on the intent decides alike.\<close>

lemma intent_guard:
  assumes at: "rel_option action_row_shows (log_actions l (act_id a)) (select_action (act_id a) db)"
    and ia: "insert_action (action_to_row a) db = (n, db1)"
  shows "(n = 0 \<longrightarrow> check_action quiet_db a db1 = Inr ())
    \<longleftrightarrow> (\<forall>b. log_actions l (act_id a) = Some b \<longrightarrow> sameAction b a)"
proof (cases "select_action (act_id a) db")
  case None
  then show ?thesis using at insert_action_zero [OF ia] by simp
next
  case (Some row)
  then have n: "n = 0" using insert_action_zero [OF ia] by simp
  then have db1: "db1 = db" using ia insert_action_old by blast
  obtain b where b: "log_actions l (act_id a) = Some b" "action_row_shows b row"
    using at Some by (auto simp: option_rel_Some2)
  show ?thesis using check_action_row [OF Some b(2)] n b(1) unfolding db1 by simp
qed

lemma begin_simulates:
  assumes rel: "logs_related l db" and es: "list_all storable_fact es" and a: "storable_intent a"
  shows "\<exists>db'. snd (sqlite_BeginAttempt quiet_db a t es (Some db)) = Some db'
    \<and> fst (fst (sqlite_BeginAttempt quiet_db a t es (Some db))) = fst (fst (memory_BeginAttempt None a t es l))
    \<and> logs_related (snd (memory_BeginAttempt None a t es l)) db'"
proof -
  obtain n db1 where ia: "insert_action (action_to_row a) db = (n, db1)" by (metis surj_pair)
  obtain k db2 where it: "insert_attempt (attempt_to_row t) db1 = (k, db2)" by (metis surj_pair)
  note cases = insert_action_cases [OF ia]
  have attempts: "db_attempts db1 = db_attempts db" using cases by (elim conjE)
  let ?match = "att_actionID t = act_id a \<and> (\<forall>x\<in>set es. ev_attemptID x = att_id t \<and> ev_actionID x = act_id a)"
  let ?same = "\<forall>b. log_actions l (act_id a) = Some b \<longrightarrow> sameAction b a"
  let ?fresh = "att_id t \<notin> log_attempts l"
  let ?l = "l\<lparr>log_attempts := insert (att_id t) (log_attempts l), log_actions := (log_actions l)(act_id a \<mapsto> a),
      log_attemptOrder := log_attemptOrder l @ [att_id t]\<rparr>"
  have at: "rel_option action_row_shows (log_actions l (act_id a)) (select_action (act_id a) db)"
    and order: "log_attempts l = rt_attempt_id ` set (db_attempts db)"
    using rel by (simp_all add: logs_related_def log_inv_def)
  note same = intent_guard [OF at ia]
  have fresh: "k = 0 \<longleftrightarrow> \<not> ?fresh"
    using insert_attempt_zero [OF it] unfolding attempts order by simp
  show ?thesis
  proof (cases "?match \<and> ?same \<and> ?fresh")
    case False
    then have "\<not> fst (fst (memory_BeginAttempt None a t es l))"
      and "snd (memory_BeginAttempt None a t es l) = l"
      by (auto simp: memory_BeginAttempt_def list_ex_iff split: option.splits)
    moreover have "\<not> fst (fst (sqlite_BeginAttempt quiet_db a t es (Some db)))"
    proof
      assume "fst (fst (sqlite_BeginAttempt quiet_db a t es (Some db)))"
      then obtain er l' where "sqlite_BeginAttempt quiet_db a t es (Some db) = ((True, er), l')"
        by (metis prod.collapse)
      then show False using False same fresh ia it
        by (auto simp: sqlite_BeginAttempt_def begin_tx_def list_ex_iff split: if_splits sum.splits option.splits)
    qed
    moreover have "snd (sqlite_BeginAttempt quiet_db a t es (Some db)) = Some db"
      using calculation(3) sqlite_begin_lost [of quiet_db a t es "Some db"] by (metis prod.collapse)
    ultimately show ?thesis using rel by simp
  next
    case True
    from insert_attempt_new [OF it] fresh True cases have
      "db2 = db1\<lparr>db_attempts := db_attempts db @ [attempt_to_row t]\<rparr>" and "db_ok db2"
      using rel by (auto simp: logs_related_def)
    with registered_related [OF rel ia _ a] True have rel2: "logs_related ?l db2" by blast
    have chk: "(if n = 0 then check_action quiet_db a db1 else Inr ()) = Inr ()" using same True by simp
    have tx: "begin_tx quiet_db a t es db =
        result_bind (appendEvents quiet_db 0 es db2) (\<lambda>db3. Inr (Some db3))"
      using ia it fresh True chk by (simp add: begin_tx_def)
    have sq: "sqlite_BeginAttempt quiet_db a t es (Some db) =
        (case appendEvents quiet_db 0 es db2 of Inl e \<Rightarrow> ((False, Some e), Some db)
         | Inr db3 \<Rightarrow> ((True, None), Some db3))"
      using True by (auto simp: sqlite_BeginAttempt_def tx list_ex_iff split: sum.splits)
    have mem: "memory_BeginAttempt None a t es l =
        (case preflight l es of Some e \<Rightarrow> ((False, Some e), l) | None \<Rightarrow> ((True, None), appendPrepared ?l es))"
      using True by (auto simp: memory_BeginAttempt_def list_ex_iff split: option.splits)
    show ?thesis
    proof (cases "group_agrees (log_events l) es")
      case True
      with appendEvents_simulates [OF rel2 _ es] obtain db' where "appendEvents quiet_db 0 es db2 = Inr db'"
        "logs_related (appendPrepared ?l es) db'" by force
      moreover have "preflight l es = None"
        using True rel preflight_None_iff by (simp add: logs_related_def)
      ultimately show ?thesis by (simp add: sq mem)
    next
      case False
      then obtain e where "appendEvents quiet_db 0 es db2 = Inl e"
        using appendEvents_agrees [OF rel2 _ es] by (cases "appendEvents quiet_db 0 es db2") auto
      moreover obtain e' where "preflight l es = Some e'"
        using False rel preflight_None_iff by (metis logs_related_def not_None_eq)
      ultimately show ?thesis using rel by (simp add: sq mem)
    qed
  qed
qed

subsection \<open>Sequences of operations and queries\<close>

abbreviation on_memory :: "unit journal_op \<Rightarrow> err option journal_op" where
  "on_memory \<equiv> map_journal_op (\<lambda>_. None)"

abbreviation on_sqlite :: "unit journal_op \<Rightarrow> db_env journal_op" where
  "on_sqlite \<equiv> map_journal_op (\<lambda>_. quiet_db)"

lemma step_simulates:
  assumes "logs_related l db" and "op_storable storable_fact storable_intent x"
  shows "\<exists>db'. memory.jstep (on_memory x) l = (fst (sqlite.jstep (on_sqlite x) (Some db)), snd (memory.jstep (on_memory x) l))
    \<and> snd (sqlite.jstep (on_sqlite x) (Some db)) = Some db' \<and> logs_related (snd (memory.jstep (on_memory x) l)) db'"
proof (cases x)
  case (OpBegin c a t es)
  with begin_simulates [OF assms(1), of es a t] assms(2) show ?thesis
    by (auto split: prod.splits)
next
  case (OpAppend c es)
  with append_simulates [OF assms(1), of es] assms(2) show ?thesis
    by (auto split: prod.splits)
qed

lemma run_simulates:
  assumes "logs_related l db" and "list_all (op_storable storable_fact storable_intent) xs"
  shows "\<exists>rs l' db'. memory.jrun (map on_memory xs) l = (rs, l')
    \<and> sqlite.jrun (map on_sqlite xs) (Some db) = (rs, Some db') \<and> logs_related l' db'"
  using assms
proof (induction xs arbitrary: l db)
  case Nil
  then show ?case by simp
next
  case (Cons x xs)
  obtain r l1 where m: "memory.jstep (on_memory x) l = (r, l1)" by (metis surj_pair)
  obtain r' s1 where s: "sqlite.jstep (on_sqlite x) (Some db) = (r', s1)" by (metis surj_pair)
  from step_simulates [OF Cons.prems(1), of x] Cons.prems(2) m s obtain db1
    where "r' = r" "s1 = Some db1" and rel: "logs_related l1 db1"
    by auto
  from Cons.IH [OF rel] Cons.prems(2) obtain rs l' db' where
    "memory.jrun (map on_memory xs) l1 = (rs, l')" "sqlite.jrun (map on_sqlite xs) (Some db1) = (rs, Some db')"
    "logs_related l' db'" by auto
  with m s \<open>r' = r\<close> \<open>s1 = Some db1\<close> show ?case by simp
qed

lemma read_events_shown:
  "list_all2 row_shows es rows \<Longrightarrow>
     \<exists>ys. read_events env rows acc = Inr (acc @ ys) \<and> list_all2 same_fact ys es"
proof (induction arbitrary: acc rule: list_all2_induct)
  case (Cons x xs row rows)
  from Cons.hyps(1) obtain y where y: "readEvent env row = Inr y" "same_fact y x"
    by (auto simp: row_shows_def event_of_row_iff [of _ _ env])
  obtain ys where "read_events env rows (acc @ [y]) = Inr ((acc @ [y]) @ ys)" "list_all2 same_fact ys xs"
    using Cons.IH by blast
  with y show ?case by (intro exI [of _ "y # ys"]) simp
qed simp

lemma related_filter:
  "list_all2 row_shows es rows \<Longrightarrow>
     list_all2 row_shows (filter (\<lambda>x. ev_attemptID x = t) es) (filter (\<lambda>r. re_attempt_id r = t) rows)"
proof (induction rule: list_all2_induct)
  case (Cons x xs row rows)
  then have "re_attempt_id row = ev_attemptID x"
    by (auto simp: row_shows_def event_of_row_iff [of _ _ quiet_db] readEvent_Inr_iff same_fact_def)
  with Cons show ?case by simp
qed simp

lemma queries_simulate:
  assumes "logs_related l db"
  shows "\<exists>ys. sqlite_EventsByAttempt quiet_db t (Some db) = (ys, None)
      \<and> list_all2 same_fact ys (fst (memory_EventsByAttempt None t l))"
    and "sqlite_AttemptIDs quiet_db (Some db) = memory_AttemptIDs None l"
    and "\<exists>b. sqlite_ActionByID quiet_db i (Some db) = (b, snd (memory_ActionByID None i l))
      \<and> sameAction b (fst (memory_ActionByID None i l))"
proof -
  have rel: "list_all2 row_shows (log_events l) (db_events db)"
    and act: "rel_option action_row_shows (log_actions l i) (select_action i db)"
    and order: "log_attemptOrder l = map rt_attempt_id (db_attempts db)"
    using assms by (simp_all add: logs_related_def)
  from read_events_shown [OF related_filter [OF rel, of t], of quiet_db "[]"]
  show "\<exists>ys. sqlite_EventsByAttempt quiet_db t (Some db) = (ys, None)
      \<and> list_all2 same_fact ys (fst (memory_EventsByAttempt None t l))"
    by (auto simp: sqlite_EventsByAttempt_def memory_EventsByAttempt_def delivered_def)
  show "sqlite_AttemptIDs quiet_db (Some db) = memory_AttemptIDs None l"
    by (simp add: sqlite_AttemptIDs_def memory_AttemptIDs_def delivered_def order)
  show "\<exists>b. sqlite_ActionByID quiet_db i (Some db) = (b, snd (memory_ActionByID None i l))
      \<and> sameAction b (fst (memory_ActionByID None i l))"
    using act by (auto simp: sqlite_ActionByID_def memory_ActionByID_def rel_option_iff action_row_shows_def
        action_of_row_iff [of _ _ quiet_db] split: option.splits)
qed

end
