(* ===== verification/Sqlite_Properties.thy ===== *)
theory Sqlite_Properties
  imports Journal_Refinement
begin

text \<open>
  The properties of the SQLite log: claims under any failures of the database, all-or-nothing groups,
  the round trip through the columns, the times a column cannot give back, and the equivalence with
  the memory log.
\<close>

subsection \<open>Examples\<close>

lemma example_time_storable [simp]: "time_storable \<lparr>t_ns = 1, t_off = 0\<rparr>"
proof -
  have "local_year \<lparr>t_ns = 1, t_off = 0\<rparr> = 1" by code_simp
  then show ?thesis by (simp add: time_storable_def UTC_def)
qed

lemma example_clock: "time_storable \<lparr>t_ns = 2, t_off = 0\<rparr>"
proof -
  have "local_year \<lparr>t_ns = 2, t_off = 0\<rparr> = 1" by code_simp
  then show ?thesis by (simp add: time_storable_def UTC_def)
qed

lemma visible_examples [simp]: "text_ok ''a''" "text_ok ''t''" "text_ok ''1''" "text_ok ''2''" "text_ok ''lamp''" "text_ok ''turn_on''"
  by (rule visible_text_ok; simp add: visible_def code_def)+

lemma example_fact_storable:
  "text_ok i \<Longrightarrow> kind_valid k \<Longrightarrow> storable_fact (example_fact i k)"
  by (simp add: storable_fact_def event_ok_def example_fact_def IsZero_def)

lemma example_action_storable: "storable_intent example_action"
  by (simp add: storable_intent_def action_ok_def example_action_def IsZero_def)

subsection \<open>Claims and groups under failures\<close>

text \<open>C9: in a SQLite log opened on empty tables, whatever sequence of claims and appends it has served
  and whichever calls to the database failed, with whatever errors, each attempt identity was claimed
  with success at most once, the rows of \<open>attempts\<close> are exactly the successful claims in their
  order, and the keys of all three tables stay distinct.\<close>

theorem sqlite_claims_once:
  "case journal_run sqlite_BeginAttempt sqlite_AppendAll ops (Some empty_db) of (rs, l) \<Rightarrow>
     \<exists>db. l = Some db \<and> map rt_attempt_id (db_attempts db) = claimed_ids rs \<and> distinct (claimed_ids rs) \<and> db_ok db"
proof -
  obtain rs l where run: "journal_run sqlite_BeginAttempt sqlite_AppendAll ops (Some empty_db) = (rs, l)"
    by (metis surj_pair)
  have inv0: "sqlite_inv (Some empty_db)" by (simp add: sqlite_inv_def)
  have step: "\<exists>db'. snd (sqlite.jstep x (Some db)) = Some db'" for x db
  proof (cases x)
    case (OpBegin c a t es)
    then show ?thesis by (auto simp: sqlite_BeginAttempt_def split: option.splits sum.splits if_splits)
  next
    case (OpAppend c es)
    then show ?thesis by (auto simp: sqlite_AppendAll_def split: sum.splits)
  qed
  have "\<exists>db'. snd (sqlite.jrun xs (Some db)) = Some db'" for xs db
  proof (induction xs arbitrary: db)
    case (Cons x xs)
    obtain r s where st: "sqlite.jstep x (Some db) = (r, s)" by (metis surj_pair)
    with step [of x db] obtain db1 where "s = Some db1" by auto
    with Cons.IH [of db1] st show ?case by (auto split: prod.splits)
  qed simp
  from this [of ops empty_db] obtain db where l: "l = Some db" using run by auto
  from sqlite.run_claims [OF inv0 run] have inv: "sqlite_inv l" and "sqlite_claims l = claimed_ids rs"
    by (simp_all add: sqlite_claims_def empty_db_def)
  with sqlite_claims_distinct [OF inv] l run show ?thesis by (simp add: sqlite_claims_def sqlite_inv_def)
qed

text \<open>C11: a group of facts is stored whole or not at all. Whichever calls to the database fail,
  \<open>AppendAll\<close> either reports an error and leaves the tables as they were, or reports none, and then every
  fact of the group is readable from the log, after the facts that were there, which are all kept;
  nothing else is added and no claim or intent changes.\<close>

theorem sqlite_append_all_or_nothing:
  assumes "sqlite_inv l" and "list_all storable_fact es" and "sqlite_AppendAll env es l = (e, l')"
  shows "if e = None
    then extends (sqlite_facts l) es (sqlite_facts l') \<and> sqlite_intent l' = sqlite_intent l
      \<and> sqlite_claims l' = sqlite_claims l \<and> sqlite_inv l'
    else l' = l"
proof (cases e)
  case None
  with sqlite_append_ok [OF assms(2)] sqlite_append_inv [OF assms(1)] assms(3) show ?thesis by simp
next
  case (Some cause)
  with sqlite_append_failed assms(3) show ?thesis by auto
qed

definition failing_commit :: db_env where
  "failing_commit = quiet_db\<lparr>env_fault := (\<lambda>call. if call = CommitTx then Some (Message ''disk full'') else None)\<rparr>"

lemma sqlite_append_all_or_nothing_witness:
  "sqlite_AppendAll failing_commit [example_fact ''1'' EventActionAdmitted] (Some empty_db)
     = (Some (Message ''disk full''), Some empty_db)
   \<and> (\<exists>l'. sqlite_AppendAll quiet_db [example_fact ''1'' EventActionAdmitted] (Some empty_db) = (None, l')
        \<and> extends [] [example_fact ''1'' EventActionAdmitted] (sqlite_facts l'))"
proof -
  have st: "list_all storable_fact [example_fact ''1'' EventActionAdmitted]"
    by (simp add: example_fact_storable)
  have inv: "sqlite_inv (Some empty_db)" by (simp add: sqlite_inv_def)
  have "fst (sqlite_AppendAll failing_commit [example_fact ''1'' EventActionAdmitted] (Some empty_db))
      = Some (Message ''disk full'')"
    by (simp add: sqlite_AppendAll_def failing_commit_def db_call_ok_def insert_event_def empty_db_def)
  moreover have "fst (sqlite_AppendAll quiet_db [example_fact ''1'' EventActionAdmitted] (Some empty_db)) = None"
    by (simp add: sqlite_AppendAll_def insert_event_def empty_db_def)
  moreover have "sqlite_facts (Some empty_db) = []" by (simp add: sqlite_facts_def empty_db_def)
  ultimately show ?thesis
    using sqlite_append_all_or_nothing [OF inv st, of failing_commit]
      sqlite_append_all_or_nothing [OF inv st, of quiet_db]
    by (metis (no_types, lifting) option.distinct(1) prod.collapse)
qed

subsection \<open>The columns\<close>

text \<open>C18: a fact or an intent that the constructors accept and whose times have a year from 0 to 9999
  comes back from its row as an equal one, whatever the driver's environment: \<open>readEvent\<close> and the
  reading of \<open>ActionByID\<close> invert the inserts, the times given back in UTC.\<close>

theorem sqlite_row_roundtrip:
  assumes "storable_fact e" and "storable_intent a"
  shows "(\<exists>x. readEvent env (event_to_row e) = Inr x \<and> same_fact x e
      \<and> ev_occurredAt x = UTC (ev_occurredAt e) \<and> ev_recordedAt x = UTC (ev_recordedAt e))
    \<and> (\<exists>b. readAction env (action_to_row a) = Inr b \<and> sameAction b a)"
proof
  show "\<exists>x. readEvent env (event_to_row e) = Inr x \<and> same_fact x e
      \<and> ev_occurredAt x = UTC (ev_occurredAt e) \<and> ev_recordedAt x = UTC (ev_recordedAt e)"
    using read_event_row [OF assms(1), of env] by (intro exI [of _ "stored_fact e"]) (simp add: stored_fact_def same_fact_def)
  show "\<exists>b. readAction env (action_to_row a) = Inr b \<and> sameAction b a"
    using action_row_self [OF assms(2)] by (auto simp: action_row_shows_def action_of_row_iff [of _ _ env])
qed

lemma sqlite_row_roundtrip_witness:
  "(\<exists>x. readEvent quiet_db (event_to_row (example_fact ''1'' EventActionAdmitted)) = Inr x
        \<and> same_fact x (example_fact ''1'' EventActionAdmitted))
   \<and> (\<exists>b. readAction quiet_db (action_to_row example_action) = Inr b \<and> sameAction b example_action)"
proof -
  have "storable_fact (example_fact ''1'' EventActionAdmitted)" by (simp add: example_fact_storable)
  from sqlite_row_roundtrip [OF this example_action_storable, of quiet_db] show ?thesis by blast
qed

text \<open>The first instant of the year 10000, and the text its column gets.\<close>

definition year_10000 :: gtime where
  "year_10000 = \<lparr>t_ns = 315537897600 * 1000000000, t_off = 0\<rparr>"

lemma year_10000_text: "formatTime year_10000 = ''10000-01-01T00:00:00Z''"
  unfolding year_10000_def by code_simp

lemma year_10000_unreadable: "ParseRFC3339Nano ''10000-01-01T00:00:00Z'' = None"
  by code_simp

lemma readEvent_Inl: "readEvent env row = Inl e \<Longrightarrow> errorsIs e Sqlite_ErrCorruptData"
  by (auto simp: readEvent_def parse_column_def corrupt_def wrap_err_def split: option.splits sum.splits)

lemma read_events_corrupt:
  "row \<in> set rows \<Longrightarrow> readEvent env row = Inl e \<Longrightarrow>
     \<exists>e'. read_events env rows acc = Inl e' \<and> errorsIs e' Sqlite_ErrCorruptData"
proof (induction rows arbitrary: acc)
  case (Cons r rows)
  show ?case
  proof (cases "readEvent env r")
    case (Inl e')
    then show ?thesis by (simp add: readEvent_Inl)
  next
    case (Inr x)
    with Cons show ?thesis by auto
  qed
qed simp

text \<open>C24: a time the constructors accept may not be readable once stored: a fact of the year 10000 is
  accepted by \<open>AppendAll\<close> without an error, and from then on \<open>EventsByAttempt\<close> of its attempt fails
  with \<open>ErrCorruptData\<close>, so every fact of that attempt is out of reach.\<close>

theorem sqlite_year_10000_loses_attempt:
  assumes "select_event (ev_id e) db = None" and "ev_occurredAt e = year_10000"
  shows "\<exists>db' cause. sqlite_AppendAll quiet_db [e] (Some db) = (None, Some db')
    \<and> sqlite_EventsByAttempt quiet_db (ev_attemptID e) (Some db') = ([], Some cause)
    \<and> errorsIs cause Sqlite_ErrCorruptData"
proof -
  let ?db = "db\<lparr>db_events := db_events db @ [event_to_row e]\<rparr>"
  have "insert_event (event_to_row e) db = (1, ?db)"
    using assms(1) by (auto simp: insert_event_def select_event_def find_None_iff list_ex_iff event_to_row_def)
  then have ap: "sqlite_AppendAll quiet_db [e] (Some db) = (None, Some ?db)" by (simp add: sqlite_AppendAll_def)
  have "\<exists>err. readEvent quiet_db (event_to_row e) = Inl err"
    by (simp add: readEvent_def event_to_row_def assms(2) year_10000_text parse_column_def year_10000_unreadable)
  then obtain err where err: "readEvent quiet_db (event_to_row e) = Inl err" ..
  have "event_to_row e \<in> set (filter (\<lambda>row. re_attempt_id row = ev_attemptID e) (db_events ?db))"
    by (simp add: event_to_row_def)
  from read_events_corrupt [OF this err, of "[]"] ap show ?thesis
    by (auto simp: sqlite_EventsByAttempt_def delivered_def)
qed

lemma sqlite_year_10000_loses_attempt_witness:
  "\<exists>e db' cause. NewExecutionEvent \<lparr>xs_ID = ''1'', xs_ActionID = ''a'', xs_AttemptID = ''t'', xs_Kind = EventActionAdmitted,
        xs_OccurredAt = year_10000, xs_RecordedAt = year_10000, xs_Data = []\<rparr> = Inr e
     \<and> sqlite_AppendAll quiet_db [e] (Some empty_db) = (None, Some db')
     \<and> sqlite_EventsByAttempt quiet_db ''t'' (Some db') = ([], Some cause) \<and> errorsIs cause Sqlite_ErrCorruptData"
proof -
  let ?e = "(example_fact ''1'' EventActionAdmitted)\<lparr>ev_occurredAt := year_10000, ev_recordedAt := year_10000\<rparr>"
  have new: "NewExecutionEvent \<lparr>xs_ID = ''1'', xs_ActionID = ''a'', xs_AttemptID = ''t'', xs_Kind = EventActionAdmitted,
      xs_OccurredAt = year_10000, xs_RecordedAt = year_10000, xs_Data = []\<rparr> = Inr ?e"
    by (simp add: NewExecutionEvent_Inr_iff event_ok_def example_fact_def year_10000_def IsZero_def)
  have "select_event (ev_id ?e) empty_db = None" by (simp add: select_event_def empty_db_def)
  from sqlite_year_10000_loses_attempt [OF this] new show ?thesis by force
qed

subsection \<open>Both logs are one journal\<close>

text \<open>C4: the SQLite log refines the memory log. From an empty log, any sequence of claims and appends
  of readable facts and intents gets the same replies from both, when no call to the database fails
  and no context is cancelled; afterwards both report the same claims in the same order, the same
  facts of every attempt and the same intent of every action, times compared as instants.\<close>

theorem sqlite_refines_memory:
  assumes "list_all (op_storable storable_fact storable_intent) ops"
  shows "\<exists>rs l s. journal_run memory_BeginAttempt memory_AppendAll (map on_memory ops) New_Log = (rs, l)
    \<and> journal_run sqlite_BeginAttempt sqlite_AppendAll (map on_sqlite ops) (Some empty_db) = (rs, s)
    \<and> sqlite_AttemptIDs quiet_db s = memory_AttemptIDs None l
    \<and> (\<forall>t. list_all2 same_fact (fst (sqlite_EventsByAttempt quiet_db t s)) (fst (memory_EventsByAttempt None t l)))
    \<and> (\<forall>i. snd (sqlite_ActionByID quiet_db i s) = snd (memory_ActionByID None i l)
         \<and> sameAction (fst (sqlite_ActionByID quiet_db i s)) (fst (memory_ActionByID None i l)))"
proof -
  from run_simulates [OF logs_related_new assms] obtain rs l db where
    "memory.jrun (map on_memory ops) New_Log = (rs, l)" "sqlite.jrun (map on_sqlite ops) (Some empty_db) = (rs, Some db)"
    and rel: "logs_related l db" by blast
  moreover have "list_all2 same_fact (fst (sqlite_EventsByAttempt quiet_db t (Some db))) (fst (memory_EventsByAttempt None t l))" for t
    using queries_simulate(1) [OF rel, of t] by auto
  moreover have "snd (sqlite_ActionByID quiet_db i (Some db)) = snd (memory_ActionByID None i l)
      \<and> sameAction (fst (sqlite_ActionByID quiet_db i (Some db))) (fst (memory_ActionByID None i l))" for i
    using queries_simulate(3) [OF rel, of i] by auto
  ultimately show ?thesis using queries_simulate(2) [OF rel] by blast
qed

lemma sqlite_refines_memory_witness:
  "\<exists>rs l s. journal_run memory_BeginAttempt memory_AppendAll
        (map on_memory [OpBegin () example_action example_attempt [example_fact ''1'' EventActionRequested],
           OpBegin () example_action example_attempt [], OpAppend () [example_fact ''2'' EventAttemptStarted]]) New_Log
      = (rs, l)
    \<and> journal_run sqlite_BeginAttempt sqlite_AppendAll
        (map on_sqlite [OpBegin () example_action example_attempt [example_fact ''1'' EventActionRequested],
           OpBegin () example_action example_attempt [], OpAppend () [example_fact ''2'' EventAttemptStarted]]) (Some empty_db)
      = (rs, s) \<and> sqlite_AttemptIDs quiet_db s = memory_AttemptIDs None l"
proof -
  have "list_all (op_storable storable_fact storable_intent)
      [OpBegin () example_action example_attempt [example_fact ''1'' EventActionRequested],
       OpBegin () example_action example_attempt [], OpAppend () [example_fact ''2'' EventAttemptStarted]]"
    by (simp add: example_action_storable example_fact_storable)
  from sqlite_refines_memory [OF this] show ?thesis by blast
qed

subsection \<open>Unusable logs\<close>

text \<open>\<open>Open\<close> refuses a blank path and one with surrounding white space with \<open>ErrInvalidConfig\<close>
  before it touches the database, and reports the first failing call otherwise; every operation of a
  nil log is refused with \<open>ErrInvalidConfig\<close>, gives no data and claims nothing, while \<open>Close\<close> of a nil
  log is no error.\<close>

lemma sqlite_unusable_log:
  "(\<not> text_ok path \<longrightarrow> (\<exists>e. sqlite_Open env path db = Inl e \<and> errorsIs e Sqlite_ErrInvalidConfig))
   \<and> (text_ok path \<longrightarrow> sqlite_Open quiet_db path db = Inr (Some db))
   \<and> errorsIs nil_log Sqlite_ErrInvalidConfig
   \<and> sqlite_BeginAttempt env a t es None = ((False, Some nil_log), None)
   \<and> sqlite_AppendAll env es None = (Some nil_log, None)
   \<and> sqlite_EventsByAttempt env i None = ([], Some nil_log)
   \<and> sqlite_ActionByID env j None = (zero_action, False, Some nil_log)
   \<and> sqlite_AttemptIDs env None = ([], Some nil_log) \<and> Close_sqlite closed None = None"
proof -
  have "initialize_loop quiet_db ns = Inr ()" for ns by (induction ns) simp_all
  then show ?thesis
    by (auto simp: sqlite_Open_def sqlite_initialize_def text_ok_def nil_log_def sqlite_BeginAttempt_def sqlite_AppendAll_def
        sqlite_EventsByAttempt_def sqlite_ActionByID_def sqlite_AttemptIDs_def Close_sqlite_def)
qed

end
