(* ===== verification/Core_Provider.thy ===== *)
theory Core_Provider
  imports Core_Evidence
begin

text \<open>
  The values of \<open>provider.go\<close>: a resolved target, a receipt and the dispatch knowledge a provider
  returns (prefixes \<open>rt_\<close>, \<open>rc_\<close> and \<open>dr_\<close>). The pointer \<open>*Receipt\<close> of the specification is an option.
\<close>

record ResolvedTarget =
  tgt_provider :: string
  tgt_endpoint :: bytes

definition zero_target :: ResolvedTarget where
  "zero_target = \<lparr>tgt_provider = [], tgt_endpoint = []\<rparr>"

definition NewResolvedTarget :: "string \<Rightarrow> bytes \<Rightarrow> err + ResolvedTarget" where
  "NewResolvedTarget provider endpoint =
    (case validateText ''provider'' provider of
       Some e \<Rightarrow> Inl (wrap_err ErrInvalidResolvedTarget e)
     | None \<Rightarrow> Inr \<lparr>tgt_provider = provider, tgt_endpoint = endpoint\<rparr>)"

record ReceiptSpec =
  rs_Provider :: string
  rs_AttemptID :: AttemptID
  rs_ReceivedAt :: gtime
  rs_Evidence :: bytes

record Receipt =
  rc_provider :: string
  rc_attemptID :: AttemptID
  rc_receivedAt :: gtime
  rc_evidence :: bytes

definition zero_receipt :: Receipt where
  "zero_receipt = \<lparr>rc_provider = [], rc_attemptID = [], rc_receivedAt = zero_time, rc_evidence = []\<rparr>"

definition NewReceipt :: "ReceiptSpec \<Rightarrow> err + Receipt" where
  "NewReceipt spec =
    (case validateText ''provider'' (rs_Provider spec) of
       Some e \<Rightarrow> Inl (wrap_err ErrInvalidReceipt e)
     | None \<Rightarrow>
     (case validateIdentity ''attempt ID'' (rs_AttemptID spec) of
       Some e \<Rightarrow> Inl (wrap_err ErrInvalidReceipt e)
     | None \<Rightarrow>
       if IsZero (rs_ReceivedAt spec)
       then Inl (wrap_msg ErrInvalidReceipt ''received time is required'')
       else Inr \<lparr>rc_provider = rs_Provider spec, rc_attemptID = rs_AttemptID spec,
                 rc_receivedAt = rs_ReceivedAt spec, rc_evidence = rs_Evidence spec\<rparr>))"

record DispatchResultSpec =
  ds_Provider :: string
  ds_AttemptID :: AttemptID
  ds_Status :: DispatchStatus
  ds_Receipt :: "Receipt option"

record DispatchResult =
  dr_provider :: string
  dr_attemptID :: AttemptID
  dr_status :: DispatchStatus
  dr_receipt :: Receipt
  dr_hasReceipt :: bool

definition zero_dispatch :: DispatchResult where
  "zero_dispatch =
    \<lparr>dr_provider = [], dr_attemptID = [], dr_status = 0, dr_receipt = zero_receipt, dr_hasReceipt = False\<rparr>"

definition NewDispatchResult :: "DispatchResultSpec \<Rightarrow> err + DispatchResult" where
  "NewDispatchResult spec =
    (case validateText ''provider'' (ds_Provider spec) of
       Some e \<Rightarrow> Inl (wrap_err ErrInvalidDispatchResult e)
     | None \<Rightarrow>
     (case validateIdentity ''attempt ID'' (ds_AttemptID spec) of
       Some e \<Rightarrow> Inl (wrap_err ErrInvalidDispatchResult e)
     | None \<Rightarrow>
       if \<not> dispatch_valid (ds_Status spec)
       then Inl (Errorf [W (Sentinel ErrInvalidDispatchResult), T '': dispatch status '', D (unat (ds_Status spec))])
       else if ds_Status spec = DispatchAcknowledged \<and> ds_Receipt spec = None
       then Inl (wrap_msg ErrInvalidDispatchResult ''acknowledged status requires a receipt'')
       else if ds_Status spec \<noteq> DispatchAcknowledged \<and> ds_Receipt spec \<noteq> None
       then Inl (wrap_msg ErrInvalidDispatchResult ''receipt requires acknowledged status'')
       else
         let result = \<lparr>dr_provider = ds_Provider spec, dr_attemptID = ds_AttemptID spec,
                       dr_status = ds_Status spec, dr_receipt = zero_receipt, dr_hasReceipt = False\<rparr>
         in (case ds_Receipt spec of
               None \<Rightarrow> Inr result
             | Some receipt \<Rightarrow>
                 if rc_provider receipt \<noteq> ds_Provider spec
                 then Inl (wrap_msg ErrInvalidDispatchResult ''receipt provider does not match result'')
                 else if rc_attemptID receipt \<noteq> ds_AttemptID spec
                 then Inl (wrap_msg ErrInvalidDispatchResult ''receipt attempt does not match result'')
                 else Inr (result\<lparr>dr_receipt := receipt, dr_hasReceipt := True\<rparr>))))"

text \<open>The method \<open>Receipt\<close> of a dispatch result.\<close>

definition dispatch_Receipt :: "DispatchResult \<Rightarrow> Receipt option" where
  "dispatch_Receipt r = (if dr_hasReceipt r then Some (dr_receipt r) else None)"

subsection \<open>Admissible results\<close>

text \<open>
  The values of type \<open>DispatchResult\<close> a Go program can hold: its fields are private, so a value is the
  zero value or comes from the constructor.
\<close>

definition dispatch_ok :: "DispatchResult \<Rightarrow> bool" where
  "dispatch_ok r \<longleftrightarrow> r = zero_dispatch \<or>
     text_ok (dr_provider r) \<and> text_ok (dr_attemptID r) \<and> dispatch_valid (dr_status r)
     \<and> (dr_hasReceipt r \<longleftrightarrow> dr_status r = DispatchAcknowledged)
     \<and> (if dr_hasReceipt r
        then rc_provider (dr_receipt r) = dr_provider r \<and> rc_attemptID (dr_receipt r) = dr_attemptID r
        else dr_receipt r = zero_receipt)"

lemma NewDispatchResult_Inr_iff:
  "NewDispatchResult spec = Inr r \<longleftrightarrow>
     dispatch_ok r \<and> text_ok (dr_provider r) \<and> dr_provider r = ds_Provider spec
     \<and> dr_attemptID r = ds_AttemptID spec \<and> dr_status r = ds_Status spec
     \<and> dispatch_Receipt r = ds_Receipt spec"
  by (cases r; cases "ds_Receipt spec")
     (auto simp: NewDispatchResult_def dispatch_ok_def dispatch_Receipt_def zero_dispatch_def Let_def)

lemma NewDispatchResult_Inl:
  "NewDispatchResult spec = Inl e \<Longrightarrow> errorsIs e t \<longleftrightarrow> t = ErrInvalidDispatchResult"
  by (auto simp: NewDispatchResult_def Let_def split: if_splits option.splits)

lemma dispatch_ok_zero [simp]: "dispatch_ok zero_dispatch"
  by (simp add: dispatch_ok_def)

lemma zero_dispatch_simps [simp]:
  "dr_provider zero_dispatch = []" "dr_attemptID zero_dispatch = []"
  "dr_status zero_dispatch = DispatchUnknown" "dispatch_Receipt zero_dispatch = None"
  by (simp_all add: zero_dispatch_def dispatch_Receipt_def status_defs)

lemma dispatch_ok_valid: "dispatch_ok r \<Longrightarrow> dispatch_valid (dr_status r)"
  by (auto simp: dispatch_ok_def zero_dispatch_def dispatch_valid_def status_defs)

lemma dispatch_ok_receipt:
  "dispatch_ok r \<Longrightarrow> dispatch_Receipt r \<noteq> None \<longleftrightarrow> dr_status r = DispatchAcknowledged"
  by (auto simp: dispatch_ok_def dispatch_Receipt_def zero_dispatch_def status_defs)

end
