(* ===== verification/Exec_Program.thy ===== *)
theory Exec_Program
  imports Core_Event Core_Provider
begin

text \<open>
  The use cases of package \<open>execution\<close> talk to ports: the clock, the journal and its readers, the
  admitter, resolver, provider, observer and verifier that the composition root supplies. A use case
  is a value of type \<open>prog\<close>: its next call with the arguments, and what it does with the answer.
  \<open>plays p tr v\<close> holds when the program \<open>p\<close>, having made the calls of the trace \<open>tr\<close> and received the
  answers recorded there, returns \<open>v\<close>; nothing is assumed of the answers, so a theorem about all
  plays holds for every implementation of the ports. Programs interleave one call at a time.
\<close>

text \<open>
  The context a call receives: the caller's own, or the one of the record path
  (\<open>context.WithTimeout(context.WithoutCancel(parent), d)\<close>).
\<close>

datatype ctx = CallerCtx | RecordCtx int

datatype 'a prog =
    Done 'a
  | Now "gtime \<Rightarrow> 'a prog"
  | BeginAttempt ctx Action ExecutionAttempt "ExecutionEvent list" "bool \<times> err option \<Rightarrow> 'a prog"
  | AppendAll ctx "ExecutionEvent list" "err option \<Rightarrow> 'a prog"
  | EventsByAttempt ctx AttemptID "ExecutionEvent list \<times> err option \<Rightarrow> 'a prog"
  | ActionByID ctx ActionID "Action \<times> bool \<times> err option \<Rightarrow> 'a prog"
  | AttemptIDs ctx "AttemptID list \<times> err option \<Rightarrow> 'a prog"
  | Admit ctx Action "AdmissionStatus \<times> err option \<Rightarrow> 'a prog"
  | Resolve ctx Action "ResolvedTarget \<times> err option \<Rightarrow> 'a prog"
  | Dispatch ctx ExecutionAttempt Action ResolvedTarget "DispatchResult \<times> err option \<Rightarrow> 'a prog"
  | Observe ctx Action ResolvedTarget "Observation list \<times> err option \<Rightarrow> 'a prog"
  | Verify ctx Action "Observation list" gtime "VerificationResult \<times> err option \<Rightarrow> 'a prog"

text \<open>One call with its answer.\<close>

datatype call =
    DidNow gtime
  | DidBegin ctx Action ExecutionAttempt "ExecutionEvent list" "bool \<times> err option"
  | DidAppend ctx "ExecutionEvent list" "err option"
  | DidEvents ctx AttemptID "ExecutionEvent list \<times> err option"
  | DidAction ctx ActionID "Action \<times> bool \<times> err option"
  | DidAttempts ctx "AttemptID list \<times> err option"
  | DidAdmit ctx Action "AdmissionStatus \<times> err option"
  | DidResolve ctx Action "ResolvedTarget \<times> err option"
  | DidDispatch ctx ExecutionAttempt Action ResolvedTarget "DispatchResult \<times> err option"
  | DidObserve ctx Action ResolvedTarget "Observation list \<times> err option"
  | DidVerify ctx Action "Observation list" gtime "VerificationResult \<times> err option"

text \<open>\<open>advance p c\<close> is the program after the call \<open>c\<close>, when \<open>c\<close> is the call \<open>p\<close> makes next.\<close>

definition advance :: "'a prog \<Rightarrow> call \<Rightarrow> 'a prog option" where
  "advance p did =
    (case p of
       Done v \<Rightarrow> None
     | Now k \<Rightarrow> (case did of DidNow t \<Rightarrow> Some (k t) | _ \<Rightarrow> None)
     | BeginAttempt c a t es k \<Rightarrow>
         (case did of DidBegin c' a' t' es' r \<Rightarrow> if (c, a, t, es) = (c', a', t', es') then Some (k r) else None
          | _ \<Rightarrow> None)
     | AppendAll c es k \<Rightarrow>
         (case did of DidAppend c' es' r \<Rightarrow> if (c, es) = (c', es') then Some (k r) else None | _ \<Rightarrow> None)
     | EventsByAttempt c i k \<Rightarrow>
         (case did of DidEvents c' i' r \<Rightarrow> if (c, i) = (c', i') then Some (k r) else None | _ \<Rightarrow> None)
     | ActionByID c i k \<Rightarrow>
         (case did of DidAction c' i' r \<Rightarrow> if (c, i) = (c', i') then Some (k r) else None | _ \<Rightarrow> None)
     | AttemptIDs c k \<Rightarrow> (case did of DidAttempts c' r \<Rightarrow> if c = c' then Some (k r) else None | _ \<Rightarrow> None)
     | Admit c a k \<Rightarrow>
         (case did of DidAdmit c' a' r \<Rightarrow> if (c, a) = (c', a') then Some (k r) else None | _ \<Rightarrow> None)
     | Resolve c a k \<Rightarrow>
         (case did of DidResolve c' a' r \<Rightarrow> if (c, a) = (c', a') then Some (k r) else None | _ \<Rightarrow> None)
     | Dispatch c t a g k \<Rightarrow>
         (case did of DidDispatch c' t' a' g' r \<Rightarrow> if (c, t, a, g) = (c', t', a', g') then Some (k r) else None
          | _ \<Rightarrow> None)
     | Observe c a g k \<Rightarrow>
         (case did of DidObserve c' a' g' r \<Rightarrow> if (c, a, g) = (c', a', g') then Some (k r) else None
          | _ \<Rightarrow> None)
     | Verify c a os u k \<Rightarrow>
         (case did of DidVerify c' a' os' u' r \<Rightarrow> if (c, a, os, u) = (c', a', os', u') then Some (k r) else None
          | _ \<Rightarrow> None))"

inductive plays :: "'a prog \<Rightarrow> call list \<Rightarrow> 'a \<Rightarrow> bool" where
  return: "plays (Done v) [] v"
| call: "advance p c = Some q \<Longrightarrow> plays q tr v \<Longrightarrow> plays p (c # tr) v"

inductive_cases plays_DoneE: "plays (Done v) tr w"
inductive_cases plays_ConsE: "plays p (c # tr) w"
inductive_cases plays_NilE: "plays p [] w"

lemma advance_Done [simp]: "advance (Done v) c = None"
  by (simp add: advance_def)

lemma plays_Done [simp]: "plays (Done v) tr w \<longleftrightarrow> tr = [] \<and> w = v"
  by (auto intro: plays.return elim: plays.cases)

lemma plays_Nil [simp]: "plays p [] w \<longleftrightarrow> p = Done w"
  by (auto intro: plays.return elim: plays.cases)

lemma plays_Cons: "plays p (c # tr) w \<longleftrightarrow> (\<exists>q. advance p c = Some q \<and> plays q tr w)"
  by (auto intro: plays.call elim: plays.cases)

text \<open>How the play of a program that makes a call begins.\<close>

lemma plays_not_Done: "(\<And>v. p \<noteq> Done v) \<Longrightarrow>
  plays p tr w \<longleftrightarrow> (\<exists>did tr' q. tr = did # tr' \<and> advance p did = Some q \<and> plays q tr' w)"
  by (cases tr) (auto simp: plays_Cons)

lemma advance_iff:
  "advance (Now k) did = Some q \<longleftrightarrow> (\<exists>t. did = DidNow t \<and> q = k t)"
  "advance (BeginAttempt c a t es kb) did = Some q \<longleftrightarrow> (\<exists>r. did = DidBegin c a t es r \<and> q = kb r)"
  "advance (AppendAll c es ka) did = Some q \<longleftrightarrow> (\<exists>r. did = DidAppend c es r \<and> q = ka r)"
  "advance (EventsByAttempt c i ke) did = Some q \<longleftrightarrow> (\<exists>r. did = DidEvents c i r \<and> q = ke r)"
  "advance (ActionByID c i kc) did = Some q \<longleftrightarrow> (\<exists>r. did = DidAction c i r \<and> q = kc r)"
  "advance (AttemptIDs c kd) did = Some q \<longleftrightarrow> (\<exists>r. did = DidAttempts c r \<and> q = kd r)"
  "advance (Admit c a km) did = Some q \<longleftrightarrow> (\<exists>r. did = DidAdmit c a r \<and> q = km r)"
  "advance (Resolve c a kr) did = Some q \<longleftrightarrow> (\<exists>r. did = DidResolve c a r \<and> q = kr r)"
  "advance (Dispatch c t a g kx) did = Some q \<longleftrightarrow> (\<exists>r. did = DidDispatch c t a g r \<and> q = kx r)"
  "advance (Observe c a g ko) did = Some q \<longleftrightarrow> (\<exists>r. did = DidObserve c a g r \<and> q = ko r)"
  "advance (Verify c a os u kv) did = Some q \<longleftrightarrow> (\<exists>r. did = DidVerify c a os u r \<and> q = kv r)"
  by (simp_all add: advance_def split: call.split) metis+

lemma plays_calls:
  "plays (Now k) tr w \<longleftrightarrow> (\<exists>t tr'. tr = DidNow t # tr' \<and> plays (k t) tr' w)"
  "plays (BeginAttempt c a t es kb) tr w \<longleftrightarrow> (\<exists>r tr'. tr = DidBegin c a t es r # tr' \<and> plays (kb r) tr' w)"
  "plays (AppendAll c es ka) tr w \<longleftrightarrow> (\<exists>r tr'. tr = DidAppend c es r # tr' \<and> plays (ka r) tr' w)"
  "plays (EventsByAttempt c i ke) tr w \<longleftrightarrow> (\<exists>r tr'. tr = DidEvents c i r # tr' \<and> plays (ke r) tr' w)"
  "plays (ActionByID c i kc) tr w \<longleftrightarrow> (\<exists>r tr'. tr = DidAction c i r # tr' \<and> plays (kc r) tr' w)"
  "plays (AttemptIDs c kd) tr w \<longleftrightarrow> (\<exists>r tr'. tr = DidAttempts c r # tr' \<and> plays (kd r) tr' w)"
  "plays (Admit c a km) tr w \<longleftrightarrow> (\<exists>r tr'. tr = DidAdmit c a r # tr' \<and> plays (km r) tr' w)"
  "plays (Resolve c a kr) tr w \<longleftrightarrow> (\<exists>r tr'. tr = DidResolve c a r # tr' \<and> plays (kr r) tr' w)"
  "plays (Dispatch c t a g kx) tr w \<longleftrightarrow> (\<exists>r tr'. tr = DidDispatch c t a g r # tr' \<and> plays (kx r) tr' w)"
  "plays (Observe c a g ko) tr w \<longleftrightarrow> (\<exists>r tr'. tr = DidObserve c a g r # tr' \<and> plays (ko r) tr' w)"
  "plays (Verify c a os u kv) tr w \<longleftrightarrow> (\<exists>r tr'. tr = DidVerify c a os u r # tr' \<and> plays (kv r) tr' w)"
  by (subst plays_not_Done, simp, simp add: advance_iff, blast)+

subsection \<open>Calls a program can make\<close>

text \<open>\<open>only P p\<close>: whatever answers it gets, every call of \<open>p\<close> satisfies \<open>P\<close>.\<close>

primrec only :: "(call \<Rightarrow> bool) \<Rightarrow> 'a prog \<Rightarrow> bool" where
  "only P (Done v) = True"
| "only P (Now k) = (\<forall>r. P (DidNow r) \<and> only P (k r))"
| "only P (BeginAttempt c a t es k) = (\<forall>r. P (DidBegin c a t es r) \<and> only P (k r))"
| "only P (AppendAll c es k) = (\<forall>r. P (DidAppend c es r) \<and> only P (k r))"
| "only P (EventsByAttempt c i k) = (\<forall>r. P (DidEvents c i r) \<and> only P (k r))"
| "only P (ActionByID c i k) = (\<forall>r. P (DidAction c i r) \<and> only P (k r))"
| "only P (AttemptIDs c k) = (\<forall>r. P (DidAttempts c r) \<and> only P (k r))"
| "only P (Admit c a k) = (\<forall>r. P (DidAdmit c a r) \<and> only P (k r))"
| "only P (Resolve c a k) = (\<forall>r. P (DidResolve c a r) \<and> only P (k r))"
| "only P (Dispatch c t a g k) = (\<forall>r. P (DidDispatch c t a g r) \<and> only P (k r))"
| "only P (Observe c a g k) = (\<forall>r. P (DidObserve c a g r) \<and> only P (k r))"
| "only P (Verify c a os u k) = (\<forall>r. P (DidVerify c a os u r) \<and> only P (k r))"

lemma only_advance: "only P p \<Longrightarrow> advance p c = Some q \<Longrightarrow> P c \<and> only P q"
  by (cases p) (auto simp: advance_iff)

lemma only_plays: "plays p tr w \<Longrightarrow> only P p \<Longrightarrow> \<forall>c\<in>set tr. P c"
  by (induction rule: plays.induct) (auto dest: only_advance)

lemma only_branch:
  "only P (if b then p else q) \<longleftrightarrow> (if b then only P p else only P q)"
  "only P (case z of Inl x \<Rightarrow> f x | Inr y \<Rightarrow> g y) \<longleftrightarrow> (case z of Inl x \<Rightarrow> only P (f x) | Inr y \<Rightarrow> only P (g y))"
  by (simp_all split: sum.split)

subsection \<open>Running against fixed answers\<close>

text \<open>
  Ports that answer every call of a kind alike: with them a program runs to its result, and the run
  is one of its plays. They serve as concrete inputs.
\<close>

record ports =
  pt_now :: gtime
  pt_begin :: "bool \<times> err option"
  pt_append :: "err option"
  pt_events :: "AttemptID \<Rightarrow> ExecutionEvent list \<times> err option"
  pt_action :: "Action \<times> bool \<times> err option"
  pt_attempts :: "AttemptID list \<times> err option"
  pt_admit :: "AdmissionStatus \<times> err option"
  pt_resolve :: "ResolvedTarget \<times> err option"
  pt_dispatch :: "DispatchResult \<times> err option"
  pt_observe :: "Observation list \<times> err option"
  pt_verify :: "VerificationResult \<times> err option"

primrec run :: "ports \<Rightarrow> 'a prog \<Rightarrow> call list \<times> 'a" where
  "run w (Done v) = ([], v)"
| "run w (Now k) = apfst (Cons (DidNow (pt_now w))) (run w (k (pt_now w)))"
| "run w (BeginAttempt c a t es k) = apfst (Cons (DidBegin c a t es (pt_begin w))) (run w (k (pt_begin w)))"
| "run w (AppendAll c es k) = apfst (Cons (DidAppend c es (pt_append w))) (run w (k (pt_append w)))"
| "run w (EventsByAttempt c i k) = apfst (Cons (DidEvents c i (pt_events w i))) (run w (k (pt_events w i)))"
| "run w (ActionByID c i k) = apfst (Cons (DidAction c i (pt_action w))) (run w (k (pt_action w)))"
| "run w (AttemptIDs c k) = apfst (Cons (DidAttempts c (pt_attempts w))) (run w (k (pt_attempts w)))"
| "run w (Admit c a k) = apfst (Cons (DidAdmit c a (pt_admit w))) (run w (k (pt_admit w)))"
| "run w (Resolve c a k) = apfst (Cons (DidResolve c a (pt_resolve w))) (run w (k (pt_resolve w)))"
| "run w (Dispatch c t a g k) = apfst (Cons (DidDispatch c t a g (pt_dispatch w))) (run w (k (pt_dispatch w)))"
| "run w (Observe c a g k) = apfst (Cons (DidObserve c a g (pt_observe w))) (run w (k (pt_observe w)))"
| "run w (Verify c a os u k) = apfst (Cons (DidVerify c a os u (pt_verify w))) (run w (k (pt_verify w)))"

lemma run_plays: "plays p (fst (run w p)) (snd (run w p))"
  by (induction p) (simp_all add: plays_calls)

text \<open>Every program returns: whatever answers the calls get, the chain of calls is finite.\<close>

lemma run_returns: "run w p = (tr, v) \<Longrightarrow> plays p tr v"
  using run_plays [of p w] by simp

text \<open>In such a run every answer is the one of the ports.\<close>

lemma run_dispatch_answer: "DidDispatch c t a g ans \<in> set (fst (run w p)) \<Longrightarrow> ans = pt_dispatch w"
  by (induction p) auto

end
