(* ===== verification/Json_Encode.thy ===== *)
theory Json_Encode
  imports Go_Errors Go_Time
begin

text \<open>
  What the program uses of \<open>encoding/json\<close> to write event payloads and responses: \<open>json.Marshal\<close> on
  structs whose fields are strings, times, byte slices (standard base64), string lists, booleans, slices
  and nested structs, in field order, with \<open>omitempty\<close>. Strings are escaped as with HTML escaping on and with invalid UTF-8
  replaced; a time is printed by the strict \<open>Time.MarshalJSON\<close>, the only part that can fail.
\<close>

datatype json =
    JString string
  | JTime gtime
  | JBytes bytes
  | JStrings "string list"
  | JBool bool
  | JArray "json list"
  | JObject "(string \<times> json) list"

subsection \<open>Strings\<close>

definition html_safe :: "nat \<Rightarrow> bool" where
  "html_safe n \<longleftrightarrow> 32 \<le> n \<and> n \<noteq> 34 \<and> n \<noteq> 92 \<and> n \<noteq> 60 \<and> n \<noteq> 62 \<and> n \<noteq> 38"

definition json_escape_ascii :: "char \<Rightarrow> string" where
  "json_escape_ascii c =
    (let n = code c in
     if html_safe n then [c]
     else if n = 92 \<or> n = 34 then [CHR 0x5C, c]
     else if n = 8 then [CHR 0x5C, CHR ''b'']
     else if n = 12 then [CHR 0x5C, CHR ''f'']
     else if n = 10 then [CHR 0x5C, CHR ''n'']
     else if n = 13 then [CHR 0x5C, CHR ''r'']
     else if n = 9 then [CHR 0x5C, CHR ''t'']
     else CHR 0x5C # ''u00'' @ hex_byte c)"

function json_string_body :: "bytes \<Rightarrow> string" where
  "json_string_body [] = []"
| "json_string_body (c # cs) =
    (case decode_rune (c # cs) of
       None \<Rightarrow> CHR 0x5C # ''ufffd'' @ json_string_body cs
     | Some (r, n) \<Rightarrow>
         (if n = 1 then json_escape_ascii c
          else if r = 8232 \<or> r = 8233 then CHR 0x5C # ''u202'' @ [hex_digit (r mod 16)]
          else take n (c # cs))
         @ json_string_body (drop n (c # cs)))"
  by pat_completeness auto
termination
proof (relation "measure length")
  fix c cs p r n
  assume "decode_rune (c # cs) = Some p" and "(r, n) = p"
  then have "0 < n" by (metis decode_rune_width)
  then show "(drop n (c # cs), c # cs) \<in> measure length" by simp
qed simp_all

definition json_string :: "bytes \<Rightarrow> string" where
  "json_string s = CHR 0x22 # json_string_body s @ [CHR 0x22]"

subsection \<open>Standard base64\<close>

definition b64_char :: "nat \<Rightarrow> char" where
  "b64_char n =
    (if n < 26 then byte (65 + n) else if n < 52 then byte (71 + n)
     else if n < 62 then byte (n - 4) else if n = 62 then CHR ''+'' else CHR ''/'')"

fun base64 :: "bytes \<Rightarrow> string" where
  "base64 [] = []"
| "base64 [a] = [b64_char (code a div 4), b64_char (code a mod 4 * 16), CHR ''='', CHR ''='']"
| "base64 [a, b] =
    [b64_char (code a div 4), b64_char (code a mod 4 * 16 + code b div 16),
     b64_char (code b mod 16 * 4), CHR ''='']"
| "base64 (a # b # c # cs) =
    [b64_char (code a div 4), b64_char (code a mod 4 * 16 + code b div 16),
     b64_char (code b mod 16 * 4 + code c div 64), b64_char (code c mod 64)] @ base64 cs"

subsection \<open>Times\<close>

definition strict_rfc3339 :: "gtime \<Rightarrow> err + string" where
  "strict_rfc3339 t =
    (let b = FormatRFC3339Nano t; l = length b in
     if b ! 4 \<noteq> CHR ''-'' then Inl (Message ''year outside of range [0,9999]'')
     else if b ! (l - 1) \<noteq> CHR ''Z'' \<and>
       (is_digit (b ! (l - 6)) \<or> 24 \<le> (10 * digit_val (b ! (l - 5)) + digit_val (b ! (l - 4))) mod 256)
     then Inl (Message ''timezone hour outside of range [0,23]'')
     else Inr b)"

definition json_time :: "gtime \<Rightarrow> err + string" where
  "json_time t =
    (case strict_rfc3339 t of
       Inl e \<Rightarrow> Inl (Errorf [T ''json: error calling MarshalJSON for type time.Time: Time.MarshalJSON: '', V e])
     | Inr b \<Rightarrow> Inr (CHR 0x22 # b @ [CHR 0x22]))"

subsection \<open>Values\<close>

fun json_commas :: "string list \<Rightarrow> string" where
  "json_commas [] = []"
| "json_commas [x] = x"
| "json_commas (x # xs) = x @ CHR '','' # json_commas xs"

fun json_marshal :: "json \<Rightarrow> err + string"
  and json_fields :: "(string \<times> json) list \<Rightarrow> err + string list"
  and json_elements :: "json list \<Rightarrow> err + string list" where
  "json_marshal (JString s) = Inr (json_string s)"
| "json_marshal (JTime t) = json_time t"
| "json_marshal (JBytes b) = Inr (CHR 0x22 # base64 b @ [CHR 0x22])"
| "json_marshal (JStrings ss) = Inr (CHR ''['' # json_commas (map json_string ss) @ '']'')"
| "json_marshal (JBool b) = Inr (if b then ''true'' else ''false'')"
| "json_marshal (JArray vs) =
     result_bind (json_elements vs) (\<lambda>ts. Inr (CHR ''['' # json_commas ts @ '']''))"
| "json_marshal (JObject fs) =
     result_bind (json_fields fs) (\<lambda>ts. Inr (CHR 0x7B # json_commas ts @ [CHR 0x7D]))"
| "json_fields [] = Inr []"
| "json_fields ((k, v) # fs) =
     result_bind (json_marshal v) (\<lambda>t.
       result_bind (json_fields fs) (\<lambda>ts. Inr ((json_string k @ CHR '':'' # t) # ts)))"
| "json_elements [] = Inr []"
| "json_elements (v # vs) =
     result_bind (json_marshal v) (\<lambda>t. result_bind (json_elements vs) (\<lambda>ts. Inr (t # ts)))"

text \<open>Fields with \<open>omitempty\<close>.\<close>

definition omit_string :: "string \<Rightarrow> string \<Rightarrow> (string \<times> json) list" where
  "omit_string k s = (if s = [] then [] else [(k, JString s)])"

definition omit_bytes :: "string \<Rightarrow> bytes \<Rightarrow> (string \<times> json) list" where
  "omit_bytes k b = (if b = [] then [] else [(k, JBytes b)])"

definition omit_strings :: "string \<Rightarrow> string list \<Rightarrow> (string \<times> json) list" where
  "omit_strings k ss = (if ss = [] then [] else [(k, JStrings ss)])"

subsection \<open>When marshalling succeeds\<close>

fun json_ok :: "json \<Rightarrow> bool" where
  "json_ok (JTime t) \<longleftrightarrow> (\<exists>b. strict_rfc3339 t = Inr b)"
| "json_ok (JArray vs) \<longleftrightarrow> (\<forall>v \<in> set vs. json_ok v)"
| "json_ok (JObject fs) \<longleftrightarrow> (\<forall>(k, v) \<in> set fs. json_ok v)"
| "json_ok _ \<longleftrightarrow> True"

text \<open>Only a time outside the printable range makes marshalling fail.\<close>

lemma json_marshal_ok:
  "json_ok v \<longleftrightarrow> (\<exists>s. json_marshal v = Inr s)"
  "(\<forall>(k, w) \<in> set fs. json_ok w) \<longleftrightarrow> (\<exists>ss. json_fields fs = Inr ss)"
  "(\<forall>w \<in> set vs. json_ok w) \<longleftrightarrow> (\<exists>ss. json_elements vs = Inr ss)"
  by (induction v and fs and vs rule: json_marshal_json_fields_json_elements.induct)
     (auto simp: json_time_def split: sum.splits)

end
