(* ===== verification/Exec_Events.thy ===== *)
theory Exec_Events
  imports Core_Event Core_Provider Json_Encode
begin

text \<open>
  \<open>execution/events.go\<close> and \<open>execution/payload.go\<close>: the facts the use cases record. Every builder
  marshals its payload and makes an event whose identity is the truncated SHA-256 of action, attempt,
  kind and qualifier; \<open>sha256.Sum256\<close> is a field of the parameter \<open>rt\<close>. The values of
  \<open>RecoveryAuthorization\<close> (\<open>execution/recovery.go\<close>), which one of the builders reads, are defined here too.
\<close>

subsection \<open>Authorizations\<close>

record RecoveryAuthorizationSpec =
  us_ActionID :: ActionID
  us_PreviousAttemptID :: AttemptID
  us_AuthorizedBy :: string
  us_AuthorizedAt :: gtime
  us_Reason :: string

record RecoveryAuthorization =
  ra_actionID :: ActionID
  ra_previousAttemptID :: AttemptID
  ra_authorizedBy :: string
  ra_authorizedAt :: gtime
  ra_reason :: string

definition NewRecoveryAuthorization :: "RecoveryAuthorizationSpec \<Rightarrow> err + RecoveryAuthorization" where
  "NewRecoveryAuthorization spec =
    (if TrimSpace (us_ActionID spec) = '''' \<or> TrimSpace (us_PreviousAttemptID spec) = ''''
        \<or> TrimSpace (us_AuthorizedBy spec) = '''' \<or> TrimSpace (us_Reason spec) = ''''
        \<or> IsZero (us_AuthorizedAt spec)
     then Inl (wrap_msg ErrRecoveryNotAuthorized ''all recovery authorization fields are required'')
     else if us_ActionID spec \<noteq> TrimSpace (us_ActionID spec)
        \<or> us_PreviousAttemptID spec \<noteq> TrimSpace (us_PreviousAttemptID spec)
        \<or> us_AuthorizedBy spec \<noteq> TrimSpace (us_AuthorizedBy spec) \<or> us_Reason spec \<noteq> TrimSpace (us_Reason spec)
     then Inl (wrap_msg ErrRecoveryNotAuthorized ''fields must not have surrounding whitespace'')
     else Inr \<lparr>ra_actionID = us_ActionID spec, ra_previousAttemptID = us_PreviousAttemptID spec,
               ra_authorizedBy = us_AuthorizedBy spec, ra_authorizedAt = us_AuthorizedAt spec,
               ra_reason = us_Reason spec\<rparr>)"

definition zero_authorization :: RecoveryAuthorization where
  "zero_authorization = \<lparr>ra_actionID = [], ra_previousAttemptID = [], ra_authorizedBy = [],
     ra_authorizedAt = zero_time, ra_reason = []\<rparr>"

definition authorization_ok :: "RecoveryAuthorization \<Rightarrow> bool" where
  "authorization_ok a \<longleftrightarrow> text_ok (ra_actionID a) \<and> text_ok (ra_previousAttemptID a)
     \<and> text_ok (ra_authorizedBy a) \<and> text_ok (ra_reason a) \<and> \<not> IsZero (ra_authorizedAt a)"

lemma NewRecoveryAuthorization_Inr_iff:
  "NewRecoveryAuthorization spec = Inr a \<longleftrightarrow>
     authorization_ok a \<and> ra_actionID a = us_ActionID spec \<and> ra_previousAttemptID a = us_PreviousAttemptID spec
     \<and> ra_authorizedBy a = us_AuthorizedBy spec \<and> ra_authorizedAt a = us_AuthorizedAt spec
     \<and> ra_reason a = us_Reason spec"
  by (cases a) (auto simp: NewRecoveryAuthorization_def authorization_ok_def text_ok_def)

subsection \<open>Payloads\<close>

definition EventDataSchemaV1 :: string where
  "EventDataSchemaV1 = ''atoha.execution.event/v1''"

definition payload :: "(string \<times> json) list \<Rightarrow> json" where
  "payload fs = JObject ((''schema'', JString EventDataSchemaV1) # fs)"

definition marshalPayload :: "json \<Rightarrow> err + bytes" where
  "marshalPayload v = json_marshal v"

definition actionRequestedPayload :: "Action \<Rightarrow> json" where
  "actionRequestedPayload action = payload
    ([(''target'', JString (act_target action)), (''name'', JString (act_name action))]
     @ omit_bytes ''input'' (act_input action)
     @ [(''requested_at'', JTime (act_requestedAt action))])"

definition attemptStartedPayload :: "gtime \<Rightarrow> AttemptID \<Rightarrow> json" where
  "attemptStartedPayload startedAt recoveryOf = payload
    ((''started_at'', JTime startedAt) # omit_string ''recovery_of'' recoveryOf)"

definition recoveryAuthorizedPayload :: "RecoveryAuthorization \<Rightarrow> json" where
  "recoveryAuthorizedPayload authorization = payload
    [(''previous_attempt_id'', JString (ra_previousAttemptID authorization)),
     (''authorized_by'', JString (ra_authorizedBy authorization)),
     (''authorized_at'', JTime (ra_authorizedAt authorization)),
     (''reason'', JString (ra_reason authorization))]"

definition admissionPayload :: "string \<Rightarrow> string \<Rightarrow> json" where
  "admissionPayload status error = payload ((''status'', JString status) # omit_string ''error'' error)"

definition receiptPayload :: "Receipt \<Rightarrow> json" where
  "receiptPayload receipt = JObject
    ([(''provider'', JString (rc_provider receipt)), (''received_at'', JTime (rc_receivedAt receipt))]
     @ omit_bytes ''evidence'' (rc_evidence receipt))"

definition dispatchPayload :: "string \<Rightarrow> string \<Rightarrow> string \<Rightarrow> bytes \<Rightarrow> Receipt option \<Rightarrow> string \<Rightarrow> json" where
  "dispatchPayload provider status targetProvider targetEndpoint receipt error = payload
    (omit_string ''provider'' provider @ [(''status'', JString status)]
     @ omit_string ''target_provider'' targetProvider @ omit_bytes ''target_endpoint'' targetEndpoint
     @ (case receipt of None \<Rightarrow> [] | Some r \<Rightarrow> [(''receipt'', receiptPayload r)])
     @ omit_string ''error'' error)"

definition observationPayload :: "Observation \<Rightarrow> json" where
  "observationPayload observation = payload
    ([(''id'', JString (obs_id observation)), (''source'', JString (obs_source observation)),
      (''target'', JString (obs_target observation))]
     @ omit_bytes ''value'' (obs_value observation) @ omit_bytes ''evidence'' (obs_evidence observation)
     @ [(''observed_at'', JTime (obs_observedAt observation)),
        (''recorded_at'', JTime (obs_recordedAt observation))])"

definition verificationPayload :: "VerificationResult \<Rightarrow> string \<Rightarrow> json" where
  "verificationPayload result error = payload
    ([(''status'', JString (verification_String (vr_status result))), (''verifier'', JString (vr_verifier result)),
      (''checked_at'', JTime (vr_checkedAt result))]
     @ omit_strings ''observation_ids'' (vr_observationIDs result) @ omit_string ''reason'' (vr_reason result)
     @ omit_string ''error'' error)"

subsection \<open>Identities\<close>

definition nul :: char where
  "nul = CHR 0x00"

definition event_preimage :: "ActionID \<Rightarrow> AttemptID \<Rightarrow> EventKind \<Rightarrow> string \<Rightarrow> bytes" where
  "event_preimage actionID attemptID kind qualifier =
     actionID @ nul # attemptID @ nul # kind @ nul # qualifier"

definition deterministicEventID ::
    "go_runtime \<Rightarrow> ActionID \<Rightarrow> AttemptID \<Rightarrow> EventKind \<Rightarrow> string \<Rightarrow> EventID" where
  "deterministicEventID rt actionID attemptID kind qualifier =
    (let digest = rt_sha256 rt (event_preimage actionID attemptID kind qualifier)
     in ''event-'' @ hex_encode (take 16 digest))"

definition newEvent ::
    "go_runtime \<Rightarrow> ActionID \<Rightarrow> AttemptID \<Rightarrow> EventKind \<Rightarrow> string \<Rightarrow> gtime \<Rightarrow> gtime \<Rightarrow> bytes \<Rightarrow> err + ExecutionEvent"
where
  "newEvent rt actionID attemptID kind qualifier occurredAt recordedAt data =
    (let i = deterministicEventID rt actionID attemptID kind qualifier
     in NewExecutionEvent \<lparr>xs_ID = i, xs_ActionID = actionID, xs_AttemptID = attemptID, xs_Kind = kind,
          xs_OccurredAt = occurredAt, xs_RecordedAt = recordedAt, xs_Data = data\<rparr>)"

subsection \<open>Builders\<close>

definition actionRequestedEvent :: "go_runtime \<Rightarrow> Action \<Rightarrow> AttemptID \<Rightarrow> gtime \<Rightarrow> err + ExecutionEvent" where
  "actionRequestedEvent rt action attemptID recordedAt =
    result_bind (marshalPayload (actionRequestedPayload action)) (\<lambda>data.
      newEvent rt (act_id action) attemptID EventActionRequested attemptID
        (act_requestedAt action) recordedAt data)"

definition attemptStartedEvent ::
    "go_runtime \<Rightarrow> Action \<Rightarrow> ExecutionAttempt \<Rightarrow> gtime \<Rightarrow> err + ExecutionEvent" where
  "attemptStartedEvent rt action attempt recordedAt =
    (let (recoveryOf, _) = RecoveryOf attempt in
     result_bind (marshalPayload (attemptStartedPayload (att_startedAt attempt) recoveryOf)) (\<lambda>data.
       newEvent rt (act_id action) (att_id attempt) EventAttemptStarted '''' (att_startedAt attempt) recordedAt data))"

definition recoveryAuthorizedEvent ::
    "go_runtime \<Rightarrow> Action \<Rightarrow> ExecutionAttempt \<Rightarrow> RecoveryAuthorization \<Rightarrow> gtime \<Rightarrow> err + ExecutionEvent" where
  "recoveryAuthorizedEvent rt action attempt authorization recordedAt =
    result_bind (marshalPayload (recoveryAuthorizedPayload authorization)) (\<lambda>data.
      newEvent rt (act_id action) (att_id attempt) EventRecoveryAuthorized ''''
        (ra_authorizedAt authorization) recordedAt data)"

definition admissionEvent ::
    "go_runtime \<Rightarrow> Action \<Rightarrow> ExecutionAttempt \<Rightarrow> AdmissionStatus \<Rightarrow> err option \<Rightarrow> gtime \<Rightarrow> err + ExecutionEvent"
where
  "admissionEvent rt action attempt status operationErr recordedAt =
    (let kind = (if status = AdmissionRejected then EventActionRejected else EventActionAdmitted) in
     result_bind (marshalPayload (admissionPayload (admission_String status) (errorText rt operationErr))) (\<lambda>data.
       newEvent rt (act_id action) (att_id attempt) kind '''' recordedAt recordedAt data))"

definition notDispatchedEvent ::
    "go_runtime \<Rightarrow> Action \<Rightarrow> ExecutionAttempt \<Rightarrow> err option \<Rightarrow> gtime \<Rightarrow> err + ExecutionEvent" where
  "notDispatchedEvent rt action attempt cause recordedAt =
    result_bind (marshalPayload (dispatchPayload '''' (dispatch_String DispatchNotDispatched) '''' [] None
                   (errorText rt cause))) (\<lambda>data.
      newEvent rt (act_id action) (att_id attempt) EventNotDispatched '''' recordedAt recordedAt data)"

definition dispatch_kind :: "DispatchStatus \<Rightarrow> EventKind" where
  "dispatch_kind status =
    (if status = DispatchNotDispatched then EventNotDispatched
     else if status = DispatchDispatched then EventActionDispatched
     else if status = DispatchAcknowledged then EventProviderAcknowledged
     else EventDispatchUnknown)"

definition dispatchEvents ::
    "go_runtime \<Rightarrow> Action \<Rightarrow> ExecutionAttempt \<Rightarrow> ResolvedTarget \<Rightarrow> DispatchResult \<Rightarrow> err option \<Rightarrow> gtime
     \<Rightarrow> err + ExecutionEvent list" where
  "dispatchEvents rt action attempt target result operationErr recordedAt =
    (let kind = dispatch_kind (dr_status result) in
     result_bind (marshalPayload (dispatchPayload (dr_provider result) (dispatch_String (dr_status result))
                    (tgt_provider target) (tgt_endpoint target) (dispatch_Receipt result)
                    (errorText rt operationErr))) (\<lambda>data.
     result_bind (newEvent rt (act_id action) (att_id attempt) kind '''' recordedAt recordedAt data) (\<lambda>dispatchEvent.
       if dr_status result = DispatchDispatched \<or> dr_status result = DispatchAcknowledged
       then result_bind (newEvent rt (act_id action) (att_id attempt) EventEffectUnverified ''dispatch''
                           recordedAt recordedAt []) (\<lambda>effectEvent. Inr [dispatchEvent, effectEvent])
       else Inr [dispatchEvent])))"

definition observationEvent :: "go_runtime \<Rightarrow> Action \<Rightarrow> AttemptID \<Rightarrow> Observation \<Rightarrow> err + ExecutionEvent" where
  "observationEvent rt action attemptID observation =
    result_bind (marshalPayload (observationPayload observation)) (\<lambda>data.
      newEvent rt (act_id action) attemptID EventObservationRecorded (obs_id observation)
        (obs_observedAt observation) (obs_recordedAt observation) data)"

text \<open>The two kinds a verification result is recorded as: its effect and its verdict.\<close>

definition verification_kinds :: "VerificationStatus \<Rightarrow> EventKind \<times> EventKind" where
  "verification_kinds status =
    (if status = VerificationVerified then (EventEffectObservedSatisfied, EventVerificationVerified)
     else if status = VerificationUnsatisfied then (EventEffectObservedUnsatisfied, EventVerificationUnsatisfied)
     else (EventEffectUnverified, EventVerificationInconclusive))"

definition verificationEvents ::
    "go_runtime \<Rightarrow> Action \<Rightarrow> AttemptID \<Rightarrow> VerificationResult \<Rightarrow> err option \<Rightarrow> gtime \<Rightarrow> err + ExecutionEvent list"
where
  "verificationEvents rt action attemptID result operationErr recordedAt =
    (if vr_status result = VerificationUnknown then Inr []
     else
       let (effectKind, verificationKind) = verification_kinds (vr_status result);
           qualifier = vr_verifier result @ nul # FormatRFC3339Nano (vr_checkedAt result)
       in result_bind (newEvent rt (act_id action) attemptID effectKind qualifier (vr_checkedAt result)
                         recordedAt []) (\<lambda>effectEvent.
          result_bind (marshalPayload (verificationPayload result (errorText rt operationErr))) (\<lambda>data.
          result_bind (newEvent rt (act_id action) attemptID verificationKind qualifier (vr_checkedAt result)
                         recordedAt data) (\<lambda>verificationEvent.
            Inr [effectEvent, verificationEvent]))))"

subsection \<open>Laws\<close>

text \<open>What every recorded fact carries.\<close>

lemma newEvent_Inr:
  "newEvent rt a t k q occ rec d = Inr e \<longleftrightarrow>
     event_ok e \<and> ev_id e = deterministicEventID rt a t k q \<and> ev_actionID e = a \<and> ev_attemptID e = t
     \<and> ev_kind e = k \<and> ev_occurredAt e = occ \<and> ev_recordedAt e = rec \<and> ev_data e = d"
  by (simp add: newEvent_def Let_def NewExecutionEvent_Inr_iff)

definition fact_of :: "Action \<Rightarrow> AttemptID \<Rightarrow> ExecutionEvent \<Rightarrow> bool" where
  "fact_of action attemptID e \<longleftrightarrow> event_ok e \<and> ev_actionID e = act_id action \<and> ev_attemptID e = attemptID"

lemma fact_of_simps:
  "fact_of a t e \<Longrightarrow> ev_actionID e = act_id a" "fact_of a t e \<Longrightarrow> ev_attemptID e = t" "fact_of a t e \<Longrightarrow> event_ok e"
  by (simp_all add: fact_of_def)

lemma newEvent_fact: "newEvent rt (act_id a) t k q occ rec d = Inr e \<Longrightarrow> fact_of a t e \<and> ev_kind e = k"
  by (auto simp: newEvent_Inr fact_of_def)

lemma single_builder_facts:
  "actionRequestedEvent rt a i r = Inr e \<Longrightarrow> fact_of a i e \<and> ev_kind e = EventActionRequested"
  "attemptStartedEvent rt a t r = Inr e \<Longrightarrow> fact_of a (att_id t) e \<and> ev_kind e = EventAttemptStarted"
  "recoveryAuthorizedEvent rt a t au r = Inr e \<Longrightarrow> fact_of a (att_id t) e \<and> ev_kind e = EventRecoveryAuthorized"
  "admissionEvent rt a t s oe r = Inr e \<Longrightarrow> fact_of a (att_id t) e
     \<and> ev_kind e = (if s = AdmissionRejected then EventActionRejected else EventActionAdmitted)"
  "notDispatchedEvent rt a t c r = Inr e \<Longrightarrow> fact_of a (att_id t) e \<and> ev_kind e = EventNotDispatched"
  "observationEvent rt a i b = Inr e \<Longrightarrow> fact_of a i e \<and> ev_kind e = EventObservationRecorded"
  unfolding actionRequestedEvent_def attemptStartedEvent_def recoveryAuthorizedEvent_def
    admissionEvent_def notDispatchedEvent_def observationEvent_def Let_def split_beta result_bind_Inr_iff
  by (blast dest: newEvent_fact)+

lemma dispatchEvents_facts:
  assumes "dispatchEvents rt a t g d oe r = Inr es"
  shows "list_all (fact_of a (att_id t)) es
    \<and> map ev_kind es = dispatch_kind (dr_status d) #
        (if dr_status d = DispatchDispatched \<or> dr_status d = DispatchAcknowledged then [EventEffectUnverified] else [])"
  using assms by (auto simp: dispatchEvents_def Let_def dest!: newEvent_fact split: if_splits)

lemma verificationEvents_facts:
  assumes "verificationEvents rt a i v oe r = Inr es"
  shows "list_all (fact_of a i) es
    \<and> map ev_kind es = (if vr_status v = VerificationUnknown then []
        else [fst (verification_kinds (vr_status v)), snd (verification_kinds (vr_status v))])"
  using assms by (auto simp: verificationEvents_def Let_def split_beta dest!: newEvent_fact split: if_splits)

end
