(* ===== verification/Projection.thy ===== *)
theory Projection
  imports Core_Event
begin

text \<open>
  \<open>projection/attempt.go\<close>: the rebuildable view of one attempt. The record has the fields of the
  struct \<open>Attempt\<close>; the three \<open>merge\<close> methods and the switch of \<open>Apply\<close> return the updated record.
  The contract of a dimension is the locale \<open>knowledge_dimension\<close>: what the view shows after any
  facts is a function \<open>resolve\<close> of the set of claims those facts make. It is interpreted for
  admission, dispatch and effect, so order and repetition of facts cannot matter.
\<close>

record Attempt =
  pj_actionID :: ActionID
  pj_attemptID :: AttemptID
  pj_admission :: AdmissionStatus
  pj_dispatch :: DispatchStatus
  pj_effect :: EffectStatus
  pj_verification :: VerificationStatus
  pj_admissionConflicted :: bool
  pj_dispatchConflicted :: bool
  pj_effectConflicted :: bool

definition NewAttempt :: "ActionID \<Rightarrow> AttemptID \<Rightarrow> err + Attempt" where
  "NewAttempt actionID attemptID =
    (if actionID = '''' \<or> attemptID = '''' then Inl (Sentinel ErrInvalidIdentity)
     else Inr \<lparr>pj_actionID = actionID, pj_attemptID = attemptID, pj_admission = 0, pj_dispatch = 0,
               pj_effect = 0, pj_verification = 0, pj_admissionConflicted = False,
               pj_dispatchConflicted = False, pj_effectConflicted = False\<rparr>)"

definition mergeAdmission :: "Attempt \<Rightarrow> AdmissionStatus \<Rightarrow> Attempt" where
  "mergeAdmission p nxt =
    (if pj_admissionConflicted p then p
     else if pj_admission p = AdmissionUnknown \<or> pj_admission p = nxt then p\<lparr>pj_admission := nxt\<rparr>
     else p\<lparr>pj_admission := AdmissionUnknown, pj_admissionConflicted := True\<rparr>)"

definition mergeDispatch :: "Attempt \<Rightarrow> DispatchStatus \<Rightarrow> Attempt" where
  "mergeDispatch p nxt =
    (if pj_dispatchConflicted p then p
     else if pj_dispatch p = DispatchUnknown \<or> pj_dispatch p = nxt then p\<lparr>pj_dispatch := nxt\<rparr>
     else if pj_dispatch p = DispatchDispatched \<and> nxt = DispatchAcknowledged then p\<lparr>pj_dispatch := nxt\<rparr>
     else if pj_dispatch p = DispatchAcknowledged \<and> nxt = DispatchDispatched then p
     else p\<lparr>pj_dispatch := DispatchUnknown, pj_dispatchConflicted := True\<rparr>)"

definition mergeEffect :: "Attempt \<Rightarrow> EffectStatus \<Rightarrow> Attempt" where
  "mergeEffect p nxt =
    (if pj_effectConflicted p then p
     else if pj_effect p = EffectUnknown \<or> pj_effect p = nxt \<or> pj_effect p = EffectUnverified
     then p\<lparr>pj_effect := nxt\<rparr>
     else if nxt = EffectUnverified then p
     else p\<lparr>pj_effect := EffectUnknown, pj_effectConflicted := True\<rparr>)"

text \<open>The switch of \<open>Apply\<close> on the kind of the fact.\<close>

definition apply_kind :: "EventKind \<Rightarrow> Attempt \<Rightarrow> Attempt" where
  "apply_kind k p =
    (if k = EventActionRequested \<or> k = EventAttemptStarted \<or> k = EventRecoveryAuthorized
        \<or> k = EventObservationRecorded then p
     else if k = EventActionAdmitted then mergeAdmission p AdmissionAdmitted
     else if k = EventActionRejected
     then mergeDispatch (mergeAdmission p AdmissionRejected) DispatchNotDispatched
     else if k = EventDispatchUnknown then p
     else if k = EventNotDispatched then mergeDispatch p DispatchNotDispatched
     else if k = EventActionDispatched then mergeDispatch p DispatchDispatched
     else if k = EventProviderAcknowledged then mergeDispatch p DispatchAcknowledged
     else if k = EventEffectUnknown then p
     else if k = EventEffectUnverified then mergeEffect p EffectUnverified
     else if k = EventEffectObservedSatisfied then mergeEffect p EffectObservedSatisfied
     else if k = EventEffectObservedUnsatisfied then mergeEffect p EffectObservedUnsatisfied
     else if k = EventVerificationVerified then p\<lparr>pj_verification := VerificationVerified\<rparr>
     else if k = EventVerificationUnsatisfied then p\<lparr>pj_verification := VerificationUnsatisfied\<rparr>
     else if k = EventVerificationInconclusive
     then (if pj_verification p = VerificationUnknown
           then p\<lparr>pj_verification := VerificationInconclusive\<rparr> else p)
     else p)"

definition Apply :: "Attempt \<Rightarrow> ExecutionEvent \<Rightarrow> err + Attempt" where
  "Apply p event =
    (if ev_actionID event \<noteq> pj_actionID p
     then Inl (Errorf [W (Sentinel ErrUnrelatedEvent), T '': action '', T (ev_actionID event)])
     else if ev_attemptID event \<noteq> '''' \<and> ev_attemptID event \<noteq> pj_attemptID p
     then Inl (Errorf [W (Sentinel ErrUnrelatedEvent), T '': attempt '', T (ev_attemptID event)])
     else Inr (apply_kind (ev_kind event) p))"

definition attempt_Outcome :: "Attempt \<Rightarrow> Outcome" where
  "attempt_Outcome p =
    fst (go_pair zero_outcome (NewOutcome \<lparr>os_Admission = pj_admission p, os_Dispatch = pj_dispatch p,
                                          os_Effect = pj_effect p\<rparr>))"

definition Conflicted :: "Attempt \<Rightarrow> bool" where
  "Conflicted p \<longleftrightarrow> pj_admissionConflicted p \<or> pj_dispatchConflicted p \<or> pj_effectConflicted p"

text \<open>Replaying facts in order, stopping at the first unrelated one.\<close>

fun apply_events :: "Attempt \<Rightarrow> ExecutionEvent list \<Rightarrow> err + Attempt" where
  "apply_events p [] = Inr p"
| "apply_events p (e # es) = result_bind (Apply p e) (\<lambda>p'. apply_events p' es)"

subsection \<open>Dimensions of knowledge\<close>

text \<open>
  A dimension shows a status and a conflict flag. \<open>claims k\<close> are the statuses a fact of kind \<open>k\<close>
  asserts, \<open>resolve S\<close> what the dimension shows once the claims \<open>S\<close> have been made.
\<close>

locale knowledge_dimension =
  fixes shown :: "Attempt \<Rightarrow> u8 \<times> bool"
    and claims :: "EventKind \<Rightarrow> u8 set"
    and resolve :: "u8 set \<Rightarrow> u8 \<times> bool"
  assumes resolve_empty: "resolve {} = (0, False)"
    and shown_apply: "S \<subseteq> (\<Union>k. claims k) \<Longrightarrow> shown p = resolve S \<Longrightarrow>
      shown (apply_kind k p) = resolve (S \<union> claims k)"
    and conflict_mono: "S \<subseteq> S' \<Longrightarrow> snd (resolve S) \<Longrightarrow> snd (resolve S')"
begin

lemma shown_fold:
  assumes "S \<subseteq> (\<Union>k. claims k)" and "shown p = resolve S"
  shows "shown (fold apply_kind ks p) = resolve (S \<union> (\<Union>k\<in>set ks. claims k))"
  using assms
proof (induction ks arbitrary: p S)
  case Nil
  then show ?case by simp
next
  case (Cons k ks)
  have "S \<union> claims k \<subseteq> (\<Union>k. claims k)" using Cons.prems(1) by auto
  moreover have "shown (apply_kind k p) = resolve (S \<union> claims k)" using Cons.prems by (rule shown_apply)
  ultimately have "shown (fold apply_kind ks (apply_kind k p))
      = resolve (S \<union> claims k \<union> (\<Union>k\<in>set ks. claims k))"
    by (rule Cons.IH)
  then show ?case by (simp add: Un_assoc)
qed

lemma shown_replay:
  assumes "shown p = (0, False)"
  shows "shown (fold apply_kind ks p) = resolve (\<Union>k\<in>set ks. claims k)"
  using shown_fold [of "{}" p ks] assms by (simp add: resolve_empty)

lemma shown_order_irrelevant:
  assumes "shown p = (0, False)" and "set ks = set ks'"
  shows "shown (fold apply_kind ks p) = shown (fold apply_kind ks' p)"
  using assms by (simp add: shown_replay)

lemma conflict_sticky:
  assumes "shown p = (0, False)" and "snd (shown (fold apply_kind ks p))"
  shows "snd (shown (fold apply_kind (ks @ ks') p))"
proof -
  have "snd (resolve (\<Union>k\<in>set ks. claims k))" using assms shown_replay by metis
  moreover have "(\<Union>k\<in>set ks. claims k) \<subseteq> (\<Union>k\<in>set (ks @ ks'). claims k)" by auto
  ultimately show ?thesis using conflict_mono shown_replay [OF assms(1)] by metis
qed

end

subsection \<open>The three dimensions\<close>

definition admission_claims :: "EventKind \<Rightarrow> AdmissionStatus set" where
  "admission_claims k =
    (if k = EventActionAdmitted then {AdmissionAdmitted}
     else if k = EventActionRejected then {AdmissionRejected} else {})"

definition dispatch_claims :: "EventKind \<Rightarrow> DispatchStatus set" where
  "dispatch_claims k =
    (if k = EventActionRejected \<or> k = EventNotDispatched then {DispatchNotDispatched}
     else if k = EventActionDispatched then {DispatchDispatched}
     else if k = EventProviderAcknowledged then {DispatchAcknowledged} else {})"

definition effect_claims :: "EventKind \<Rightarrow> EffectStatus set" where
  "effect_claims k =
    (if k = EventEffectUnverified then {EffectUnverified}
     else if k = EventEffectObservedSatisfied then {EffectObservedSatisfied}
     else if k = EventEffectObservedUnsatisfied then {EffectObservedUnsatisfied} else {})"

text \<open>Contradictory claims conflict; an acknowledgement implies dispatch; an observation supersedes
  the absence of one.\<close>

definition resolve_admission :: "AdmissionStatus set \<Rightarrow> AdmissionStatus \<times> bool" where
  "resolve_admission S =
    (if AdmissionAdmitted \<in> S \<and> AdmissionRejected \<in> S then (AdmissionUnknown, True)
     else if AdmissionAdmitted \<in> S then (AdmissionAdmitted, False)
     else if AdmissionRejected \<in> S then (AdmissionRejected, False)
     else (AdmissionUnknown, False))"

definition resolve_dispatch :: "DispatchStatus set \<Rightarrow> DispatchStatus \<times> bool" where
  "resolve_dispatch S =
    (if DispatchNotDispatched \<in> S \<and> (DispatchDispatched \<in> S \<or> DispatchAcknowledged \<in> S)
     then (DispatchUnknown, True)
     else if DispatchNotDispatched \<in> S then (DispatchNotDispatched, False)
     else if DispatchAcknowledged \<in> S then (DispatchAcknowledged, False)
     else if DispatchDispatched \<in> S then (DispatchDispatched, False)
     else (DispatchUnknown, False))"

definition resolve_effect :: "EffectStatus set \<Rightarrow> EffectStatus \<times> bool" where
  "resolve_effect S =
    (if EffectObservedSatisfied \<in> S \<and> EffectObservedUnsatisfied \<in> S then (EffectUnknown, True)
     else if EffectObservedSatisfied \<in> S then (EffectObservedSatisfied, False)
     else if EffectObservedUnsatisfied \<in> S then (EffectObservedUnsatisfied, False)
     else if EffectUnverified \<in> S then (EffectUnverified, False)
     else (EffectUnknown, False))"

definition shown_admission :: "Attempt \<Rightarrow> AdmissionStatus \<times> bool" where
  "shown_admission p = (pj_admission p, pj_admissionConflicted p)"

definition shown_dispatch :: "Attempt \<Rightarrow> DispatchStatus \<times> bool" where
  "shown_dispatch p = (pj_dispatch p, pj_dispatchConflicted p)"

definition shown_effect :: "Attempt \<Rightarrow> EffectStatus \<times> bool" where
  "shown_effect p = (pj_effect p, pj_effectConflicted p)"

lemmas projection_defs = mergeAdmission_def mergeDispatch_def mergeEffect_def shown_admission_def
  shown_dispatch_def shown_effect_def admission_claims_def dispatch_claims_def effect_claims_def
  resolve_admission_def resolve_dispatch_def resolve_effect_def

text \<open>What one merge does to each dimension.\<close>

lemma shown_mergeAdmission:
  "shown_admission (mergeAdmission p n) =
    (if snd (shown_admission p) then shown_admission p
     else if fst (shown_admission p) = AdmissionUnknown \<or> fst (shown_admission p) = n then (n, False)
     else (AdmissionUnknown, True))"
  by (simp add: shown_admission_def mergeAdmission_def)

lemma shown_mergeDispatch:
  "shown_dispatch (mergeDispatch p n) =
    (if snd (shown_dispatch p) then shown_dispatch p
     else if fst (shown_dispatch p) = DispatchUnknown \<or> fst (shown_dispatch p) = n then (n, False)
     else if fst (shown_dispatch p) = DispatchDispatched \<and> n = DispatchAcknowledged then (n, False)
     else if fst (shown_dispatch p) = DispatchAcknowledged \<and> n = DispatchDispatched then shown_dispatch p
     else (DispatchUnknown, True))"
proof (cases "pj_dispatchConflicted p")
  case True
  then show ?thesis by (simp only: shown_dispatch_def mergeDispatch_def snd_conv if_True)
next
  case False
  then show ?thesis
    unfolding mergeDispatch_def if_distrib [of shown_dispatch]
    by (simp add: shown_dispatch_def cong: if_weak_cong)
qed

lemma shown_mergeEffect:
  "shown_effect (mergeEffect p n) =
    (if snd (shown_effect p) then shown_effect p
     else if fst (shown_effect p) = EffectUnknown \<or> fst (shown_effect p) = n
       \<or> fst (shown_effect p) = EffectUnverified then (n, False)
     else if n = EffectUnverified then shown_effect p
     else (EffectUnknown, True))"
  by (simp add: shown_effect_def mergeEffect_def)

lemmas shown_merge_own = shown_mergeAdmission shown_mergeDispatch shown_mergeEffect

lemma shown_merge_other [simp]:
  "shown_admission (mergeDispatch p n) = shown_admission p"
  "shown_admission (mergeEffect p n) = shown_admission p"
  "shown_dispatch (mergeAdmission p n) = shown_dispatch p"
  "shown_dispatch (mergeEffect p n) = shown_dispatch p"
  "shown_effect (mergeAdmission p n) = shown_effect p"
  "shown_effect (mergeDispatch p n) = shown_effect p"
  "shown_admission (p\<lparr>pj_verification := v\<rparr>) = shown_admission p"
  "shown_dispatch (p\<lparr>pj_verification := v\<rparr>) = shown_dispatch p"
  "shown_effect (p\<lparr>pj_verification := v\<rparr>) = shown_effect p"
  by (simp_all add: projection_defs)

text \<open>Each dimension only moves by the claims of the fact's kind.\<close>

lemma apply_kind_dimensions:
  "shown_admission (apply_kind k p) =
    (if k = EventActionAdmitted then shown_admission (mergeAdmission p AdmissionAdmitted)
     else if k = EventActionRejected then shown_admission (mergeAdmission p AdmissionRejected)
     else shown_admission p)"
  "shown_dispatch (apply_kind k p) =
    (if k = EventActionRejected \<or> k = EventNotDispatched then shown_dispatch (mergeDispatch p DispatchNotDispatched)
     else if k = EventActionDispatched then shown_dispatch (mergeDispatch p DispatchDispatched)
     else if k = EventProviderAcknowledged then shown_dispatch (mergeDispatch p DispatchAcknowledged)
     else shown_dispatch p)"
  "shown_effect (apply_kind k p) =
    (if k = EventEffectUnverified then shown_effect (mergeEffect p EffectUnverified)
     else if k = EventEffectObservedSatisfied then shown_effect (mergeEffect p EffectObservedSatisfied)
     else if k = EventEffectObservedUnsatisfied then shown_effect (mergeEffect p EffectObservedUnsatisfied)
     else shown_effect p)"
  by (auto simp: apply_kind_def shown_merge_own)

lemma admission_claims_bound: "admission_claims k \<subseteq> {AdmissionAdmitted, AdmissionRejected}"
  by (simp add: admission_claims_def)

lemma dispatch_claims_bound:
  "dispatch_claims k \<subseteq> {DispatchNotDispatched, DispatchDispatched, DispatchAcknowledged}"
  by (simp add: dispatch_claims_def)

lemma effect_claims_bound:
  "effect_claims k \<subseteq> {EffectUnverified, EffectObservedSatisfied, EffectObservedUnsatisfied}"
  by (simp add: effect_claims_def)

interpretation admission_dim: knowledge_dimension shown_admission admission_claims resolve_admission
proof
  fix S p k
  assume "S \<subseteq> (\<Union>k. admission_claims k)" and "shown_admission p = resolve_admission S"
  then show "shown_admission (apply_kind k p) = resolve_admission (S \<union> admission_claims k)"
    by (auto simp: apply_kind_dimensions shown_merge_own resolve_admission_def admission_claims_def status_defs)
qed (auto simp: resolve_admission_def status_defs split: if_splits)

interpretation dispatch_dim: knowledge_dimension shown_dispatch dispatch_claims resolve_dispatch
proof
  fix S p k
  assume "S \<subseteq> (\<Union>k. dispatch_claims k)" and "shown_dispatch p = resolve_dispatch S"
  then show "shown_dispatch (apply_kind k p) = resolve_dispatch (S \<union> dispatch_claims k)"
    by (auto simp: apply_kind_dimensions shown_merge_own resolve_dispatch_def dispatch_claims_def status_defs)
qed (auto simp: resolve_dispatch_def status_defs split: if_splits)

interpretation effect_dim: knowledge_dimension shown_effect effect_claims resolve_effect
proof
  fix S p k
  assume "S \<subseteq> (\<Union>k. effect_claims k)" and "shown_effect p = resolve_effect S"
  then show "shown_effect (apply_kind k p) = resolve_effect (S \<union> effect_claims k)"
    by (auto simp: apply_kind_dimensions shown_merge_own resolve_effect_def effect_claims_def status_defs)
qed (auto simp: resolve_effect_def status_defs split: if_splits)

subsection \<open>Replay\<close>

text \<open>The facts an attempt's view accepts: those of its action and of its attempt (or of no attempt).\<close>

definition related :: "Attempt \<Rightarrow> ExecutionEvent \<Rightarrow> bool" where
  "related p event \<longleftrightarrow> ev_actionID event = pj_actionID p
     \<and> (ev_attemptID event = [] \<or> ev_attemptID event = pj_attemptID p)"

lemma merge_identity:
  "pj_actionID (mergeAdmission p a) = pj_actionID p" "pj_attemptID (mergeAdmission p a) = pj_attemptID p"
  "pj_actionID (mergeDispatch p d) = pj_actionID p" "pj_attemptID (mergeDispatch p d) = pj_attemptID p"
  "pj_actionID (mergeEffect p e) = pj_actionID p" "pj_attemptID (mergeEffect p e) = pj_attemptID p"
  by (simp_all add: mergeAdmission_def mergeDispatch_def mergeEffect_def)

lemma apply_kind_identity [simp]:
  "pj_actionID (apply_kind k p) = pj_actionID p" "pj_attemptID (apply_kind k p) = pj_attemptID p"
  by (simp_all add: apply_kind_def merge_identity if_distrib [of pj_actionID] if_distrib [of pj_attemptID])

lemma related_apply_kind [simp]: "related (apply_kind k p) = related p"
  by (simp add: related_def fun_eq_iff)

lemma Apply_Inr_iff [simp]: "Apply p e = Inr p' \<longleftrightarrow> related p e \<and> p' = apply_kind (ev_kind e) p"
  by (auto simp: Apply_def related_def)

lemma Apply_Inl: "Apply p e = Inl er \<Longrightarrow> \<not> related p e \<and> (\<forall>t. errorsIs er t \<longleftrightarrow> t = ErrUnrelatedEvent)"
  by (auto simp: Apply_def related_def split: if_splits)

lemma apply_events_Inr_iff:
  "apply_events p es = Inr p' \<longleftrightarrow> list_all (related p) es \<and> p' = fold apply_kind (map ev_kind es) p"
  by (induction es arbitrary: p) auto

lemma apply_events_identity:
  "apply_events p es = Inr p' \<Longrightarrow> pj_actionID p' = pj_actionID p \<and> pj_attemptID p' = pj_attemptID p"
  by (induction es arbitrary: p) auto

lemma apply_events_Inl:
  "apply_events p es = Inl er \<Longrightarrow> \<not> list_all (related p) es \<and> (\<forall>t. errorsIs er t \<longleftrightarrow> t = ErrUnrelatedEvent)"
proof (induction es arbitrary: p)
  case (Cons e es)
  show ?case
  proof (cases "Apply p e")
    case (Inl x)
    with Cons.prems Apply_Inl [OF Inl] show ?thesis by simp
  next
    case (Inr p1)
    with Cons.prems have "apply_events p1 es = Inl er" by simp
    from Cons.IH [OF this] Inr show ?thesis by simp
  qed
qed simp

lemma apply_events_append:
  "apply_events p (es @ es') = result_bind (apply_events p es) (\<lambda>p'. apply_events p' es')"
  by (induction es arbitrary: p) (auto simp: result_bind_assoc)

text \<open>An empty view shows nothing in any dimension, and the shown statuses are always admissible.\<close>

lemma NewAttempt_Inr:
  assumes "NewAttempt i t = Inr p"
  shows "shown_admission p = (0, False)" "shown_dispatch p = (0, False)" "shown_effect p = (0, False)"
    "pj_verification p = 0" "pj_actionID p = i" "pj_attemptID p = t"
  using assms by (auto simp: NewAttempt_def projection_defs split: if_splits)

lemma resolve_valid:
  "admission_valid (fst (resolve_admission S))" "dispatch_valid (fst (resolve_dispatch S))"
  "effect_valid (fst (resolve_effect S))"
  by (simp_all add: resolve_admission_def resolve_dispatch_def resolve_effect_def
      admission_valid_iff dispatch_valid_iff effect_valid_iff)

definition claimed_by :: "(EventKind \<Rightarrow> u8 set) \<Rightarrow> ExecutionEvent list \<Rightarrow> u8 set" where
  "claimed_by claims es = (\<Union>e\<in>set es. claims (ev_kind e))"

lemma attempt_Outcome_resolved:
  assumes "shown_admission p = resolve_admission As" "shown_dispatch p = resolve_dispatch Ds"
    "shown_effect p = resolve_effect Es"
  shows "attempt_Outcome p = \<lparr>o_admission = fst (resolve_admission As), o_dispatch = fst (resolve_dispatch Ds),
    o_effect = fst (resolve_effect Es)\<rparr>"
proof -
  have "pj_admission p = fst (resolve_admission As)" "pj_dispatch p = fst (resolve_dispatch Ds)"
    "pj_effect p = fst (resolve_effect Es)"
    using assms by (metis shown_admission_def shown_dispatch_def shown_effect_def fst_conv)+
  then show ?thesis
    using resolve_valid [of As] resolve_valid [of Ds] resolve_valid [of Es]
    by (simp add: attempt_Outcome_def NewOutcome_def)
qed

lemma replay_dimensions:
  assumes "NewAttempt i t = Inr p0" and "apply_events p0 es = Inr p"
  shows "shown_admission p = resolve_admission (claimed_by admission_claims es)"
    and "shown_dispatch p = resolve_dispatch (claimed_by dispatch_claims es)"
    and "shown_effect p = resolve_effect (claimed_by effect_claims es)"
  using assms(2) NewAttempt_Inr [OF assms(1)]
  by (simp_all add: apply_events_Inr_iff claimed_by_def admission_dim.shown_replay
      dispatch_dim.shown_replay effect_dim.shown_replay)

text \<open>The verdict of the replayed verification facts: the last conclusive one wins.\<close>

definition conclusive_kind :: "EventKind \<Rightarrow> bool" where
  "conclusive_kind k \<longleftrightarrow> k = EventVerificationVerified \<or> k = EventVerificationUnsatisfied"

definition kinds_verdict :: "EventKind list \<Rightarrow> VerificationStatus" where
  "kinds_verdict ks =
    (case filter conclusive_kind (rev ks) of
       k # _ \<Rightarrow> (if k = EventVerificationVerified then VerificationVerified else VerificationUnsatisfied)
     | [] \<Rightarrow> (if EventVerificationInconclusive \<in> set ks then VerificationInconclusive
             else VerificationUnknown))"

lemma pj_verification_merge [simp]:
  "pj_verification (mergeAdmission p a) = pj_verification p"
  "pj_verification (mergeDispatch p d) = pj_verification p"
  "pj_verification (mergeEffect p e) = pj_verification p"
  by (simp_all add: mergeAdmission_def mergeDispatch_def mergeEffect_def)

lemma pj_verification_apply_kind:
  "pj_verification (apply_kind k p) =
    (if k = EventVerificationVerified then VerificationVerified
     else if k = EventVerificationUnsatisfied then VerificationUnsatisfied
     else if k = EventVerificationInconclusive \<and> pj_verification p = VerificationUnknown
     then VerificationInconclusive else pj_verification p)"
  by (auto simp: apply_kind_def)

lemma verification_replay:
  "pj_verification p = VerificationUnknown \<Longrightarrow>
     pj_verification (fold apply_kind ks p) = kinds_verdict ks"
proof (induction ks rule: rev_induct)
  case Nil
  then show ?case by (simp add: kinds_verdict_def)
next
  case (snoc k ks)
  have ne: "VerificationVerified \<noteq> VerificationUnknown" "VerificationUnsatisfied \<noteq> VerificationUnknown"
    "VerificationInconclusive \<noteq> VerificationUnknown"
    by (simp_all add: status_defs)
  from snoc have "pj_verification (fold apply_kind ks p) = kinds_verdict ks" by simp
  then show ?case
    using ne by (auto simp: pj_verification_apply_kind kinds_verdict_def conclusive_kind_def
        split: list.splits)
qed

text \<open>The whole view after a replay.\<close>

lemma view_facts:
  assumes "NewAttempt i t = Inr p0" and "apply_events p0 es = Inr p"
  shows "attempt_Outcome p = \<lparr>o_admission = fst (resolve_admission (claimed_by admission_claims es)),
      o_dispatch = fst (resolve_dispatch (claimed_by dispatch_claims es)),
      o_effect = fst (resolve_effect (claimed_by effect_claims es))\<rparr>"
    and "pj_admissionConflicted p = snd (resolve_admission (claimed_by admission_claims es))"
    and "pj_dispatchConflicted p = snd (resolve_dispatch (claimed_by dispatch_claims es))"
    and "pj_effectConflicted p = snd (resolve_effect (claimed_by effect_claims es))"
    and "pj_verification p = kinds_verdict (map ev_kind es)"
proof -
  note dims = replay_dimensions [OF assms]
  have "pj_verification p0 = VerificationUnknown" using NewAttempt_Inr [OF assms(1)] by (simp add: status_defs)
  then show "pj_verification p = kinds_verdict (map ev_kind es)"
    using assms(2) verification_replay by (simp add: apply_events_Inr_iff)
  show "attempt_Outcome p = \<lparr>o_admission = fst (resolve_admission (claimed_by admission_claims es)),
      o_dispatch = fst (resolve_dispatch (claimed_by dispatch_claims es)),
      o_effect = fst (resolve_effect (claimed_by effect_claims es))\<rparr>"
    by (rule attempt_Outcome_resolved [OF dims])
  show "pj_admissionConflicted p = snd (resolve_admission (claimed_by admission_claims es))"
    "pj_dispatchConflicted p = snd (resolve_dispatch (claimed_by dispatch_claims es))"
    "pj_effectConflicted p = snd (resolve_effect (claimed_by effect_claims es))"
    using dims by (metis shown_admission_def shown_dispatch_def shown_effect_def snd_conv)+
qed

subsection \<open>Properties of the view\<close>

text \<open>C12: whatever facts a view has accepted, in whatever order and however often, its outcome and its
  conflict flags are those of the set of claims the facts make: contradictory claims give unknown and
  the flag, an acknowledgement implies dispatch, an observation supersedes an unverified effect; and
  the verification status is the last conclusive verdict.\<close>

theorem view_is_resolution:
  assumes "NewAttempt i t = Inr p0" and "apply_events p0 es = Inr p"
  defines "As \<equiv> claimed_by admission_claims es" and "Ds \<equiv> claimed_by dispatch_claims es"
    and "Es \<equiv> claimed_by effect_claims es"
  shows "attempt_Outcome p = \<lparr>o_admission = fst (resolve_admission As), o_dispatch = fst (resolve_dispatch Ds),
      o_effect = fst (resolve_effect Es)\<rparr>
    \<and> pj_admissionConflicted p = snd (resolve_admission As)
    \<and> pj_dispatchConflicted p = snd (resolve_dispatch Ds)
    \<and> pj_effectConflicted p = snd (resolve_effect Es)
    \<and> pj_verification p = kinds_verdict (map ev_kind es)"
  using view_facts [OF assms(1,2)] unfolding As_def Ds_def Es_def by blast

text \<open>An example log for the witnesses.\<close>

definition example_log :: "ExecutionEvent list" where
  "example_log = [example_fact ''1'' EventActionAdmitted, example_fact ''2'' EventActionDispatched,
     example_fact ''3'' EventEffectUnverified, example_fact ''4'' EventNotDispatched,
     example_fact ''5'' EventEffectObservedSatisfied, example_fact ''6'' EventVerificationVerified]"

lemma view_is_resolution_witness:
  "\<exists>p0 p. NewAttempt ''a'' ''t'' = Inr p0 \<and> apply_events p0 example_log = Inr p
     \<and> attempt_Outcome p = \<lparr>o_admission = AdmissionAdmitted, o_dispatch = DispatchUnknown,
          o_effect = EffectObservedSatisfied\<rparr>
     \<and> pj_dispatchConflicted p \<and> pj_verification p = VerificationVerified"
proof -
  obtain p0 where p0: "NewAttempt ''a'' ''t'' = Inr p0" by (simp add: NewAttempt_def)
  obtain p where p: "apply_events p0 example_log = Inr p"
    using NewAttempt_Inr(5,6) [OF p0]
    by (simp add: apply_events_Inr_iff example_log_def example_fact_def related_def)
  show ?thesis
    using p0 p view_is_resolution [OF p0 p]
    by (simp add: example_log_def example_fact_def claimed_by_def admission_claims_def dispatch_claims_def
        effect_claims_def resolve_admission_def resolve_dispatch_def resolve_effect_def kinds_verdict_def
        conclusive_kind_def status_defs)
qed

text \<open>A contradiction is never forgotten: once the replay of some facts has raised the conflict flag
  of a dimension, every longer replay raises it too.\<close>

lemma conflict_is_permanent:
  assumes "NewAttempt i t = Inr p0" and "apply_events p0 es = Inr p" and "apply_events p es' = Inr p'"
  shows "(pj_admissionConflicted p \<longrightarrow> pj_admissionConflicted p')
    \<and> (pj_dispatchConflicted p \<longrightarrow> pj_dispatchConflicted p')
    \<and> (pj_effectConflicted p \<longrightarrow> pj_effectConflicted p')"
proof -
  let ?ks = "map ev_kind es" and ?ks' = "map ev_kind es'"
  note p0 = NewAttempt_Inr [OF assms(1)]
  have p: "p = fold apply_kind ?ks p0" "p' = fold apply_kind (?ks @ ?ks') p0"
    using assms(2,3) by (simp_all add: apply_events_Inr_iff)
  show ?thesis
    using admission_dim.conflict_sticky [OF p0(1), of ?ks ?ks'] dispatch_dim.conflict_sticky [OF p0(2), of ?ks ?ks']
      effect_dim.conflict_sticky [OF p0(3), of ?ks ?ks']
    unfolding p [symmetric] by (simp add: shown_admission_def shown_dispatch_def shown_effect_def)
qed

lemma conflict_is_permanent_witness:
  "\<exists>p0 p p'. NewAttempt ''a'' ''t'' = Inr p0 \<and> apply_events p0 (take 4 example_log) = Inr p
     \<and> apply_events p (drop 4 example_log) = Inr p' \<and> pj_dispatchConflicted p \<and> pj_dispatchConflicted p'"
proof -
  obtain p0 where p0: "NewAttempt ''a'' ''t'' = Inr p0" by (simp add: NewAttempt_def)
  note ids = NewAttempt_Inr(5,6) [OF p0]
  obtain p where p: "apply_events p0 (take 4 example_log) = Inr p"
    using ids by (simp add: apply_events_Inr_iff example_log_def example_fact_def related_def)
  have "pj_actionID p = ''a''" "pj_attemptID p = ''t''"
    using apply_events_identity [OF p] ids by simp_all
  then obtain p' where p': "apply_events p (drop 4 example_log) = Inr p'"
    by (simp add: apply_events_Inr_iff example_log_def example_fact_def related_def)
  have "pj_dispatchConflicted p"
    using replay_dimensions(2) [OF p0 p]
    by (simp add: example_log_def example_fact_def claimed_by_def dispatch_claims_def resolve_dispatch_def
        shown_dispatch_def status_defs)
  with p0 p p' conflict_is_permanent [OF p0 p p'] show ?thesis by blast
qed

text \<open>C13: replay accepts a log exactly when every fact belongs to the view's action and attempt (or to no
  attempt); otherwise it fails, with the error for unrelated events and no other.\<close>

theorem replay_accepts_related:
  "(\<exists>p'. apply_events p es = Inr p') = list_all (related p) es
   \<and> (apply_events p es = Inl e \<longrightarrow> (\<forall>s. errorsIs e s = (s = ErrUnrelatedEvent)))"
  using apply_events_Inl [of p es e] by (auto simp: apply_events_Inr_iff)

lemma replay_accepts_related_witness:
  "\<exists>p0 e. NewAttempt ''a'' ''u'' = Inr p0 \<and> apply_events p0 example_log = Inl e \<and> errorsIs e ErrUnrelatedEvent"
proof -
  obtain p0 where p0: "NewAttempt ''a'' ''u'' = Inr p0" by (simp add: NewAttempt_def)
  have no: "\<not> list_all (related p0) example_log"
    using NewAttempt_Inr(5,6) [OF p0] by (simp add: example_log_def example_fact_def related_def)
  obtain e where e: "apply_events p0 example_log = Inl e"
    using no replay_accepts_related [of p0 example_log undefined] by (cases "apply_events p0 example_log") auto
  with p0 replay_accepts_related [of p0 example_log e] show ?thesis by blast
qed

end
