(* ===== verification/Execute.thy ===== *)
theory Execute
  imports Exec_Program Exec_Events Projection
begin

text \<open>
  \<open>execution/execute.go\<close>: the use case that claims and runs one attempt. The method \<open>execute\<close> is cut
  at its calls: validation and claim, admission, resolution, dispatch; the early returns of the source
  are the \<^const>\<open>Done\<close> branches.
\<close>

subsection \<open>The use case\<close>

text \<open>In a configuration a port is present or nil; \<open>Now\<close> defaults to \<open>time.Now\<close>.\<close>

record ExecuteConfig =
  ec_Admitter :: bool
  ec_Resolver :: bool
  ec_Provider :: bool
  ec_Journal :: bool
  ec_Now :: bool
  ec_RecordTimeout :: int

record ExecuteAction =
  ua_now :: clock
  ua_recordTimeout :: int

definition defaultRecordTimeout :: int where
  "defaultRecordTimeout = 5 * 1000000000"

definition NewExecuteAction :: "ExecuteConfig \<Rightarrow> err + ExecuteAction" where
  "NewExecuteAction config =
    (if \<not> ec_Admitter config \<or> \<not> ec_Resolver config \<or> \<not> ec_Provider config \<or> \<not> ec_Journal config
     then Inl (wrap_msg ErrInvalidInput ''admitter, resolver, provider, and journal are required'')
     else Inr \<lparr>ua_now = (if ec_Now config then ConfiguredNow else TimeNow),
               ua_recordTimeout = (if ec_RecordTimeout config \<le> 0 then defaultRecordTimeout
                                   else ec_RecordTimeout config)\<rparr>)"

record ExecuteInput =
  xi_Action :: Action
  xi_AttemptID :: AttemptID

record ExecuteResult =
  er_Action :: Action
  er_Attempt :: ExecutionAttempt
  er_Target :: ResolvedTarget
  er_Admission :: AdmissionStatus
  er_Dispatch :: DispatchResult
  er_Outcome :: Outcome

definition zero_result :: ExecuteResult where
  "zero_result = \<lparr>er_Action = zero_action, er_Attempt = zero_attempt, er_Target = zero_target,
     er_Admission = 0, er_Dispatch = zero_dispatch, er_Outcome = zero_outcome\<rparr>"

definition outcome :: "AdmissionStatus \<Rightarrow> DispatchStatus \<Rightarrow> EffectStatus \<Rightarrow> Outcome" where
  "outcome admission dispatch effect =
    fst (go_pair zero_outcome (NewOutcome \<lparr>os_Admission = admission, os_Dispatch = dispatch, os_Effect = effect\<rparr>))"

definition appendAfterIO :: "ExecuteAction \<Rightarrow> ExecutionEvent list \<Rightarrow> (err option \<Rightarrow> 'a prog) \<Rightarrow> 'a prog" where
  "appendAfterIO u events k = AppendAll (RecordCtx (ua_recordTimeout u)) events k"

text \<open>\<open>if eventErr == nil { eventErr = u.appendAfterIO(...) }\<close> after building the facts.\<close>

definition append_built ::
    "ExecuteAction \<Rightarrow> err + ExecutionEvent list \<Rightarrow> (err option \<Rightarrow> 'a prog) \<Rightarrow> 'a prog" where
  "append_built u built k = (case built of Inl eventErr \<Rightarrow> k (Some eventErr) | Inr events \<Rightarrow> appendAfterIO u events k)"

definition normalizeDispatch ::
    "DispatchResult \<Rightarrow> string \<Rightarrow> AttemptID \<Rightarrow> DispatchResult \<times> err option" where
  "normalizeDispatch result provider attemptID =
    (if dr_provider result = provider \<and> dr_attemptID result = attemptID then (result, None)
     else (case NewDispatchResult \<lparr>ds_Provider = provider, ds_AttemptID = attemptID,
                                  ds_Status = DispatchUnknown, ds_Receipt = None\<rparr> of
             Inl e \<Rightarrow> (zero_dispatch, errorsJoin [Some (Sentinel ErrInvalidProviderResult), Some e])
           | Inr unknown \<Rightarrow>
               (unknown, Some (Errorf [W (Sentinel ErrInvalidProviderResult), T '': expected provider '', Q provider,
                                       T '' and attempt '', Q attemptID]))))"

text \<open>The switch on the admitter's status: an undeclared value becomes unknown, with an error.\<close>

definition normalizeAdmission :: "AdmissionStatus \<Rightarrow> err option \<Rightarrow> AdmissionStatus \<times> err option" where
  "normalizeAdmission admission admitErr =
    (if admission = AdmissionUnknown \<or> admission = AdmissionRejected \<or> admission = AdmissionAdmitted
     then (admission, admitErr)
     else (AdmissionUnknown,
           errorsJoin [admitErr, Some (Errorf [W (Sentinel ErrAdmissionUnknown), T '': invalid status '',
                                               D (unat admission)])]))"

type_synonym execution = "(ExecuteResult \<times> err option) prog"

text \<open>From the call of the provider on.\<close>

definition execute_dispatch ::
    "go_runtime \<Rightarrow> ExecuteAction \<Rightarrow> Action \<Rightarrow> ExecutionAttempt \<Rightarrow> ResolvedTarget \<Rightarrow> ExecuteResult \<Rightarrow> execution"
where
  "execute_dispatch rt u action attempt target result =
    Dispatch CallerCtx attempt action target (\<lambda>(dispatch, dispatchErr).
      let (dispatch, validationErr) = normalizeDispatch dispatch (tgt_provider target) (att_id attempt);
          result = result\<lparr>er_Dispatch := dispatch\<rparr>;
          dispatchErr = errorsJoin [dispatchErr, validationErr]
      in Now (\<lambda>now.
        append_built u (dispatchEvents rt action attempt target dispatch dispatchErr (UTC now)) (\<lambda>eventErr.
          let effect = (if dr_status dispatch = DispatchDispatched \<or> dr_status dispatch = DispatchAcknowledged
                        then EffectUnverified else EffectUnknown)
          in Done (result\<lparr>er_Outcome := outcome (er_Admission result) (dr_status dispatch) effect\<rparr>,
                   errorsJoin [stageError StageDispatch dispatchErr, stageError StageRecord eventErr]))))"

text \<open>The two early exits that record \<open>not-dispatched\<close>: admission not granted, resolution failed.\<close>

definition execute_blocked ::
    "go_runtime \<Rightarrow> ExecuteAction \<Rightarrow> Action \<Rightarrow> ExecutionAttempt \<Rightarrow> Stage \<Rightarrow> err option \<Rightarrow> ExecuteResult \<Rightarrow> execution"
where
  "execute_blocked rt u action attempt stage cause result =
    Now (\<lambda>now.
      append_built u (map_sum id (\<lambda>event. [event]) (notDispatchedEvent rt action attempt cause (UTC now))) (\<lambda>eventErr.
        Done (result\<lparr>er_Outcome := outcome (er_Admission result) DispatchNotDispatched EffectUnknown\<rparr>,
              errorsJoin [stageError stage cause, stageError StageRecord eventErr])))"

definition execute_resolve ::
    "go_runtime \<Rightarrow> ExecuteAction \<Rightarrow> Action \<Rightarrow> ExecutionAttempt \<Rightarrow> ExecuteResult \<Rightarrow> execution" where
  "execute_resolve rt u action attempt result =
    Resolve CallerCtx action (\<lambda>(target, resolveErr).
      let result = result\<lparr>er_Target := target\<rparr>
      in if resolveErr \<noteq> None then execute_blocked rt u action attempt StageResolve resolveErr result
         else execute_dispatch rt u action attempt target result)"

text \<open>The decision after the admission fact.\<close>

definition execute_decide ::
    "go_runtime \<Rightarrow> ExecuteAction \<Rightarrow> Action \<Rightarrow> ExecutionAttempt \<Rightarrow> err option \<Rightarrow> ExecuteResult \<Rightarrow> execution" where
  "execute_decide rt u action attempt admitErr result =
    (let admission = er_Admission result
     in if admission \<noteq> AdmissionAdmitted \<or> admitErr \<noteq> None
        then let cause = (if admitErr = None \<and> admission \<noteq> AdmissionRejected
                          then Some (Sentinel ErrAdmissionUnknown) else admitErr)
             in execute_blocked rt u action attempt StageAdmit cause result
        else execute_resolve rt u action attempt result)"

text \<open>From the call of the admitter on.\<close>

definition execute_admit ::
    "go_runtime \<Rightarrow> ExecuteAction \<Rightarrow> Action \<Rightarrow> ExecutionAttempt \<Rightarrow> ExecuteResult \<Rightarrow> execution" where
  "execute_admit rt u action attempt result =
    Admit CallerCtx action (\<lambda>(status, err).
      let (admission, admitErr) = normalizeAdmission status err;
          result = result\<lparr>er_Admission := admission\<rparr>
      in if admission = AdmissionAdmitted \<or> admission = AdmissionRejected
         then Now (\<lambda>now.
           case admissionEvent rt action attempt admission admitErr (UTC now) of
             Inl eventErr \<Rightarrow> Done (result, stageError StageRecord (Some eventErr))
           | Inr event \<Rightarrow>
               appendAfterIO u [event] (\<lambda>eventErr.
                 if eventErr \<noteq> None
                 then Done (result, errorsJoin [stageError StageAdmit admitErr, stageError StageRecord eventErr])
                 else execute_decide rt u action attempt admitErr result))
         else execute_decide rt u action attempt admitErr result)"

definition initialFacts ::
    "go_runtime \<Rightarrow> Action \<Rightarrow> ExecutionAttempt \<Rightarrow> RecoveryAuthorization option \<Rightarrow> gtime \<Rightarrow> err + ExecutionEvent list"
where
  "initialFacts rt action attempt authorization startedAt =
    result_bind (actionRequestedEvent rt action (att_id attempt) startedAt) (\<lambda>requested.
    result_bind (attemptStartedEvent rt action attempt startedAt) (\<lambda>started.
      case authorization of
        None \<Rightarrow> Inr [requested, started]
      | Some auth \<Rightarrow>
          result_bind (recoveryAuthorizedEvent rt action attempt auth startedAt) (\<lambda>authorized.
            Inr [requested, started, authorized])))"

definition attemptSpec ::
    "ExecuteInput \<Rightarrow> RecoveryAuthorization option \<Rightarrow> gtime \<Rightarrow> ExecutionAttemptSpec" where
  "attemptSpec input authorization startedAt =
    \<lparr>es_ID = xi_AttemptID input, es_ActionID = act_id (xi_Action input), es_StartedAt = startedAt,
     es_RecoveryOf = (case authorization of None \<Rightarrow> '''' | Some a \<Rightarrow> ra_previousAttemptID a)\<rparr>"

text \<open>The result the rest of the method starts from: the attempt, nothing known yet.\<close>

definition started_result :: "Action \<Rightarrow> ExecutionAttempt \<Rightarrow> ExecuteResult" where
  "started_result action attempt =
    zero_result\<lparr>er_Action := action, er_Attempt := attempt,
      er_Outcome := outcome AdmissionUnknown DispatchUnknown EffectUnknown\<rparr>"

definition execute ::
    "go_runtime \<Rightarrow> ExecuteAction option \<Rightarrow> ExecuteInput \<Rightarrow> RecoveryAuthorization option \<Rightarrow> execution" where
  "execute rt use_case input authorization =
    (case use_case of
       None \<Rightarrow> Done (zero_result, stageError StageValidate (Some (wrap_msg ErrInvalidInput ''use case is nil'')))
     | Some u \<Rightarrow>
         Now (\<lambda>now.
           let startedAt = UTC now; action = xi_Action input
           in case NewExecutionAttempt (attemptSpec input authorization startedAt) of
             Inl err \<Rightarrow> Done (zero_result,
               stageError StageValidate (errorsJoin [Some (Sentinel ErrInvalidInput), Some err]))
           | Inr attempt \<Rightarrow>
               let result = started_result action attempt
               in (case initialFacts rt action attempt authorization startedAt of
                     Inl err \<Rightarrow> Done (result, stageError StageRecord (Some err))
                   | Inr initial \<Rightarrow>
                       BeginAttempt CallerCtx action attempt initial (\<lambda>(claimed, err).
                         if err \<noteq> None then Done (result, stageError StageRecord err)
                         else if \<not> claimed
                         then Done (result, stageError StageValidate (Some (Sentinel ErrAttemptAlreadyStarted)))
                         else execute_admit rt u action attempt result))))"

definition Execute :: "go_runtime \<Rightarrow> ExecuteAction option \<Rightarrow> ExecuteInput \<Rightarrow> execution" where
  "Execute rt use_case input = execute rt use_case input None"

end
