(* ===== verification/Execute_Theorems.thy ===== *)
theory Execute_Theorems
  imports Execute
begin

text \<open>
  What holds of every run of \<open>Execute\<close>, whatever the ports answer: which facts it records for which
  result, what it does before and after it dispatches, and what it never does.
\<close>

subsection \<open>Reading a trace\<close>

text \<open>The facts the journal accepted, and the identities of the attempts handed to the provider.\<close>

fun recorded_by :: "call \<Rightarrow> ExecutionEvent list" where
  "recorded_by (DidBegin c a t es (claimed, e)) = (if claimed then es else [])"
| "recorded_by (DidAppend c es e) = (if e = None then es else [])"
| "recorded_by _ = []"

definition recorded :: "call list \<Rightarrow> ExecutionEvent list" where
  "recorded tr = concat (map recorded_by tr)"

fun dispatched_by :: "call \<Rightarrow> AttemptID list" where
  "dispatched_by (DidDispatch c t a g r) = [att_id t]"
| "dispatched_by _ = []"

definition dispatched :: "call list \<Rightarrow> AttemptID list" where
  "dispatched tr = concat (map dispatched_by tr)"

text \<open>The calls that carry out an attempt.\<close>

fun executes :: "call \<Rightarrow> bool" where
  "executes (DidBegin c a t es r) = True"
| "executes (DidAdmit c a r) = True"
| "executes (DidDispatch c t a g r) = True"
| "executes _ = False"

lemma recorded_simps [simp]:
  "recorded [] = []" "recorded (c # tr) = recorded_by c @ recorded tr" "recorded (tr @ tr') = recorded tr @ recorded tr'"
  by (simp_all add: recorded_def)

lemma dispatched_simps [simp]:
  "dispatched [] = []" "dispatched (c # tr) = dispatched_by c @ dispatched tr"
  "dispatched (tr @ tr') = dispatched tr @ dispatched tr'"
  by (simp_all add: dispatched_def)

text \<open>\<open>errors.As\<close> for \<open>*Error\<close>: some error in the tree carries the stage.\<close>

fun at_stage :: "Stage \<Rightarrow> err \<Rightarrow> bool"
  and part_at_stage :: "Stage \<Rightarrow> errpart \<Rightarrow> bool" where
  "at_stage s (Sentinel x) \<longleftrightarrow> False"
| "at_stage s (Message m) \<longleftrightarrow> False"
| "at_stage s (Errorf ps) \<longleftrightarrow> list_ex (part_at_stage s) ps"
| "at_stage s (Joined es) \<longleftrightarrow> list_ex (at_stage s) es"
| "at_stage s (StageError st e) \<longleftrightarrow> st = s \<or> at_stage s e"
| "part_at_stage s (W e) \<longleftrightarrow> at_stage s e"
| "part_at_stage s _ \<longleftrightarrow> False"

definition has_stage :: "Stage \<Rightarrow> err option \<Rightarrow> bool" where
  "has_stage s e = (case e of None \<Rightarrow> False | Some x \<Rightarrow> at_stage s x)"

lemma has_stage_simps [simp]:
  "\<not> has_stage s None"
  "has_stage s (Some (Sentinel x)) = False"
  "has_stage s (Some (StageError st x')) \<longleftrightarrow> st = s \<or> at_stage s x'"
  "has_stage s (stageError st e) \<longleftrightarrow> e \<noteq> None \<and> (st = s \<or> has_stage s e)"
  by (simp_all add: has_stage_def stageError_def split: option.split)

lemma has_stage_errorsJoin [simp]: "has_stage s (errorsJoin es) \<longleftrightarrow> (\<exists>e\<in>set es. has_stage s e)"
proof -
  have "list_ex (at_stage s) (List.map_filter (\<lambda>e. e) es) \<longleftrightarrow> (\<exists>e\<in>set es. has_stage s e)"
    by (induction es) (auto simp: List.map_filter_simps has_stage_def split: option.splits)
  then show ?thesis by (auto simp: errorsJoin_def has_stage_def split: list.splits)
qed

subsection \<open>The stages\<close>

definition dispatch_effect :: "DispatchStatus \<Rightarrow> EffectStatus" where
  "dispatch_effect s = (if s = DispatchDispatched \<or> s = DispatchAcknowledged then EffectUnverified else EffectUnknown)"

definition dispatch_fact_kinds :: "DispatchStatus \<Rightarrow> EventKind list" where
  "dispatch_fact_kinds s = dispatch_kind s #
     (if s = DispatchDispatched \<or> s = DispatchAcknowledged then [EventEffectUnverified] else [])"

text \<open>
  \<open>append_trace u built tr x\<close>: the calls of the recording step and the error it ends with, for the
  facts \<open>built\<close> or the failure to build them.
\<close>

definition append_trace ::
    "ExecuteAction \<Rightarrow> err + ExecutionEvent list \<Rightarrow> call list \<Rightarrow> err option \<Rightarrow> bool" where
  "append_trace u built tr x \<longleftrightarrow>
    (case built of
       Inl y \<Rightarrow> tr = [] \<and> x = Some y
     | Inr es \<Rightarrow> tr = [DidAppend (RecordCtx (ua_recordTimeout u)) es x])"

lemma plays_append_built:
  "plays (append_built u built (\<lambda>x. Done (f x))) tr w \<longleftrightarrow> (\<exists>x. append_trace u built tr x \<and> w = f x)"
  by (auto simp: append_built_def appendAfterIO_def append_trace_def plays_calls split: sum.split)

lemma append_trace_None: "append_trace u built tr None \<Longrightarrow> built = Inr (recorded tr)"
  by (auto simp: append_trace_def split: sum.splits)

lemma append_trace_quiet: "append_trace u built tr x \<Longrightarrow> dispatched tr = []"
  by (auto simp: append_trace_def split: sum.splits)

lemma plays_branch:
  "plays (if b then p else q) tr w \<longleftrightarrow> (if b then plays p tr w else plays q tr w)"
  "plays (case z of Inl x \<Rightarrow> f x | Inr y \<Rightarrow> g y) tr w \<longleftrightarrow>
     (case z of Inl x \<Rightarrow> plays (f x) tr w | Inr y \<Rightarrow> plays (g y) tr w)"
  by (simp_all split: sum.split)

lemmas plays_simps = plays_calls plays_branch plays_append_built plays_Done Let_def split_beta

text \<open>A play of the last stage: one dispatch, then the group of its facts.\<close>

lemma execute_dispatch_plays:
  "plays (execute_dispatch rt u a t g res) tr w \<longleftrightarrow>
    (\<exists>ans rest. tr = DidDispatch CallerCtx t a g ans # rest \<and>
      (let norm = normalizeDispatch (fst ans) (tgt_provider g) (att_id t); d = fst norm;
           err = errorsJoin [snd ans, snd norm]
       in \<exists>now rest'. rest = DidNow now # rest' \<and>
         (\<exists>x. append_trace u (dispatchEvents rt a t g d err (UTC now)) rest' x
           \<and> w = (res\<lparr>er_Dispatch := d,
                   er_Outcome := outcome (er_Admission res) (dr_status d) (dispatch_effect (dr_status d))\<rparr>,
                  errorsJoin [stageError StageDispatch err, stageError StageRecord x]))))"
  by (simp only: execute_dispatch_def plays_simps dispatch_effect_def) simp

lemma execute_blocked_plays:
  "plays (execute_blocked rt u a t st cause res) tr w \<longleftrightarrow>
    (\<exists>now rest. tr = DidNow now # rest \<and>
      (\<exists>x. append_trace u (map_sum id (\<lambda>ev. [ev]) (notDispatchedEvent rt a t cause (UTC now))) rest x
       \<and> w = (res\<lparr>er_Outcome := outcome (er_Admission res) DispatchNotDispatched EffectUnknown\<rparr>,
              errorsJoin [stageError st cause, stageError StageRecord x])))"
  by (simp only: execute_blocked_def plays_simps)

lemma execute_resolve_plays:
  "plays (execute_resolve rt u a t res) tr w \<longleftrightarrow>
    (\<exists>ans tr'. tr = DidResolve CallerCtx a ans # tr' \<and>
      (if snd ans \<noteq> None
       then plays (execute_blocked rt u a t StageResolve (snd ans) (res\<lparr>er_Target := fst ans\<rparr>)) tr' w
       else plays (execute_dispatch rt u a t (fst ans) (res\<lparr>er_Target := fst ans\<rparr>)) tr' w))"
  by (simp only: execute_resolve_def plays_simps)

text \<open>A play from the admitter's call on: the admission fact, when there is one, then the decision.\<close>

lemma execute_admit_plays:
  "plays (execute_admit rt u a t res) tr w \<longleftrightarrow>
    (\<exists>ans tr'. tr = DidAdmit CallerCtx a ans # tr' \<and>
      (let norm = normalizeAdmission (fst ans) (snd ans); adm = fst norm; er = snd norm;
           res' = res\<lparr>er_Admission := adm\<rparr>
       in if adm = AdmissionAdmitted \<or> adm = AdmissionRejected
          then \<exists>now rest. tr' = DidNow now # rest \<and>
            (case admissionEvent rt a t adm er (UTC now) of
               Inl x \<Rightarrow> rest = [] \<and> w = (res', stageError StageRecord (Some x))
             | Inr ev \<Rightarrow> \<exists>x rest'. rest = DidAppend (RecordCtx (ua_recordTimeout u)) [ev] x # rest' \<and>
                 (if x \<noteq> None
                  then rest' = [] \<and> w = (res', errorsJoin [stageError StageAdmit er, stageError StageRecord x])
                  else plays (execute_decide rt u a t er res') rest' w))
          else plays (execute_decide rt u a t er res') tr' w))"
  by (simp only: execute_admit_def appendAfterIO_def plays_simps)

lemma execute_plays:
  "plays (execute rt (Some u) input auth) tr w \<longleftrightarrow>
    (\<exists>now tr'. tr = DidNow now # tr' \<and>
      (let a = xi_Action input in
       case NewExecutionAttempt (attemptSpec input auth (UTC now)) of
         Inl x \<Rightarrow> tr' = [] \<and> w = (zero_result,
             stageError StageValidate (errorsJoin [Some (Sentinel ErrInvalidInput), Some x]))
       | Inr t \<Rightarrow> (case initialFacts rt a t auth (UTC now) of
           Inl x \<Rightarrow> tr' = [] \<and> w = (started_result a t, stageError StageRecord (Some x))
         | Inr es \<Rightarrow> \<exists>ans rest. tr' = DidBegin CallerCtx a t es ans # rest \<and>
             (if snd ans \<noteq> None then rest = [] \<and> w = (started_result a t, stageError StageRecord (snd ans))
              else if \<not> fst ans
              then rest = [] \<and> w = (started_result a t,
                     stageError StageValidate (Some (Sentinel ErrAttemptAlreadyStarted)))
              else plays (execute_admit rt u a t (started_result a t)) rest w))))"
  by (simp only: execute_def plays_simps option.case)

text \<open>A run that made a second call has passed validation and asked for the claim.\<close>

lemma execute_reaches_claim:
  assumes "plays (execute rt (Some u) input auth) (c # c' # tr) w"
  obtains now t es ans where
    "c = DidNow now" "c' = DidBegin CallerCtx (xi_Action input) t es ans"
    "NewExecutionAttempt (attemptSpec input auth (UTC now)) = Inr t"
    "initialFacts rt (xi_Action input) t auth (UTC now) = Inr es"
    "if snd ans \<noteq> None then tr = [] \<and> w = (started_result (xi_Action input) t, stageError StageRecord (snd ans))
     else if \<not> fst ans
     then tr = [] \<and> w = (started_result (xi_Action input) t,
            stageError StageValidate (Some (Sentinel ErrAttemptAlreadyStarted)))
     else plays (execute_admit rt u (xi_Action input) t (started_result (xi_Action input) t)) tr w"
proof -
  from assms obtain now where c: "c = DidNow now" unfolding execute_plays by blast
  let ?a = "xi_Action input"
  obtain t where t: "NewExecutionAttempt (attemptSpec input auth (UTC now)) = Inr t"
    using assms c unfolding execute_plays
    by (cases "NewExecutionAttempt (attemptSpec input auth (UTC now))") (auto simp: Let_def)
  obtain es where es: "initialFacts rt ?a t auth (UTC now) = Inr es"
    using assms c t unfolding execute_plays
    by (cases "initialFacts rt ?a t auth (UTC now)") (auto simp: Let_def)
  from assms c t es obtain ans where "c' = DidBegin CallerCtx ?a t es ans"
    "if snd ans \<noteq> None then tr = [] \<and> w = (started_result ?a t, stageError StageRecord (snd ans))
     else if \<not> fst ans
     then tr = [] \<and> w = (started_result ?a t, stageError StageValidate (Some (Sentinel ErrAttemptAlreadyStarted)))
     else plays (execute_admit rt u ?a t (started_result ?a t)) tr w"
  proof -
    have "\<exists>ans. c' = DidBegin CallerCtx ?a t es ans \<and>
      (if snd ans \<noteq> None then tr = [] \<and> w = (started_result ?a t, stageError StageRecord (snd ans))
       else if \<not> fst ans
       then tr = [] \<and> w = (started_result ?a t, stageError StageValidate (Some (Sentinel ErrAttemptAlreadyStarted)))
       else plays (execute_admit rt u ?a t (started_result ?a t)) tr w)"
      using assms unfolding execute_plays Let_def c by (simp add: t es del: split_paired_Ex)
    then show thesis using that by blast
  qed
  then show thesis using that c t es by blast
qed

text \<open>
  The summary of a stage that ended without a recording error: the kinds it recorded after the claim,
  and the outcome it returned, for some status of the dispatch.
\<close>

definition dispatch_answers_ok :: "call list \<Rightarrow> bool" where
  "dispatch_answers_ok tr \<longleftrightarrow> (\<forall>c t a g d e. DidDispatch c t a g (d, e) \<in> set tr \<longrightarrow> dispatch_ok d)"

lemma normalizeDispatch_ok:
  assumes "normalizeDispatch d0 p i = (d, e)" and "dispatch_ok d0"
  shows "dispatch_ok d"
  using assms
  by (auto simp: normalizeDispatch_def NewDispatchResult_Inr_iff split: if_splits sum.splits)

definition told :: "Action \<Rightarrow> AttemptID \<Rightarrow> ExecutionEvent list \<Rightarrow> EventKind list \<Rightarrow> bool" where
  "told a i es ks \<longleftrightarrow> list_all (fact_of a i) es \<and> map ev_kind es = ks"

lemma told_append: "told a i es ks \<Longrightarrow> told a i es' ks' \<Longrightarrow> told a i (es @ es') (ks @ ks')"
  by (simp add: told_def)

lemma execute_dispatch_told:
  assumes "plays (execute_dispatch rt u a t g res) tr (r, e)" and "\<not> has_stage StageRecord e"
    and "dispatch_answers_ok tr"
  shows "\<exists>s. dispatch_valid s \<and> told a (att_id t) (recorded tr) (dispatch_fact_kinds s)
    \<and> er_Outcome r = outcome (er_Admission res) s (dispatch_effect s)"
proof -
  from assms(1) obtain ans now rest x d err' where
    tr: "tr = DidDispatch CallerCtx t a g ans # DidNow now # rest"
    and n: "normalizeDispatch (fst ans) (tgt_provider g) (att_id t) = (d, err')"
    and ap: "append_trace u (dispatchEvents rt a t g d (errorsJoin [snd ans, err']) (UTC now)) rest x"
    and r: "er_Outcome r = outcome (er_Admission res) (dr_status d) (dispatch_effect (dr_status d))"
    and e: "e = errorsJoin [stageError StageDispatch (errorsJoin [snd ans, err']), stageError StageRecord x]"
    unfolding execute_dispatch_plays by (auto simp: Let_def prod_eq_iff)
  have "x = None" using e assms(2) by (cases x) auto
  with ap append_trace_None have "dispatchEvents rt a t g d (errorsJoin [snd ans, err']) (UTC now) = Inr (recorded rest)"
    by blast
  from dispatchEvents_facts [OF this] tr
  have "told a (att_id t) (recorded tr) (dispatch_fact_kinds (dr_status d))"
    by (simp add: told_def dispatch_fact_kinds_def)
  moreover have "dispatch_valid (dr_status d)"
    using normalizeDispatch_ok [OF n] assms(3) tr dispatch_ok_valid
    by (cases ans) (auto simp: dispatch_answers_ok_def)
  ultimately show ?thesis using r by blast
qed

lemma execute_blocked_told:
  assumes "plays (execute_blocked rt u a t st cause res) tr (r, e)" and "\<not> has_stage StageRecord e"
  shows "told a (att_id t) (recorded tr) (dispatch_fact_kinds DispatchNotDispatched)
    \<and> er_Outcome r = outcome (er_Admission res) DispatchNotDispatched (dispatch_effect DispatchNotDispatched)"
proof -
  from assms(1) obtain now rest x where tr: "tr = DidNow now # rest"
    and ap: "append_trace u (map_sum id (\<lambda>ev. [ev]) (notDispatchedEvent rt a t cause (UTC now))) rest x"
    and r: "er_Outcome r = outcome (er_Admission res) DispatchNotDispatched EffectUnknown"
    and e: "e = errorsJoin [stageError st cause, stageError StageRecord x]"
    unfolding execute_blocked_plays by auto
  have "x = None" using e assms(2) by (cases x) auto
  with ap append_trace_None have "map_sum id (\<lambda>ev. [ev]) (notDispatchedEvent rt a t cause (UTC now)) = Inr (recorded rest)"
    by blast
  then obtain ev where ev: "notDispatchedEvent rt a t cause (UTC now) = Inr ev" and "recorded rest = [ev]"
    by (cases "notDispatchedEvent rt a t cause (UTC now)") auto
  then show ?thesis
    using single_builder_facts(5) [OF ev] r tr
    by (simp add: told_def dispatch_fact_kinds_def dispatch_effect_def dispatch_kind_def status_defs)
qed

lemma execute_resolve_told:
  assumes "plays (execute_resolve rt u a t res) tr (r, e)" and "\<not> has_stage StageRecord e"
    and "dispatch_answers_ok tr"
  shows "\<exists>s. dispatch_valid s \<and> told a (att_id t) (recorded tr) (dispatch_fact_kinds s)
    \<and> er_Outcome r = outcome (er_Admission res) s (dispatch_effect s)"
proof -
  from assms(1) obtain g err tr' where tr: "tr = DidResolve CallerCtx a (g, err) # tr'"
    and pl: "if err \<noteq> None then plays (execute_blocked rt u a t StageResolve err (res\<lparr>er_Target := g\<rparr>)) tr' (r, e)
       else plays (execute_dispatch rt u a t g (res\<lparr>er_Target := g\<rparr>)) tr' (r, e)"
    unfolding execute_resolve_plays by (metis prod.collapse)
  have ok: "dispatch_answers_ok tr'" using assms(3) tr by (auto simp: dispatch_answers_ok_def)
  show ?thesis
  proof (cases "err = None")
    case True
    with pl have "plays (execute_dispatch rt u a t g (res\<lparr>er_Target := g\<rparr>)) tr' (r, e)" by simp
    from execute_dispatch_told [OF this assms(2) ok] tr show ?thesis by simp
  next
    case False
    with pl have "plays (execute_blocked rt u a t StageResolve err (res\<lparr>er_Target := g\<rparr>)) tr' (r, e)" by simp
    from execute_blocked_told [OF this assms(2)] tr show ?thesis
      by (intro exI [of _ DispatchNotDispatched]) (simp add: dispatch_valid_iff)
  qed
qed

text \<open>After a decision with admission \<open>adm\<close>: without admission the dispatch is known not to have happened.\<close>

lemma execute_decide_told:
  assumes "plays (execute_decide rt u a t er res) tr (r, e)" and "\<not> has_stage StageRecord e"
    and "dispatch_answers_ok tr"
  shows "\<exists>s. dispatch_valid s \<and> (er_Admission res \<noteq> AdmissionAdmitted \<longrightarrow> s = DispatchNotDispatched)
    \<and> told a (att_id t) (recorded tr) (dispatch_fact_kinds s)
    \<and> er_Outcome r = outcome (er_Admission res) s (dispatch_effect s)"
proof (cases "er_Admission res \<noteq> AdmissionAdmitted \<or> er \<noteq> None")
  case True
  with assms(1) obtain cause where "plays (execute_blocked rt u a t StageAdmit cause res) tr (r, e)"
    by (auto simp: execute_decide_def Let_def)
  from execute_blocked_told [OF this assms(2)] show ?thesis
    by (intro exI [of _ DispatchNotDispatched]) (simp add: dispatch_valid_iff)
next
  case False
  with assms(1) have "plays (execute_resolve rt u a t res) tr (r, e)" by (simp add: execute_decide_def)
  from execute_resolve_told [OF this assms(2,3)] False show ?thesis by blast
qed

definition admission_fact_kinds :: "AdmissionStatus \<Rightarrow> EventKind list" where
  "admission_fact_kinds s =
    (if s = AdmissionAdmitted then [EventActionAdmitted]
     else if s = AdmissionRejected then [EventActionRejected] else [])"

lemma normalizeAdmission_valid: "admission_valid (fst (normalizeAdmission s e))"
  by (simp add: normalizeAdmission_def admission_valid_iff)

lemma dispatch_answers_ok_suffix:
  "dispatch_answers_ok (c # tr) \<Longrightarrow> dispatch_answers_ok tr"
  by (auto simp: dispatch_answers_ok_def)

lemma execute_admit_told:
  assumes "plays (execute_admit rt u a t res) tr (r, e)" and "\<not> has_stage StageRecord e"
    and "dispatch_answers_ok tr"
  shows "\<exists>adm s. admission_valid adm \<and> dispatch_valid s
    \<and> (adm \<noteq> AdmissionAdmitted \<longrightarrow> s = DispatchNotDispatched)
    \<and> told a (att_id t) (recorded tr) (admission_fact_kinds adm @ dispatch_fact_kinds s)
    \<and> er_Outcome r = outcome adm s (dispatch_effect s)"
proof -
  from assms(1) obtain ans tr' where tr: "tr = DidAdmit CallerCtx a ans # tr'"
    unfolding execute_admit_plays by blast
  define adm where "adm = fst (normalizeAdmission (fst ans) (snd ans))"
  define er where "er = snd (normalizeAdmission (fst ans) (snd ans))"
  let ?res = "res\<lparr>er_Admission := adm\<rparr>"
  have valid: "admission_valid adm" unfolding adm_def by (rule normalizeAdmission_valid)
  have decide: ?thesis
    if "plays (execute_decide rt u a t er ?res) rest (r, e)" and "dispatch_answers_ok rest"
      and "told a (att_id t) pre (admission_fact_kinds adm)" and "recorded tr = pre @ recorded rest" for pre rest
  proof -
    from execute_decide_told [OF that(1) assms(2) that(2)] obtain s where
      "dispatch_valid s" "adm \<noteq> AdmissionAdmitted \<longrightarrow> s = DispatchNotDispatched"
      "told a (att_id t) (recorded rest) (dispatch_fact_kinds s)"
      "er_Outcome r = outcome adm s (dispatch_effect s)"
      by auto
    with told_append [OF that(3)] valid that(4) show ?thesis by metis
  qed
  show ?thesis
  proof (cases "adm = AdmissionAdmitted \<or> adm = AdmissionRejected")
    case True
    with assms(1) tr obtain now rest where tr': "tr' = DidNow now # rest"
      and pl: "case admissionEvent rt a t adm er (UTC now) of
           Inl x \<Rightarrow> rest = [] \<and> (r, e) = (?res, stageError StageRecord (Some x))
         | Inr ev \<Rightarrow> \<exists>x rest'. rest = DidAppend (RecordCtx (ua_recordTimeout u)) [ev] x # rest' \<and>
             (if x \<noteq> None
              then rest' = [] \<and> (r, e) = (?res, errorsJoin [stageError StageAdmit er, stageError StageRecord x])
              else plays (execute_decide rt u a t er ?res) rest' (r, e))"
      unfolding execute_admit_plays adm_def er_def by (auto simp: Let_def)
    obtain ev where ev: "admissionEvent rt a t adm er (UTC now) = Inr ev"
      using pl assms(2) by (cases "admissionEvent rt a t adm er (UTC now)") auto
    with pl obtain x rest' where rest: "rest = DidAppend (RecordCtx (ua_recordTimeout u)) [ev] x # rest'"
      and x: "if x \<noteq> None
              then rest' = [] \<and> (r, e) = (?res, errorsJoin [stageError StageAdmit er, stageError StageRecord x])
              else plays (execute_decide rt u a t er ?res) rest' (r, e)"
      by auto
    have "x = None" using x assms(2) by (cases x) auto
    with x have pl': "plays (execute_decide rt u a t er ?res) rest' (r, e)" by simp
    have "told a (att_id t) [ev] (admission_fact_kinds adm)"
      using single_builder_facts(4) [OF ev] True
      by (auto simp: told_def admission_fact_kinds_def status_defs)
    from decide [OF pl' _ this] show ?thesis
      using assms(3) tr tr' rest \<open>x = None\<close> by (auto simp: dispatch_answers_ok_def)
  next
    case False
    with assms(1) tr have pl: "plays (execute_decide rt u a t er ?res) tr' (r, e)"
      unfolding execute_admit_plays adm_def er_def by (auto simp: Let_def)
    have "told a (att_id t) [] (admission_fact_kinds adm)" using False by (simp add: told_def admission_fact_kinds_def)
    from decide [OF pl _ this] show ?thesis
      using assms(3) tr by (auto simp: dispatch_answers_ok_def)
  qed
qed

definition initial_kinds :: "RecoveryAuthorization option \<Rightarrow> EventKind list" where
  "initial_kinds auth = [EventActionRequested, EventAttemptStarted]
     @ (if auth = None then [] else [EventRecoveryAuthorized])"

lemma initialFacts_told:
  "initialFacts rt a t auth now = Inr es \<Longrightarrow> told a (att_id t) es (initial_kinds auth)"
  by (auto simp: initialFacts_def told_def initial_kinds_def dest!: single_builder_facts split: option.splits)

text \<open>A run that passed validation and recorded everything: which facts, which outcome.\<close>

lemma execute_told:
  assumes "plays (execute rt (Some u) input auth) tr (r, e)" and "\<not> has_stage StageRecord e"
    and "\<not> has_stage StageValidate e" and "dispatch_answers_ok tr"
  shows "\<exists>adm s. admission_valid adm \<and> dispatch_valid s
    \<and> (adm \<noteq> AdmissionAdmitted \<longrightarrow> s = DispatchNotDispatched)
    \<and> told (xi_Action input) (xi_AttemptID input) (recorded tr)
        (initial_kinds auth @ admission_fact_kinds adm @ dispatch_fact_kinds s)
    \<and> er_Outcome r = outcome adm s (dispatch_effect s)
    \<and> text_ok (act_id (xi_Action input)) \<and> text_ok (xi_AttemptID input)"
proof -
  let ?a = "xi_Action input"
  from assms(1) obtain now tr' where tr: "tr = DidNow now # tr'"
    unfolding execute_plays by blast
  obtain t where t: "NewExecutionAttempt (attemptSpec input auth (UTC now)) = Inr t"
    using assms(1,3) tr unfolding execute_plays
    by (cases "NewExecutionAttempt (attemptSpec input auth (UTC now))") (auto simp: Let_def)
  then have ids: "att_id t = xi_AttemptID input" "text_ok (act_id ?a)" "text_ok (xi_AttemptID input)"
    by (auto simp: NewExecutionAttempt_Inr_iff attemptSpec_def attempt_ok_def)
  obtain es where es: "initialFacts rt ?a t auth (UTC now) = Inr es"
    using assms(1,2) tr t unfolding execute_plays
    by (cases "initialFacts rt ?a t auth (UTC now)") (auto simp: Let_def)
  obtain ans rest where tr': "tr' = DidBegin CallerCtx ?a t es ans # rest"
    and ans: "if snd ans \<noteq> None then rest = [] \<and> (r, e) = (started_result ?a t, stageError StageRecord (snd ans))
              else if \<not> fst ans
              then rest = [] \<and> (r, e) = (started_result ?a t,
                     stageError StageValidate (Some (Sentinel ErrAttemptAlreadyStarted)))
              else plays (execute_admit rt u ?a t (started_result ?a t)) rest (r, e)"
    using assms(1) tr t es unfolding execute_plays by (auto simp: Let_def)
  have "snd ans = None \<and> fst ans" using ans assms(2,3) by (auto split: if_splits)
  with ans have pl: "plays (execute_admit rt u ?a t (started_result ?a t)) rest (r, e)" by simp
  have "dispatch_answers_ok rest" using assms(4) tr tr' by (auto simp: dispatch_answers_ok_def)
  from execute_admit_told [OF pl assms(2) this] obtain adm s where
    "admission_valid adm" "dispatch_valid s" "adm \<noteq> AdmissionAdmitted \<longrightarrow> s = DispatchNotDispatched"
    "told ?a (att_id t) (recorded rest) (admission_fact_kinds adm @ dispatch_fact_kinds s)"
    "er_Outcome r = outcome adm s (dispatch_effect s)"
    by blast
  moreover have "recorded tr = es @ recorded rest"
    using tr tr' \<open>snd ans = None \<and> fst ans\<close> by (cases ans) simp
  ultimately show ?thesis
    using told_append [OF initialFacts_told [OF es]] ids by metis
qed

subsection \<open>What a run never does\<close>

fun claims_call :: "call \<Rightarrow> bool" where
  "claims_call (DidBegin c a t es r) = True"
| "claims_call _ = False"

lemma only_append_built:
  "(\<And>x. only P (k x)) \<Longrightarrow> (\<And>es x. P (DidAppend (RecordCtx (ua_recordTimeout u)) es x)) \<Longrightarrow>
     only P (append_built u built k)"
  by (simp add: append_built_def appendAfterIO_def split: sum.split)

text \<open>After the claim there is no second claim.\<close>

lemma no_second_claim:
  "only (\<lambda>c. \<not> claims_call c) (execute_dispatch rt u a t g res)"
  "only (\<lambda>c. \<not> claims_call c) (execute_blocked rt u a t st cause res)"
  "only (\<lambda>c. \<not> claims_call c) (execute_resolve rt u a t res)"
  "only (\<lambda>c. \<not> claims_call c) (execute_decide rt u a t er res)"
  "only (\<lambda>c. \<not> claims_call c) (execute_admit rt u a t res)"
proof -
  show dispatch: "only (\<lambda>c. \<not> claims_call c) (execute_dispatch rt u a t g res)" for g res
    by (simp add: execute_dispatch_def Let_def split_beta only_append_built)
  show blocked: "only (\<lambda>c. \<not> claims_call c) (execute_blocked rt u a t st cause res)" for st cause res
    by (simp add: execute_blocked_def only_append_built)
  show resolve: "only (\<lambda>c. \<not> claims_call c) (execute_resolve rt u a t res)" for res
    by (simp add: execute_resolve_def Let_def split_beta only_branch dispatch blocked)
  show decide: "only (\<lambda>c. \<not> claims_call c) (execute_decide rt u a t er res)" for er res
    by (simp add: execute_decide_def Let_def only_branch resolve blocked)
  show "only (\<lambda>c. \<not> claims_call c) (execute_admit rt u a t res)"
    by (simp add: execute_admit_def Let_def split_beta appendAfterIO_def only_branch decide split: sum.split)
qed

end
