(* ===== verification/Exec_Event_Laws.thy ===== *)
theory Exec_Event_Laws
  imports Exec_Events
begin

text \<open>
  When the builders of \<open>execution/events.go\<close> succeed, and what their event identities determine: the
  preimage of the hash is injective on identities without NUL bytes and only there.
\<close>

subsection \<open>Times and payloads that can be written\<close>

definition printable_time :: "gtime \<Rightarrow> bool" where
  "printable_time t \<longleftrightarrow> json_ok (JTime t)"

lemma strict_rfc3339_utc:
  assumes "t_off t = 0" and "0 \<le> local_year t" and "local_year t \<le> 9999"
  shows "strict_rfc3339 t = Inr (FormatRFC3339Nano t)"
proof -
  obtain y m d where date: "date_of_day (local_day t) = (y, m, d)" by (metis surj_pair)
  with assms(2,3) have y: "0 \<le> y" "y \<le> 9999" by (simp_all add: local_year_def)
  obtain mid where fmt: "FormatRFC3339Nano t = dec_fixed 4 y @ CHR ''-'' # mid @ ''Z''"
    using y assms(1) by (auto simp: FormatRFC3339Nano_def date appendInt_def dec_pad_def format_zone_def Let_def)
  have "FormatRFC3339Nano t ! 4 = CHR ''-''" unfolding fmt by (simp add: nth_append)
  moreover have "FormatRFC3339Nano t ! (length (FormatRFC3339Nano t) - 1) = CHR ''Z''"
    unfolding fmt by (simp add: nth_append)
  ultimately show ?thesis by (simp add: strict_rfc3339_def Let_def)
qed

lemma printable_utc: "0 \<le> local_year (UTC t) \<Longrightarrow> local_year (UTC t) \<le> 9999 \<Longrightarrow> printable_time (UTC t)"
  using strict_rfc3339_utc [of "UTC t"] by (simp add: printable_time_def)

lemma marshalPayload_Inr_iff: "(\<exists>data. marshalPayload v = Inr data) \<longleftrightarrow> json_ok v"
  by (simp add: marshalPayload_def json_marshal_ok(1))

lemma json_ok_receiptPayload [simp]: "json_ok (receiptPayload r) \<longleftrightarrow> printable_time (rc_receivedAt r)"
  by (simp add: receiptPayload_def omit_bytes_def printable_time_def)

lemma json_ok_payloads [simp]:
  "json_ok (payload fs) \<longleftrightarrow> (\<forall>(k, v)\<in>set fs. json_ok v)"
  "json_ok (actionRequestedPayload a) \<longleftrightarrow> printable_time (act_requestedAt a)"
  "json_ok (attemptStartedPayload s i) \<longleftrightarrow> printable_time s"
  "json_ok (recoveryAuthorizedPayload au) \<longleftrightarrow> printable_time (ra_authorizedAt au)"
  "json_ok (admissionPayload st er)"
  "json_ok (dispatchPayload p st tp te rc er) \<longleftrightarrow> (\<forall>r. rc = Some r \<longrightarrow> printable_time (rc_receivedAt r))"
  "json_ok (observationPayload b) \<longleftrightarrow> printable_time (obs_observedAt b) \<and> printable_time (obs_recordedAt b)"
  "json_ok (verificationPayload v er) \<longleftrightarrow> printable_time (vr_checkedAt v)"
  by (auto simp: payload_def actionRequestedPayload_def attemptStartedPayload_def recoveryAuthorizedPayload_def
      admissionPayload_def dispatchPayload_def observationPayload_def verificationPayload_def
      omit_bytes_def omit_string_def omit_strings_def printable_time_def [symmetric] json_ok.simps(1) [symmetric]
      simp del: json_ok.simps(1) split: option.splits)

subsection \<open>Event identities\<close>

lemma hex_digit_code:
  "n < 16 \<Longrightarrow> 48 \<le> code (hex_digit n) \<and> (code (hex_digit n) \<le> 57 \<or> 97 \<le> code (hex_digit n) \<and> code (hex_digit n) \<le> 102)"
  by (auto simp: hex_digit_def)

lemma hex_encode_last:
  assumes "bs \<noteq> []"
  shows "\<exists>n<16. last (hex_encode bs) = hex_digit n"
proof -
  obtain cs c where bs: "bs = cs @ [c]" using assms by (metis rev_exhaust)
  show ?thesis
    by (intro exI [of _ "code c mod 16"]) (simp add: bs hex_encode_def hex_byte_def)
qed

lemma text_ok_hex:
  assumes "p \<noteq> []" "visible (hd p)" "visible (last p)"
  shows "text_ok (p @ hex_encode bs)"
proof -
  have "visible (last (p @ hex_encode bs))"
  proof (cases "bs = []")
    case True
    with assms show ?thesis by (simp add: hex_encode_def)
  next
    case False
    from hex_encode_last [OF this] obtain n where n: "n < 16" "last (hex_encode bs) = hex_digit n" by blast
    have "hex_encode bs \<noteq> []" using False by (metis length_0_conv length_hex_encode mult_is_0 zero_neq_numeral)
    with n hex_digit_code [of n] show ?thesis by (auto simp: visible_def)
  qed
  with assms show ?thesis by (intro visible_text_ok) simp_all
qed

lemma deterministicEventID_ok [simp]: "text_ok (deterministicEventID rt a t k q)"
  unfolding deterministicEventID_def Let_def by (rule text_ok_hex) (simp_all add: visible_def code_def)

text \<open>A fact is built exactly when its action, its attempt, its kind and its times are admissible.\<close>

lemma newEvent_succeeds:
  "(\<exists>e. newEvent rt a t k q occ rec d = Inr e) \<longleftrightarrow>
     text_ok a \<and> kind_valid k \<and> (text_ok t \<or> k = EventActionRequested \<and> t = [])
     \<and> \<not> IsZero occ \<and> \<not> IsZero rec"
proof
  assume "\<exists>e. newEvent rt a t k q occ rec d = Inr e"
  then show "text_ok a \<and> kind_valid k \<and> (text_ok t \<or> k = EventActionRequested \<and> t = [])
     \<and> \<not> IsZero occ \<and> \<not> IsZero rec"
    by (auto simp: newEvent_Inr event_ok_def)
next
  assume "text_ok a \<and> kind_valid k \<and> (text_ok t \<or> k = EventActionRequested \<and> t = [])
     \<and> \<not> IsZero occ \<and> \<not> IsZero rec"
  then show "\<exists>e. newEvent rt a t k q occ rec d = Inr e"
    unfolding newEvent_Inr
    by (intro exI [of _ "\<lparr>ev_id = deterministicEventID rt a t k q, ev_actionID = a, ev_attemptID = t, ev_kind = k,
          ev_occurredAt = occ, ev_recordedAt = rec, ev_data = d\<rparr>"]) (simp add: event_ok_def)
qed

subsection \<open>When a builder succeeds\<close>

lemma built: "(\<exists>e. result_bind (marshalPayload v) (\<lambda>data. newEvent rt a t k q occ rec data) = Inr e) \<longleftrightarrow>
  json_ok v \<and> text_ok a \<and> kind_valid k \<and> (text_ok t \<or> k = EventActionRequested \<and> t = [])
  \<and> \<not> IsZero occ \<and> \<not> IsZero rec"
  using newEvent_succeeds [of rt a t k q occ rec] marshalPayload_Inr_iff [of v] by (auto simp del: split_paired_Ex)

lemma actionRequestedEvent_succeeds:
  "action_ok a \<Longrightarrow> printable_time (act_requestedAt a) \<Longrightarrow> text_ok i \<Longrightarrow> \<not> IsZero now \<Longrightarrow>
     \<exists>e. actionRequestedEvent rt a i now = Inr e"
  unfolding actionRequestedEvent_def built by (simp add: action_ok_def)

lemma attemptStartedEvent_succeeds:
  "attempt_ok t \<Longrightarrow> text_ok (act_id a) \<Longrightarrow> printable_time (att_startedAt t) \<Longrightarrow> \<not> IsZero now \<Longrightarrow>
     \<exists>e. attemptStartedEvent rt a t now = Inr e"
  unfolding attemptStartedEvent_def Let_def split_beta built by (simp add: attempt_ok_def)

lemma recoveryAuthorizedEvent_succeeds:
  "attempt_ok t \<Longrightarrow> text_ok (act_id a) \<Longrightarrow> authorization_ok au \<Longrightarrow> printable_time (ra_authorizedAt au)
     \<Longrightarrow> \<not> IsZero now \<Longrightarrow> \<exists>e. recoveryAuthorizedEvent rt a t au now = Inr e"
  unfolding recoveryAuthorizedEvent_def built by (simp add: attempt_ok_def authorization_ok_def)

lemma later_events_succeed:
  assumes "text_ok (act_id a)" and "text_ok (att_id t)" and "\<not> IsZero now"
  shows "\<exists>e. admissionEvent rt a t s oe now = Inr e" and "\<exists>e. notDispatchedEvent rt a t c now = Inr e"
  unfolding admissionEvent_def notDispatchedEvent_def Let_def built using assms by simp_all

lemma dispatchEvents_succeed:
  assumes "text_ok (act_id a)" and "text_ok (att_id t)" and "\<not> IsZero now"
    and "\<And>rc. dispatch_Receipt d = Some rc \<Longrightarrow> printable_time (rc_receivedAt rc)"
  shows "\<exists>es. dispatchEvents rt a t g d oe now = Inr es"
proof -
  let ?p = "dispatchPayload (dr_provider d) (dispatch_String (dr_status d)) (tgt_provider g) (tgt_endpoint g)
    (dispatch_Receipt d) (errorText rt oe)"
  have "json_ok ?p" using assms(4) by simp
  then obtain data where data: "marshalPayload ?p = Inr data" using marshalPayload_Inr_iff by blast
  have "kind_valid (dispatch_kind (dr_status d))" by (simp add: dispatch_kind_def)
  then obtain e1 where e1: "newEvent rt (act_id a) (att_id t) (dispatch_kind (dr_status d)) [] now now data = Inr e1"
    using newEvent_succeeds assms by blast
  obtain e2 where "newEvent rt (act_id a) (att_id t) EventEffectUnverified ''dispatch'' now now [] = Inr e2"
    using newEvent_succeeds assms kind_valid_constants by blast
  with data e1 show ?thesis by (simp add: dispatchEvents_def Let_def)
qed

lemma observationEvent_succeeds:
  "text_ok (act_id a) \<Longrightarrow> text_ok i \<Longrightarrow> observation_ok b \<Longrightarrow> printable_time (obs_observedAt b) \<Longrightarrow>
     printable_time (obs_recordedAt b) \<Longrightarrow> \<exists>e. observationEvent rt a i b = Inr e"
  unfolding observationEvent_def built by (simp add: observation_ok_def)

lemma verificationEvents_succeed:
  assumes "text_ok (act_id a)" and "text_ok i" and "\<not> IsZero now" and "\<not> IsZero (vr_checkedAt v)"
    and "printable_time (vr_checkedAt v)"
  shows "\<exists>es. verificationEvents rt a i v oe now = Inr es"
proof -
  let ?q = "vr_verifier v @ nul # FormatRFC3339Nano (vr_checkedAt v)"
  let ?k = "verification_kinds (vr_status v)"
  have ks: "kind_valid (fst ?k)" "kind_valid (snd ?k)" by (simp_all add: verification_kinds_def)
  obtain data where data: "marshalPayload (verificationPayload v (errorText rt oe)) = Inr data"
    using marshalPayload_Inr_iff assms(5) by fastforce
  obtain e1 where e1: "newEvent rt (act_id a) i (fst ?k) ?q (vr_checkedAt v) now [] = Inr e1"
    using newEvent_succeeds ks assms by blast
  obtain e2 where "newEvent rt (act_id a) i (snd ?k) ?q (vr_checkedAt v) now data = Inr e2"
    using newEvent_succeeds ks assms by blast
  with data e1 show ?thesis by (simp add: verificationEvents_def Let_def split_beta)
qed

subsection \<open>What an identity determines\<close>

lemma nul_cut: "x @ nul # y = x' @ nul # y' \<Longrightarrow> nul \<notin> set x \<Longrightarrow> nul \<notin> set x' \<Longrightarrow> x = x' \<and> y = y'"
proof (induction x arbitrary: x')
  case Nil
  then show ?case by (cases x') auto
next
  case (Cons c x)
  then show ?case by (cases x') auto
qed

lemma event_preimage_inj:
  assumes "event_preimage a t k q = event_preimage a' t' k' q'"
    and "nul \<notin> set a \<union> set t \<union> set k" and "nul \<notin> set a' \<union> set t' \<union> set k'"
  shows "a = a' \<and> t = t' \<and> k = k' \<and> q = q'"
proof -
  have 1: "a = a' \<and> t @ nul # k @ nul # q = t' @ nul # k' @ nul # q'"
    using assms nul_cut [of a "t @ nul # k @ nul # q" a'] by (simp add: event_preimage_def)
  then have 2: "t = t' \<and> k @ nul # q = k' @ nul # q'"
    using assms nul_cut [of t "k @ nul # q" t'] by simp
  then have "k = k' \<and> q = q'" using assms nul_cut [of k q k'] by simp
  with 1 2 show ?thesis by simp
qed

end
