(* ===== verification/Exec_Examples.thy ===== *)
theory Exec_Examples
  imports Execute Exec_Event_Laws
begin

text \<open>
  A concrete input for the witnesses of the use cases: the lamp example, a hash that returns its
  argument, ports that let the attempt through.
\<close>

definition printable_receipt :: "DispatchResult \<Rightarrow> bool" where
  "printable_receipt d \<longleftrightarrow> (case dispatch_Receipt d of None \<Rightarrow> True | Some rc \<Rightarrow> printable_time (rc_receivedAt rc))"

definition example_rt :: go_runtime where
  "example_rt = \<lparr>rt_sha256 = (\<lambda>b. b), rt_printable = (\<lambda>_. True)\<rparr>"

definition example_dispatch :: DispatchResult where
  "example_dispatch = \<lparr>dr_provider = ''ha'', dr_attemptID = ''t'', dr_status = DispatchDispatched,
     dr_receipt = zero_receipt, dr_hasReceipt = False\<rparr>"

definition example_ports :: ports where
  "example_ports = \<lparr>pt_now = \<lparr>t_ns = 2, t_off = 0\<rparr>, pt_begin = (True, None), pt_append = None,
     pt_events = (\<lambda>_. ([], None)), pt_action = (zero_action, False, None), pt_attempts = ([], None),
     pt_admit = (AdmissionAdmitted, None), pt_resolve = (\<lparr>tgt_provider = ''ha'', tgt_endpoint = ''x''\<rparr>, None),
     pt_dispatch = (example_dispatch, None), pt_observe = ([], None), pt_verify = (zero_verification, None)\<rparr>"

definition example_use_case :: ExecuteAction where
  "example_use_case = \<lparr>ua_now = TimeNow, ua_recordTimeout = defaultRecordTimeout\<rparr>"

definition example_input :: ExecuteInput where
  "example_input = \<lparr>xi_Action = example_action, xi_AttemptID = ''t''\<rparr>"

lemma example_time: "printable_time \<lparr>t_ns = 1, t_off = 0\<rparr>" "printable_time (UTC \<lparr>t_ns = 2, t_off = 0\<rparr>)"
proof -
  have "local_year \<lparr>t_ns = 1, t_off = 0\<rparr> = 1" "local_year \<lparr>t_ns = 2, t_off = 0\<rparr> = 1" by code_simp+
  then show "printable_time \<lparr>t_ns = 1, t_off = 0\<rparr>" "printable_time (UTC \<lparr>t_ns = 2, t_off = 0\<rparr>)"
    using printable_utc [of "\<lparr>t_ns = 1, t_off = 0\<rparr>"] printable_utc [of "\<lparr>t_ns = 2, t_off = 0\<rparr>"]
    by (simp_all add: UTC_def)
qed

lemma example_texts [simp]:
  "text_ok ''a''" "text_ok ''t''" "text_ok ''lamp''" "text_ok ''turn_on''" "text_ok ''ha''"
  by (rule visible_text_ok; simp add: visible_def code_def)+

lemma example_values:
  "action_ok example_action" "dispatch_ok example_dispatch" "printable_receipt example_dispatch"
  by (simp_all add: action_ok_def example_action_def IsZero_def dispatch_ok_def example_dispatch_def
      dispatch_valid_iff printable_receipt_def dispatch_Receipt_def status_defs)

end
