(* ===== verification/Execute_Properties.thy ===== *)
theory Execute_Properties
  imports Execute_Theorems Exec_Examples
begin

text \<open>
  The properties of \<open>Execute\<close>: the recorded facts tell the returned outcome, the order of its calls,
  at most one dispatch, the rejection of a claimed identity, and what it never asserts.
\<close>

lemma claimed_by_kinds: "claimed_by claims es = (\<Union>k\<in>set (map ev_kind es). claims k)"
  by (simp add: claimed_by_def)

lemma told_replay:
  assumes "told a i es (initial_kinds auth @ admission_fact_kinds adm @ dispatch_fact_kinds s)"
    and "admission_valid adm" and "dispatch_valid s" and "adm \<noteq> AdmissionAdmitted \<longrightarrow> s = DispatchNotDispatched"
    and "text_ok (act_id a)" and "text_ok i"
  obtains p0 p where "NewAttempt (act_id a) i = Inr p0" "apply_events p0 es = Inr p"
    "attempt_Outcome p = outcome adm s (dispatch_effect s)" "\<not> Conflicted p"
    "pj_verification p = VerificationUnknown"
proof -
  obtain p0 where p0: "NewAttempt (act_id a) i = Inr p0"
    using assms(5,6) by (cases "NewAttempt (act_id a) i") (auto simp: NewAttempt_def split: if_splits)
  note init = NewAttempt_Inr [OF p0]
  have "list_all (related p0) es"
    using assms(1) init by (auto simp: told_def related_def list_all_iff fact_of_def)
  then obtain p where p: "apply_events p0 es = Inr p" by (simp add: apply_events_Inr_iff)
  have ks: "map ev_kind es = initial_kinds auth @ admission_fact_kinds adm @ dispatch_fact_kinds s"
    using assms(1) by (simp add: told_def)
  note ks_defs = initial_kinds_def admission_fact_kinds_def dispatch_fact_kinds_def dispatch_kind_def
  have A: "claimed_by admission_claims es = (if adm = AdmissionUnknown then {} else {adm})"
    unfolding claimed_by_kinds ks using assms(2)
    by (auto simp: ks_defs admission_claims_def admission_valid_iff status_defs split: if_splits)
  have Ds: "resolve_dispatch (claimed_by dispatch_claims es) = (s, False)"
    unfolding claimed_by_kinds ks using assms(2-4) unfolding admission_valid_iff dispatch_valid_iff
    by (elim disjE; simp add: ks_defs dispatch_claims_def resolve_dispatch_def status_defs)
  have Es: "resolve_effect (claimed_by effect_claims es) = (dispatch_effect s, False)"
    unfolding claimed_by_kinds ks using assms(2,3) unfolding admission_valid_iff dispatch_valid_iff
    by (elim disjE; simp add: ks_defs effect_claims_def resolve_effect_def dispatch_effect_def status_defs)
  have Ar: "resolve_admission (claimed_by admission_claims es) = (adm, False)"
    unfolding A using assms(2) by (auto simp: resolve_admission_def admission_valid_iff status_defs)
  have verdict: "kinds_verdict (map ev_kind es) = VerificationUnknown"
    unfolding ks by (auto simp: ks_defs kinds_verdict_def conclusive_kind_def split: if_splits)
  have "effect_valid (dispatch_effect s)" by (simp add: dispatch_effect_def effect_valid_iff)
  then have "outcome adm s (dispatch_effect s) = \<lparr>o_admission = adm, o_dispatch = s, o_effect = dispatch_effect s\<rparr>"
    using assms(2,3) by (simp add: outcome_def NewOutcome_def)
  then show thesis
    using that [OF p0 p] view_facts [OF p0 p] Ar Ds Es verdict by (simp add: Conflicted_def)
qed

subsection \<open>Recorded facts and returned outcome\<close>

lemma execute_facts_replay:
  assumes "plays (execute rt (Some u) input auth) tr (r, e)" and "\<not> has_stage StageRecord e"
    and "\<not> has_stage StageValidate e" and "dispatch_answers_ok tr"
  shows "\<exists>p0 p. NewAttempt (act_id (xi_Action input)) (xi_AttemptID input) = Inr p0
    \<and> apply_events p0 (recorded tr) = Inr p \<and> attempt_Outcome p = er_Outcome r
    \<and> \<not> Conflicted p \<and> pj_verification p = VerificationUnknown"
  using execute_told [OF assms] by (metis told_replay)

text \<open>The facts are of the action and the attempt of the input, and there are some.\<close>

lemma execute_facts_own:
  assumes "plays (execute rt (Some u) input auth) tr (r, e)" and "\<not> has_stage StageRecord e"
    and "\<not> has_stage StageValidate e" and "dispatch_answers_ok tr"
  shows "list_all (fact_of (xi_Action input) (xi_AttemptID input)) (recorded tr) \<and> recorded tr \<noteq> []"
  using execute_told [OF assms] by (auto simp: told_def initial_kinds_def split: if_splits)

text \<open>C1: when \<open>Execute\<close> (or \<open>Recover\<close>, through \<open>execute\<close>) returns without an error of the stages validate
  and record, the facts the journal accepted during the run replay, for the attempt of the input,
  without error and without conflict, to exactly the outcome it returned, with no verification claim;
  whatever the clock, the ports and the journal answered.\<close>

theorem execute_facts_tell_outcome:
  assumes "plays (execute rt (Some u) input auth) tr (r, e)" and "\<not> has_stage StageRecord e"
    and "\<not> has_stage StageValidate e" and "dispatch_answers_ok tr"
  shows "\<exists>p0 p. NewAttempt (act_id (xi_Action input)) (xi_AttemptID input) = Inr p0
    \<and> apply_events p0 (recorded tr) = Inr p \<and> attempt_Outcome p = er_Outcome r
    \<and> \<not> Conflicted p \<and> pj_verification p = VerificationUnknown"
  using assms by (rule execute_facts_replay)

subsection \<open>Order of the calls\<close>

lemma execute_order_outcome:
  assumes "plays (execute rt (Some u) input auth) tr (r, e)" and "dispatched tr \<noteq> []"
  shows "\<exists>now t es now' ev g ans rest.
    tr = [DidNow now, DidBegin CallerCtx (xi_Action input) t es (True, None),
          DidAdmit CallerCtx (xi_Action input) (AdmissionAdmitted, None), DidNow now',
          DidAppend (RecordCtx (ua_recordTimeout u)) [ev] None,
          DidResolve CallerCtx (xi_Action input) (g, None),
          DidDispatch CallerCtx t (xi_Action input) g ans] @ rest
    \<and> attempt_ok t \<and> att_id t = xi_AttemptID input \<and> att_actionID t = act_id (xi_Action input)
    \<and> initialFacts rt (xi_Action input) t auth (UTC now) = Inr es
    \<and> ev_kind ev = EventActionAdmitted \<and> fact_of (xi_Action input) (xi_AttemptID input) ev
    \<and> dispatched tr = [xi_AttemptID input]
    \<and> (let st = dr_status (fst (normalizeDispatch (fst ans) (tgt_provider g) (att_id t)))
       in er_Outcome r = outcome AdmissionAdmitted st (dispatch_effect st))"
proof -
  let ?a = "xi_Action input"
  have quiet: "dispatched tr' = []" if "plays (execute_blocked rt u a t st c res) tr' w" for a t st c res tr' w
    using that append_trace_quiet unfolding execute_blocked_plays by force
  from assms obtain c c' rest0 where "tr = c # c' # rest0"
    unfolding execute_plays by (cases tr rule: remdups_adj.cases) auto
  then obtain now t es ans0 where tr: "tr = DidNow now # DidBegin CallerCtx ?a t es ans0 # rest0"
    and t: "NewExecutionAttempt (attemptSpec input auth (UTC now)) = Inr t"
    and es: "initialFacts rt ?a t auth (UTC now) = Inr es"
    and b: "if snd ans0 \<noteq> None then rest0 = [] \<and> (r, e) = (started_result ?a t, stageError StageRecord (snd ans0))
              else if \<not> fst ans0
              then rest0 = [] \<and> (r, e) = (started_result ?a t,
                     stageError StageValidate (Some (Sentinel ErrAttemptAlreadyStarted)))
              else plays (execute_admit rt u ?a t (started_result ?a t)) rest0 (r, e)"
    using execute_reaches_claim [of rt u input auth c c' rest0 "(r, e)"] assms(1) by metis
  have i: "att_id t = xi_AttemptID input" "att_actionID t = act_id ?a" "attempt_ok t"
    using t by (auto simp: NewExecutionAttempt_Inr_iff attemptSpec_def)
  have ans0: "ans0 = (True, None)" using b assms(2) tr by (cases ans0) (auto split: if_splits)
  then have "plays (execute_admit rt u ?a t (started_result ?a t)) rest0 (r, e)" using b by simp
  then obtain ans1 rest1 where tr1: "rest0 = DidAdmit CallerCtx ?a ans1 # rest1"
    and admit: "plays (execute_admit rt u ?a t (started_result ?a t)) (DidAdmit CallerCtx ?a ans1 # rest1) (r, e)"
    unfolding execute_admit_plays by blast
  have d1: "dispatched rest1 \<noteq> []" using assms(2) tr tr1 by simp
  define adm where "adm = fst (normalizeAdmission (fst ans1) (snd ans1))"
  define er where "er = snd (normalizeAdmission (fst ans1) (snd ans1))"
  let ?res = "(started_result ?a t)\<lparr>er_Admission := adm\<rparr>"
  have decide: "adm = AdmissionAdmitted \<and> er = None \<and> plays (execute_resolve rt u ?a t ?res) tr' (r, e)"
    if "plays (execute_decide rt u ?a t er ?res) tr' (r, e)" and "dispatched tr' \<noteq> []" for tr'
    using that quiet by (auto simp: execute_decide_def Let_def split: if_splits)
  have "adm = AdmissionAdmitted"
    using admit decide d1 unfolding execute_admit_plays adm_def [symmetric] er_def [symmetric]
    by (auto simp: Let_def adm_def [symmetric] er_def [symmetric] split: if_splits sum.splits)
  then obtain now' ev rest2 where tr2: "rest1 = DidNow now' # DidAppend (RecordCtx (ua_recordTimeout u)) [ev] None # rest2"
    and ev: "admissionEvent rt ?a t adm er (UTC now') = Inr ev"
    and dec: "plays (execute_decide rt u ?a t er ?res) rest2 (r, e)"
    using admit d1 unfolding execute_admit_plays
    by (auto simp: Let_def adm_def [symmetric] er_def [symmetric] split: if_splits sum.splits)
  have d2: "dispatched rest2 \<noteq> []" using d1 tr2 by simp
  from decide [OF dec d2] have er: "er = None" and res: "plays (execute_resolve rt u ?a t ?res) rest2 (r, e)" by blast+
  have ans1: "ans1 = (AdmissionAdmitted, None)"
    using \<open>adm = AdmissionAdmitted\<close> er unfolding adm_def er_def
    by (cases ans1) (auto simp: normalizeAdmission_def status_defs split: if_splits)
  from res d2 quiet obtain g rest3 where tr3: "rest2 = DidResolve CallerCtx ?a (g, None) # rest3"
    and dis: "plays (execute_dispatch rt u ?a t g (?res\<lparr>er_Target := g\<rparr>)) rest3 (r, e)"
    unfolding execute_resolve_plays by (auto split: if_splits)
  from dis obtain ans rest4 where tr4: "rest3 = DidDispatch CallerCtx t ?a g ans # rest4" and "dispatched rest4 = []"
    unfolding execute_dispatch_plays Let_def using append_trace_quiet by force
  moreover have "ev_kind ev = EventActionAdmitted \<and> fact_of ?a (att_id t) ev"
    using single_builder_facts(4) [OF ev] \<open>adm = AdmissionAdmitted\<close> by (simp add: status_defs)
  moreover have "let st = dr_status (fst (normalizeDispatch (fst ans) (tgt_provider g) (att_id t)))
      in er_Outcome r = outcome AdmissionAdmitted st (dispatch_effect st)"
    using dis tr4 \<open>adm = AdmissionAdmitted\<close> unfolding execute_dispatch_plays by (auto simp: Let_def)
  ultimately show ?thesis
    using tr tr1 tr2 tr3 tr4 ans0 ans1 i es by auto
qed

lemma execute_order:
  assumes "plays (execute rt (Some u) input auth) tr (r, e)" and "dispatched tr \<noteq> []"
  shows "\<exists>now t es now' ev g ans rest.
    tr = [DidNow now, DidBegin CallerCtx (xi_Action input) t es (True, None),
          DidAdmit CallerCtx (xi_Action input) (AdmissionAdmitted, None), DidNow now',
          DidAppend (RecordCtx (ua_recordTimeout u)) [ev] None,
          DidResolve CallerCtx (xi_Action input) (g, None),
          DidDispatch CallerCtx t (xi_Action input) g ans] @ rest
    \<and> att_id t = xi_AttemptID input \<and> initialFacts rt (xi_Action input) t auth (UTC now) = Inr es
    \<and> ev_kind ev = EventActionAdmitted \<and> fact_of (xi_Action input) (xi_AttemptID input) ev
    \<and> dispatched tr = [xi_AttemptID input]"
  using execute_order_outcome [OF assms] by blast

text \<open>
  What a use case hands to its ports for the action \<open>a\<close> and the attempt \<open>i\<close>: facts and an attempt that their
  constructors accept and that belong to them, the action itself, and times in UTC.
\<close>

definition attempt_for :: "Action \<Rightarrow> AttemptID \<Rightarrow> ExecutionAttempt \<Rightarrow> bool" where
  "attempt_for a i t \<longleftrightarrow> attempt_ok t \<and> att_id t = i \<and> att_actionID t = act_id a \<and> t_off (att_startedAt t) = 0"

fun records_for :: "Action \<Rightarrow> AttemptID \<Rightarrow> call \<Rightarrow> bool" where
  "records_for a i (DidBegin c a' t es r) \<longleftrightarrow> a' = a \<and> attempt_for a i t \<and> list_all (fact_of a i) es"
| "records_for a i (DidAppend c es r) \<longleftrightarrow> list_all (fact_of a i) es"
| "records_for a i (DidAdmit c a' r) \<longleftrightarrow> a' = a"
| "records_for a i (DidResolve c a' r) \<longleftrightarrow> a' = a"
| "records_for a i (DidDispatch c t a' g r) \<longleftrightarrow> a' = a \<and> attempt_for a i t"
| "records_for a i (DidObserve c a' g r) \<longleftrightarrow> a' = a"
| "records_for a i (DidVerify c a' os u r) \<longleftrightarrow> a' = a \<and> t_off u = 0"
| "records_for a i _ \<longleftrightarrow> True"

lemma append_built_own:
  "only (records_for a i) (append_built u built (\<lambda>x. Done (f x))) \<longleftrightarrow> (\<forall>es. built = Inr es \<longrightarrow> list_all (fact_of a i) es)"
  by (simp add: append_built_def appendAfterIO_def split: sum.split)

lemma execute_own:
  "only (records_for (xi_Action input) (xi_AttemptID input)) (execute rt (Some u) input auth)"
proof -
  let ?a = "xi_Action input" and ?i = "xi_AttemptID input"
  let ?only = "only (records_for ?a ?i)"
  have dispatch: "?only (execute_dispatch rt u ?a t g res)" if t: "attempt_for ?a ?i t" for t g res
  proof -
    have "att_id t = ?i" using t by (simp add: attempt_for_def)
    then have "list_all (fact_of ?a ?i) es" if "dispatchEvents rt ?a t g d er now = Inr es" for d er now es
      using dispatchEvents_facts [OF that] by simp
    with t show ?thesis by (simp add: execute_dispatch_def Let_def split_beta append_built_own)
  qed
  have blocked: "?only (execute_blocked rt u ?a t st cause res)" if "attempt_for ?a ?i t" for t st cause res
  proof -
    have "list_all (fact_of ?a ?i) es" if "map_sum id (\<lambda>ev. [ev]) (notDispatchedEvent rt ?a t cause now) = Inr es" for now es
      using that single_builder_facts(5) [of rt ?a t cause now] \<open>attempt_for ?a ?i t\<close>
      by (cases "notDispatchedEvent rt ?a t cause now") (auto simp: attempt_for_def)
    then show ?thesis by (simp add: execute_blocked_def append_built_own)
  qed
  have decide: "?only (execute_decide rt u ?a t er res)" if "attempt_for ?a ?i t" for t er res
    by (simp add: execute_decide_def execute_resolve_def Let_def split_beta only_branch blocked [OF that] dispatch [OF that])
  have admit: "?only (execute_admit rt u ?a t res)" if t: "attempt_for ?a ?i t" for t res
  proof -
    have "att_id t = ?i" using t by (simp add: attempt_for_def)
    then show ?thesis
      using single_builder_facts(4) [of rt ?a t]
      by (auto simp: execute_admit_def Let_def split_beta appendAfterIO_def only_branch decide [OF t] split: sum.split)
  qed
  have initial: "list_all (fact_of ?a ?i) es"
    if "initialFacts rt ?a t auth now = Inr es" "att_id t = ?i" for t now es
    using initialFacts_told [OF that(1)] that(2) by (simp add: told_def)
  show ?thesis
    by (auto simp: execute_def Let_def split_beta only_branch NewExecutionAttempt_Inr_iff attemptSpec_def attempt_for_def UTC_def
        intro!: admit dest: initial split: sum.split)
qed

lemma execute_records_own:
  assumes "plays (execute rt (Some u) input auth) tr w"
  shows "\<forall>x\<in>set (recorded tr). fact_of (xi_Action input) (xi_AttemptID input) x"
proof -
  have "set (recorded_by c) \<subseteq> {x. fact_of a i x}" if "records_for a i c" for a i c
    using that by (cases c) (auto simp: list_all_iff split: if_splits)
  then show ?thesis using only_plays [OF assms execute_own] by (fastforce simp: recorded_def)
qed

text \<open>C2: \<open>Execute\<close> hands an attempt to the provider at most once in a run, and only after this exact
  sequence of calls: the journal granted the claim of that attempt, with its initial facts and
  without an error; the admitter admitted the action without an error; the journal accepted the
  admission fact; the resolver returned the target without an error. The attempt handed over is the
  claimed one, the action the one of the input.\<close>

theorem execute_dispatches_after_claim:
  assumes "plays (execute rt (Some u) input auth) tr (r, e)" and "dispatched tr \<noteq> []"
  shows "\<exists>now t es now' ev g ans rest.
    tr = [DidNow now, DidBegin CallerCtx (xi_Action input) t es (True, None),
          DidAdmit CallerCtx (xi_Action input) (AdmissionAdmitted, None), DidNow now',
          DidAppend (RecordCtx (ua_recordTimeout u)) [ev] None,
          DidResolve CallerCtx (xi_Action input) (g, None),
          DidDispatch CallerCtx t (xi_Action input) g ans] @ rest
    \<and> att_id t = xi_AttemptID input \<and> initialFacts rt (xi_Action input) t auth (UTC now) = Inr es
    \<and> ev_kind ev = EventActionAdmitted \<and> fact_of (xi_Action input) (xi_AttemptID input) ev
    \<and> dispatched tr = [xi_AttemptID input]"
  using assms by (rule execute_order)

subsection \<open>The undisturbed run\<close>

lemma undisturbed_run:
  assumes "action_ok a" and "printable_time (act_requestedAt a)" and "text_ok i"
    and "\<not> IsZero (pt_now w)" and "printable_time (UTC (pt_now w))"
    and "pt_begin w = (True, None)" and "pt_append w = None" and "pt_admit w = (AdmissionAdmitted, None)"
    and "pt_resolve w = (g, None)" and "pt_dispatch w = (d, derr)" and "dispatch_ok d" and "printable_receipt d"
    and "dr_provider d = tgt_provider g" and "dr_attemptID d = i"
  shows "case run w (Execute rt (Some u) \<lparr>xi_Action = a, xi_AttemptID = i\<rparr>) of (tr, r, e) \<Rightarrow>
    dispatched tr = [i] \<and> er_Target r = g \<and> er_Admission r = AdmissionAdmitted \<and> er_Dispatch r = d
    \<and> er_Outcome r = \<lparr>o_admission = AdmissionAdmitted, o_dispatch = dr_status d,
        o_effect = dispatch_effect (dr_status d)\<rparr>
    \<and> e = errorsJoin [stageError StageDispatch (errorsJoin [derr, None]), None]"
proof -
  let ?now = "UTC (pt_now w)"
  let ?in = "\<lparr>xi_Action = a, xi_AttemptID = i\<rparr>"
  let ?t = "\<lparr>att_id = i, att_actionID = act_id a, att_startedAt = ?now, att_recoveryOf = []\<rparr>"
  have now: "\<not> IsZero ?now" using assms(4) by simp
  have t: "NewExecutionAttempt (attemptSpec ?in None ?now) = Inr ?t" and tok: "attempt_ok ?t"
    using assms(1,3) now by (simp_all add: NewExecutionAttempt_Inr_iff attemptSpec_def attempt_ok_def action_ok_def)
  have aid: "text_ok (act_id a)" using assms(1) by (simp add: action_ok_def)
  obtain e1 where "actionRequestedEvent rt a i ?now = Inr e1"
    using actionRequestedEvent_succeeds [OF assms(1,2,3) now] by blast
  moreover obtain e2 where "attemptStartedEvent rt a ?t ?now = Inr e2"
    using attemptStartedEvent_succeeds [OF tok aid _ now] assms(5) by auto
  ultimately have es: "initialFacts rt a ?t None ?now = Inr [e1, e2]" by (simp add: initialFacts_def)
  obtain e3 where e3: "admissionEvent rt a ?t AdmissionAdmitted None ?now = Inr e3"
    using later_events_succeed(1) [of a ?t ?now rt AdmissionAdmitted None] aid assms(3) now by auto
  have norm: "normalizeAdmission AdmissionAdmitted None = (AdmissionAdmitted, None)"
    "normalizeDispatch d (tgt_provider g) i = (d, None)"
    using assms(13,14) by (simp_all add: normalizeAdmission_def normalizeDispatch_def)
  obtain fs where fs: "dispatchEvents rt a ?t g d (errorsJoin [derr, None]) ?now = Inr fs"
    using dispatchEvents_succeed [of a ?t ?now d rt g "errorsJoin [derr, None]"] aid assms(3,12) now
    unfolding printable_receipt_def by (cases "dispatch_Receipt d") auto
  have out: "outcome AdmissionAdmitted (dr_status d) (dispatch_effect (dr_status d)) =
      \<lparr>o_admission = AdmissionAdmitted, o_dispatch = dr_status d, o_effect = dispatch_effect (dr_status d)\<rparr>"
    using dispatch_ok_valid [OF assms(11)]
    by (simp add: outcome_def NewOutcome_def admission_valid_iff effect_valid_iff dispatch_effect_def)
  show ?thesis
    using t es e3 norm fs out assms(6-10)
    by (simp add: Execute_def execute_def execute_admit_def execute_decide_def execute_resolve_def
        execute_dispatch_def append_built_def appendAfterIO_def Let_def started_result_def
        dispatch_effect_def [symmetric])
qed

text \<open>With a valid input, a clock and a receipt whose times can be written, a journal that accepts,
  an admitter that admits and a resolver that resolves, \<open>Execute\<close> dispatches the attempt once and
  returns the provider's result as it is, the outcome admitted with its status (effect unverified if
  it was handed over), and no error but the provider's own at stage dispatch.\<close>

lemma execute_undisturbed:
  assumes "action_ok a" and "printable_time (act_requestedAt a)" and "text_ok i"
    and "\<not> IsZero (pt_now w)" and "printable_time (UTC (pt_now w))"
    and "pt_begin w = (True, None)" and "pt_append w = None" and "pt_admit w = (AdmissionAdmitted, None)"
    and "pt_resolve w = (g, None)" and "pt_dispatch w = (d, derr)" and "dispatch_ok d" and "printable_receipt d"
    and "dr_provider d = tgt_provider g" and "dr_attemptID d = i"
  shows "case run w (Execute rt (Some u) \<lparr>xi_Action = a, xi_AttemptID = i\<rparr>) of (tr, r, e) \<Rightarrow>
    dispatched tr = [i] \<and> er_Target r = g \<and> er_Admission r = AdmissionAdmitted \<and> er_Dispatch r = d
    \<and> er_Outcome r = \<lparr>o_admission = AdmissionAdmitted, o_dispatch = dr_status d,
        o_effect = dispatch_effect (dr_status d)\<rparr>
    \<and> e = errorsJoin [stageError StageDispatch (errorsJoin [derr, None]), None]"
  using assms by (rule undisturbed_run)

definition example_run :: "call list \<times> ExecuteResult \<times> err option" where
  "example_run = run example_ports (Execute example_rt (Some example_use_case) example_input)"

lemma example_conditions:
  "action_ok example_action" "printable_time (act_requestedAt example_action)" "text_ok ''t''"
  "\<not> IsZero (pt_now example_ports)" "printable_time (UTC (pt_now example_ports))"
  "pt_begin example_ports = (True, None)" "pt_append example_ports = None"
  "pt_admit example_ports = (AdmissionAdmitted, None)"
  "pt_resolve example_ports = (\<lparr>tgt_provider = ''ha'', tgt_endpoint = ''x''\<rparr>, None)"
  "pt_dispatch example_ports = (example_dispatch, None)" "dispatch_ok example_dispatch"
  "printable_receipt example_dispatch"
  "dr_provider example_dispatch = tgt_provider \<lparr>tgt_provider = ''ha'', tgt_endpoint = ''x''\<rparr>"
  "dr_attemptID example_dispatch = ''t''"
  using example_values example_time
  by (simp_all add: example_ports_def example_action_def example_dispatch_def IsZero_def)

lemma example_run_facts:
  "plays (execute example_rt (Some example_use_case) example_input None) (fst example_run)
     (fst (snd example_run), None)"
  "dispatched (fst example_run) \<noteq> []" "snd (snd example_run) = None" "dispatch_answers_ok (fst example_run)"
proof -
  show none: "snd (snd example_run) = None" and "dispatched (fst example_run) \<noteq> []"
    using undisturbed_run [OF example_conditions, of example_rt example_use_case]
    by (simp_all add: example_run_def example_input_def errorsJoin_def List.map_filter_def split_beta)
  have "plays (execute example_rt (Some example_use_case) example_input None) (fst example_run) (snd example_run)"
    unfolding example_run_def Execute_def by (rule run_plays)
  then show "plays (execute example_rt (Some example_use_case) example_input None) (fst example_run)
      (fst (snd example_run), None)"
    using none by (metis prod.collapse)
  show "dispatch_answers_ok (fst example_run)"
    unfolding dispatch_answers_ok_def example_run_def
    using run_dispatch_answer [of _ _ _ _ _ example_ports] example_conditions(10,11) by fastforce
qed

lemma execute_facts_tell_outcome_witness:
  "\<exists>p0 p. NewAttempt (act_id (xi_Action example_input)) (xi_AttemptID example_input) = Inr p0
    \<and> apply_events p0 (recorded (fst example_run)) = Inr p
    \<and> attempt_Outcome p = er_Outcome (fst (snd example_run)) \<and> \<not> Conflicted p
    \<and> pj_verification p = VerificationUnknown"
  by (rule execute_facts_tell_outcome [OF example_run_facts(1) _ _ example_run_facts(4)]) simp_all

lemma execute_dispatches_after_claim_witness:
  "\<exists>now t es rest. fst example_run = [DidNow now, DidBegin CallerCtx example_action t es (True, None)] @ rest
    \<and> dispatched (fst example_run) = [''t'']"
  using execute_dispatches_after_claim [OF example_run_facts(1,2)] unfolding example_input_def by force

lemma execute_undisturbed_witness:
  "dispatched (fst example_run) = [''t''] \<and> snd (snd example_run) = None
   \<and> er_Outcome (fst (snd example_run)) = \<lparr>o_admission = AdmissionAdmitted, o_dispatch = DispatchDispatched,
        o_effect = EffectUnverified\<rparr>"
  using execute_undisturbed [OF example_conditions, of example_rt example_use_case]
  by (simp add: example_run_def example_input_def example_dispatch_def dispatch_effect_def
      errorsJoin_def List.map_filter_def split_beta)

end
