(* ===== verification/Verify_Attempt.thy ===== *)
theory Verify_Attempt
  imports Execute
begin

text \<open>
  \<open>execution/verify.go\<close>: observing and assessing an existing attempt. The use case reads the attempt's
  facts and the registered intent, resolves, observes, asks the verifier, and records observations
  and verdict as one group.
\<close>

record VerifyConfig =
  vc_Resolver :: bool
  vc_Observer :: bool
  vc_Verifier :: bool
  vc_Journal :: bool
  vc_Reader :: bool
  vc_Actions :: bool
  vc_Now :: bool
  vc_RecordTimeout :: int

record VerifyAttempt =
  va_now :: clock
  va_recordTimeout :: int

record VerifyInput =
  vi_Action :: Action
  vi_AttemptID :: AttemptID

record VerifyResult =
  vo_ActionID :: ActionID
  vo_AttemptID :: AttemptID
  vo_Target :: ResolvedTarget
  vo_Observations :: "Observation list"
  vo_Verification :: VerificationResult

definition NewVerifyAttempt :: "VerifyConfig \<Rightarrow> err + VerifyAttempt" where
  "NewVerifyAttempt config =
    (if \<not> vc_Resolver config \<or> \<not> vc_Observer config \<or> \<not> vc_Verifier config \<or> \<not> vc_Journal config
        \<or> \<not> vc_Reader config \<or> \<not> vc_Actions config
     then Inl (wrap_msg ErrInvalidInput
       ''resolver, observer, verifier, journal, event reader, and action reader are required'')
     else Inr \<lparr>va_now = (if vc_Now config then ConfiguredNow else TimeNow),
               va_recordTimeout = (if vc_RecordTimeout config \<le> 0 then defaultRecordTimeout
                                   else vc_RecordTimeout config)\<rparr>)"

definition zero_verify_result :: VerifyResult where
  "zero_verify_result = \<lparr>vo_ActionID = [], vo_AttemptID = [], vo_Target = zero_target, vo_Observations = [],
     vo_Verification = zero_verification\<rparr>"

text \<open>The loop over the observations: the facts built so far and the errors joined so far.\<close>

fun observation_facts ::
    "go_runtime \<Rightarrow> Action \<Rightarrow> AttemptID \<Rightarrow> Observation list \<Rightarrow> ExecutionEvent list \<times> err option
     \<Rightarrow> ExecutionEvent list \<times> err option" where
  "observation_facts rt action attemptID [] acc = acc"
| "observation_facts rt action attemptID (observation # observations) (facts, buildErr) =
    (case observationEvent rt action attemptID observation of
       Inl eventErr \<Rightarrow> observation_facts rt action attemptID observations (facts, errorsJoin [buildErr, Some eventErr])
     | Inr event \<Rightarrow> observation_facts rt action attemptID observations (facts @ [event], buildErr))"

text \<open>All facts of the assessment, with the joined errors of building them.\<close>

definition assessment_facts ::
    "go_runtime \<Rightarrow> Action \<Rightarrow> AttemptID \<Rightarrow> Observation list \<Rightarrow> VerificationResult \<Rightarrow> err option \<Rightarrow> gtime
     \<Rightarrow> ExecutionEvent list \<times> err option" where
  "assessment_facts rt action attemptID observations verification verifyErr checkedAt =
    (let (facts, buildErr) = observation_facts rt action attemptID observations ([], None);
         (verificationFacts, eventErr) =
           go_pair [] (verificationEvents rt action attemptID verification verifyErr checkedAt)
     in (facts @ verificationFacts, errorsJoin [buildErr, eventErr]))"

type_synonym assessment = "(VerifyResult \<times> err option) prog"

definition verify_record ::
    "go_runtime \<Rightarrow> VerifyAttempt \<Rightarrow> VerifyInput \<Rightarrow> err option \<Rightarrow> err option \<Rightarrow> gtime \<Rightarrow> VerifyResult \<Rightarrow> assessment"
where
  "verify_record rt u input observeErr verifyErr checkedAt result =
    (let (facts, buildErr) = assessment_facts rt (vi_Action input) (vi_AttemptID input) (vo_Observations result)
           (vo_Verification result) verifyErr checkedAt;
         finish = (\<lambda>recordErr. Done (result, errorsJoin
           [stageError StageObserve observeErr, stageError StageVerify verifyErr,
            stageError StageRecord (errorsJoin [buildErr, recordErr])]))
     in if buildErr = None \<and> facts \<noteq> [] then AppendAll (RecordCtx (va_recordTimeout u)) facts finish
        else finish None)"

text \<open>From the resolver's call on.\<close>

definition verify_assess ::
    "go_runtime \<Rightarrow> VerifyAttempt \<Rightarrow> VerifyInput \<Rightarrow> VerifyResult \<Rightarrow> assessment" where
  "verify_assess rt u input result =
    (let action = vi_Action input in
     Resolve CallerCtx action (\<lambda>(target, err).
       let result = result\<lparr>vo_Target := target\<rparr>
       in if err \<noteq> None then Done (result, stageError StageResolve err)
          else Observe CallerCtx action target (\<lambda>(observations, observeErr).
            let result = result\<lparr>vo_Observations := observations\<rparr>
            in Now (\<lambda>now.
              let checkedAt = UTC now
              in Verify CallerCtx action observations checkedAt (\<lambda>(verification, err).
                let result = result\<lparr>vo_Verification := verification\<rparr>;
                    verifyErr = (if vr_status verification = VerificationUnknown \<and> err = None
                                 then Some (Sentinel ErrVerificationUnknown) else err)
                in verify_record rt u input observeErr verifyErr checkedAt result)))))"

definition VerifyAttempt_Verify :: "go_runtime \<Rightarrow> VerifyAttempt option \<Rightarrow> VerifyInput \<Rightarrow> assessment" where
  "VerifyAttempt_Verify rt use_case input =
    (let actionID = act_id (vi_Action input); attemptID = vi_AttemptID input in
     case use_case of
       None \<Rightarrow> Done (zero_verify_result, stageError StageValidate (Some (Sentinel ErrInvalidInput)))
     | Some u \<Rightarrow>
       if attemptID = '''' \<or> actionID = ''''
       then Done (zero_verify_result, stageError StageValidate (Some (Sentinel ErrInvalidInput)))
       else
         let result = zero_verify_result\<lparr>vo_ActionID := actionID, vo_AttemptID := attemptID\<rparr>
         in EventsByAttempt CallerCtx attemptID (\<lambda>(events, err).
              if err \<noteq> None then Done (result, stageError StageRecord err)
              else if events = [] then Done (result, stageError StageValidate (Some (Sentinel ErrAttemptNotFound)))
              else if list_ex (\<lambda>event. ev_actionID event \<noteq> actionID) events
              then Done (result, stageError StageValidate (Some (Sentinel ErrActionMismatch)))
              else ActionByID CallerCtx actionID (\<lambda>(storedAction, found, err).
                if err \<noteq> None then Done (result, stageError StageRecord err)
                else if \<not> found then Done (result, stageError StageValidate (Some (Sentinel ErrAttemptNotFound)))
                else if \<not> sameAction storedAction (vi_Action input)
                then Done (result, stageError StageValidate (Some (Sentinel ErrActionIdentityConflict)))
                else verify_assess rt u input result)))"

end
