(* ===== verification/Verify_Properties.thy ===== *)
theory Verify_Properties
  imports Verify_Attempt Execute_Theorems Exec_Examples Memory_Log
begin

text \<open>
  The properties of \<open>Verify\<close>: the exact calls it makes, the facts it records, the verdict the view
  then shows, and what happens to a second observation of an unchanged state.
\<close>

subsection \<open>Plays\<close>

lemma verify_record_plays:
  "plays (verify_record rt u input oe ve now res) tr w \<longleftrightarrow>
    (let built = assessment_facts rt (vi_Action input) (vi_AttemptID input) (vo_Observations res)
           (vo_Verification res) ve now;
         done = (\<lambda>x. (res, errorsJoin [stageError StageObserve oe, stageError StageVerify ve,
                            stageError StageRecord (errorsJoin [snd built, x])]))
     in if snd built = None \<and> fst built \<noteq> []
        then \<exists>x rest. tr = DidAppend (RecordCtx (va_recordTimeout u)) (fst built) x # rest \<and> (rest = [] \<and> w = done x)
        else tr = [] \<and> w = done None)"
  by (simp only: verify_record_def plays_simps)

lemma verify_assess_plays:
  "plays (verify_assess rt u input res) tr w \<longleftrightarrow>
    (\<exists>ans tr1. tr = DidResolve CallerCtx (vi_Action input) ans # tr1 \<and>
      (let res1 = res\<lparr>vo_Target := fst ans\<rparr> in
       if snd ans \<noteq> None then tr1 = [] \<and> w = (res1, stageError StageResolve (snd ans))
       else \<exists>obs tr2. tr1 = DidObserve CallerCtx (vi_Action input) (fst ans) obs # tr2 \<and>
         (let res2 = res1\<lparr>vo_Observations := fst obs\<rparr> in
          \<exists>now tr3. tr2 = DidNow now # tr3 \<and>
          (\<exists>ver tr4. tr3 = DidVerify CallerCtx (vi_Action input) (fst obs) (UTC now) ver # tr4 \<and>
            plays (verify_record rt u input (snd obs)
              (if vr_status (fst ver) = VerificationUnknown \<and> snd ver = None
               then Some (Sentinel ErrVerificationUnknown) else snd ver)
              (UTC now) (res2\<lparr>vo_Verification := fst ver\<rparr>)) tr4 w))))"
  by (simp only: verify_assess_def plays_simps)

lemma verify_plays:
  "plays (VerifyAttempt_Verify rt (Some u) input) tr w \<longleftrightarrow>
    (let i = vi_AttemptID input; a = vi_Action input;
         res = zero_verify_result\<lparr>vo_ActionID := act_id a, vo_AttemptID := i\<rparr>
     in if i = [] \<or> act_id a = []
        then tr = [] \<and> w = (zero_verify_result, stageError StageValidate (Some (Sentinel ErrInvalidInput)))
        else \<exists>evs tr1. tr = DidEvents CallerCtx i evs # tr1 \<and>
          (if snd evs \<noteq> None then tr1 = [] \<and> w = (res, stageError StageRecord (snd evs))
           else if fst evs = []
           then tr1 = [] \<and> w = (res, stageError StageValidate (Some (Sentinel ErrAttemptNotFound)))
           else if list_ex (\<lambda>event. ev_actionID event \<noteq> act_id a) (fst evs)
           then tr1 = [] \<and> w = (res, stageError StageValidate (Some (Sentinel ErrActionMismatch)))
           else \<exists>st tr2. tr1 = DidAction CallerCtx (act_id a) st # tr2 \<and>
             (if snd (snd st) \<noteq> None then tr2 = [] \<and> w = (res, stageError StageRecord (snd (snd st)))
              else if \<not> fst (snd st)
              then tr2 = [] \<and> w = (res, stageError StageValidate (Some (Sentinel ErrAttemptNotFound)))
              else if \<not> sameAction (fst st) a
              then tr2 = [] \<and> w = (res, stageError StageValidate (Some (Sentinel ErrActionIdentityConflict)))
              else plays (verify_assess rt u input res) tr2 w)))"
  by (simp only: VerifyAttempt_Verify_def plays_simps option.case)

subsection \<open>The facts of an assessment\<close>

definition verdict_kinds :: "VerificationResult \<Rightarrow> EventKind list" where
  "verdict_kinds v =
    (if vr_status v = VerificationUnknown then []
     else [fst (verification_kinds (vr_status v)), snd (verification_kinds (vr_status v))])"

lemma observation_facts_error: "snd (observation_facts rt a i os (fs, Some e)) \<noteq> None"
proof (induction os arbitrary: fs e)
  case (Cons b os)
  have "\<exists>x. errorsJoin [Some e, Some y] = Some x" for y by (simp add: errorsJoin_def List.map_filter_def)
  then show ?case using Cons by (metis (no_types, lifting) observation_facts.simps(2) old.sum.simps sum.exhaust)
qed simp

lemma observation_facts_told:
  "observation_facts rt a i os (fs, None) = (fs', None) \<Longrightarrow>
     \<exists>new. fs' = fs @ new \<and> told a i new (replicate (length os) EventObservationRecorded)"
proof (induction os arbitrary: fs)
  case Nil
  then show ?case by (simp add: told_def)
next
  case (Cons b os)
  show ?case
  proof (cases "observationEvent rt a i b")
    case (Inl e)
    then show ?thesis
      using Cons.prems observation_facts_error [of rt a i os fs]
      by (simp add: errorsJoin_def List.map_filter_def) (metis snd_conv option.distinct(1))
  next
    case (Inr ev)
    with Cons.prems have "observation_facts rt a i os (fs @ [ev], None) = (fs', None)" by simp
    from Cons.IH [OF this] obtain new where "fs' = (fs @ [ev]) @ new"
      "told a i new (replicate (length os) EventObservationRecorded)" by blast
    then show ?thesis
      using single_builder_facts(6) [OF Inr] by (intro exI [of _ "ev # new"]) (simp add: told_def)
  qed
qed

lemma assessment_facts_told:
  assumes "snd (assessment_facts rt a i os v ve now) = None"
  shows "told a i (fst (assessment_facts rt a i os v ve now))
    (replicate (length os) EventObservationRecorded @ verdict_kinds v)"
proof -
  obtain fs be where ob: "observation_facts rt a i os ([], None) = (fs, be)" by (metis surj_pair)
  obtain vs where ve: "verificationEvents rt a i v ve now = Inr vs"
    using assms ob by (cases "verificationEvents rt a i v ve now") (auto simp: assessment_facts_def)
  have "be = None" using assms ob ve by (simp add: assessment_facts_def)
  with ob observation_facts_told [of rt a i os "[]" fs]
  have "told a i fs (replicate (length os) EventObservationRecorded)" by simp
  moreover have "told a i vs (verdict_kinds v)"
    using verificationEvents_facts [OF ve] by (simp add: told_def verdict_kinds_def)
  ultimately show ?thesis
    using told_append ob ve by (simp add: assessment_facts_def)
qed

subsection \<open>Properties\<close>

lemma verify_calls:
  assumes "plays (VerifyAttempt_Verify rt (Some u) input) tr (r, e)"
  shows "(\<forall>c\<in>set tr. \<not> executes c)
    \<and> (recorded tr \<noteq> [] \<longrightarrow>
       (\<exists>evs st g os oe now v ve facts.
          tr = [DidEvents CallerCtx (vi_AttemptID input) (evs, None),
                DidAction CallerCtx (act_id (vi_Action input)) (st, True, None),
                DidResolve CallerCtx (vi_Action input) (g, None),
                DidObserve CallerCtx (vi_Action input) g (os, oe), DidNow now,
                DidVerify CallerCtx (vi_Action input) os (UTC now) (v, ve),
                DidAppend (RecordCtx (va_recordTimeout u)) facts None]
          \<and> evs \<noteq> [] \<and> (\<forall>x\<in>set evs. ev_actionID x = act_id (vi_Action input)) \<and> sameAction st (vi_Action input)
          \<and> told (vi_Action input) (vi_AttemptID input) facts
              (replicate (length os) EventObservationRecorded @ verdict_kinds v)
          \<and> vo_Observations r = os \<and> vo_Verification r = v))"
proof -
  let ?a = "vi_Action input" and ?i = "vi_AttemptID input"
  have rec: "(\<forall>c\<in>set tr'. \<not> executes c) \<and> (recorded tr' \<noteq> [] \<longrightarrow>
      (\<exists>facts. tr' = [DidAppend (RecordCtx (va_recordTimeout u)) facts None] \<and>
         told ?a ?i facts (replicate (length (vo_Observations res)) EventObservationRecorded
           @ verdict_kinds (vo_Verification res)))) \<and> fst w = res"
    if "plays (verify_record rt u input oe ve now res) tr' w" for oe ve now res tr' w
    using that assessment_facts_told [of rt ?a ?i "vo_Observations res" "vo_Verification res" ve now]
    unfolding verify_record_plays by (auto simp: Let_def split: if_splits)
  have assess: "(\<forall>c\<in>set tr'. \<not> executes c) \<and> (recorded tr' \<noteq> [] \<longrightarrow>
      (\<exists>g os oe now v ve facts.
          tr' = [DidResolve CallerCtx ?a (g, None), DidObserve CallerCtx ?a g (os, oe), DidNow now,
                DidVerify CallerCtx ?a os (UTC now) (v, ve),
                DidAppend (RecordCtx (va_recordTimeout u)) facts None]
          \<and> told ?a ?i facts (replicate (length os) EventObservationRecorded @ verdict_kinds v)
          \<and> vo_Observations (fst w) = os \<and> vo_Verification (fst w) = v))"
    if "plays (verify_assess rt u input res) tr' w" for res tr' w
    using that rec unfolding verify_assess_plays by (auto simp: Let_def split: if_splits dest!: rec)
  show ?thesis
    using assms assess unfolding verify_plays
    by (auto simp: Let_def list_ex_iff split: if_splits dest!: assess)
qed

lemma verify_facts:
  assumes "plays (VerifyAttempt_Verify rt (Some u) input) tr (r, e)" and "recorded tr \<noteq> []"
  shows "\<exists>n. told (vi_Action input) (vi_AttemptID input) (recorded tr)
    (replicate n EventObservationRecorded @ verdict_kinds (vo_Verification r))"
proof -
  from verify_calls [OF assms(1)] assms(2) obtain evs st g os oe now v ve facts where
    "tr = [DidEvents CallerCtx (vi_AttemptID input) (evs, None),
           DidAction CallerCtx (act_id (vi_Action input)) (st, True, None),
           DidResolve CallerCtx (vi_Action input) (g, None),
           DidObserve CallerCtx (vi_Action input) g (os, oe), DidNow now,
           DidVerify CallerCtx (vi_Action input) os (UTC now) (v, ve),
           DidAppend (RecordCtx (va_recordTimeout u)) facts None]"
    "told (vi_Action input) (vi_AttemptID input) facts
       (replicate (length os) EventObservationRecorded @ verdict_kinds v)" "vo_Verification r = v"
    by blast
  then show ?thesis by (intro exI [of _ "length os"]) simp
qed

text \<open>C8: \<open>Verify\<close> never claims, admits or dispatches; and when it records anything, it made exactly these
  calls: it read facts of the attempt, at least one and all of the action, found the same intent
  registered, resolved, observed, asked the verifier, and appended one group, the facts of every
  observation in order and then of the verdict, all of the input's attempt and action, under the
  context that outlives the caller's.\<close>

theorem verify_records_after_checks:
  assumes "plays (VerifyAttempt_Verify rt (Some u) input) tr (r, e)"
  shows "(\<forall>c\<in>set tr. \<not> executes c)
    \<and> (recorded tr \<noteq> [] \<longrightarrow>
       (\<exists>evs st g os oe now v ve facts.
          tr = [DidEvents CallerCtx (vi_AttemptID input) (evs, None),
                DidAction CallerCtx (act_id (vi_Action input)) (st, True, None),
                DidResolve CallerCtx (vi_Action input) (g, None),
                DidObserve CallerCtx (vi_Action input) g (os, oe), DidNow now,
                DidVerify CallerCtx (vi_Action input) os (UTC now) (v, ve),
                DidAppend (RecordCtx (va_recordTimeout u)) facts None]
          \<and> evs \<noteq> [] \<and> (\<forall>x\<in>set evs. ev_actionID x = act_id (vi_Action input)) \<and> sameAction st (vi_Action input)
          \<and> told (vi_Action input) (vi_AttemptID input) facts
              (replicate (length os) EventObservationRecorded @ verdict_kinds v)
          \<and> vo_Observations r = os \<and> vo_Verification r = v))"
  using assms by (rule verify_calls)

text \<open>Observation facts leave the view as it is; a verdict touches effect and verification only.\<close>

lemma fold_observations: "(apply_kind EventObservationRecorded ^^ n) p = p"
  by (induction n) (simp_all add: apply_kind_def)

definition verdict_after :: "VerificationStatus \<Rightarrow> VerificationResult \<Rightarrow> VerificationStatus" where
  "verdict_after before v =
    (if vr_status v = VerificationVerified \<or> vr_status v = VerificationUnsatisfied then vr_status v
     else if vr_status v = VerificationInconclusive \<and> before = VerificationUnknown then VerificationInconclusive
     else before)"

lemma fold_verdict:
  assumes "verification_valid (vr_status v)"
  shows "pj_verification (fold apply_kind (verdict_kinds v) p) = verdict_after (pj_verification p) v"
    and "shown_admission (fold apply_kind (verdict_kinds v) p) = shown_admission p"
    and "shown_dispatch (fold apply_kind (verdict_kinds v) p) = shown_dispatch p"
  using assms unfolding verification_valid_iff
  by (elim disjE;
      simp add: verdict_kinds_def verification_kinds_def verdict_after_def pj_verification_apply_kind
        apply_kind_dimensions status_defs)+

text \<open>C15: after a successful recording, replaying the new facts on top of any view of the attempt works,
  shows the verifier's verdict when it is conclusive (an inconclusive one only where there was none)
  and changes nothing about admission and dispatch.\<close>

theorem verify_shows_verdict:
  assumes "plays (VerifyAttempt_Verify rt (Some u) input) tr (r, e)" and "recorded tr \<noteq> []"
    and "verification_ok (vo_Verification r)"
    and "NewAttempt (act_id (vi_Action input)) (vi_AttemptID input) = Inr p0" and "apply_events p0 log = Inr p"
  shows "\<exists>p'. apply_events p (recorded tr) = Inr p'
    \<and> pj_verification p' = verdict_after (pj_verification p) (vo_Verification r)
    \<and> shown_admission p' = shown_admission p \<and> shown_dispatch p' = shown_dispatch p"
proof -
  let ?v = "vo_Verification r"
  obtain n where told: "told (vi_Action input) (vi_AttemptID input) (recorded tr)
      (replicate n EventObservationRecorded @ verdict_kinds ?v)"
    using verify_facts [OF assms(1,2)] by blast
  have ids: "pj_actionID p = act_id (vi_Action input)" "pj_attemptID p = vi_AttemptID input"
    using apply_events_identity [OF assms(5)] NewAttempt_Inr(5,6) [OF assms(4)] by simp_all
  have "list_all (related p) (recorded tr)"
    using told ids by (auto simp: told_def list_all_iff related_def fact_of_def)
  then have ap: "apply_events p (recorded tr) = Inr (fold apply_kind (verdict_kinds ?v) p)"
    using told by (simp add: apply_events_Inr_iff told_def fold_observations)
  have "verification_valid (vr_status ?v)"
    using assms(3) by (auto simp: verification_ok_def zero_verification_def verification_valid_iff status_defs)
  from fold_verdict [OF this, of p] ap show ?thesis by blast
qed

subsection \<open>A second observation of an unchanged state\<close>

text \<open>C23: two observations that differ only in the time they were recorded become facts with the same
  identity and different contents. The journal therefore refuses the second one, and with it the
  whole group that reports the second assessment, verdict included: here for the memory log, which
  the refused append leaves as it is.\<close>

theorem reobservation_conflicts:
  assumes "text_ok (act_id a)" and "text_ok i" and "observation_ok b"
    and "printable_time (obs_observedAt b)" and "printable_time (obs_recordedAt b)"
    and "printable_time later" and "\<not> IsZero later" and "\<not> TimeEqual (obs_recordedAt b) later"
  shows "\<exists>e1 e2. observationEvent rt a i b = Inr e1
    \<and> observationEvent rt a i (b\<lparr>obs_recordedAt := later\<rparr>) = Inr e2
    \<and> ev_id e1 = ev_id e2
    \<and> (\<forall>l group. log_inv l \<and> e1 \<in> set (memory_Events l) \<and> e2 \<in> set group \<longrightarrow>
         (\<exists>err. memory_AppendAll None group l = (Some err, l) \<and> errorsIs err Memory_ErrEventConflict))"
proof -
  obtain e1 where e1: "observationEvent rt a i b = Inr e1"
    using observationEvent_succeeds [OF assms(1-5)] by blast
  have "observation_ok (b\<lparr>obs_recordedAt := later\<rparr>)" using assms(3,7) by (simp add: observation_ok_def)
  then obtain e2 where e2: "observationEvent rt a i (b\<lparr>obs_recordedAt := later\<rparr>) = Inr e2"
    using observationEvent_succeeds [OF assms(1,2), of "b\<lparr>obs_recordedAt := later\<rparr>"] assms(4,6) by auto
  have same: "ev_id e1 = ev_id e2" and diff: "\<not> same_fact e1 e2"
    using e1 e2 assms(8) by (auto simp: observationEvent_def newEvent_Inr same_fact_def)
  have "\<exists>err. memory_AppendAll None group l = (Some err, l) \<and> errorsIs err Memory_ErrEventConflict"
    if "log_inv l" "e1 \<in> set (memory_Events l)" "e2 \<in> set group" for l group
  proof -
    have "\<not> group_agrees (log_events l) group"
      using that same diff by (auto simp: group_agrees_def memory_Events_def)
    then have "preflight l group \<noteq> None" using preflight_None_iff [OF that(1), of group] by simp
    with preflight_Some show ?thesis by (auto simp: memory_AppendAll_def)
  qed
  with e1 e2 same show ?thesis by blast
qed

subsection \<open>Concrete runs\<close>

definition example_observation :: Observation where
  "example_observation = \<lparr>obs_id = ''a'', obs_source = ''ha'', obs_target = ''lamp'', obs_value = ''on'',
     obs_evidence = [], obs_observedAt = \<lparr>t_ns = 1, t_off = 0\<rparr>, obs_recordedAt = \<lparr>t_ns = 1, t_off = 0\<rparr>\<rparr>"

definition example_verdict :: VerificationResult where
  "example_verdict = \<lparr>vr_status = VerificationVerified, vr_verifier = ''ha'',
     vr_checkedAt = \<lparr>t_ns = 1, t_off = 0\<rparr>, vr_observationIDs = [''a''], vr_reason = []\<rparr>"

definition verify_ports :: ports where
  "verify_ports = example_ports\<lparr>pt_events := (\<lambda>_. ([example_fact ''1'' EventActionDispatched], None)),
     pt_action := (example_action, True, None), pt_observe := ([example_observation], None),
     pt_verify := (example_verdict, None)\<rparr>"

definition verify_example :: "call list \<times> VerifyResult \<times> err option" where
  "verify_example = run verify_ports (VerifyAttempt_Verify example_rt
     (Some \<lparr>va_now = TimeNow, va_recordTimeout = defaultRecordTimeout\<rparr>)
     \<lparr>vi_Action = example_action, vi_AttemptID = ''t''\<rparr>)"

lemma verify_example_facts:
  "plays (VerifyAttempt_Verify example_rt (Some \<lparr>va_now = TimeNow, va_recordTimeout = defaultRecordTimeout\<rparr>)
     \<lparr>vi_Action = example_action, vi_AttemptID = ''t''\<rparr>) (fst verify_example)
     (fst (snd verify_example), snd (snd verify_example))"
  "recorded (fst verify_example) \<noteq> []" "vo_Verification (fst (snd verify_example)) = example_verdict"
  "verification_ok example_verdict"
proof -
  show "plays (VerifyAttempt_Verify example_rt (Some \<lparr>va_now = TimeNow, va_recordTimeout = defaultRecordTimeout\<rparr>)
     \<lparr>vi_Action = example_action, vi_AttemptID = ''t''\<rparr>) (fst verify_example)
     (fst (snd verify_example), snd (snd verify_example))"
    unfolding verify_example_def using run_plays by (metis prod.collapse)
  show "verification_ok example_verdict"
    by (simp add: verification_ok_def example_verdict_def verification_valid_iff IsZero_def status_defs)
  have ok: "text_ok (act_id example_action)" "observation_ok example_observation"
    by (simp_all add: example_action_def observation_ok_def example_observation_def IsZero_def)
  obtain e1 where "observationEvent example_rt example_action ''t'' example_observation = Inr e1"
    using observationEvent_succeeds [of example_action "''t''" example_observation example_rt] ok example_time
    by (auto simp: example_observation_def)
  moreover obtain e2 where "verificationEvents example_rt example_action ''t'' example_verdict None
      (UTC \<lparr>t_ns = 2, t_off = 0\<rparr>) = Inr e2"
    using verificationEvents_succeed [of example_action "''t''" "UTC \<lparr>t_ns = 2, t_off = 0\<rparr>" example_verdict example_rt None]
      ok example_time by (auto simp: IsZero_def example_verdict_def)
  ultimately show "recorded (fst verify_example) \<noteq> []" "vo_Verification (fst (snd verify_example)) = example_verdict"
    by (simp_all add: verify_example_def VerifyAttempt_Verify_def verify_ports_def example_ports_def
        verify_assess_def verify_record_def assessment_facts_def Let_def example_action_def [symmetric])
       (simp_all add: example_action_def example_verdict_def verification_status_defs)
qed

lemma verify_records_after_checks_witness:
  "\<exists>evs st g os oe now v ve facts. fst verify_example =
     [DidEvents CallerCtx ''t'' (evs, None), DidAction CallerCtx ''a'' (st, True, None),
      DidResolve CallerCtx example_action (g, None), DidObserve CallerCtx example_action g (os, oe), DidNow now,
      DidVerify CallerCtx example_action os (UTC now) (v, ve),
      DidAppend (RecordCtx defaultRecordTimeout) facts None]"
  using verify_records_after_checks [OF verify_example_facts(1)] verify_example_facts(2)
  by (simp add: example_action_def) blast

lemma verify_shows_verdict_witness:
  "\<exists>p0 p p'. NewAttempt ''a'' ''t'' = Inr p0 \<and> apply_events p0 [example_fact ''1'' EventActionDispatched] = Inr p
     \<and> apply_events p (recorded (fst verify_example)) = Inr p' \<and> pj_verification p' = VerificationVerified"
proof -
  obtain p0 where p0: "NewAttempt ''a'' ''t'' = Inr p0" by (simp add: NewAttempt_def)
  obtain p where p: "apply_events p0 [example_fact ''1'' EventActionDispatched] = Inr p"
    using NewAttempt_Inr(5,6) [OF p0] by (simp add: related_def)
  have in0: "NewAttempt (act_id (vi_Action \<lparr>vi_Action = example_action, vi_AttemptID = ''t''\<rparr>))
      (vi_AttemptID \<lparr>vi_Action = example_action, vi_AttemptID = ''t''\<rparr>) = Inr p0"
    using p0 by (simp add: example_action_def)
  have ok: "verification_ok (vo_Verification (fst (snd verify_example)))" using verify_example_facts(3,4) by simp
  from verify_shows_verdict [OF verify_example_facts(1,2) ok in0 p] p0 p show ?thesis
    unfolding verify_example_facts(3) verdict_after_def by (auto simp: example_verdict_def)
qed

lemma reobservation_conflicts_witness:
  "\<exists>e1 e2. observationEvent example_rt example_action ''t'' example_observation = Inr e1
    \<and> observationEvent example_rt example_action ''t'' (example_observation\<lparr>obs_recordedAt := UTC \<lparr>t_ns = 2, t_off = 0\<rparr>\<rparr>) = Inr e2
    \<and> ev_id e1 = ev_id e2"
  using reobservation_conflicts [of example_action "''t''" example_observation "UTC \<lparr>t_ns = 2, t_off = 0\<rparr>" example_rt]
    example_time
  by (auto simp: example_action_def observation_ok_def example_observation_def IsZero_def TimeEqual_def)

end
