(* ===== verification/Recover_Attempt.thy ===== *)
theory Recover_Attempt
  imports Execute
begin

text \<open>
  \<open>execution/recovery.go\<close>: a new attempt after an earlier one, on explicit authorization. The checks
  of \<open>Recover\<close> come before \<open>execute\<close>, which claims the new identity and records the authorization.
\<close>

record RecoverAttempt =
  rv_executor :: ExecuteAction

definition NewRecoverAttempt :: "ExecuteAction option \<Rightarrow> bool \<Rightarrow> err + RecoverAttempt" where
  "NewRecoverAttempt executor reader =
    (case executor of
       None \<Rightarrow> Inl (wrap_msg ErrInvalidInput ''executor and attempt reader are required'')
     | Some u \<Rightarrow>
         if \<not> reader then Inl (wrap_msg ErrInvalidInput ''executor and attempt reader are required'')
         else Inr \<lparr>rv_executor = u\<rparr>)"

record RecoverInput =
  ri_Action :: Action
  ri_AttemptID :: AttemptID
  ri_Authorization :: RecoveryAuthorization

definition recover_failed :: "err option \<Rightarrow> execution" where
  "recover_failed e = Done (zero_result, stageError StageRecover e)"

definition Recover :: "go_runtime \<Rightarrow> RecoverAttempt option \<Rightarrow> RecoverInput \<Rightarrow> execution" where
  "Recover rt use_case input =
    (let authorization = ri_Authorization input; action = ri_Action input in
     case use_case of
       None \<Rightarrow> recover_failed (Some (wrap_msg ErrInvalidInput ''use case is nil''))
     | Some u \<Rightarrow>
       if ra_actionID authorization \<noteq> act_id action \<or> ra_previousAttemptID authorization = ''''
       then recover_failed (Some (Sentinel ErrRecoveryNotAuthorized))
       else EventsByAttempt CallerCtx (ra_previousAttemptID authorization) (\<lambda>(previous, err).
         if err \<noteq> None then recover_failed err
         else if previous = []
         then recover_failed (errorsJoin [Some (Sentinel ErrAttemptNotFound), Some (Sentinel ErrRecoveryNotAuthorized)])
         else if list_ex (\<lambda>event. ev_actionID event \<noteq> act_id action) previous
         then recover_failed (errorsJoin [Some (Sentinel ErrActionMismatch), Some (Sentinel ErrRecoveryNotAuthorized)])
         else ActionByID CallerCtx (act_id action) (\<lambda>(storedAction, found, err).
           if err \<noteq> None then recover_failed err
           else if \<not> found \<or> \<not> sameAction storedAction action
           then recover_failed
             (errorsJoin [Some (Sentinel ErrActionIdentityConflict), Some (Sentinel ErrRecoveryNotAuthorized)])
           else execute rt (Some (rv_executor u))
                  \<lparr>xi_Action = action, xi_AttemptID = ri_AttemptID input\<rparr> (Some authorization))))"

end
