(* ===== verification/Recover_Properties.thy ===== *)
theory Recover_Properties
  imports Recover_Attempt Execute_Properties
begin

text \<open>
  The properties of \<open>Recover\<close>: nothing physical happens before the earlier attempt is proven and
  authorized, the new attempt is a different one that names the earlier attempt, and the
  authorization is a recorded fact of the claim.
\<close>

lemma plays_recover_failed [simp]:
  "plays (recover_failed e) tr w \<longleftrightarrow> tr = [] \<and> w = (zero_result, stageError StageRecover e)"
  by (simp add: recover_failed_def)

lemma recover_plays:
  "plays (Recover rt (Some u) input) tr w \<longleftrightarrow>
    (let au = ri_Authorization input; a = ri_Action input in
     if ra_actionID au \<noteq> act_id a \<or> ra_previousAttemptID au = []
     then tr = [] \<and> w = (zero_result, stageError StageRecover (Some (Sentinel ErrRecoveryNotAuthorized)))
     else \<exists>prev tr1. tr = DidEvents CallerCtx (ra_previousAttemptID au) prev # tr1 \<and>
       (if snd prev \<noteq> None then tr1 = [] \<and> w = (zero_result, stageError StageRecover (snd prev))
        else if fst prev = []
        then tr1 = [] \<and> w = (zero_result, stageError StageRecover
               (errorsJoin [Some (Sentinel ErrAttemptNotFound), Some (Sentinel ErrRecoveryNotAuthorized)]))
        else if list_ex (\<lambda>event. ev_actionID event \<noteq> act_id a) (fst prev)
        then tr1 = [] \<and> w = (zero_result, stageError StageRecover
               (errorsJoin [Some (Sentinel ErrActionMismatch), Some (Sentinel ErrRecoveryNotAuthorized)]))
        else \<exists>st tr2. tr1 = DidAction CallerCtx (act_id a) st # tr2 \<and>
          (if snd (snd st) \<noteq> None then tr2 = [] \<and> w = (zero_result, stageError StageRecover (snd (snd st)))
           else if \<not> fst (snd st) \<or> \<not> sameAction (fst st) a
           then tr2 = [] \<and> w = (zero_result, stageError StageRecover
                  (errorsJoin [Some (Sentinel ErrActionIdentityConflict), Some (Sentinel ErrRecoveryNotAuthorized)]))
           else plays (execute rt (Some (rv_executor u)) \<lparr>xi_Action = a, xi_AttemptID = ri_AttemptID input\<rparr> (Some au))
                  tr2 w)))"
  by (simp only: Recover_def plays_simps plays_recover_failed option.case)

text \<open>A run of \<open>execute\<close> that claims, claims the attempt of its input with the authorization's facts.\<close>

lemma execute_claims_input:
  assumes "plays (execute rt (Some u) input auth) tr w" and "DidBegin c a t es ans \<in> set tr"
  shows "a = xi_Action input \<and> att_id t = xi_AttemptID input \<and> attempt_ok t
    \<and> att_recoveryOf t = (case auth of None \<Rightarrow> [] | Some x \<Rightarrow> ra_previousAttemptID x)
    \<and> told a (xi_AttemptID input) es (initial_kinds auth)"
proof -
  have decide: "DidBegin c a t es ans \<notin> set tr'" if "plays (execute_admit rt u a' t' res) tr' w'" for a' t' res tr' w'
    using only_plays [OF that no_second_claim(5)] by auto
  from assms obtain c1 c2 tr' where tr: "tr = c1 # c2 # tr'"
    unfolding execute_plays by (cases tr rule: remdups_adj.cases) auto
  with assms(1) have "plays (execute rt (Some u) input auth) (c1 # c2 # tr') w" by simp
  then obtain now t' es' ans' where c: "c1 = DidNow now" "c2 = DidBegin CallerCtx (xi_Action input) t' es' ans'"
    and t': "NewExecutionAttempt (attemptSpec input auth (UTC now)) = Inr t'"
    and es': "initialFacts rt (xi_Action input) t' auth (UTC now) = Inr es'"
    and b: "if snd ans' \<noteq> None then tr' = [] \<and> w = (started_result (xi_Action input) t', stageError StageRecord (snd ans'))
     else if \<not> fst ans'
     then tr' = [] \<and> w = (started_result (xi_Action input) t',
            stageError StageValidate (Some (Sentinel ErrAttemptAlreadyStarted)))
     else plays (execute_admit rt u (xi_Action input) t' (started_result (xi_Action input) t')) tr' w"
    by (rule execute_reaches_claim)
  have "DidBegin c a t es ans \<notin> set tr'" using b decide by (auto split: if_splits)
  then have "a = xi_Action input" "t = t'" "es = es'" using assms(2) tr c by auto
  with t' initialFacts_told [OF es'] show ?thesis
    by (auto simp: NewExecutionAttempt_Inr_iff attemptSpec_def)
qed

text \<open>C7: \<open>Recover\<close> claims, admits or dispatches only when the authorization is for the input's action and
  names an earlier attempt, the journal showed facts of that earlier attempt, all of the same action,
  and the registered intent equals the input's. The attempt it claims has the new identity, differs
  from the earlier one and names it, and its initial facts are request, start and authorization.\<close>

theorem recover_claims_after_evidence:
  assumes "plays (Recover rt (Some u) input) tr w" and "c \<in> set tr" and "executes c"
  shows "ra_actionID (ri_Authorization input) = act_id (ri_Action input)
    \<and> (\<exists>prev st tr'. tr = DidEvents CallerCtx (ra_previousAttemptID (ri_Authorization input)) (prev, None)
          # DidAction CallerCtx (act_id (ri_Action input)) (st, True, None) # tr'
        \<and> prev \<noteq> [] \<and> (\<forall>x\<in>set prev. ev_actionID x = act_id (ri_Action input)) \<and> sameAction st (ri_Action input)
        \<and> (\<forall>c' a t es ans. DidBegin c' a t es ans \<in> set tr' \<longrightarrow>
             a = ri_Action input \<and> att_id t = ri_AttemptID input
             \<and> att_recoveryOf t = ra_previousAttemptID (ri_Authorization input) \<and> att_id t \<noteq> att_recoveryOf t
             \<and> told a (ri_AttemptID input) es [EventActionRequested, EventAttemptStarted, EventRecoveryAuthorized]))"
proof -
  let ?au = "ri_Authorization input" and ?a = "ri_Action input"
  let ?in = "\<lparr>xi_Action = ?a, xi_AttemptID = ri_AttemptID input\<rparr>"
  from assms obtain prev tr1 where au: "ra_actionID ?au = act_id ?a" "ra_previousAttemptID ?au \<noteq> []"
    and tr: "tr = DidEvents CallerCtx (ra_previousAttemptID ?au) prev # tr1"
    and prev: "snd prev = None" "fst prev \<noteq> []" "\<not> list_ex (\<lambda>event. ev_actionID event \<noteq> act_id ?a) (fst prev)"
    unfolding recover_plays by (auto simp: Let_def split: if_splits)
  from assms tr au prev obtain st tr2 where tr1: "tr1 = DidAction CallerCtx (act_id ?a) st # tr2"
    and st: "snd (snd st) = None" "fst (snd st)" "sameAction (fst st) ?a"
    and ex: "plays (execute rt (Some (rv_executor u)) ?in (Some ?au)) tr2 w"
    unfolding recover_plays by (auto simp: Let_def split: if_splits)
  have "a = ?a \<and> att_id t = ri_AttemptID input \<and> att_recoveryOf t = ra_previousAttemptID ?au \<and> att_id t \<noteq> att_recoveryOf t
      \<and> told a (ri_AttemptID input) es [EventActionRequested, EventAttemptStarted, EventRecoveryAuthorized]"
    if "DidBegin c' a t es ans \<in> set tr2" for c' a t es ans
    using execute_claims_input [OF ex that] au(2) by (auto simp: attempt_ok_def initial_kinds_def)
  with au(1) tr tr1 prev st show ?thesis
    by (cases prev; cases st) (auto simp: list_ex_iff)
qed

definition example_authorization :: RecoveryAuthorization where
  "example_authorization = \<lparr>ra_actionID = ''a'', ra_previousAttemptID = ''t'', ra_authorizedBy = ''ha'',
     ra_authorizedAt = \<lparr>t_ns = 1, t_off = 0\<rparr>, ra_reason = ''lamp''\<rparr>"

definition recover_ports :: ports where
  "recover_ports = example_ports\<lparr>pt_events := (\<lambda>_. ([example_fact ''1'' EventAttemptStarted], None)),
     pt_action := (example_action, True, None)\<rparr>"

definition recover_input :: RecoverInput where
  "recover_input = \<lparr>ri_Action = example_action, ri_AttemptID = ''a'', ri_Authorization = example_authorization\<rparr>"

definition recover_example :: "call list \<times> ExecuteResult \<times> err option" where
  "recover_example = run recover_ports (Recover example_rt (Some \<lparr>rv_executor = example_use_case\<rparr>) recover_input)"

lemma recover_example_claims: "\<exists>c\<in>set (fst recover_example). executes c"
proof -
  let ?now = "UTC \<lparr>t_ns = 2, t_off = 0\<rparr>"
  let ?in = "\<lparr>xi_Action = example_action, xi_AttemptID = ''a''\<rparr>"
  let ?t = "\<lparr>att_id = ''a'', att_actionID = ''a'', att_startedAt = ?now, att_recoveryOf = ''t''\<rparr>"
  have now: "\<not> IsZero ?now" by (simp add: IsZero_def)
  have aid: "act_id example_action = ''a''" by (simp add: example_action_def)
  have t: "NewExecutionAttempt (attemptSpec ?in (Some example_authorization) ?now) = Inr ?t" and tok: "attempt_ok ?t"
    using now aid
    by (simp_all add: NewExecutionAttempt_Inr_iff attemptSpec_def attempt_ok_def example_authorization_def)
  obtain e1 where "actionRequestedEvent example_rt example_action ''a'' ?now = Inr e1"
    using actionRequestedEvent_succeeds [OF example_values(1) _ _ now, of "''a''" example_rt] example_time
    by (auto simp: example_action_def)
  moreover obtain e2 where "attemptStartedEvent example_rt example_action ?t ?now = Inr e2"
    using attemptStartedEvent_succeeds [OF tok, of example_action ?now example_rt] now example_time aid by auto
  moreover obtain e3 where "recoveryAuthorizedEvent example_rt example_action ?t example_authorization ?now = Inr e3"
    using recoveryAuthorizedEvent_succeeds [OF tok, of example_action example_authorization ?now example_rt]
      now example_time aid
    by (auto simp: authorization_ok_def example_authorization_def IsZero_def)
  ultimately have "initialFacts example_rt example_action ?t (Some example_authorization) ?now = Inr [e1, e2, e3]"
    by (simp add: initialFacts_def)
  then show ?thesis
    using t aid
    by (simp add: recover_example_def Recover_def recover_input_def recover_ports_def example_ports_def
        execute_def Let_def) (simp add: example_authorization_def)
qed

lemma recover_claims_after_evidence_witness:
  "\<exists>prev st tr'. fst recover_example = DidEvents CallerCtx ''t'' (prev, None) # DidAction CallerCtx ''a'' (st, True, None) # tr'
     \<and> prev \<noteq> [] \<and> sameAction st example_action"
proof -
  obtain c where c: "c \<in> set (fst recover_example)" "executes c" using recover_example_claims by blast
  have "plays (Recover example_rt (Some \<lparr>rv_executor = example_use_case\<rparr>) recover_input)
      (fst recover_example) (snd recover_example)"
    unfolding recover_example_def by (rule run_plays)
  from recover_claims_after_evidence [OF this c] show ?thesis
    unfolding recover_input_def by (auto simp: example_authorization_def example_action_def)
qed

end
