(* ===== verification/Query.thy ===== *)
theory Query
  imports Exec_Program Projection
begin

text \<open>
  \<open>execution/query.go\<close>: the read side. \<open>Get\<close> rebuilds the view of one attempt from its facts, \<open>Scan\<close>
  lists the claimed attempts that have started and show no terminal dispatch fact.
\<close>

record AttemptView =
  av_ActionID :: ActionID
  av_AttemptID :: AttemptID
  av_Outcome :: Outcome
  av_Verification :: VerificationStatus
  av_AdmissionConflicted :: bool
  av_DispatchConflicted :: bool
  av_EffectConflicted :: bool

definition zero_view :: AttemptView where
  "zero_view = \<lparr>av_ActionID = [], av_AttemptID = [], av_Outcome = zero_outcome, av_Verification = 0,
     av_AdmissionConflicted = False, av_DispatchConflicted = False, av_EffectConflicted = False\<rparr>"

text \<open>A use case is present or nil; its readers are the calls of the program.\<close>

definition NewGetAttempt :: "bool \<Rightarrow> err + unit" where
  "NewGetAttempt reader =
    (if \<not> reader then Inl (wrap_msg ErrInvalidInput ''attempt reader is required'') else Inr ())"

text \<open>What \<open>Get\<close> makes of the facts it read.\<close>

definition attempt_view :: "AttemptID \<Rightarrow> ExecutionEvent list \<Rightarrow> AttemptView \<times> err option" where
  "attempt_view attemptID events =
    (case events of
       [] \<Rightarrow> (zero_view, stageError StageValidate (Some (Sentinel ErrAttemptNotFound)))
     | first # _ \<Rightarrow>
       (let actionID = ev_actionID first in
        case NewAttempt actionID attemptID of
          Inl err \<Rightarrow> (zero_view, stageError StageValidate (Some err))
        | Inr view0 \<Rightarrow>
          (case apply_events view0 events of
             Inl err \<Rightarrow> (zero_view, stageError StageRecord (Some err))
           | Inr view \<Rightarrow>
             (\<lparr>av_ActionID = actionID, av_AttemptID = attemptID, av_Outcome = attempt_Outcome view,
               av_Verification = pj_verification view, av_AdmissionConflicted = pj_admissionConflicted view,
               av_DispatchConflicted = pj_dispatchConflicted view,
               av_EffectConflicted = pj_effectConflicted view\<rparr>, None))))"

definition GetAttempt_Get :: "bool \<Rightarrow> AttemptID \<Rightarrow> (AttemptView \<times> err option) prog" where
  "GetAttempt_Get present attemptID =
    (if \<not> present \<or> attemptID = ''''
     then Done (zero_view, stageError StageValidate (Some (Sentinel ErrInvalidInput)))
     else EventsByAttempt CallerCtx attemptID (\<lambda>(events, err).
       if err \<noteq> None then Done (zero_view, stageError StageRecord err)
       else Done (attempt_view attemptID events)))"

record IncompleteAttempt =
  ia_ActionID :: ActionID
  ia_AttemptID :: AttemptID

definition NewScanIncompleteAttempts :: "bool \<Rightarrow> bool \<Rightarrow> err + unit" where
  "NewScanIncompleteAttempts lister reader =
    (if \<not> lister \<or> \<not> reader then Inl (wrap_msg ErrInvalidInput ''attempt lister and reader are required'')
     else Inr ())"

fun incomplete_loop :: "ExecutionEvent list \<Rightarrow> ActionID \<times> bool \<times> bool \<Rightarrow> ActionID \<times> bool \<times> bool" where
  "incomplete_loop [] st = st"
| "incomplete_loop (event # events) (actionID, started, finished) =
    incomplete_loop events
      (ev_actionID event,
       started \<or> ev_kind event = EventAttemptStarted,
       finished \<or> ev_kind event = EventActionRejected \<or> ev_kind event = EventNotDispatched
         \<or> ev_kind event = EventDispatchUnknown \<or> ev_kind event = EventActionDispatched
         \<or> ev_kind event = EventProviderAcknowledged)"

definition incomplete :: "ExecutionEvent list \<Rightarrow> ActionID \<times> bool" where
  "incomplete events =
    (case incomplete_loop events ('''', False, False) of
       (actionID, started, finished) \<Rightarrow> (actionID, started \<and> \<not> finished))"

fun scan_loop ::
    "AttemptID list \<Rightarrow> IncompleteAttempt list \<Rightarrow> (IncompleteAttempt list \<times> err option) prog" where
  "scan_loop [] result = Done (result, None)"
| "scan_loop (i # ids) result =
    EventsByAttempt CallerCtx i (\<lambda>(events, readErr).
      if readErr \<noteq> None then Done ([], stageError StageRecord readErr)
      else let (actionID, inc) = incomplete events
           in scan_loop ids (if inc then result @ [\<lparr>ia_ActionID = actionID, ia_AttemptID = i\<rparr>] else result))"

definition ScanIncompleteAttempts_Scan :: "bool \<Rightarrow> (IncompleteAttempt list \<times> err option) prog" where
  "ScanIncompleteAttempts_Scan present =
    (if \<not> present then Done ([], stageError StageValidate (Some (Sentinel ErrInvalidInput)))
     else AttemptIDs CallerCtx (\<lambda>(ids, err).
       if err \<noteq> None then Done ([], stageError StageRecord err) else scan_loop ids []))"

end
