(* ===== verification/Exec_System.thy ===== *)
theory Exec_System
  imports Memory_Log Sqlite_Log Execute_Theorems Verify_Attempt Recover_Attempt Query
begin

text \<open>
  The server runs use cases concurrently over one journal. A system is a list of programs and the
  state of the journal; a step starts a program or performs the next call of one of them. The
  journal's operations are atomic and change its state, every other answer is arbitrary, reads of
  the journal included, so the steps are a superset of those of any deployment.
\<close>

definition erase :: "'a prog \<Rightarrow> unit prog" where
  "erase p = map_prog (\<lambda>_. ()) p"

datatype label = Started | Did nat call

fun journal_call :: "call \<Rightarrow> bool" where
  "journal_call (DidBegin c a t es r) = True"
| "journal_call (DidAppend c es r) = True"
| "journal_call _ = False"

inductive sys_step ::
    "('c, 's) begin_attempt_op \<Rightarrow> ('c, 's) append_all_op \<Rightarrow> (unit prog \<Rightarrow> bool)
     \<Rightarrow> unit prog list \<times> 's \<Rightarrow> label \<Rightarrow> unit prog list \<times> 's \<Rightarrow> bool"
  for b :: "('c, 's) begin_attempt_op" and ap :: "('c, 's) append_all_op" and start :: "unit prog \<Rightarrow> bool"
where
  start: "start p \<Longrightarrow> sys_step b ap start (ps, s) Started (ps @ [p], s)"
| begin_attempt: "i < length ps \<Longrightarrow> ps ! i = BeginAttempt c a t es k \<Longrightarrow> b x a t es s = (r, s') \<Longrightarrow>
    sys_step b ap start (ps, s) (Did i (DidBegin c a t es r)) (ps[i := k r], s')"
| append_all: "i < length ps \<Longrightarrow> ps ! i = AppendAll c es k \<Longrightarrow> ap x es s = (e, s') \<Longrightarrow>
    sys_step b ap start (ps, s) (Did i (DidAppend c es e)) (ps[i := k e], s')"
| other: "i < length ps \<Longrightarrow> advance (ps ! i) d = Some q \<Longrightarrow> \<not> journal_call d \<Longrightarrow>
    sys_step b ap start (ps, s) (Did i d) (ps[i := q], s)"

text \<open>Executions from no programs and the journal \<open>s0\<close>, with their labels in order.\<close>

inductive sys_run ::
    "('c, 's) begin_attempt_op \<Rightarrow> ('c, 's) append_all_op \<Rightarrow> (unit prog \<Rightarrow> bool) \<Rightarrow> 's
     \<Rightarrow> label list \<Rightarrow> unit prog list \<times> 's \<Rightarrow> bool"
  for b :: "('c, 's) begin_attempt_op" and ap :: "('c, 's) append_all_op" and start :: "unit prog \<Rightarrow> bool" and s0 :: 's
where
  init: "sys_run b ap start s0 [] ([], s0)"
| step: "sys_run b ap start s0 ls st \<Longrightarrow> sys_step b ap start st l st' \<Longrightarrow> sys_run b ap start s0 (ls @ [l]) st'"

fun label_calls :: "label \<Rightarrow> call list" where
  "label_calls Started = []"
| "label_calls (Did i d) = [d]"

definition calls_of :: "label list \<Rightarrow> call list" where
  "calls_of ls = concat (map label_calls ls)"

lemma calls_of_simps [simp]: "calls_of [] = []" "calls_of (ls @ [l]) = calls_of ls @ label_calls l"
  by (simp_all add: calls_of_def)

subsection \<open>Programs that dispatch what they have claimed\<close>

text \<open>
  \<open>guarded p own\<close>: with the claims \<open>own\<close> in hand, \<open>p\<close> dispatches only attempts it holds the claim of,
  and gives the claim up when it does; a granted claim adds to them.
\<close>

primrec guarded :: "'a prog \<Rightarrow> AttemptID set \<Rightarrow> bool" where
  "guarded (Done v) own = True"
| "guarded (Now k) own = (\<forall>r. guarded (k r) own)"
| "guarded (BeginAttempt c a t es k) own =
     (\<forall>r. guarded (k r) (if fst r then insert (att_id t) own else own))"
| "guarded (AppendAll c es k) own = (\<forall>r. guarded (k r) own)"
| "guarded (EventsByAttempt c i k) own = (\<forall>r. guarded (k r) own)"
| "guarded (ActionByID c i k) own = (\<forall>r. guarded (k r) own)"
| "guarded (AttemptIDs c k) own = (\<forall>r. guarded (k r) own)"
| "guarded (Admit c a k) own = (\<forall>r. guarded (k r) own)"
| "guarded (Resolve c a k) own = (\<forall>r. guarded (k r) own)"
| "guarded (Dispatch c t a g k) own = (att_id t \<in> own \<and> (\<forall>r. guarded (k r) (own - {att_id t})))"
| "guarded (Observe c a g k) own = (\<forall>r. guarded (k r) own)"
| "guarded (Verify c a os u k) own = (\<forall>r. guarded (k r) own)"

lemma guarded_erase [simp]: "guarded (erase p) own = guarded p own"
  unfolding erase_def by (induction p arbitrary: own) auto

text \<open>A call that is neither a claim nor a dispatch keeps the claims in hand.\<close>

lemma guarded_other:
  assumes "guarded p own" and "advance p d = Some q" and "\<not> journal_call d"
  shows "guarded q (own - set (dispatched_by d)) \<and> set (dispatched_by d) \<subseteq> own"
  using assms by (cases p) (auto simp: advance_iff)

lemma guarded_no_dispatch:
  "only (\<lambda>c. \<not> executes c) p \<Longrightarrow> guarded p own"
  by (induction p arbitrary: own) auto

lemma guarded_branch:
  "guarded (if c then p else q) own \<longleftrightarrow> (if c then guarded p own else guarded q own)"
  "guarded (case z of Inl x \<Rightarrow> f x | Inr y \<Rightarrow> g y) own \<longleftrightarrow>
     (case z of Inl x \<Rightarrow> guarded (f x) own | Inr y \<Rightarrow> guarded (g y) own)"
  by (simp_all split: sum.split)

lemma guarded_append_built:
  "(\<And>x. guarded (k x) own) \<Longrightarrow> guarded (append_built u built k) own"
  by (simp add: append_built_def appendAfterIO_def split: sum.split)

lemma guarded_execute: "guarded (execute rt use_case input auth) own"
proof -
  have dispatch: "guarded (execute_dispatch rt u a t g res) (insert (att_id t) own)" for u a t g res own
    by (simp add: execute_dispatch_def Let_def split_beta guarded_append_built)
  have blocked: "guarded (execute_blocked rt u a t st cause res) own" for u a t st cause res own
    by (simp add: execute_blocked_def guarded_append_built)
  have decide: "guarded (execute_decide rt u a t er res) (insert (att_id t) own)" for u a t er res own
    by (simp add: execute_decide_def execute_resolve_def Let_def split_beta guarded_branch blocked dispatch)
  have admit: "guarded (execute_admit rt u a t res) (insert (att_id t) own)" for u a t res own
    by (simp add: execute_admit_def Let_def split_beta appendAfterIO_def guarded_branch decide split: sum.split)
  show ?thesis
    by (cases use_case)
      (simp_all add: execute_def Let_def split_beta guarded_branch admit split: sum.split)
qed

lemma guarded_recover: "guarded (Recover rt use_case input) own"
  by (cases use_case)
    (simp_all add: Recover_def recover_failed_def Let_def split_beta guarded_branch guarded_execute)

lemma verify_never_executes: "only (\<lambda>c. \<not> executes c) (VerifyAttempt_Verify rt use_case input)"
  by (cases use_case)
    (simp_all add: VerifyAttempt_Verify_def verify_assess_def verify_record_def Let_def split_beta only_branch)

lemma queries_never_execute:
  "only (\<lambda>c. \<not> executes c) (GetAttempt_Get present i)" "only (\<lambda>c. \<not> executes c) (ScanIncompleteAttempts_Scan present)"
proof -
  have "only (\<lambda>c. \<not> executes c) (scan_loop ids acc)" for ids acc
    by (induction ids arbitrary: acc) (simp_all add: split_beta)
  then show "only (\<lambda>c. \<not> executes c) (GetAttempt_Get present i)"
    "only (\<lambda>c. \<not> executes c) (ScanIncompleteAttempts_Scan present)"
    by (simp_all add: GetAttempt_Get_def ScanIncompleteAttempts_Scan_def split_beta)
qed

text \<open>The programs the server starts: any use case with any input.\<close>

inductive use_case_program :: "unit prog \<Rightarrow> bool" where
  "use_case_program (erase (Execute rt u input))"
| "use_case_program (erase (Recover rt r rinput))"
| "use_case_program (erase (VerifyAttempt_Verify rt v vinput))"
| "use_case_program (erase (GetAttempt_Get present i))"
| "use_case_program (erase (ScanIncompleteAttempts_Scan present))"

lemma use_cases_guarded: "use_case_program p \<Longrightarrow> guarded p {}"
  by (induction rule: use_case_program.induct)
    (simp_all add: Execute_def guarded_execute guarded_recover guarded_no_dispatch verify_never_executes
      queries_never_execute)

subsection \<open>One dispatch per attempt\<close>

text \<open>
  The claims in hand of the running programs: pairwise disjoint, claimed in the journal, and not yet
  dispatched.
\<close>

definition hands_ok ::
    "unit prog list \<Rightarrow> AttemptID set list \<Rightarrow> AttemptID list \<Rightarrow> AttemptID list \<Rightarrow> bool" where
  "hands_ok ps owns given sent \<longleftrightarrow>
     length owns = length ps \<and> (\<forall>i<length ps. guarded (ps ! i) (owns ! i))
     \<and> (\<forall>i<length ps. \<forall>j<length ps. i \<noteq> j \<longrightarrow> owns ! i \<inter> owns ! j = {})
     \<and> (\<forall>i<length ps. owns ! i \<subseteq> set given \<and> owns ! i \<inter> set sent = {})
     \<and> set sent \<subseteq> set given \<and> distinct sent"

lemma hands_start:
  "hands_ok ps owns given sent \<Longrightarrow> guarded p {} \<Longrightarrow> hands_ok (ps @ [p]) (owns @ [{}]) given sent"
  by (auto simp: hands_ok_def nth_append less_Suc_eq)

lemma hands_keep:
  assumes "hands_ok ps owns given sent" and "i < length ps" and "guarded q (owns ! i)"
  shows "hands_ok (ps[i := q]) owns given sent"
  using assms by (auto simp: hands_ok_def nth_list_update)

lemma hands_claim:
  assumes "hands_ok ps owns given sent" and "i < length ps" and "guarded q (insert t (owns ! i))" and "t \<notin> set given"
  shows "hands_ok (ps[i := q]) (owns[i := insert t (owns ! i)]) (given @ [t]) sent"
  using assms by (auto simp: hands_ok_def nth_list_update)

lemma hands_dispatch:
  assumes "hands_ok ps owns given sent" and "i < length ps" and "guarded q (owns ! i - {t})" and "t \<in> owns ! i"
  shows "hands_ok (ps[i := q]) (owns[i := owns ! i - {t}]) given (sent @ [t])"
  using assms by (auto simp: hands_ok_def nth_list_update)

context claim_register
begin

lemma run_hands:
  assumes "sys_run beginAttempt appendAll start s0 ls st" and "inv s0"
    and "\<And>p. start p \<Longrightarrow> guarded p {}"
  shows "inv (snd st) \<and> (\<exists>given. claims (snd st) = claims s0 @ given
    \<and> (\<exists>owns. hands_ok (fst st) owns given (dispatched (calls_of ls))))"
  using assms(1)
proof (induction rule: sys_run.induct)
  case init
  show ?case using assms(2) by (intro conjI exI [of _ "[]"]) (simp_all add: hands_ok_def)
next
  case (step ls st l st')
  from step.IH obtain given owns where inv: "inv (snd st)" and given: "claims (snd st) = claims s0 @ given"
    and ok: "hands_ok (fst st) owns given (dispatched (calls_of ls))"
    by blast
  have g: "guarded (fst st ! i) (owns ! i)" if "i < length (fst st)" for i using ok that by (simp add: hands_ok_def)
  from step.hyps(2) show ?case
  proof (cases rule: sys_step.cases)
    case (start p ps s)
    with inv given hands_start [OF ok assms(3) [OF start(4)]] show ?thesis by auto
  next
    case 2: (begin_attempt i ps c a t es k x s r s')
    note ok = ok [unfolded 2(1) fst_conv] and g = g [unfolded 2(1) fst_conv]
      and inv = inv [unfolded 2(1) snd_conv] and given = given [unfolded 2(1) snd_conv]
    show ?thesis
    proof (cases "fst r")
      case True
      then obtain er where "beginAttempt x a t es s = ((True, er), s')" using 2 by (metis prod.collapse)
      note won = claim_won [OF inv this]
      have "hands_ok (ps[i := k r]) (owns[i := insert (att_id t) (owns ! i)]) (given @ [att_id t]) (dispatched (calls_of ls))"
      proof (rule hands_claim [OF ok])
        have "guarded (BeginAttempt c a t es k) (owns ! i)" using g [of i] 2 by simp
        from this [unfolded guarded.simps, THEN spec, of r] True
        show "guarded (k r) (insert (att_id t) (owns ! i))" by simp
      qed (use 2 won given in auto)
      with 2 won given show ?thesis by auto
    next
      case False
      then obtain er where "beginAttempt x a t es s = ((False, er), s')" using 2 by (metis prod.collapse)
      note lost = claim_lost [OF this]
      have "hands_ok (ps[i := k r]) owns given (dispatched (calls_of ls))"
      proof (rule hands_keep [OF ok])
        have "guarded (BeginAttempt c a t es k) (owns ! i)" using g [of i] 2 by simp
        from this [unfolded guarded.simps, THEN spec, of r] False show "guarded (k r) (owns ! i)" by simp
      qed (use 2 in auto)
      with 2 lost inv given show ?thesis by auto
    qed
  next
    case 3: (append_all i ps c es k x s e s')
    note ok = ok [unfolded 3(1) fst_conv] and g = g [unfolded 3(1) fst_conv]
      and inv = inv [unfolded 3(1) snd_conv] and given = given [unfolded 3(1) snd_conv]
    have "hands_ok (ps[i := k e]) owns given (dispatched (calls_of ls))"
      by (rule hands_keep [OF ok]) (use 3 g [of i] in auto)
    with 3 append_inv [OF inv] given show ?thesis by auto
  next
    case 4: (other i ps d q s)
    note ok = ok [unfolded 4(1) fst_conv] and g = g [unfolded 4(1) fst_conv]
      and inv = inv [unfolded 4(1) snd_conv] and given = given [unfolded 4(1) snd_conv]
    note keep = guarded_other [OF g [of i], of d q]
    show ?thesis
    proof (cases "dispatched_by d")
      case Nil
      with hands_keep [OF ok] keep 4 inv given show ?thesis by auto
    next
      case (Cons t ts)
      then have d: "dispatched_by d = [t]" by (cases d) simp_all
      have "hands_ok (ps[i := q]) (owns[i := owns ! i - {t}]) given (dispatched (calls_of ls) @ [t])"
        by (rule hands_dispatch [OF ok]) (use keep 4 d in auto)
      with 4 d inv given show ?thesis by auto
    qed
  qed
qed

text \<open>
  In every interleaving each attempt is dispatched at most once, and only if it was claimed during
  the run: never an attempt the journal already held.
\<close>

lemma dispatch_once:
  assumes "sys_run beginAttempt appendAll use_case_program s0 ls st" and "inv s0"
  shows "distinct (dispatched (calls_of ls)) \<and> set (dispatched (calls_of ls)) \<subseteq> set (claims (snd st))
    \<and> set (dispatched (calls_of ls)) \<inter> set (claims s0) = {}"
proof -
  from run_hands [OF assms use_cases_guarded] obtain given owns where inv: "inv (snd st)"
    and given: "claims (snd st) = claims s0 @ given" and ok: "hands_ok (fst st) owns given (dispatched (calls_of ls))"
    by blast
  have "distinct (claims s0 @ given)" using inv_distinct [OF inv] given by simp
  with ok given show ?thesis by (auto simp: hands_ok_def)
qed

end

end
