(* ===== verification/Exec_Journal.thy ===== *)
theory Exec_Journal
  imports Exec_System Execute_Properties Query
begin

text \<open>
  A use case over a real journal: \<open>follows s tr s'\<close> holds when the claims and appends of the trace
  \<open>tr\<close> got the answers of the journal's operations, which took it from \<open>s\<close> to \<open>s'\<close>; every other
  answer is free. Inside the locale \<open>journal\<close>: what the journal shows afterwards, the view \<open>Get\<close>
  rebuilds from it, and the run of the system that such a play is.
\<close>

inductive follows :: "('c, 's) begin_attempt_op \<Rightarrow> ('c, 's) append_all_op \<Rightarrow> 's \<Rightarrow> call list \<Rightarrow> 's \<Rightarrow> bool"
  for b :: "('c, 's) begin_attempt_op" and ap :: "('c, 's) append_all_op"
where
  stop: "follows b ap s [] s"
| begin_attempt: "b x a t es s = (r, s1) \<Longrightarrow> follows b ap s1 tr s' \<Longrightarrow> follows b ap s (DidBegin c a t es r # tr) s'"
| append_all: "ap x es s = (e, s1) \<Longrightarrow> follows b ap s1 tr s' \<Longrightarrow> follows b ap s (DidAppend c es e # tr) s'"
| other: "\<not> journal_call d \<Longrightarrow> follows b ap s tr s' \<Longrightarrow> follows b ap s (d # tr) s'"

text \<open>Replays of facts of the same kinds show the same outcome and the same conflicts.\<close>

lemma replay_same_kinds:
  assumes "NewAttempt i t = Inr p0" and "apply_events p0 es = Inr p" and "apply_events p0 es' = Inr p'"
    and "set (map ev_kind es) = set (map ev_kind es')"
  shows "attempt_Outcome p = attempt_Outcome p' \<and> Conflicted p = Conflicted p'"
proof -
  have "claimed_by claims es = claimed_by claims es'" for claims
    using assms(4) by (simp only: claimed_by_kinds)
  then show ?thesis
    using view_facts [OF assms(1,2)] view_facts [OF assms(1,3)] by (simp add: Conflicted_def)
qed

lemma same_fact_kinds:
  "\<forall>n\<in>set xs. \<exists>y\<in>set ys. same_fact n y \<Longrightarrow> set (map ev_kind xs) \<subseteq> set (map ev_kind ys)"
proof
  fix k assume all: "\<forall>n\<in>set xs. \<exists>y\<in>set ys. same_fact n y" and "k \<in> set (map ev_kind xs)"
  then obtain n y where "k = ev_kind n" "y \<in> set ys" "same_fact n y" by auto
  then show "k \<in> set (map ev_kind ys)" by (simp add: same_fact_def)
qed

lemma kinds_verdict_unknown:
  "kinds_verdict ks = VerificationUnknown \<longleftrightarrow>
     set ks \<inter> {EventVerificationVerified, EventVerificationUnsatisfied, EventVerificationInconclusive} = {}"
proof (cases "filter conclusive_kind (rev ks)")
  case Nil
  then have "\<forall>k\<in>set ks. \<not> conclusive_kind k" by (simp add: filter_empty_conv)
  with Nil show ?thesis by (auto simp: kinds_verdict_def conclusive_kind_def status_defs)
next
  case (Cons k rest)
  then have "k \<in> set (filter conclusive_kind (rev ks))" by simp
  then have "k \<in> set ks" "conclusive_kind k" by auto
  with Cons show ?thesis by (auto simp: kinds_verdict_def conclusive_kind_def status_defs)
qed

lemma plays_erase: "plays p tr v \<Longrightarrow> plays (erase p) tr ()"
proof (induction rule: plays.induct)
  case (return v)
  then show ?case by (simp add: erase_def)
next
  case (call p c q tr v)
  have "advance (erase p) c = Some (erase q)"
    using call.hyps(1) unfolding erase_def by (cases p) (auto simp: advance_iff)
  then show ?case using call.IH by (rule plays.call)
qed

text \<open>A play is a run of the system with one program, started with it.\<close>

lemma play_sys_run:
  assumes "follows b ap s tr s'" and "plays p tr v" and "sys_run b ap st s0 ls (ps @ [p], s)"
  shows "\<exists>ls'. sys_run b ap st s0 (ls @ ls') (ps @ [Done v], s') \<and> calls_of ls' = tr"
  using assms
proof (induction arbitrary: p ls rule: follows.induct)
  case (stop s)
  then show ?case by (intro exI [of _ "[]"]) simp
next
  case (begin_attempt x a t es s r s1 tr s' c)
  from begin_attempt.prems(1) obtain q where q: "advance p (DidBegin c a t es r) = Some q" "plays q tr v"
    by (auto simp: plays_Cons)
  then obtain k where k: "p = BeginAttempt c a t es k" "q = k r"
    by (cases p) (auto simp: advance_def split: if_splits)
  have "sys_step b ap st (ps @ [p], s) (Did (length ps) (DidBegin c a t es r)) ((ps @ [p])[length ps := k r], s1)"
    by (rule sys_step.begin_attempt) (use k begin_attempt.hyps in auto)
  then have "sys_run b ap st s0 (ls @ [Did (length ps) (DidBegin c a t es r)]) (ps @ [q], s1)"
    using sys_run.step [OF begin_attempt.prems(2)] k by simp
  from begin_attempt.IH [OF q(2) this] show ?case by (auto simp: calls_of_def)
next
  case (append_all x es s e s1 tr s' c)
  from append_all.prems(1) obtain q where q: "advance p (DidAppend c es e) = Some q" "plays q tr v"
    by (auto simp: plays_Cons)
  then obtain k where k: "p = AppendAll c es k" "q = k e"
    by (cases p) (auto simp: advance_def split: if_splits)
  have "sys_step b ap st (ps @ [p], s) (Did (length ps) (DidAppend c es e)) ((ps @ [p])[length ps := k e], s1)"
    by (rule sys_step.append_all) (use k append_all.hyps in auto)
  then have "sys_run b ap st s0 (ls @ [Did (length ps) (DidAppend c es e)]) (ps @ [q], s1)"
    using sys_run.step [OF append_all.prems(2)] k by simp
  from append_all.IH [OF q(2) this] show ?case by (auto simp: calls_of_def)
next
  case (other d s tr s')
  from other.prems(1) obtain q where q: "advance p d = Some q" "plays q tr v" by (auto simp: plays_Cons)
  have "sys_step b ap st (ps @ [p], s) (Did (length ps) d) ((ps @ [p])[length ps := q], s)"
    by (rule sys_step.other) (use q other.hyps in auto)
  then have "sys_run b ap st s0 (ls @ [Did (length ps) d]) (ps @ [q], s)"
    using sys_run.step [OF other.prems(2)] by simp
  from other.IH [OF q(2) this] show ?case by (auto simp: calls_of_def)
qed

context journal
begin

abbreviation jfollows :: "'s \<Rightarrow> call list \<Rightarrow> 's \<Rightarrow> bool" where
  "jfollows \<equiv> follows beginAttempt appendAll"

text \<open>The journal afterwards shows what it showed before and the facts it accepted, nothing else.\<close>

lemma extends_trans:
  assumes "extends f es f'" and "extends f' es' f''"
  shows "extends f (es @ es') f''"
proof -
  obtain n where n: "f' = f @ n" "\<forall>x\<in>set n. \<exists>y\<in>set es. same_fact x y" using assms(1) by (auto simp: extends_def)
  obtain m where m: "f'' = f' @ m" "\<forall>x\<in>set m. \<exists>y\<in>set es'. same_fact x y" using assms(2) by (auto simp: extends_def)
  have "f'' = f @ (n @ m)" "\<forall>x\<in>set (n @ m). \<exists>y\<in>set (es @ es'). same_fact x y" using n m by auto
  moreover have "\<forall>x\<in>set (es @ es'). \<exists>k\<in>set f''. same_fact k x"
    using assms m(1) by (auto simp: extends_def)
  ultimately show ?thesis unfolding extends_def by blast
qed

lemma extends_nothing: "extends f [] f"
  by (simp add: extends_def)

lemma follows_facts:
  "jfollows s tr s' \<Longrightarrow> inv s \<Longrightarrow> list_all storable (recorded tr) \<Longrightarrow>
     inv s' \<and> extends (facts s) (recorded tr) (facts s')"
proof (induction rule: follows.induct)
  case (stop s)
  then show ?case by (simp add: extends_nothing)
next
  case (begin_attempt x a t es s r s1 tr s' c)
  obtain won er where r: "r = (won, er)" by (metis surj_pair)
  have "inv s1 \<and> extends (facts s) (recorded_by (DidBegin c a t es r)) (facts s1)"
  proof (cases won)
    case True
    with begin_attempt r show ?thesis
      using claim_won [of s x a t es er s1] begin_facts [of s es x a t er s1] by simp
  next
    case False
    with begin_attempt r show ?thesis using claim_lost [of x a t es s er s1] by (simp add: extends_nothing)
  qed
  with begin_attempt extends_trans show ?case by fastforce
next
  case (append_all x es s e s1 tr s' c)
  have "inv s1 \<and> extends (facts s) (recorded_by (DidAppend c es e)) (facts s1)"
  proof (cases e)
    case None
    with append_all show ?thesis using append_inv [of s x es e s1] append_facts [of s es x s1] by simp
  next
    case (Some cause)
    with append_all show ?thesis using append_failed [of x es s cause s1] by (simp add: extends_nothing)
  qed
  with append_all extends_trans show ?case by fastforce
next
  case (other d s tr s')
  then have "recorded_by d = []" by (cases d) simp_all
  with other show ?case by simp
qed

text \<open>
  After a run without an error of the stages validate and record, the view of the attempt rebuilt
  from the journal is the outcome the run returned.
\<close>

lemma execute_view:
  assumes "inv s" and "\<forall>n\<in>set (facts s). ev_attemptID n \<noteq> xi_AttemptID input"
    and "plays (execute rt (Some u) input auth) tr (r, e)" and "\<not> has_stage StageRecord e"
    and "\<not> has_stage StageValidate e" and "dispatch_answers_ok tr"
    and "jfollows s tr s'" and "list_all storable (recorded tr)"
  shows "attempt_view (xi_AttemptID input) (filter (\<lambda>n. ev_attemptID n = xi_AttemptID input) (facts s'))
    = (\<lparr>av_ActionID = act_id (xi_Action input), av_AttemptID = xi_AttemptID input, av_Outcome = er_Outcome r,
        av_Verification = VerificationUnknown, av_AdmissionConflicted = False, av_DispatchConflicted = False,
        av_EffectConflicted = False\<rparr>, None)"
proof -
  let ?i = "xi_AttemptID input" and ?a = "act_id (xi_Action input)"
  let ?mine = "filter (\<lambda>n. ev_attemptID n = ?i) (facts s')"
  have ext: "extends (facts s) (recorded tr) (facts s')" using follows_facts [OF assms(7,1,8)] by simp
  obtain p0 p where p0: "NewAttempt ?a ?i = Inr p0" and p: "apply_events p0 (recorded tr) = Inr p"
    and view: "attempt_Outcome p = er_Outcome r" "\<not> Conflicted p" "pj_verification p = VerificationUnknown"
    using execute_facts_replay [OF assms(3-6)] by blast
  have own: "list_all (fact_of (xi_Action input) ?i) (recorded tr)" and ne: "recorded tr \<noteq> []"
    using execute_facts_own [OF assms(3-6)] by simp_all
  have mine: "\<exists>x\<in>set (recorded tr). same_fact n x" if "n \<in> set ?mine" for n
    using extends_source [OF ext, of n] that assms(2) by auto
  have theirs: "\<exists>n\<in>set ?mine. same_fact x n" if x: "x \<in> set (recorded tr)" for x
  proof -
    obtain n where n: "n \<in> set (facts s')" "same_fact n x" using extends_recorded [OF ext x] by blast
    moreover have "ev_attemptID x = ?i" using own x by (simp add: list_all_iff fact_of_def)
    ultimately have "n \<in> set ?mine" by (simp add: same_fact_def)
    with n(2) same_fact_sym show ?thesis by blast
  qed
  have kinds: "set (map ev_kind ?mine) = set (map ev_kind (recorded tr))"
  proof (rule equalityI)
    show "set (map ev_kind ?mine) \<subseteq> set (map ev_kind (recorded tr))"
      by (rule same_fact_kinds) (intro ballI mine)
    show "set (map ev_kind (recorded tr)) \<subseteq> set (map ev_kind ?mine)"
      by (rule same_fact_kinds) (intro ballI theirs)
  qed
  have mine_own: "ev_actionID n = ?a" "ev_attemptID n = ?i" if "n \<in> set ?mine" for n
    using mine [OF that] own that by (auto simp: list_all_iff fact_of_def same_fact_def)
  have "related p0 n" if n: "n \<in> set ?mine" for n
    using mine_own [OF n] NewAttempt_Inr(5,6) [OF p0] by (simp add: related_def)
  then have "list_all (related p0) ?mine" unfolding list_all_iff by (rule ballI)
  then obtain q where q: "apply_events p0 ?mine = Inr q" by (simp add: apply_events_Inr_iff)
  have "kinds_verdict (map ev_kind (recorded tr)) = VerificationUnknown" using view(3) view_facts(5) [OF p0 p] by simp
  then have "kinds_verdict (map ev_kind ?mine) = VerificationUnknown" unfolding kinds_verdict_unknown kinds .
  then have verdict: "pj_verification q = VerificationUnknown" using view_facts(5) [OF p0 q] by simp
  have out: "attempt_Outcome q = er_Outcome r" and calm: "\<not> Conflicted q"
    using replay_same_kinds [OF p0 q p kinds] view by simp_all
  obtain x where "x \<in> set (recorded tr)" using ne by (cases "recorded tr") auto
  then have "?mine \<noteq> []" using theirs by fastforce
  then obtain first rest where cons: "?mine = first # rest" by (cases ?mine) auto
  then have "ev_actionID first = ?a" using mine_own(1) [of first] by simp
  then show ?thesis
    using p0 q out calm verdict unfolding cons
    by (simp add: attempt_view_def Let_def Conflicted_def del: apply_events.simps)
qed

end

end
