(* ===== verification/Memory_World.thy ===== *)
theory Memory_World
  imports Exec_Journal
begin

text \<open>
  Use cases over the memory log: \<open>run_on\<close> answers the journal's calls from a log and the others from
  fixed ports, as a deployment of the package with \<open>eventlog/memory\<close> does. An execution that the
  ports let through is accepted by every log that does not know the attempt, provided the digest
  keeps the identities of its facts apart.
\<close>

primrec run_on :: "ports \<Rightarrow> 'a prog \<Rightarrow> Log \<Rightarrow> (call list \<times> 'a) \<times> Log" where
  "run_on w (Done v) l = (([], v), l)"
| "run_on w (Now k) l = apfst (apfst (Cons (DidNow (pt_now w)))) (run_on w (k (pt_now w)) l)"
| "run_on w (BeginAttempt c a t es k) l =
    (let r = fst (memory_BeginAttempt None a t es l); l1 = snd (memory_BeginAttempt None a t es l)
     in apfst (apfst (Cons (DidBegin c a t es r))) (run_on w (k r) l1))"
| "run_on w (AppendAll c es k) l =
    (let e = fst (memory_AppendAll None es l); l1 = snd (memory_AppendAll None es l)
     in apfst (apfst (Cons (DidAppend c es e))) (run_on w (k e) l1))"
| "run_on w (EventsByAttempt c i k) l =
    apfst (apfst (Cons (DidEvents c i (memory_EventsByAttempt None i l)))) (run_on w (k (memory_EventsByAttempt None i l)) l)"
| "run_on w (ActionByID c i k) l =
    apfst (apfst (Cons (DidAction c i (memory_ActionByID None i l)))) (run_on w (k (memory_ActionByID None i l)) l)"
| "run_on w (AttemptIDs c k) l =
    apfst (apfst (Cons (DidAttempts c (memory_AttemptIDs None l)))) (run_on w (k (memory_AttemptIDs None l)) l)"
| "run_on w (Admit c a k) l = apfst (apfst (Cons (DidAdmit c a (pt_admit w)))) (run_on w (k (pt_admit w)) l)"
| "run_on w (Resolve c a k) l = apfst (apfst (Cons (DidResolve c a (pt_resolve w)))) (run_on w (k (pt_resolve w)) l)"
| "run_on w (Dispatch c t a g k) l =
    apfst (apfst (Cons (DidDispatch c t a g (pt_dispatch w)))) (run_on w (k (pt_dispatch w)) l)"
| "run_on w (Observe c a g k) l = apfst (apfst (Cons (DidObserve c a g (pt_observe w)))) (run_on w (k (pt_observe w)) l)"
| "run_on w (Verify c a os u k) l =
    apfst (apfst (Cons (DidVerify c a os u (pt_verify w)))) (run_on w (k (pt_verify w)) l)"

lemma run_on_follows:
  "plays p (fst (fst (run_on w p l))) (snd (fst (run_on w p l)))
   \<and> follows memory_BeginAttempt memory_AppendAll l (fst (fst (run_on w p l))) (snd (run_on w p l))"
proof (induction p arbitrary: l)
  case (BeginAttempt c a t es k)
  let ?r = "fst (memory_BeginAttempt None a t es l)" and ?l = "snd (memory_BeginAttempt None a t es l)"
  have "memory_BeginAttempt None a t es l = (?r, ?l)" by simp
  from follows.begin_attempt [where b = memory_BeginAttempt, OF this] BeginAttempt.IH [OF rangeI, of ?r ?l] show ?case by (simp add: plays_calls Let_def)
next
  case (AppendAll c es k)
  let ?e = "fst (memory_AppendAll None es l)" and ?l = "snd (memory_AppendAll None es l)"
  have "memory_AppendAll None es l = (?e, ?l)" by simp
  from follows.append_all [where ap = memory_AppendAll, OF this] AppendAll.IH [OF rangeI, of ?e ?l] show ?case by (simp add: plays_calls Let_def)
qed (simp_all add: plays_calls follows.intros)

text \<open>A trace whose claims and appends succeed on the log, and which reads nothing.\<close>

fun accepts :: "Log \<Rightarrow> call list \<Rightarrow> bool" where
  "accepts l [] = True"
| "accepts l (DidBegin c a t es r # tr) =
    (memory_BeginAttempt None a t es l = ((True, None), snd (memory_BeginAttempt None a t es l))
     \<and> r = (True, None) \<and> accepts (snd (memory_BeginAttempt None a t es l)) tr)"
| "accepts l (DidAppend c es e # tr) =
    (memory_AppendAll None es l = (None, snd (memory_AppendAll None es l))
     \<and> e = None \<and> accepts (snd (memory_AppendAll None es l)) tr)"
| "accepts l (DidEvents c i r # tr) = False"
| "accepts l (DidAction c i r # tr) = False"
| "accepts l (DidAttempts c r # tr) = False"
| "accepts l (d # tr) = accepts l tr"

text \<open>On such a trace the log answers as ports do that accept everything.\<close>

lemma run_on_accepted:
  assumes "pt_begin w = (True, None)" and "pt_append w = None"
  shows "accepts l (fst (run w p)) \<Longrightarrow> fst (run_on w p l) = run w p"
proof (induction p arbitrary: l)
  case (BeginAttempt c a t es k)
  then have "fst (memory_BeginAttempt None a t es l) = (True, None)" using assms by simp (metis fst_conv)
  with BeginAttempt assms show ?case by (simp add: Let_def)
next
  case (AppendAll c es k)
  then have "fst (memory_AppendAll None es l) = None" using assms by simp (metis fst_conv)
  with AppendAll assms show ?case by (simp add: Let_def)
qed simp_all

subsection \<open>When a log accepts a trace\<close>

text \<open>Facts with identities the log does not hold, pairwise distinct, agree with it.\<close>

lemma fresh_agrees:
  assumes "distinct (map ev_id (fs @ es))"
  shows "group_agrees fs es"
proof -
  have "y = x" if "x \<in> set es" "y \<in> set fs \<union> set es" "ev_id y = ev_id x" for x y
    using assms that by (auto simp: distinct_map dest: inj_onD)
  then show ?thesis by (fastforce simp: group_agrees_def)
qed

lemma fresh_append:
  assumes "log_inv l" and "distinct (map ev_id (log_events l @ es))"
  shows "log_events (appendPrepared l es) = log_events l @ es"
  using assms
proof (induction es arbitrary: l)
  case (Cons e es)
  have "log_byID l (ev_id e) = None"
    using log_inv_byID [OF Cons.prems(1), of e] Cons.prems(2) by auto
  with Cons.IH [OF log_inv_append_one [OF Cons.prems(1)]] Cons.prems(2) show ?case by simp
qed simp

text \<open>A call that neither claims nor reads, and an append only if it succeeded.\<close>

fun appends_only :: "call \<Rightarrow> bool" where
  "appends_only (DidAppend c es e) = (e = None)"
| "appends_only (DidBegin c a t es r) = False"
| "appends_only (DidEvents c j r) = False"
| "appends_only (DidAction c j r) = False"
| "appends_only (DidAttempts c r) = False"
| "appends_only d = True"

lemma accepts_appends:
  assumes "list_all appends_only tr" and "log_inv l" and "distinct (map ev_id (log_events l @ recorded tr))"
  shows "accepts l tr"
  using assms
proof (induction tr arbitrary: l)
  case (Cons d tr)
  show ?case
  proof (cases d)
    case (DidAppend c es e)
    have e: "e = None" using Cons.prems(1) DidAppend by simp
    have dist: "distinct (map ev_id (log_events l @ es))" using Cons.prems(3) DidAppend e by auto
    have "preflight l es = None" using preflight_None_iff [OF Cons.prems(2)] fresh_agrees [OF dist] by simp
    then have ap: "memory_AppendAll None es l = (None, appendPrepared l es)" by (simp add: memory_AppendAll_def)
    have "distinct (map ev_id (log_events (appendPrepared l es) @ recorded tr))"
      unfolding fresh_append [OF Cons.prems(2) dist] using Cons.prems(3) DidAppend e by auto
    with Cons.IH [OF _ appendPrepared_inv [OF Cons.prems(2)]] Cons.prems(1) DidAppend e ap show ?thesis by simp
  qed (use Cons in simp_all)
qed simp

lemma accepts_claim:
  assumes "list_all appends_only tr" and "log_inv l" and "distinct (map ev_id (log_events l @ es @ recorded tr))"
    and "att_actionID t = act_id a" and "\<forall>x\<in>set es. ev_attemptID x = att_id t \<and> ev_actionID x = act_id a"
    and "\<forall>b. log_actions l (act_id a) = Some b \<longrightarrow> sameAction b a" and "att_id t \<notin> set (log_attemptOrder l)"
  shows "accepts l (DidNow n # DidBegin c a t es (True, None) # tr)"
proof -
  let ?l = "l\<lparr>log_attempts := insert (att_id t) (log_attempts l), log_actions := (log_actions l)(act_id a \<mapsto> a),
      log_attemptOrder := log_attemptOrder l @ [att_id t]\<rparr>"
  have fresh: "att_id t \<notin> log_attempts l" using assms(2,7) by (simp add: log_inv_def)
  have dist: "distinct (map ev_id (log_events l @ es))" using assms(3) by auto
  have "preflight l es = None" using preflight_None_iff [OF assms(2)] fresh_agrees [OF dist] by simp
  then have b: "memory_BeginAttempt None a t es l = ((True, None), appendPrepared ?l es)"
    using assms(4-6) fresh by (auto simp: memory_BeginAttempt_def list_ex_iff split: option.splits)
  have inv: "log_inv ?l" using log_inv_claim [OF assms(2) fresh] .
  have "log_events (appendPrepared ?l es) = log_events l @ es" using fresh_append [OF inv] dist by simp
  then have "accepts (appendPrepared ?l es) tr"
    by (intro accepts_appends [OF assms(1) appendPrepared_inv [OF inv]]) (use assms(3) in simp)
  with b show ?thesis by simp
qed

subsection \<open>The identities of an execution's facts\<close>

text \<open>The identity of a fact \<open>Execute\<close> offers is a function of the action, the attempt and the kind.\<close>

definition execute_qualifier :: "AttemptID \<Rightarrow> EventKind \<Rightarrow> string" where
  "execute_qualifier i k =
    (if k = EventActionRequested then i else if k = EventEffectUnverified then ''dispatch'' else [])"

definition identified :: "go_runtime \<Rightarrow> Action \<Rightarrow> AttemptID \<Rightarrow> ExecutionEvent \<Rightarrow> bool" where
  "identified rt a i e \<longleftrightarrow> ev_id e = deterministicEventID rt (act_id a) i (ev_kind e) (execute_qualifier i (ev_kind e))"

fun offered_by :: "call \<Rightarrow> ExecutionEvent list" where
  "offered_by (DidBegin c a t es r) = es"
| "offered_by (DidAppend c es e) = es"
| "offered_by _ = []"

lemma recorded_offered: "set (recorded_by d) \<subseteq> set (offered_by d)"
  by (cases d) (auto split: if_splits prod.splits elim: recorded_by.elims)

lemma builders_identified:
  "actionRequestedEvent rt a i now = Inr e \<Longrightarrow> identified rt a i e"
  "attemptStartedEvent rt a t now = Inr e \<Longrightarrow> identified rt a (att_id t) e"
  "recoveryAuthorizedEvent rt a t au now = Inr e \<Longrightarrow> identified rt a (att_id t) e"
  "admissionEvent rt a t s oe now = Inr e \<Longrightarrow> identified rt a (att_id t) e"
  "notDispatchedEvent rt a t c now = Inr e \<Longrightarrow> identified rt a (att_id t) e"
  "dispatchEvents rt a t g d oe now = Inr es \<Longrightarrow> list_all (identified rt a (att_id t)) es"
  by (auto simp: actionRequestedEvent_def attemptStartedEvent_def recoveryAuthorizedEvent_def admissionEvent_def
      notDispatchedEvent_def dispatchEvents_def newEvent_Inr identified_def execute_qualifier_def dispatch_kind_def
      Let_def split_beta split: if_splits)

lemma initialFacts_identified:
  "initialFacts rt a t auth now = Inr es \<Longrightarrow> list_all (identified rt a (att_id t)) es"
  by (auto simp: initialFacts_def split: option.splits) (erule builders_identified)+

abbreviation offers_identified :: "go_runtime \<Rightarrow> Action \<Rightarrow> AttemptID \<Rightarrow> call \<Rightarrow> bool" where
  "offers_identified rt a i d \<equiv> list_all (identified rt a i) (offered_by d)"

lemma map_sum_Inr_iff: "map_sum f g x = Inr z \<longleftrightarrow> (\<exists>y. x = Inr y \<and> z = g y)"
  by (cases x) auto

lemma identified_append_built:
  assumes "\<And>es. built = Inr es \<Longrightarrow> list_all (identified rt a i) es" and "\<And>x. only (offers_identified rt a i) (k x)"
  shows "only (offers_identified rt a i) (append_built u built k)"
  using assms by (simp add: append_built_def appendAfterIO_def split: sum.split)

lemma execute_identified: "only (offers_identified rt (xi_Action input) (xi_AttemptID input)) (execute rt use_case input auth)"
proof -
  have dispatch: "only (offers_identified rt a (att_id t)) (execute_dispatch rt u a t g res)" for u a t g res
    by (auto simp: execute_dispatch_def Let_def split_beta intro!: identified_append_built intro: builders_identified)
  have blocked: "only (offers_identified rt a (att_id t)) (execute_blocked rt u a t st cause res)" for u a t st cause res
    by (auto simp: execute_blocked_def map_sum_Inr_iff intro!: identified_append_built)
      (erule builders_identified)
  have decide: "only (offers_identified rt a (att_id t)) (execute_decide rt u a t er res)" for u a t er res
    by (simp add: execute_decide_def execute_resolve_def Let_def split_beta only_branch blocked dispatch)
  have admit: "only (offers_identified rt a (att_id t)) (execute_admit rt u a t res)" for u a t res
    by (auto simp: execute_admit_def Let_def split_beta appendAfterIO_def only_branch decide intro: builders_identified
        split: sum.split)
  have id: "att_id t = xi_AttemptID input" if "NewExecutionAttempt (attemptSpec input auth now) = Inr t" for t now
    using that by (simp add: NewExecutionAttempt_Inr_iff attemptSpec_def)
  show ?thesis
    by (cases use_case)
      (auto simp: execute_def Let_def split_beta only_branch admit id [symmetric] intro: initialFacts_identified split: sum.split)
qed

subsection \<open>An undisturbed execution on a log that does not know the attempt\<close>

text \<open>\<open>Execute\<close> claims the attempt of its input, for its action, and reads nothing.\<close>

fun claims_for :: "Action \<Rightarrow> AttemptID \<Rightarrow> call \<Rightarrow> bool" where
  "claims_for a i (DidBegin c b t es r) = (b = a \<and> att_id t = i \<and> att_actionID t = act_id a)"
| "claims_for a i (DidEvents c j r) = False"
| "claims_for a i (DidAction c j r) = False"
| "claims_for a i (DidAttempts c r) = False"
| "claims_for a i d = True"

lemma execute_claims_for: "only (claims_for (xi_Action input) (xi_AttemptID input)) (execute rt use_case input auth)"
proof -
  let ?only = "only (claims_for (xi_Action input) (xi_AttemptID input))"
  have built: "(\<And>x. ?only (k x)) \<Longrightarrow> ?only (append_built u b k)" for u b and k :: "err option \<Rightarrow> execution"
    by (simp add: append_built_def appendAfterIO_def split: sum.split)
  have dispatch: "?only (execute_dispatch rt u a t g res)" for u a t g res
    by (simp add: execute_dispatch_def Let_def split_beta built)
  have blocked: "?only (execute_blocked rt u a t st cause res)" for u a t st cause res
    by (simp add: execute_blocked_def built)
  have decide: "?only (execute_decide rt u a t er res)" for u a t er res
    by (simp add: execute_decide_def execute_resolve_def Let_def split_beta only_branch blocked dispatch)
  have admit: "?only (execute_admit rt u a t res)" for u a t res
    by (simp add: execute_admit_def Let_def split_beta appendAfterIO_def only_branch decide split: sum.split)
  have id: "att_id t = xi_AttemptID input \<and> att_actionID t = act_id (xi_Action input)"
    if "NewExecutionAttempt (attemptSpec input auth now) = Inr t" for t now
    using that by (simp add: NewExecutionAttempt_Inr_iff attemptSpec_def)
  show ?thesis
    by (cases use_case) (auto simp: execute_def Let_def split_beta only_branch admit id split: sum.split)
qed

lemma run_append_answer: "DidAppend c es e \<in> set (fst (run w p)) \<Longrightarrow> e = pt_append w"
  by (induction p) auto

lemma run_now_answer: "DidNow n \<in> set (fst (run w p)) \<Longrightarrow> n = pt_now w"
  by (induction p) auto

lemma run_on_ports: "run_on (w\<lparr>pt_begin := x, pt_append := y\<rparr>) p l = run_on w p l"
  by (induction p arbitrary: l) (simp_all add: Let_def)

text \<open>
  The digest keeps the facts of an execution apart, from each other and from those of the log:
  \<open>collision_free\<close> is what the code relies on of the first 16 bytes of SHA-256.
\<close>

definition fact_identity :: "go_runtime \<Rightarrow> Action \<Rightarrow> AttemptID \<Rightarrow> EventKind \<Rightarrow> EventID" where
  "fact_identity rt a i k = deterministicEventID rt (act_id a) i k (execute_qualifier i k)"

definition collision_free :: "go_runtime \<Rightarrow> Action \<Rightarrow> AttemptID \<Rightarrow> Log \<Rightarrow> bool" where
  "collision_free rt a i l \<longleftrightarrow> distinct (map (fact_identity rt a i) event_kinds)
     \<and> set (map ev_id (log_events l)) \<inter> set (map (fact_identity rt a i) event_kinds) = {}"

lemma told_distinct:
  assumes "told a i es (initial_kinds auth @ admission_fact_kinds adm @ dispatch_fact_kinds s)"
    and "admission_valid adm" and "dispatch_valid s" and "adm \<noteq> AdmissionAdmitted \<longrightarrow> s = DispatchNotDispatched"
  shows "distinct (map ev_kind es)"
proof -
  have "map ev_kind es = initial_kinds auth @ admission_fact_kinds adm @ dispatch_fact_kinds s"
    using assms(1) by (simp add: told_def)
  then show ?thesis using assms(2-4) unfolding admission_valid_iff dispatch_valid_iff
    by (elim disjE; simp add: initial_kinds_def admission_fact_kinds_def dispatch_fact_kinds_def dispatch_kind_def
        dispatch_effect_def status_defs)
qed

lemma execute_distinct_identities:
  assumes "plays (execute rt (Some u) input auth) tr (r, e)" and "\<not> has_stage StageRecord e"
    and "\<not> has_stage StageValidate e" and "dispatch_answers_ok tr"
    and "collision_free rt (xi_Action input) (xi_AttemptID input) l" and "log_inv l"
  shows "distinct (map ev_id (log_events l @ recorded tr))"
proof -
  let ?id = "fact_identity rt (xi_Action input) (xi_AttemptID input)"
  have "\<forall>d\<in>set tr. offers_identified rt (xi_Action input) (xi_AttemptID input) d"
    using only_plays [OF assms(1) execute_identified] .
  then have ids: "ev_id x = ?id (ev_kind x)" if "x \<in> set (recorded tr)" for x
    using that recorded_offered unfolding recorded_def
    by (fastforce simp: identified_def fact_identity_def list_all_iff)
  have kinds: "ev_kind x \<in> set event_kinds" if "x \<in> set (recorded tr)" for x
    using execute_records_own [OF assms(1)] that
    by (simp add: fact_of_def event_ok_def kind_valid_def)
  have "distinct (map ev_kind (recorded tr))"
    using execute_told [OF assms(1-4)] told_distinct by metis
  moreover have "inj_on ?id (ev_kind ` set (recorded tr))"
    using assms(5) kinds by (auto simp: collision_free_def distinct_map intro: inj_on_subset)
  ultimately have "distinct (map ?id (map ev_kind (recorded tr)))" by (simp only: distinct_map list.set_map simp_thms)
  also have "map ?id (map ev_kind (recorded tr)) = map ev_id (recorded tr)"
    unfolding map_map using ids by (intro map_cong) simp_all
  finally have "distinct (map ev_id (recorded tr))" .
  moreover have "set (map ev_id (log_events l)) \<inter> set (map ev_id (recorded tr)) = {}"
    using assms(5) ids kinds by (force simp: collision_free_def)
  ultimately show ?thesis using log_inv_distinct(2) [OF assms(6)] by simp
qed

lemma undisturbed_accepts:
  assumes "plays (execute rt (Some u) input auth) tr (r, e)" and "tr = fst (run w p)" and "pt_append w = None"
    and "dispatched tr \<noteq> []" and "\<not> has_stage StageRecord e" and "\<not> has_stage StageValidate e" and "dispatch_answers_ok tr"
    and "collision_free rt (xi_Action input) (xi_AttemptID input) l" and "log_inv l"
    and "\<forall>b. log_actions l (act_id (xi_Action input)) = Some b \<longrightarrow> sameAction b (xi_Action input)"
    and "xi_AttemptID input \<notin> set (log_attemptOrder l)"
  shows "accepts l tr"
proof -
  let ?a = "xi_Action input"
  obtain now t es rest where tr: "tr = DidNow now # DidBegin CallerCtx ?a t es (True, None) # rest"
    and t: "att_id t = xi_AttemptID input" and init: "initialFacts rt ?a t auth (UTC now) = Inr es"
    using execute_order [OF assms(1,4)] by auto
  have aid: "att_actionID t = act_id ?a" and free: "\<forall>d\<in>set rest. claims_for ?a (xi_AttemptID input) d"
    using only_plays [OF assms(1) execute_claims_for] tr by auto
  have "plays (execute_admit rt u ?a t (started_result ?a t)) rest (r, e)"
    using execute_reaches_claim [of rt u input auth "DidNow now" "DidBegin CallerCtx ?a t es (True, None)" rest "(r, e)"]
      assms(1) tr by auto
  then have "\<forall>d\<in>set rest. \<not> claims_call d" by (rule only_plays [OF _ no_second_claim(5)])
  moreover have "\<forall>c fs x. DidAppend c fs x \<in> set rest \<longrightarrow> x = None"
    using run_append_answer [of _ _ _ w p] assms(3) unfolding assms(2) [symmetric] tr by auto
  ultimately have "appends_only d" if "d \<in> set rest" for d
    using that free by (cases d) force+
  then have "list_all appends_only rest" by (simp add: list_all_iff)
  moreover have "\<forall>x\<in>set es. ev_attemptID x = att_id t \<and> ev_actionID x = act_id ?a"
    using initialFacts_told [OF init] by (simp add: told_def fact_of_def list_all_iff)
  moreover have "distinct (map ev_id (log_events l @ es @ recorded rest))"
    using execute_distinct_identities [OF assms(1,5-9)] tr by simp
  ultimately show ?thesis using accepts_claim [OF _ assms(9)] aid t assms(10,11) unfolding tr by metis
qed

end
