(* ===== verification/Sqlite_World.thy ===== *)
theory Sqlite_World
  imports Memory_World Sqlite_Properties
begin

text \<open>
  Executions over the SQLite log: the facts \<open>Execute\<close> offers can be read back whenever the clock and
  the times of its input have four-digit years, and a log related to a memory log accepts the same
  executions.
\<close>

text \<open>\<open>timely T P p\<close>: while the clock answers times of \<open>T\<close>, every call of \<open>p\<close> satisfies \<open>P\<close>.\<close>

primrec timely :: "gtime set \<Rightarrow> (call \<Rightarrow> bool) \<Rightarrow> 'a prog \<Rightarrow> bool" where
  "timely Ts P (Done v) = True"
| "timely Ts P (Now k) = (\<forall>r. r \<in> Ts \<longrightarrow> timely Ts P (k r))"
| "timely Ts P (BeginAttempt c a t es k) = (\<forall>r. P (DidBegin c a t es r) \<and> timely Ts P (k r))"
| "timely Ts P (AppendAll c es k) = (\<forall>r. P (DidAppend c es r) \<and> timely Ts P (k r))"
| "timely Ts P (EventsByAttempt c i k) = (\<forall>r. P (DidEvents c i r) \<and> timely Ts P (k r))"
| "timely Ts P (ActionByID c i k) = (\<forall>r. P (DidAction c i r) \<and> timely Ts P (k r))"
| "timely Ts P (AttemptIDs c k) = (\<forall>r. P (DidAttempts c r) \<and> timely Ts P (k r))"
| "timely Ts P (Admit c a k) = (\<forall>r. P (DidAdmit c a r) \<and> timely Ts P (k r))"
| "timely Ts P (Resolve c a k) = (\<forall>r. P (DidResolve c a r) \<and> timely Ts P (k r))"
| "timely Ts P (Dispatch c t a g k) = (\<forall>r. P (DidDispatch c t a g r) \<and> timely Ts P (k r))"
| "timely Ts P (Observe c a g k) = (\<forall>r. P (DidObserve c a g r) \<and> timely Ts P (k r))"
| "timely Ts P (Verify c a os u k) = (\<forall>r. P (DidVerify c a os u r) \<and> timely Ts P (k r))"

lemma timely_advance:
  "timely Ts P p \<Longrightarrow> advance p c = Some q \<Longrightarrow> (\<forall>n. c = DidNow n \<longrightarrow> n \<in> Ts) \<Longrightarrow>
     timely Ts P q \<and> (P c \<or> (\<exists>n. c = DidNow n))"
  by (cases p) (auto simp: advance_iff)

lemma timely_plays:
  "plays p tr w \<Longrightarrow> timely Ts P p \<Longrightarrow> \<forall>n. DidNow n \<in> set tr \<longrightarrow> n \<in> Ts \<Longrightarrow>
     \<forall>d\<in>set tr. P d \<or> (\<exists>n. d = DidNow n)"
proof (induction rule: plays.induct)
  case (call p c q tr v)
  have "timely Ts P q \<and> (P c \<or> (\<exists>n. c = DidNow n))"
    using timely_advance [OF call.prems(1) call.hyps(1)] call.prems(2) by simp
  with call.IH call.prems(2) show ?case by simp
qed simp

lemma timely_branch:
  "timely Ts P (if b then p else q) \<longleftrightarrow> (if b then timely Ts P p else timely Ts P q)"
  "timely Ts P (case z of Inl x \<Rightarrow> f x | Inr y \<Rightarrow> g y) \<longleftrightarrow>
     (case z of Inl x \<Rightarrow> timely Ts P (f x) | Inr y \<Rightarrow> timely Ts P (g y))"
  by (simp_all split: sum.split)

abbreviation offers_storable :: "call \<Rightarrow> bool" where
  "offers_storable d \<equiv> list_all storable_fact (offered_by d)"

abbreviation storable_clock :: "gtime set" where
  "storable_clock \<equiv> {n. time_storable n}"

lemma time_storable_UTC [simp]: "time_storable (UTC t) = time_storable t"
  by (simp add: time_storable_def)

text \<open>The builders of \<open>Execute\<close> take their times from the clock, the action and the authorization.\<close>

lemma builders_storable:
  "actionRequestedEvent rt a i now = Inr e \<Longrightarrow> time_storable (act_requestedAt a) \<Longrightarrow> time_storable now \<Longrightarrow> storable_fact e"
  "attemptStartedEvent rt a t now = Inr e \<Longrightarrow> time_storable (att_startedAt t) \<Longrightarrow> time_storable now \<Longrightarrow> storable_fact e"
  "recoveryAuthorizedEvent rt a t au now = Inr e \<Longrightarrow> time_storable (ra_authorizedAt au) \<Longrightarrow> time_storable now \<Longrightarrow> storable_fact e"
  "admissionEvent rt a t s oe now = Inr e \<Longrightarrow> time_storable now \<Longrightarrow> storable_fact e"
  "notDispatchedEvent rt a t c now = Inr e \<Longrightarrow> time_storable now \<Longrightarrow> storable_fact e"
  "dispatchEvents rt a t g d oe now = Inr es \<Longrightarrow> time_storable now \<Longrightarrow> list_all storable_fact es"
  by (auto simp: actionRequestedEvent_def attemptStartedEvent_def recoveryAuthorizedEvent_def admissionEvent_def
      notDispatchedEvent_def dispatchEvents_def newEvent_Inr storable_fact_def Let_def split_beta split: if_splits)

lemma initialFacts_storable:
  assumes "initialFacts rt a t auth now = Inr es" and "time_storable (act_requestedAt a)" and "time_storable (att_startedAt t)"
    and "time_storable now" and "\<And>au. auth = Some au \<Longrightarrow> time_storable (ra_authorizedAt au)"
  shows "list_all storable_fact es"
  using assms by (auto simp: initialFacts_def split: option.splits) (erule builders_storable; simp)+

lemma timely_append_built:
  assumes "\<And>es. built = Inr es \<Longrightarrow> list_all storable_fact es" and "\<And>x. timely Ts offers_storable (k x)"
  shows "timely Ts offers_storable (append_built u built k)"
  using assms by (simp add: append_built_def appendAfterIO_def split: sum.split)

lemma execute_timely:
  assumes "time_storable (act_requestedAt (xi_Action input))"
    and "\<And>au. auth = Some au \<Longrightarrow> time_storable (ra_authorizedAt au)"
  shows "timely storable_clock offers_storable (execute rt use_case input auth)"
proof -
  let ?timely = "timely storable_clock offers_storable"
  have dispatch: "?timely (execute_dispatch rt u a t g res)" for u a t g res
    by (auto simp: execute_dispatch_def Let_def split_beta intro!: timely_append_built intro: builders_storable)
  have blocked: "?timely (execute_blocked rt u a t st cause res)" for u a t st cause res
    by (auto simp: execute_blocked_def map_sum_Inr_iff intro!: timely_append_built)
      (erule builders_storable; simp)
  have decide: "?timely (execute_decide rt u a t er res)" for u a t er res
    by (simp add: execute_decide_def execute_resolve_def Let_def split_beta timely_branch blocked dispatch)
  have admit: "?timely (execute_admit rt u a t res)" for u a t res
    by (auto simp: execute_admit_def Let_def split_beta appendAfterIO_def timely_branch decide intro: builders_storable
        split: sum.split)
  have started: "att_startedAt t = now" if "NewExecutionAttempt (attemptSpec input auth now) = Inr t" for t now
    using that by (simp add: NewExecutionAttempt_Inr_iff attemptSpec_def)
  have "list_all storable_fact es"
    if "initialFacts rt (xi_Action input) t auth (UTC r) = Inr es" "time_storable r"
      "NewExecutionAttempt (attemptSpec input auth (UTC r)) = Inr t" for r t es
    using initialFacts_storable [OF that(1)] assms that(2) started [OF that(3)] by simp
  then show ?thesis
    by (cases use_case) (auto simp: execute_def Let_def split_beta timely_branch admit split: sum.split)
qed

lemma execute_storable:
  assumes "plays (execute rt use_case input auth) tr w" and "\<forall>n. DidNow n \<in> set tr \<longrightarrow> time_storable n"
    and "time_storable (act_requestedAt (xi_Action input))"
    and "\<And>au. auth = Some au \<Longrightarrow> time_storable (ra_authorizedAt au)"
  shows "list_all storable_fact (recorded tr)"
proof -
  have "\<forall>d\<in>set tr. offers_storable d \<or> (\<exists>n. d = DidNow n)"
    using timely_plays [OF assms(1) execute_timely [OF assms(3,4)]] assms(2) by simp
  then have "\<forall>x\<in>set (recorded_by d). storable_fact x" if "d \<in> set tr" for d
    using that recorded_offered [of d] by (fastforce simp: list_all_iff)
  then show ?thesis by (auto simp: recorded_def list_all_iff)
qed

subsection \<open>The same execution over both logs\<close>

lemma accepts_simulated:
  assumes "accepts l tr" and "logs_related l db" and "list_all storable_fact (recorded tr)"
    and "\<forall>c a t es r. DidBegin c a t es r \<in> set tr \<longrightarrow> storable_intent a"
  shows "\<exists>db'. follows sqlite_BeginAttempt sqlite_AppendAll (Some db) tr (Some db')"
  using assms
proof (induction tr arbitrary: l db)
  case Nil
  show ?case by (intro exI) (rule follows.stop)
next
  case (Cons d tr)
  have rest: "\<forall>c a t es r. DidBegin c a t es r \<in> set tr \<longrightarrow> storable_intent a"
    using Cons.prems(4) by (meson list.set_intros(2))
  have other: ?case if "\<not> journal_call d" "accepts l tr" "list_all storable_fact (recorded tr)"
    using Cons.IH [OF that(2) Cons.prems(2) that(3) rest]
      follows.other [where b = sqlite_BeginAttempt and ap = sqlite_AppendAll, OF that(1)] by metis
  show ?case
  proof (cases d)
    case (DidBegin c a t es r)
    define l1 where "l1 = snd (memory_BeginAttempt None a t es l)"
    have m: "memory_BeginAttempt None a t es l = ((True, None), l1)" "r = (True, None)" "accepts l1 tr"
      using Cons.prems(1) DidBegin by (simp_all add: l1_def)
    have es: "list_all storable_fact es" and tr: "list_all storable_fact (recorded tr)"
      using Cons.prems(3) DidBegin m(2) by simp_all
    have a: "storable_intent a" using Cons.prems(4) DidBegin by (meson list.set_intros(1))
    obtain db1 where s: "snd (sqlite_BeginAttempt quiet_db a t es (Some db)) = Some db1"
      "fst (fst (sqlite_BeginAttempt quiet_db a t es (Some db)))" and rel: "logs_related l1 db1"
      using begin_simulates [OF Cons.prems(2) es a, of t] m(1) by auto
    then obtain er where won: "sqlite_BeginAttempt quiet_db a t es (Some db) = ((True, er), Some db1)"
      by (metis prod.collapse)
    moreover have "er = None"
      using sqlite_begin_won [OF _ won] Cons.prems(2) by (simp add: sqlite_inv_def logs_related_def)
    moreover obtain db' where "follows sqlite_BeginAttempt sqlite_AppendAll (Some db1) tr (Some db')"
      using Cons.IH [OF m(3) rel tr rest] by blast
    ultimately show ?thesis using DidBegin m(2) follows.begin_attempt [where b = sqlite_BeginAttempt] by metis
  next
    case (DidAppend c es e)
    define l1 where "l1 = snd (memory_AppendAll None es l)"
    have m: "memory_AppendAll None es l = (None, l1)" "e = None" "accepts l1 tr"
      using Cons.prems(1) DidAppend by (simp_all add: l1_def)
    have es: "list_all storable_fact es" and tr: "list_all storable_fact (recorded tr)"
      using Cons.prems(3) DidAppend m(2) by auto
    obtain db1 where s: "sqlite_AppendAll quiet_db es (Some db) = (None, Some db1)" and rel: "logs_related l1 db1"
      using append_simulates [OF Cons.prems(2) es] m(1) by auto
    moreover obtain db' where "follows sqlite_BeginAttempt sqlite_AppendAll (Some db1) tr (Some db')"
      using Cons.IH [OF m(3) rel tr rest] by blast
    ultimately show ?thesis using DidAppend m(2) follows.append_all [where ap = sqlite_AppendAll] by metis
  qed (rule other; use Cons.prems(1,3) in simp)+
qed

end
