(* ===== verification/System_Properties.thy ===== *)
theory System_Properties
  imports Sqlite_World
begin

text \<open>
  Properties of the use cases together with a journal: an execution and the query that follows it
  over the memory log, the view after an execution over the SQLite log under failures, and one
  dispatch per attempt under any interleaving of use cases over either log.
\<close>

subsection \<open>Execute, then Get\<close>

lemma memory_world_run:
  assumes "action_ok a" and "printable_time (act_requestedAt a)" and "text_ok i"
    and "\<not> IsZero (pt_now w)" and "printable_time (UTC (pt_now w))"
    and "pt_admit w = (AdmissionAdmitted, None)"
    and "pt_resolve w = (g, None)" and "pt_dispatch w = (d, None)" and "dispatch_ok d" and "printable_receipt d"
    and "dr_provider d = tgt_provider g" and "dr_attemptID d = i"
    and "log_inv l" and "i \<notin> set (log_attemptOrder l)" and "\<forall>n\<in>set (log_events l). ev_attemptID n \<noteq> i"
    and "\<forall>b. log_actions l (act_id a) = Some b \<longrightarrow> sameAction b a" and "collision_free rt a i l"
  shows "\<exists>tr r l'. run_on w (Execute rt (Some u) \<lparr>xi_Action = a, xi_AttemptID = i\<rparr>) l = ((tr, r, None), l')
    \<and> follows memory_BeginAttempt memory_AppendAll l tr l'
    \<and> plays (Execute rt (Some u) \<lparr>xi_Action = a, xi_AttemptID = i\<rparr>) tr (r, None)
    \<and> dispatched tr = [i]
    \<and> run_on w (GetAttempt_Get True i) l' = (([DidEvents CallerCtx i (memory_EventsByAttempt None i l')],
        \<lparr>av_ActionID = act_id a, av_AttemptID = i,
          av_Outcome = \<lparr>o_admission = AdmissionAdmitted, o_dispatch = dr_status d, o_effect = dispatch_effect (dr_status d)\<rparr>,
          av_Verification = VerificationUnknown, av_AdmissionConflicted = False, av_DispatchConflicted = False,
          av_EffectConflicted = False\<rparr>, None), l')"
proof -
  let ?in = "\<lparr>xi_Action = a, xi_AttemptID = i\<rparr>"
  let ?p = "Execute rt (Some u) ?in"
  let ?w = "w\<lparr>pt_begin := (True, None), pt_append := None\<rparr>"
  define tr r e where "tr = fst (run ?w ?p)" and "r = fst (snd (run ?w ?p))" and "e = snd (snd (run ?w ?p))"
  have und: "dispatched tr = [i]"
    "er_Outcome r = \<lparr>o_admission = AdmissionAdmitted, o_dispatch = dr_status d, o_effect = dispatch_effect (dr_status d)\<rparr>"
    "e = None"
    using undisturbed_run [where w = ?w and rt = rt and u = u and derr = None, OF assms(1-3) _ _ _ _ _ _ _ assms(9-12)] assms(4-8)
    by (simp_all add: tr_def r_def e_def errorsJoin_def List.map_filter_def split_beta)
  have run: "run ?w ?p = (tr, r, None)" using und(3) by (metis tr_def r_def e_def prod.collapse)
  have pl: "plays (execute rt (Some u) ?in None) tr (r, None)"
    using run_plays [of ?p ?w] unfolding run by (simp add: Execute_def)
  have none: "\<not> has_stage StageRecord None" "\<not> has_stage StageValidate None" by (simp_all add: has_stage_def)
  have ok: "dispatch_answers_ok tr"
    unfolding dispatch_answers_ok_def tr_def
    using run_dispatch_answer [of _ _ _ _ _ ?w] assms(8,9) by fastforce
  have "accepts l tr"
    by (rule undisturbed_accepts [OF pl, of ?w ?p])
      (use und(1) none ok assms(13,14,16,17) in \<open>simp_all add: tr_def [symmetric]\<close>)
  then have "fst (run_on ?w ?p l) = run ?w ?p" by (intro run_on_accepted) (simp_all add: tr_def)
  then have fst_on: "fst (run_on w ?p l) = (tr, r, None)" unfolding run_on_ports run .
  define l' where "l' = snd (run_on w ?p l)"
  have on: "run_on w ?p l = ((tr, r, None), l')" using fst_on by (simp add: l'_def prod_eq_iff)
  have fol: "follows memory_BeginAttempt memory_AppendAll l tr l'" and play: "plays ?p tr (r, None)"
    using run_on_follows [of ?p w l] unfolding on by simp_all
  have "attempt_view i (filter (\<lambda>n. ev_attemptID n = i) (log_events l'))
    = (\<lparr>av_ActionID = act_id a, av_AttemptID = i, av_Outcome = er_Outcome r, av_Verification = VerificationUnknown,
        av_AdmissionConflicted = False, av_DispatchConflicted = False, av_EffectConflicted = False\<rparr>, None)"
    using memory.execute_view [of l ?in rt u None tr r None l', OF assms(13) _ pl none ok fol] assms(15)
    by (simp add: list_all_iff)
  moreover have "i \<noteq> []" using assms(3) by auto
  ultimately show ?thesis using on fol play und(1,2)
    by (simp add: GetAttempt_Get_def memory_EventsByAttempt_def)
qed

text \<open>C5: over the memory log, an execution that the ports let through, of an attempt the log does not
  know, returns without an error after exactly one hand-over, and \<open>Get\<close> called next shows exactly
  the outcome the provider's answer stands for, with no verification and no conflict. What the code
  relies on of SHA-256 is the named hypothesis: the identities of the facts differ.\<close>

theorem memory_execute_then_get:
  assumes "action_ok a" and "printable_time (act_requestedAt a)" and "text_ok i"
    and "\<not> IsZero (pt_now w)" and "printable_time (UTC (pt_now w))"
    and "pt_admit w = (AdmissionAdmitted, None)"
    and "pt_resolve w = (g, None)" and "pt_dispatch w = (d, None)" and "dispatch_ok d" and "printable_receipt d"
    and "dr_provider d = tgt_provider g" and "dr_attemptID d = i"
    and "log_inv l" and "i \<notin> set (log_attemptOrder l)" and "\<forall>n\<in>set (log_events l). ev_attemptID n \<noteq> i"
    and "\<forall>b. log_actions l (act_id a) = Some b \<longrightarrow> sameAction b a" and "collision_free rt a i l"
  shows "case run_on w (Execute rt (Some u) \<lparr>xi_Action = a, xi_AttemptID = i\<rparr>) l of
    ((tr, r, e), l') \<Rightarrow> e = None \<and> dispatched tr = [i]
      \<and> snd (fst (run_on w (GetAttempt_Get True i) l')) =
          (\<lparr>av_ActionID = act_id a, av_AttemptID = i,
             av_Outcome = \<lparr>o_admission = AdmissionAdmitted, o_dispatch = dr_status d, o_effect = dispatch_effect (dr_status d)\<rparr>,
             av_Verification = VerificationUnknown, av_AdmissionConflicted = False, av_DispatchConflicted = False,
             av_EffectConflicted = False\<rparr>, None)"
  using memory_world_run [OF assms, of u] by fastforce

text \<open>A digest for the examples: the preimage backwards, so that its first 16 bytes tell the kind.\<close>

definition mirror_rt :: go_runtime where
  "mirror_rt = \<lparr>rt_sha256 = rev, rt_printable = (\<lambda>_. True)\<rparr>"

lemma mirror_collision_free: "collision_free mirror_rt example_action ''t'' New_Log"
proof -
  let ?digest = "\<lambda>k. take 16 (rev (event_preimage ''a'' ''t'' k (execute_qualifier ''t'' k)))"
  have "distinct (map ?digest event_kinds)"
    by (simp add: event_kinds_def kind_defs event_preimage_def execute_qualifier_def)
  then have "distinct (map (\<lambda>d. ''event-'' @ hex_encode d) (map ?digest event_kinds))"
    by (subst distinct_map) (auto intro: inj_onI dest: hex_encode_inj)
  moreover have "fact_identity mirror_rt example_action ''t'' = (\<lambda>d. ''event-'' @ hex_encode d) \<circ> ?digest"
    by (simp add: fun_eq_iff fact_identity_def deterministicEventID_def Let_def mirror_rt_def example_action_def)
  ultimately show ?thesis by (simp add: collision_free_def New_Log_def)
qed

lemmas mirror_conditions =
  example_conditions(1-5,8,9,10) example_conditions(11-14) log_inv_New

lemma mirror_world:
  "\<exists>tr r l'. run_on example_ports (Execute mirror_rt (Some example_use_case) example_input) New_Log = ((tr, r, None), l')
    \<and> follows memory_BeginAttempt memory_AppendAll New_Log tr l'
    \<and> plays (Execute mirror_rt (Some example_use_case) example_input) tr (r, None) \<and> dispatched tr = [''t'']"
  unfolding example_input_def
  using memory_world_run [OF mirror_conditions, of mirror_rt example_use_case] mirror_collision_free
  by (fastforce simp: New_Log_def)

lemma memory_execute_then_get_witness:
  "case run_on example_ports (Execute mirror_rt (Some example_use_case) example_input) New_Log of
    ((tr, r, e), l') \<Rightarrow> e = None \<and> dispatched tr = [''t'']
      \<and> av_Outcome (fst (snd (fst (run_on example_ports (GetAttempt_Get True ''t'') l'))))
          = \<lparr>o_admission = AdmissionAdmitted, o_dispatch = DispatchDispatched, o_effect = EffectUnverified\<rparr>"
proof -
  have "case run_on example_ports (Execute mirror_rt (Some example_use_case) \<lparr>xi_Action = example_action, xi_AttemptID = ''t''\<rparr>) New_Log of
    ((tr, r, e), l') \<Rightarrow> e = None \<and> dispatched tr = [''t'']
      \<and> snd (fst (run_on example_ports (GetAttempt_Get True ''t'') l')) =
          (\<lparr>av_ActionID = act_id example_action, av_AttemptID = ''t'',
             av_Outcome = \<lparr>o_admission = AdmissionAdmitted, o_dispatch = dr_status example_dispatch,
               o_effect = dispatch_effect (dr_status example_dispatch)\<rparr>,
             av_Verification = VerificationUnknown, av_AdmissionConflicted = False, av_DispatchConflicted = False,
             av_EffectConflicted = False\<rparr>, None)"
    by (rule memory_execute_then_get [OF mirror_conditions]) (simp_all add: New_Log_def mirror_collision_free [unfolded New_Log_def])
  then show ?thesis
    unfolding example_input_def by (auto simp: example_dispatch_def dispatch_effect_def split: prod.splits)
qed

text \<open>C6: over the SQLite log, whichever calls to the database fail during it, an execution that returns
  without an error of the stages validate and record leaves facts from which the view of the attempt
  rebuilds to exactly the outcome it returned, without a conflict; provided the log held no fact of
  the attempt and the clock and the times of the input have years a column can hold.\<close>

theorem sqlite_execute_view:
  assumes "sqlite_inv l" and "\<forall>n\<in>set (sqlite_facts l). ev_attemptID n \<noteq> xi_AttemptID input"
    and "plays (execute rt (Some u) input auth) tr (r, e)" and "\<not> has_stage StageRecord e"
    and "\<not> has_stage StageValidate e" and "dispatch_answers_ok tr"
    and "follows sqlite_BeginAttempt sqlite_AppendAll l tr l'"
    and "\<forall>n. DidNow n \<in> set tr \<longrightarrow> time_storable n" and "time_storable (act_requestedAt (xi_Action input))"
    and "\<forall>au. auth = Some au \<longrightarrow> time_storable (ra_authorizedAt au)"
  shows "attempt_view (xi_AttemptID input) (filter (\<lambda>n. ev_attemptID n = xi_AttemptID input) (sqlite_facts l'))
    = (\<lparr>av_ActionID = act_id (xi_Action input), av_AttemptID = xi_AttemptID input, av_Outcome = er_Outcome r,
        av_Verification = VerificationUnknown, av_AdmissionConflicted = False, av_DispatchConflicted = False,
        av_EffectConflicted = False\<rparr>, None)"
  using sqlite.execute_view [OF assms(1-7)] execute_storable [OF assms(3,8,9)] assms(10) by blast

lemma sqlite_execute_view_witness:
  "\<exists>tr r l'. plays (execute mirror_rt (Some example_use_case) example_input None) tr (r, None)
    \<and> follows sqlite_BeginAttempt sqlite_AppendAll (Some empty_db) tr l' \<and> dispatched tr = [''t'']
    \<and> av_Outcome (fst (attempt_view ''t'' (filter (\<lambda>n. ev_attemptID n = ''t'') (sqlite_facts l')))) = er_Outcome r"
proof -
  let ?run = "run example_ports (Execute mirror_rt (Some example_use_case) example_input)"
  define tr r e where "tr = fst ?run" and "r = fst (snd ?run)" and "e = snd (snd ?run)"
  have e: "e = None" and d: "dispatched tr = [''t'']"
    using undisturbed_run [OF example_conditions, of mirror_rt example_use_case]
    by (simp_all add: tr_def e_def example_input_def errorsJoin_def List.map_filter_def split_beta)
  have pl: "plays (execute mirror_rt (Some example_use_case) example_input None) tr (r, None)"
    using run_plays [of "Execute mirror_rt (Some example_use_case) example_input" example_ports] e
    by (simp add: tr_def r_def e_def Execute_def) (metis prod.collapse)
  have none: "\<not> has_stage StageRecord None" "\<not> has_stage StageValidate None" by (simp_all add: has_stage_def)
  have ok: "dispatch_answers_ok tr"
    unfolding dispatch_answers_ok_def tr_def
    using run_dispatch_answer [of _ _ _ _ _ example_ports] example_conditions(10,11) by fastforce
  have clock: "\<forall>n. DidNow n \<in> set tr \<longrightarrow> time_storable n"
    using run_now_answer [of _ example_ports] example_clock by (auto simp: tr_def example_ports_def)
  have req: "time_storable (act_requestedAt (xi_Action example_input))"
    by (simp add: example_input_def example_action_def)
  have "accepts New_Log tr"
    by (rule undisturbed_accepts [OF pl, of example_ports "Execute mirror_rt (Some example_use_case) example_input"])
      (use d none ok mirror_collision_free in \<open>simp_all add: tr_def [symmetric] example_input_def, simp_all add: tr_def
        example_input_def example_ports_def New_Log_def\<close>)
  moreover have "list_all storable_fact (recorded tr)" by (rule execute_storable [OF pl clock req]) simp
  moreover have "\<forall>c a t es r. DidBegin c a t es r \<in> set tr \<longrightarrow> storable_intent a"
    using only_plays [OF pl execute_claims_for] example_action_storable by (fastforce simp: example_input_def)
  ultimately obtain db' where fol: "follows sqlite_BeginAttempt sqlite_AppendAll (Some empty_db) tr (Some db')"
    using accepts_simulated [OF _ logs_related_new] by blast
  have "sqlite_inv (Some empty_db)" by (simp add: sqlite_inv_def)
  from sqlite_execute_view [OF this _ pl none ok fol clock req] pl fol d show ?thesis
    by (intro exI [of _ tr] exI [of _ r] exI [of _ "Some db'"]) (simp add: sqlite_facts_def empty_db_def example_input_def)
qed

subsection \<open>One dispatch per attempt\<close>

text \<open>However the server interleaves its use cases over one memory log, with whatever inputs and
  answers of the other ports, an attempt is handed to the provider at most once, only after it was
  claimed, and never when the log held its claim before.\<close>

lemma memory_dispatch_once:
  assumes "sys_run memory_BeginAttempt memory_AppendAll use_case_program l ls st" and "log_inv l"
  shows "distinct (dispatched (calls_of ls)) \<and> set (dispatched (calls_of ls)) \<subseteq> set (log_attemptOrder (snd st))
    \<and> set (dispatched (calls_of ls)) \<inter> set (log_attemptOrder l) = {}"
  using assms by (rule memory.dispatch_once)

lemma memory_dispatch_once_witness:
  "\<exists>ls st. sys_run memory_BeginAttempt memory_AppendAll use_case_program New_Log ls st
     \<and> dispatched (calls_of ls) = [''t''] \<and> ''t'' \<in> set (log_attemptOrder (snd st))"
proof -
  let ?p = "Execute mirror_rt (Some example_use_case) example_input"
  obtain tr r l' where fol: "follows memory_BeginAttempt memory_AppendAll New_Log tr l'"
    and pl: "plays ?p tr (r, None)" and d: "dispatched tr = [''t'']"
    using mirror_world by blast
  have init: "sys_run memory_BeginAttempt memory_AppendAll use_case_program New_Log [] ([], New_Log)"
    by (rule sys_run.init)
  have "sys_step memory_BeginAttempt memory_AppendAll use_case_program ([], New_Log) Started ([] @ [erase ?p], New_Log)"
    by (rule sys_step.start) (rule use_case_program.intros)
  from sys_run.step [OF init this]
  have "sys_run memory_BeginAttempt memory_AppendAll use_case_program New_Log [Started] ([] @ [erase ?p], New_Log)" by simp
  from play_sys_run [OF fol plays_erase [OF pl] this] obtain ls' where
    run: "sys_run memory_BeginAttempt memory_AppendAll use_case_program New_Log ([Started] @ ls') ([] @ [Done ()], l')"
    and calls: "calls_of ls' = tr" by blast
  have "dispatched (calls_of ([Started] @ ls')) = [''t'']" using calls d by (simp add: calls_of_def)
  with run memory_dispatch_once [OF run log_inv_New] show ?thesis by auto
qed

text \<open>C3: the same over one SQLite log, whichever calls to the database fail: no interleaving of use
  cases, in any number of processes, hands an attempt to the provider twice, or without a row in the
  table of claims, or when that row was there before.\<close>

theorem sqlite_dispatch_once:
  assumes "sys_run sqlite_BeginAttempt sqlite_AppendAll use_case_program (Some db) ls st" and "db_ok db"
  shows "distinct (dispatched (calls_of ls)) \<and> set (dispatched (calls_of ls)) \<subseteq> set (sqlite_claims (snd st))
    \<and> set (dispatched (calls_of ls)) \<inter> set (map rt_attempt_id (db_attempts db)) = {}"
proof -
  have "sqlite_inv (Some db)" using assms(2) by (simp add: sqlite_inv_def)
  from sqlite.dispatch_once [OF assms(1) this] show ?thesis by (simp add: sqlite_claims_def)
qed

lemma sqlite_dispatch_once_witness:
  "\<exists>ls st. sys_run sqlite_BeginAttempt sqlite_AppendAll use_case_program (Some empty_db) ls st
     \<and> calls_of ls \<noteq> [] \<and> set (dispatched (calls_of ls)) \<subseteq> set (sqlite_claims (snd st))"
proof -
  let ?p = "erase (Execute mirror_rt (Some example_use_case) example_input)"
  let ?run = "sys_run sqlite_BeginAttempt sqlite_AppendAll use_case_program (Some empty_db)"
  have init: "?run [] ([], Some empty_db)" by (rule sys_run.init)
  have "sys_step sqlite_BeginAttempt sqlite_AppendAll use_case_program ([], Some empty_db) Started ([] @ [?p], Some empty_db)"
    by (rule sys_step.start) (rule use_case_program.intros)
  note r1 = sys_run.step [OF init this]
  let ?now = "\<lparr>t_ns = 2, t_off = 0\<rparr>"
  obtain q where "advance ?p (DidNow ?now) = Some q"
    by (simp add: erase_def Execute_def execute_def example_use_case_def advance_def)
  then have "sys_step sqlite_BeginAttempt sqlite_AppendAll use_case_program ([?p], Some empty_db) (Did 0 (DidNow ?now))
      ([?p][0 := q], Some empty_db)"
    by (intro sys_step.other) simp_all
  with r1 have "?run ([Started] @ [Did 0 (DidNow ?now)]) ([?p][0 := q], Some empty_db)"
    using sys_run.step by fastforce
  from sqlite_dispatch_once [OF this db_ok_empty] this show ?thesis
    by (intro exI [of _ "[Started] @ [Did 0 (DidNow ?now)]"] exI) (auto simp: calls_of_def)
qed

end
