(* ===== verification/Query_Properties.thy ===== *)
theory Query_Properties
  imports Query System_Properties
begin

text \<open>
  The properties of the read side: which attempts \<open>Scan\<close> reports, and that it reports the attempt of a run
  that was cut off, from the memory log which that run left.
\<close>

fun reads_only :: "call \<Rightarrow> bool" where
  "reads_only (DidEvents c i r) = True"
| "reads_only (DidAttempts c r) = True"
| "reads_only _ = False"

text \<open>The kinds that end the dispatch of an attempt for \<open>Scan\<close>.\<close>

definition terminal_kind :: "EventKind \<Rightarrow> bool" where
  "terminal_kind k \<longleftrightarrow> k = EventActionRejected \<or> k = EventNotDispatched \<or> k = EventDispatchUnknown
     \<or> k = EventActionDispatched \<or> k = EventProviderAcknowledged"

lemma incomplete_loop_spec:
  "incomplete_loop es (a, st, fin) =
     ((if es = [] then a else ev_actionID (last es)),
      st \<or> EventAttemptStarted \<in> set (map ev_kind es), fin \<or> (\<exists>k\<in>set (map ev_kind es). terminal_kind k))"
  by (induction es arbitrary: a st fin) (auto simp: terminal_kind_def)

lemma incomplete_spec:
  "incomplete es = ((if es = [] then [] else ev_actionID (last es)),
     EventAttemptStarted \<in> set (map ev_kind es) \<and> (\<forall>k\<in>set (map ev_kind es). \<not> terminal_kind k))"
  by (simp add: incomplete_def incomplete_loop_spec)

text \<open>an attempt \<open>Scan\<close> would report has a view that shows dispatch unknown, without a conflict: no
  fact yet tells what happened to it; and the reported action is the one of its facts.\<close>

lemma incomplete_dispatch_unknown:
  assumes "incomplete es = (a, True)" and "NewAttempt i t = Inr p0" and "apply_events p0 es = Inr p"
  shows "a = i \<and> o_dispatch (attempt_Outcome p) = DispatchUnknown \<and> \<not> pj_dispatchConflicted p"
proof -
  from assms(1) have ne: "es \<noteq> []" and none: "\<forall>k\<in>set (map ev_kind es). \<not> terminal_kind k"
    and a: "a = ev_actionID (last es)"
    by (auto simp: incomplete_spec split: if_splits)
  have "claimed_by dispatch_claims es = {}"
    using none by (auto simp: claimed_by_kinds dispatch_claims_def terminal_kind_def split: if_splits)
  then have "resolve_dispatch (claimed_by dispatch_claims es) = (DispatchUnknown, False)"
    by (simp add: resolve_dispatch_def)
  moreover have "ev_actionID (last es) = i"
    using assms(3) ne NewAttempt_Inr(5) [OF assms(2)]
    by (auto simp: apply_events_Inr_iff list_all_iff related_def)
  ultimately show ?thesis using view_facts [OF assms(2,3)] a by simp
qed

lemma incomplete_dispatch_unknown_witness:
  "\<exists>p0 p. NewAttempt ''a'' ''t'' = Inr p0 \<and> apply_events p0 [example_fact ''1'' EventAttemptStarted] = Inr p
     \<and> incomplete [example_fact ''1'' EventAttemptStarted] = (''a'', True)
     \<and> o_dispatch (attempt_Outcome p) = DispatchUnknown"
proof -
  have inc: "incomplete [example_fact ''1'' EventAttemptStarted] = (''a'', True)"
    by (simp add: incomplete_spec terminal_kind_def)
  obtain p0 where p0: "NewAttempt ''a'' ''t'' = Inr p0" by (simp add: NewAttempt_def)
  obtain p where p: "apply_events p0 [example_fact ''1'' EventAttemptStarted] = Inr p"
    using NewAttempt_Inr(5,6) [OF p0] by (simp add: related_def)
  from incomplete_dispatch_unknown [OF inc p0 p] inc p0 p show ?thesis by blast
qed

text \<open>The result of a scan over known facts.\<close>

definition scan_result :: "(AttemptID \<Rightarrow> ExecutionEvent list) \<Rightarrow> AttemptID list \<Rightarrow> IncompleteAttempt list" where
  "scan_result facts ids =
    map (\<lambda>i. \<lparr>ia_ActionID = fst (incomplete (facts i)), ia_AttemptID = i\<rparr>)
      (filter (\<lambda>i. snd (incomplete (facts i))) ids)"

lemma run_scan_loop:
  assumes "\<And>i. i \<in> set ids \<Longrightarrow> pt_events w i = (facts i, None)"
  shows "snd (run w (scan_loop ids acc)) = (acc @ scan_result facts ids, None)"
  using assms
  by (induction ids arbitrary: acc) (auto simp: scan_result_def split_beta)

text \<open>C20: \<open>Scan\<close> reports exactly the claimed attempts whose facts show a start and no terminal dispatch
  fact, once per claim and in claim order, whenever the readers answer; it only reads.\<close>

theorem scan_reports_incomplete:
  assumes "pt_attempts w = (ids, None)" and "\<And>i. i \<in> set ids \<Longrightarrow> pt_events w i = (facts i, None)"
  shows "snd (run w (ScanIncompleteAttempts_Scan True)) = (scan_result facts ids, None)
    \<and> (\<forall>x. x \<in> set (scan_result facts ids) \<longleftrightarrow>
         ia_AttemptID x \<in> set ids \<and> ia_ActionID x = fst (incomplete (facts (ia_AttemptID x)))
         \<and> EventAttemptStarted \<in> set (map ev_kind (facts (ia_AttemptID x)))
         \<and> (\<forall>k\<in>set (map ev_kind (facts (ia_AttemptID x))). \<not> terminal_kind k))"
proof -
  have "snd (run w (ScanIncompleteAttempts_Scan True)) = (scan_result facts ids, None)"
    using run_scan_loop [of ids w facts "[]"] assms by (simp add: ScanIncompleteAttempts_Scan_def)
  moreover have "x \<in> set (scan_result facts ids) \<longleftrightarrow>
         ia_AttemptID x \<in> set ids \<and> ia_ActionID x = fst (incomplete (facts (ia_AttemptID x)))
         \<and> EventAttemptStarted \<in> set (map ev_kind (facts (ia_AttemptID x)))
         \<and> (\<forall>k\<in>set (map ev_kind (facts (ia_AttemptID x))). \<not> terminal_kind k)" for x
    by (cases x) (auto simp: scan_result_def incomplete_spec)
  ultimately show ?thesis by blast
qed

definition scan_ports :: ports where
  "scan_ports = example_ports\<lparr>pt_attempts := ([''t'', ''u''], None),
     pt_events := (\<lambda>i. (if i = ''t'' then [example_fact ''1'' EventAttemptStarted]
                         else [example_fact ''2'' EventAttemptStarted, example_fact ''3'' EventNotDispatched], None))\<rparr>"

lemma scan_reports_incomplete_witness:
  "snd (run scan_ports (ScanIncompleteAttempts_Scan True)) = ([\<lparr>ia_ActionID = ''a'', ia_AttemptID = ''t''\<rparr>], None)"
  using scan_reports_incomplete [of scan_ports "[''t'', ''u'']" "\<lambda>i. fst (pt_events scan_ports i)"]
  by (simp add: scan_ports_def scan_result_def incomplete_spec terminal_kind_def)

text \<open>\<open>Get\<close> and \<open>Scan\<close> make no call but reads.\<close>

lemma queries_only_read:
  "only reads_only (GetAttempt_Get present i) \<and> only reads_only (ScanIncompleteAttempts_Scan present)"
proof -
  have loop: "only reads_only (scan_loop ids acc)" for ids acc
    by (induction ids arbitrary: acc) (simp_all add: split_beta)
  show ?thesis
    by (simp add: GetAttempt_Get_def ScanIncompleteAttempts_Scan_def split_beta loop)
qed

subsection \<open>Runs that are cut off\<close>

context journal
begin

text \<open>A claim a trace was granted is one of the journal's afterwards, and stays.\<close>

lemma follows_claims:
  "jfollows s tr s' \<Longrightarrow> inv s \<Longrightarrow>
     set (claims s) \<subseteq> set (claims s') \<and> (\<forall>c a t es er. DidBegin c a t es (True, er) \<in> set tr \<longrightarrow> att_id t \<in> set (claims s'))"
proof (induction rule: follows.induct)
  case (begin_attempt x a t es s r s1 tr s' c)
  obtain won er where r: "r = (won, er)" by (metis surj_pair)
  have "inv s1 \<and> set (claims s) \<subseteq> set (claims s1) \<and> (won \<longrightarrow> att_id t \<in> set (claims s1))"
  proof (cases won)
    case True
    then show ?thesis using begin_attempt r claim_won [of s x a t es er s1] by auto
  next
    case False
    then show ?thesis using begin_attempt r claim_lost [of x a t es s er s1] by simp
  qed
  with begin_attempt.IH r show ?case by auto blast+
next
  case (append_all x es s e s1 tr s' c)
  then show ?case using append_inv [of s x es e s1] by auto
qed (auto, blast+)

end

lemma follows_prefix: "follows b ap s (xs @ ys) s' \<Longrightarrow> \<exists>s1. follows b ap s xs s1"
proof (induction xs arbitrary: s)
  case Nil
  then show ?case by (blast intro: follows.stop)
next
  case (Cons x xs)
  from Cons.prems show ?case
    by (cases rule: follows.cases) (auto dest!: Cons.IH intro: follows.intros)
qed

text \<open>\<open>Scan\<close> over the memory log.\<close>

lemma run_on_scan_loop:
  "run_on w (scan_loop ids acc) l =
    (case run_on w (scan_loop ids acc) l of ((tr, _), _) \<Rightarrow>
       ((tr, acc @ scan_result (\<lambda>i. filter (\<lambda>n. ev_attemptID n = i) (log_events l)) ids, None), l))"
  by (induction ids arbitrary: acc) (auto simp: scan_result_def memory_EventsByAttempt_def split_beta prod_eq_iff)

lemma memory_scan:
  "snd (fst (run_on w (ScanIncompleteAttempts_Scan True) l)) =
    (scan_result (\<lambda>i. filter (\<lambda>n. ev_attemptID n = i) (log_events l)) (log_attemptOrder l), None)"
  using run_on_scan_loop [of w "log_attemptOrder l" "[]" l]
  by (simp add: ScanIncompleteAttempts_Scan_def memory_AttemptIDs_def split_beta prod_eq_iff)

text \<open>The call that hands an attempt over, and how a run is split there.\<close>

lemma split_at_first:
  assumes "xs @ d # ys = xs' @ d' # ys'" "P d" "P d'" "\<forall>x\<in>set xs. \<not> P x" "\<forall>x\<in>set xs'. \<not> P x"
  shows "xs = xs'"
proof -
  have "takeWhile (\<lambda>x. \<not> P x) (xs @ d # ys) = xs" "takeWhile (\<lambda>x. \<not> P x) (xs' @ d' # ys') = xs'"
    using assms(2-5) by (simp_all add: takeWhile_append)
  with assms(1) show ?thesis by simp
qed

lemma early_kinds: "k \<in> set (initial_kinds auth @ [EventActionAdmitted]) \<Longrightarrow> \<not> terminal_kind k"
  by (auto simp: initial_kinds_def terminal_kind_def split: if_splits)

lemma recorded_before_dispatch:
  assumes "plays (execute rt (Some u) input auth) (before @ DidDispatch c t a g ans # after) (r, e)"
  shows "(\<exists>c t es. DidBegin c (xi_Action input) t es (True, None) \<in> set before \<and> att_id t = xi_AttemptID input)
    \<and> told (xi_Action input) (xi_AttemptID input) (recorded before) (initial_kinds auth @ [EventActionAdmitted])"
proof -
  let ?a = "xi_Action input"
  have "dispatched (before @ DidDispatch c t a g ans # after) \<noteq> []" by simp
  from execute_order [OF assms this] obtain now t' es now' ev g' ans' rest where
    tr: "before @ DidDispatch c t a g ans # after = [DidNow now, DidBegin CallerCtx ?a t' es (True, None),
          DidAdmit CallerCtx ?a (AdmissionAdmitted, None), DidNow now',
          DidAppend (RecordCtx (ua_recordTimeout u)) [ev] None,
          DidResolve CallerCtx ?a (g', None), DidDispatch CallerCtx t' ?a g' ans'] @ rest"
    and es: "initialFacts rt ?a t' auth (UTC now) = Inr es" and id: "att_id t' = xi_AttemptID input"
    and ev: "ev_kind ev = EventActionAdmitted" "fact_of ?a (xi_AttemptID input) ev"
    and once: "dispatched (before @ DidDispatch c t a g ans # after) = [xi_AttemptID input]"
    by blast
  let ?pre = "[DidNow now, DidBegin CallerCtx ?a t' es (True, None), DidAdmit CallerCtx ?a (AdmissionAdmitted, None),
      DidNow now', DidAppend (RecordCtx (ua_recordTimeout u)) [ev] None, DidResolve CallerCtx ?a (g', None)]"
  have "dispatched before = []" using once by (auto simp: append_eq_Cons_conv)
  then have "\<forall>d\<in>set before. dispatched_by d = []" by (simp add: dispatched_def)
  then have quiet: "\<forall>d\<in>set before. \<not> dispatched_by d \<noteq> []" by blast
  have "before @ DidDispatch c t a g ans # after = ?pre @ DidDispatch CallerCtx t' ?a g' ans' # rest"
    using tr by simp
  then have "before = ?pre"
    by (rule split_at_first [where P = "\<lambda>d. dispatched_by d \<noteq> []"]) (use quiet in simp_all)
  moreover have "told ?a (xi_AttemptID input) es (initial_kinds auth)" using initialFacts_told [OF es] id by simp
  ultimately show ?thesis using ev id by (auto simp: told_def)
qed

text \<open>C19: suppose the process stops at any point after \<open>Execute\<close> has handed an attempt to the provider and before
  the journal has accepted another fact (a crash, a lost write): \<open>seen\<close> are the calls made until then, of a
  run that would have gone on with \<open>lost\<close>. If the journal is the memory log and knew nothing of the
  attempt, a scan of the log as the run left it succeeds and reports the attempt under its action.\<close>

theorem lost_dispatch_is_incomplete:
  assumes "plays (execute rt (Some u) input auth) (seen @ lost) (r, e)"
    and "seen = before @ DidDispatch c t a g ans # after" and "recorded after = []"
    and "log_inv l" and "\<forall>n\<in>set (log_events l). ev_attemptID n \<noteq> xi_AttemptID input"
    and "follows memory_BeginAttempt memory_AppendAll l seen l'"
  shows "\<exists>items. snd (fst (run_on w (ScanIncompleteAttempts_Scan True) l')) = (items, None)
    \<and> \<lparr>ia_ActionID = act_id (xi_Action input), ia_AttemptID = xi_AttemptID input\<rparr> \<in> set items"
proof -
  let ?i = "xi_AttemptID input" and ?a = "xi_Action input"
  let ?mine = "filter (\<lambda>n. ev_attemptID n = ?i) (log_events l')"
  from recorded_before_dispatch [of rt u input auth before c t a g ans "after @ lost" r e] assms(1,2)
  obtain c' t' es where claim: "DidBegin c' ?a t' es (True, None) \<in> set seen" "att_id t' = ?i"
    and told: "told ?a ?i (recorded seen) (initial_kinds auth @ [EventActionAdmitted])"
    using assms(3) by auto
  have claimed: "?i \<in> set (log_attemptOrder l')" using memory.follows_claims [OF assms(6,4)] claim by metis
  have ext: "extends (log_events l) (recorded seen) (log_events l')"
    using memory.follows_facts [OF assms(6,4)] by (simp add: list_all_iff)
  have mine: "\<exists>x\<in>set (recorded seen). same_fact n x" if "n \<in> set ?mine" for n
    using extends_source [OF ext, of n] that assms(5) by auto
  have kinds: "ev_kind n \<in> set (initial_kinds auth @ [EventActionAdmitted]) \<and> ev_actionID n = act_id ?a" if n: "n \<in> set ?mine" for n
  proof -
    obtain x where x: "x \<in> set (recorded seen)" "same_fact n x" using mine [OF n] by blast
    then have "ev_kind x \<in> set (map ev_kind (recorded seen))" by simp
    then have "ev_kind x \<in> set (initial_kinds auth @ [EventActionAdmitted])" using told by (simp only: told_def)
    moreover have "fact_of ?a ?i x" using told x(1) by (simp add: told_def list_all_iff)
    ultimately show ?thesis using x(2) by (simp add: same_fact_def fact_of_def)
  qed
  obtain x where x: "x \<in> set (recorded seen)" "ev_kind x = EventAttemptStarted"
  proof -
    have "EventAttemptStarted \<in> set (map ev_kind (recorded seen))" using told by (simp add: told_def initial_kinds_def)
    then show thesis using that by auto
  qed
  obtain n where n: "n \<in> set (log_events l')" "same_fact n x" using extends_recorded [OF ext x(1)] by blast
  have "n \<in> set ?mine" "ev_kind n = EventAttemptStarted"
    using n x told by (auto simp: same_fact_def told_def list_all_iff fact_of_def)
  moreover have "\<forall>k\<in>set (map ev_kind ?mine). \<not> terminal_kind k"
  proof
    fix k assume "k \<in> set (map ev_kind ?mine)"
    then obtain x where x: "x \<in> set ?mine" "k = ev_kind x" by auto
    with kinds early_kinds show "\<not> terminal_kind k" by blast
  qed
  moreover have ne: "?mine \<noteq> []" using \<open>n \<in> set ?mine\<close> by (metis empty_iff empty_set)
  moreover have "ev_actionID (last ?mine) = act_id ?a" using kinds [OF last_in_set [OF ne]] by blast
  moreover have "EventAttemptStarted \<in> set (map ev_kind ?mine)" using calculation(1,2) by (metis image_eqI list.set_map)
  ultimately have "incomplete ?mine = (act_id ?a, True)" unfolding incomplete_spec by simp
  with claimed show ?thesis unfolding memory_scan by (force simp: scan_result_def)
qed

text \<open>The example is cut right after the hand-over.\<close>

lemma lost_dispatch_is_incomplete_witness:
  "\<exists>seen lost r l' items. plays (Execute mirror_rt (Some example_use_case) example_input) (seen @ lost) (r, None)
     \<and> follows memory_BeginAttempt memory_AppendAll New_Log seen l' \<and> dispatched seen = [''t'']
     \<and> snd (fst (run_on example_ports (ScanIncompleteAttempts_Scan True) l')) = (items, None)
     \<and> \<lparr>ia_ActionID = ''a'', ia_AttemptID = ''t''\<rparr> \<in> set items"
proof -
  obtain tr r l1 where fol: "follows memory_BeginAttempt memory_AppendAll New_Log tr l1"
    and pl: "plays (Execute mirror_rt (Some example_use_case) example_input) tr (r, None)" and once: "dispatched tr = [''t'']"
    using mirror_world by blast
  have "concat (map dispatched_by tr) \<noteq> []" using once by (simp add: dispatched_def)
  then obtain d where "d \<in> set tr" "dispatched_by d \<noteq> []" by auto
  moreover then obtain before lost where "tr = before @ d # lost" by (metis split_list)
  moreover obtain c t a g ans where "d = DidDispatch c t a g ans" using calculation(2) by (cases d) simp_all
  ultimately have tr: "tr = (before @ [DidDispatch c t a g ans]) @ lost" by simp
  let ?seen = "before @ [DidDispatch c t a g ans]"
  obtain l' where cut: "follows memory_BeginAttempt memory_AppendAll New_Log ?seen l'"
    using follows_prefix [OF fol [unfolded tr]] by blast
  have play: "plays (execute mirror_rt (Some example_use_case) example_input None) (?seen @ lost) (r, None)"
    using pl unfolding tr Execute_def .
  have "\<forall>n\<in>set (log_events New_Log). ev_attemptID n \<noteq> xi_AttemptID example_input" by (simp add: New_Log_def)
  from lost_dispatch_is_incomplete [OF play refl _ log_inv_New this cut, of example_ports] obtain items where
    "snd (fst (run_on example_ports (ScanIncompleteAttempts_Scan True) l')) = (items, None)"
    "\<lparr>ia_ActionID = ''a'', ia_AttemptID = ''t''\<rparr> \<in> set items"
    by (auto simp: example_input_def example_action_def)
  moreover have "dispatched ?seen = [''t'']" using once unfolding tr by (cases "att_id t = ''t''") (auto simp: append_eq_Cons_conv)
  ultimately show ?thesis using pl cut tr by blast
qed

end
