(* ===== verification/Identity_Properties.thy ===== *)
theory Identity_Properties
  imports System_Properties
begin

text \<open>
  The identities of facts (\<open>deterministicEventID\<close> of \<open>execution/events.go\<close>): what they are a function
  of, when they tell facts apart, and what becomes of two executions whose identities share a preimage.
\<close>

lemma execute_recorded_identified:
  assumes "plays (execute rt use_case input auth) tr w" and "x \<in> set (recorded tr)"
  shows "identified rt (xi_Action input) (xi_AttemptID input) x"
proof -
  obtain d where "d \<in> set tr" "x \<in> set (recorded_by d)" using assms(2) by (auto simp: recorded_def)
  moreover have "\<forall>d\<in>set tr. offers_identified rt (xi_Action input) (xi_AttemptID input) d"
    using only_plays [OF assms(1) execute_identified] .
  ultimately show ?thesis using recorded_offered [of d] by (auto simp: list_all_iff)
qed

text \<open>The identity of a fact is the same in every run: whatever the clock, the authorization and the
  ports answer, the facts of one kind that runs of \<open>Execute\<close> record for the same action and attempt
  carry the same identity, so a journal that is sent them again can tell.\<close>

lemma execute_identities_deterministic:
  assumes "plays (execute rt u input auth) tr w" and "plays (execute rt u' input' auth') tr' w'"
    and "act_id (xi_Action input) = act_id (xi_Action input')" and "xi_AttemptID input = xi_AttemptID input'"
    and "x \<in> set (recorded tr)" and "y \<in> set (recorded tr')" and "ev_kind x = ev_kind y"
  shows "ev_id x = ev_id y"
  using execute_recorded_identified [OF assms(1,5)] execute_recorded_identified [OF assms(2,6)] assms(3,4,7)
  by (simp add: identified_def)

lemma requested_recorded:
  assumes "plays (execute rt (Some u) input auth) tr (r, e)" and "\<not> has_stage StageRecord e"
    and "\<not> has_stage StageValidate e" and "dispatch_answers_ok tr"
  shows "\<exists>x\<in>set (recorded tr). ev_kind x = EventActionRequested"
proof -
  obtain adm s where "told (xi_Action input) (xi_AttemptID input) (recorded tr)
      (initial_kinds auth @ admission_fact_kinds adm @ dispatch_fact_kinds s)"
    using execute_told [OF assms] by blast
  then have "EventActionRequested \<in> set (map ev_kind (recorded tr))" by (simp add: told_def initial_kinds_def)
  then show ?thesis by force
qed

definition later_ports :: ports where
  "later_ports = example_ports\<lparr>pt_now := \<lparr>t_ns = 1, t_off = 0\<rparr>\<rparr>"

definition later_run :: "call list \<times> ExecuteResult \<times> err option" where
  "later_run = run later_ports (Execute example_rt (Some example_use_case) example_input)"

lemma later_run_facts:
  "plays (execute example_rt (Some example_use_case) example_input None) (fst later_run) (fst (snd later_run), None)"
  "dispatch_answers_ok (fst later_run)"
proof -
  have now: "\<not> IsZero (pt_now later_ports)" "printable_time (UTC (pt_now later_ports))"
    using example_time(1) by (simp_all add: later_ports_def IsZero_def UTC_def)
  have "snd (snd later_run) = None"
    using undisturbed_run [where w = later_ports and rt = example_rt and u = example_use_case,
        OF example_conditions(1-3) now _ _ _ _ _ example_conditions(11-14)]
      example_conditions(6-10)
    by (simp add: later_run_def later_ports_def example_input_def errorsJoin_def List.map_filter_def split_beta)
  moreover have "plays (execute example_rt (Some example_use_case) example_input None) (fst later_run) (snd later_run)"
    unfolding later_run_def Execute_def by (rule run_plays)
  ultimately show "plays (execute example_rt (Some example_use_case) example_input None) (fst later_run) (fst (snd later_run), None)"
    by (metis prod.collapse)
  show "dispatch_answers_ok (fst later_run)"
    unfolding dispatch_answers_ok_def later_run_def
    using run_dispatch_answer [of _ _ _ _ _ later_ports] example_conditions(10,11) by (fastforce simp: later_ports_def)
qed

lemma execute_identities_deterministic_witness:
  "\<exists>x\<in>set (recorded (fst example_run)). \<exists>y\<in>set (recorded (fst later_run)).
     ev_kind x = EventActionRequested \<and> ev_kind y = EventActionRequested \<and> ev_id x = ev_id y"
proof -
  have none: "\<not> has_stage StageRecord None" "\<not> has_stage StageValidate None" by (simp_all add: has_stage_def)
  obtain x where x: "x \<in> set (recorded (fst example_run))" "ev_kind x = EventActionRequested"
    using requested_recorded [OF example_run_facts(1) none example_run_facts(4)] by blast
  obtain y where y: "y \<in> set (recorded (fst later_run))" "ev_kind y = EventActionRequested"
    using requested_recorded [OF later_run_facts(1) none later_run_facts(2)] by blast
  from execute_identities_deterministic [OF example_run_facts(1) later_run_facts(1) refl refl x(1) y(1)] x y
  show ?thesis by auto
qed

text \<open>C21: identities tell facts apart: when no action, attempt or kind holds a NUL byte and the digest
  separates the two preimages in its first 16 bytes, facts of different action, attempt, kind or
  qualifier have different identities.\<close>

theorem event_identity_injective:
  assumes "deterministicEventID rt a t k q = deterministicEventID rt a' t' k' q'"
    and "nul \<notin> set a \<union> set t \<union> set k" and "nul \<notin> set a' \<union> set t' \<union> set k'"
    and "take 16 (rt_sha256 rt (event_preimage a t k q)) = take 16 (rt_sha256 rt (event_preimage a' t' k' q'))
      \<Longrightarrow> event_preimage a t k q = event_preimage a' t' k' q'"
  shows "a = a' \<and> t = t' \<and> k = k' \<and> q = q'"
proof -
  have "take 16 (rt_sha256 rt (event_preimage a t k q)) = take 16 (rt_sha256 rt (event_preimage a' t' k' q'))"
    using assms(1) hex_encode_inj by (simp add: deterministicEventID_def Let_def)
  from assms(4) [OF this] event_preimage_inj assms(2,3) show ?thesis by blast
qed

lemma event_identity_injective_witness:
  "deterministicEventID example_rt ''a'' ''t'' ''k'' [] \<noteq> deterministicEventID example_rt ''a'' ''u'' ''k'' []"
proof
  assume eq: "deterministicEventID example_rt ''a'' ''t'' ''k'' [] = deterministicEventID example_rt ''a'' ''u'' ''k'' []"
  have "''a'' = ''a'' \<and> ''t'' = ''u'' \<and> ''k'' = ''k'' \<and> [] = ([] :: string)"
    by (rule event_identity_injective [OF eq]) (simp_all add: nul_def example_rt_def event_preimage_def)
  then show False by simp
qed

subsection \<open>Identities with a NUL byte\<close>

text \<open>How a run of \<open>execute\<close> begins: it reads the clock and claims, and goes on only if the claim was granted.\<close>

lemma execute_claim:
  assumes "plays (execute rt (Some u) input auth) tr (r, e)"
  shows "\<exists>now. (tr = [DidNow now] \<and> e \<noteq> None)
    \<or> (\<exists>t es ans rest. tr = [DidNow now, DidBegin CallerCtx (xi_Action input) t es ans] @ rest
        \<and> att_id t = xi_AttemptID input \<and> initialFacts rt (xi_Action input) t auth (UTC now) = Inr es
        \<and> (ans = (True, None) \<or> rest = [] \<and> e \<noteq> None))"
proof -
  let ?a = "xi_Action input"
  obtain now tr1 where tr: "tr = DidNow now # tr1"
    and p: "plays (case NewExecutionAttempt (attemptSpec input auth (UTC now)) of
       Inl err \<Rightarrow> Done (zero_result, stageError StageValidate (errorsJoin [Some (Sentinel ErrInvalidInput), Some err]))
     | Inr attempt \<Rightarrow>
         (case initialFacts rt ?a attempt auth (UTC now) of
            Inl err \<Rightarrow> Done (started_result ?a attempt, stageError StageRecord (Some err))
          | Inr initial \<Rightarrow> BeginAttempt CallerCtx ?a attempt initial (\<lambda>(claimed, err).
              if err \<noteq> None then Done (started_result ?a attempt, stageError StageRecord err)
              else if \<not> claimed
              then Done (started_result ?a attempt, stageError StageValidate (Some (Sentinel ErrAttemptAlreadyStarted)))
              else execute_admit rt u ?a attempt (started_result ?a attempt)))) tr1 (r, e)"
    using assms unfolding execute_def Let_def by (auto simp only: option.case plays_calls)
  show ?thesis
  proof (cases "\<exists>t es. NewExecutionAttempt (attemptSpec input auth (UTC now)) = Inr t \<and> initialFacts rt ?a t auth (UTC now) = Inr es")
    case False
    then show ?thesis using p tr by (auto simp del: not_None_eq split: sum.splits)
  next
    case True
    then obtain t es where t: "NewExecutionAttempt (attemptSpec input auth (UTC now)) = Inr t"
      and es: "initialFacts rt ?a t auth (UTC now) = Inr es" by blast
    then obtain claimed err rest where "tr1 = DidBegin CallerCtx ?a t es (claimed, err) # rest" and
      "plays (if err \<noteq> None then Done (started_result ?a t, stageError StageRecord err)
              else if \<not> claimed then Done (started_result ?a t, stageError StageValidate (Some (Sentinel ErrAttemptAlreadyStarted)))
              else execute_admit rt u ?a t (started_result ?a t)) rest (r, e)"
      using p by (auto simp only: sum.case plays_calls prod.case)
    moreover have "att_id t = xi_AttemptID input" using t by (simp add: NewExecutionAttempt_Inr_iff attemptSpec_def)
    ultimately show ?thesis using es tr by (auto split: if_splits)
  qed
qed

lemma started_recorded:
  assumes "initialFacts rt a t auth now = Inr es"
  shows "\<exists>x\<in>set es. ev_id x = deterministicEventID rt (act_id a) (att_id t) EventAttemptStarted [] \<and> ev_actionID x = act_id a"
proof -
  have "EventAttemptStarted \<in> set (map ev_kind es)" using initialFacts_told [OF assms] by (simp add: told_def initial_kinds_def)
  then obtain x where x: "x \<in> set es" "ev_kind x = EventAttemptStarted" by auto
  moreover have "identified rt a (att_id t) x" using initialFacts_identified [OF assms] x(1) by (simp add: list_all_iff)
  moreover have "fact_of a (att_id t) x" using initialFacts_told [OF assms] x(1) by (simp add: told_def list_all_iff)
  ultimately show ?thesis by (auto simp: identified_def fact_of_def execute_qualifier_def kind_defs)
qed

lemma same_preimage:
  "deterministicEventID rt (x @ nul # y) z k q = deterministicEventID rt x (y @ nul # z) k q"
  by (simp add: deterministicEventID_def event_preimage_def)

text \<open>The started fact of an execution stays in the log, under the identity it shares with the other pair.\<close>

lemma started_kept:
  assumes "log_inv l" and "act_id (xi_Action input) = x @ nul # y" and "xi_AttemptID input = z"
    and "plays (execute rt (Some u) input auth) tr (r, e)" and "recorded tr \<noteq> []"
    and "follows memory_BeginAttempt memory_AppendAll l (tr @ between) l1"
  shows "log_inv l1 \<and> (\<exists>g\<in>set (log_events l1). ev_actionID g = x @ nul # y
    \<and> ev_id g = deterministicEventID rt x (y @ nul # z) EventAttemptStarted [])"
proof -
  obtain now t es ans rest where tr: "tr = [DidNow now, DidBegin CallerCtx (xi_Action input) t es ans] @ rest"
    and t: "att_id t = z" and es: "initialFacts rt (xi_Action input) t auth (UTC now) = Inr es"
    and ans: "ans = (True, None) \<or> rest = []"
    using execute_claim [OF assms(4)] assms(3,5) by auto
  have granted: "fst ans" using ans assms(5) by (cases ans) (auto simp: tr split: if_splits)
  obtain f where f: "f \<in> set es" "ev_id f = deterministicEventID rt (x @ nul # y) z EventAttemptStarted []" "ev_actionID f = x @ nul # y"
    using started_recorded [OF es] t assms(2) by auto
  have grown: "log_inv l1" "extends (log_events l) (recorded (tr @ between)) (log_events l1)"
    using memory.follows_facts [OF assms(6,1)] by (simp_all add: list_all_iff)
  have "f \<in> set (recorded (tr @ between))" using f(1) granted by (cases ans) (simp add: tr)
  then obtain g where "g \<in> set (log_events l1)" "same_fact g f" using extends_recorded [OF grown(2)] by blast
  then show ?thesis using grown(1) f same_preimage by (auto simp: same_fact_def)
qed

text \<open>An execution with valid input and a clock that can be written gets as far as its claim.\<close>

lemma valid_start:
  assumes "action_ok a" "printable_time (act_requestedAt a)" "text_ok i" "\<not> IsZero now" "printable_time now"
  shows "\<exists>t es. NewExecutionAttempt (attemptSpec \<lparr>xi_Action = a, xi_AttemptID = i\<rparr> None now) = Inr t
    \<and> initialFacts rt a t None now = Inr es \<and> att_id t = i \<and> att_actionID t = act_id a"
proof -
  let ?t = "\<lparr>att_id = i, att_actionID = act_id a, att_startedAt = now, att_recoveryOf = []\<rparr>"
  have aid: "text_ok (act_id a)" using assms(1) by (simp add: action_ok_def)
  then have tok: "attempt_ok ?t" using assms by (simp add: attempt_ok_def)
  then have t: "NewExecutionAttempt (attemptSpec \<lparr>xi_Action = a, xi_AttemptID = i\<rparr> None now) = Inr ?t"
    by (simp add: NewExecutionAttempt_Inr_iff attemptSpec_def)
  obtain e1 where "actionRequestedEvent rt a i now = Inr e1"
    using actionRequestedEvent_succeeds [OF assms(1-4)] by blast
  moreover obtain e2 where "attemptStartedEvent rt a ?t now = Inr e2"
    using attemptStartedEvent_succeeds [OF tok aid _ assms(4)] assms(5) by auto
  ultimately show ?thesis using t by (auto simp: initialFacts_def)
qed

lemma claim_conflict_error:
  assumes "log_inv l" "y \<in> set (log_events l)" "x \<in> set es" "ev_id y = ev_id x" "\<not> same_fact y x"
    and "att_actionID t = act_id a" "\<forall>b. log_actions l (act_id a) = Some b \<longrightarrow> sameAction b a"
    and "att_id t \<notin> set (log_attemptOrder l)" "\<forall>x\<in>set es. ev_attemptID x = att_id t \<and> ev_actionID x = act_id a"
  shows "\<exists>err. memory_BeginAttempt None a t es l = ((False, Some err), l) \<and> errorsIs err Memory_ErrEventConflict"
proof -
  have "\<not> group_agrees (log_events l) es" using assms(2-5) by (auto simp: group_agrees_def)
  then obtain err where err: "preflight l es = Some err" using preflight_None_iff [OF assms(1), of es] by auto
  have "att_id t \<notin> log_attempts l" using assms(1,8) by (simp add: log_inv_def)
  then have "memory_BeginAttempt None a t es l = ((False, Some err), l)"
    using assms(6,7,9) err by (auto simp: memory_BeginAttempt_def list_ex_iff split: option.split)
  with preflight_Some [OF err] show ?thesis by blast
qed

text \<open>C22: because the separator of the preimage of an event identity is a NUL byte and the constructors accept
  identities with one, two different pairs of identities collide: the action \<open>x NUL y\<close> with the attempt \<open>z\<close>, and
  the action \<open>x\<close> with the attempt \<open>y NUL z\<close>. Their requested facts differ, as the attempt is a qualifier there, but
  all other facts of an execution share identities, whatever the digest. So once the first pair was
  executed over a memory log as far as its claim, no execution of the second can ever start there: with
  a valid action, a new attempt and no other intent in its way, \<open>Execute\<close> fails in the record stage with
  \<open>ErrEventConflict\<close>, hands nothing over and leaves the log as it is.\<close>

theorem event_identity_ambiguous:
  assumes "log_inv l" and "act_id (xi_Action input) = x @ nul # y" and "xi_AttemptID input = z"
    and "plays (execute rt (Some u) input auth) tr (r, e)" and "recorded tr \<noteq> []"
    and "follows memory_BeginAttempt memory_AppendAll l (tr @ between) l1"
    and "act_id a = x" and "action_ok a" and "printable_time (act_requestedAt a)" and "text_ok (y @ nul # z)"
    and "\<not> IsZero (pt_now w)" and "printable_time (UTC (pt_now w))"
    and "\<forall>b. log_actions l1 x = Some b \<longrightarrow> sameAction b a" and "y @ nul # z \<notin> set (log_attemptOrder l1)"
  shows "case run_on w (Execute rt (Some u') \<lparr>xi_Action = a, xi_AttemptID = y @ nul # z\<rparr>) l1 of
    ((tr', r', e'), l2) \<Rightarrow> error_is e' Memory_ErrEventConflict \<and> has_stage StageRecord e'
      \<and> dispatched tr' = [] \<and> l2 = l1"
proof -
  obtain g where grown: "log_inv l1" and g: "g \<in> set (log_events l1)" "ev_actionID g = x @ nul # y"
    "ev_id g = deterministicEventID rt x (y @ nul # z) EventAttemptStarted []"
    using started_kept [OF assms(1-6)] by blast
  have "\<not> IsZero (UTC (pt_now w))" using assms(11) by simp
  from valid_start [OF assms(8-10) this assms(12), of rt] obtain t es where
    t: "NewExecutionAttempt (attemptSpec \<lparr>xi_Action = a, xi_AttemptID = y @ nul # z\<rparr> None (UTC (pt_now w))) = Inr t"
    "att_id t = y @ nul # z" "att_actionID t = act_id a"
    and es: "initialFacts rt a t None (UTC (pt_now w)) = Inr es" by blast
  obtain h where h: "h \<in> set es" "ev_id h = deterministicEventID rt x (y @ nul # z) EventAttemptStarted []" "ev_actionID h = x"
    using started_recorded [OF es] t(2) assms(7) by auto
  have differ: "ev_id g = ev_id h" "\<not> same_fact g h" using g h by (auto simp: same_fact_def)
  have own: "\<forall>x\<in>set es. ev_attemptID x = att_id t \<and> ev_actionID x = act_id a"
    using initialFacts_told [OF es] by (auto simp: told_def list_all_iff fact_of_def)
  have free: "\<forall>b. log_actions l1 (act_id a) = Some b \<longrightarrow> sameAction b a" "att_id t \<notin> set (log_attemptOrder l1)"
    using assms(7,13,14) t(2) by simp_all
  from claim_conflict_error [OF grown g(1) h(1) differ t(3) free own] obtain err where
    "memory_BeginAttempt None a t es l1 = ((False, Some err), l1)" "errorsIs err Memory_ErrEventConflict" by blast
  then show ?thesis
    using t(1) es by (simp add: Execute_def execute_def Let_def has_stage_def)
qed

subsection \<open>Two such executions\<close>

definition first_action :: Action where
  "first_action = example_action\<lparr>act_id := ''a'' @ nul # ''b''\<rparr>"

lemma first_action_ok: "action_ok first_action" "text_ok (''b'' @ nul # ''t'')"
proof -
  have "text_ok (''a'' @ nul # ''b'')" "text_ok (''b'' @ nul # ''t'')"
    by (rule visible_text_ok; simp add: visible_def code_def)+
  then show "action_ok first_action" "text_ok (''b'' @ nul # ''t'')"
    using example_values(1) by (simp_all add: first_action_def action_ok_def)
qed

lemma first_collision_free: "collision_free mirror_rt first_action ''t'' New_Log"
proof -
  let ?digest = "\<lambda>k. take 16 (rev (event_preimage (''a'' @ nul # ''b'') ''t'' k (execute_qualifier ''t'' k)))"
  have "distinct (map ?digest event_kinds)"
    by (simp add: event_kinds_def kind_defs event_preimage_def execute_qualifier_def)
  then have "distinct (map (\<lambda>d. ''event-'' @ hex_encode d) (map ?digest event_kinds))"
    by (subst distinct_map) (auto intro: inj_onI dest: hex_encode_inj)
  moreover have "fact_identity mirror_rt first_action ''t'' = (\<lambda>d. ''event-'' @ hex_encode d) \<circ> ?digest"
    by (simp add: fun_eq_iff fact_identity_def deterministicEventID_def Let_def mirror_rt_def first_action_def)
  ultimately show ?thesis by (simp add: collision_free_def New_Log_def)
qed

lemma appended_actions: "log_actions (appendPrepared l es) = log_actions l"
  by (induction es arbitrary: l) (simp_all split: option.split)

text \<open>A run that claims for one action and attempt only leaves the intents of other actions and the claims of
  other attempts as they were.\<close>

lemma follows_other:
  assumes "follows memory_BeginAttempt memory_AppendAll l tr l'" and "log_inv l"
    and "\<forall>d\<in>set tr. claims_for a i d" and "j \<noteq> act_id a"
  shows "log_actions l' j = log_actions l j \<and> set (log_attemptOrder l') \<subseteq> insert i (set (log_attemptOrder l))"
  using assms
proof (induction rule: follows.induct)
  case (begin_attempt x b t es s r s1 tr s' c)
  obtain won er where r: "r = (won, er)" by (cases r)
  have "log_inv s1 \<and> log_actions s1 j = log_actions s j \<and> set (log_attemptOrder s1) \<subseteq> insert i (set (log_attemptOrder s))"
  proof (cases won)
    case True
    then show ?thesis
      using memory_begin_won [of s x b t es er s1] memory_begin_intent [of s x b t es er s1] begin_attempt r by auto
  next
    case False
    then show ?thesis using memory_begin_lost [of x b t es s er s1] begin_attempt r by auto
  qed
  with begin_attempt show ?case by auto
next
  case (append_all x es s e s1 tr s' c)
  have "log_actions s1 = log_actions s"
    using append_all(1) appended_actions by (auto simp: memory_AppendAll_def split: if_splits option.splits)
  then show ?case using append_all memory_append_inv [of s x es e s1] by auto
qed auto

lemma event_identity_ambiguous_witness:
  "\<exists>tr r l1. plays (Execute mirror_rt (Some example_use_case) \<lparr>xi_Action = first_action, xi_AttemptID = ''t''\<rparr>) tr (r, None)
    \<and> follows memory_BeginAttempt memory_AppendAll New_Log tr l1 \<and> dispatched tr = [''t'']
    \<and> (case run_on example_ports (Execute mirror_rt (Some example_use_case)
          \<lparr>xi_Action = example_action, xi_AttemptID = ''b'' @ nul # ''t''\<rparr>) l1 of
        ((tr', r', e'), l2) \<Rightarrow> error_is e' Memory_ErrEventConflict \<and> has_stage StageRecord e'
          \<and> dispatched tr' = [] \<and> l2 = l1)"
proof -
  let ?in = "\<lparr>xi_Action = first_action, xi_AttemptID = ''t''\<rparr>"
  have p: "printable_time (act_requestedAt first_action)" using mirror_conditions(2) by (simp add: first_action_def)
  obtain tr r l1 where fol: "follows memory_BeginAttempt memory_AppendAll New_Log tr l1"
    and pl: "plays (Execute mirror_rt (Some example_use_case) ?in) tr (r, None)" and d: "dispatched tr = [''t'']"
    using memory_world_run [OF first_action_ok(1) p mirror_conditions(3-12) log_inv_New _ _ _ first_collision_free, of example_use_case]
    by (fastforce simp: New_Log_def)
  have ex: "plays (execute mirror_rt (Some example_use_case) ?in None) tr (r, None)" using pl by (simp add: Execute_def)
  obtain now t es rest where tr: "tr = [DidNow now, DidBegin CallerCtx first_action t es (True, None)] @ rest"
    and es: "initialFacts mirror_rt first_action t None (UTC now) = Inr es"
    using execute_claim [OF ex] by auto
  have claimed: "recorded tr \<noteq> []" using started_recorded [OF es] by (auto simp: tr)
  have other: "log_actions l1 ''a'' = None" "set (log_attemptOrder l1) \<subseteq> {''t''}"
    using follows_other [OF fol log_inv_New, of first_action "''t''" "''a''"] only_plays [OF ex execute_claims_for]
    by (auto simp: first_action_def New_Log_def)
  have fol': "follows memory_BeginAttempt memory_AppendAll New_Log (tr @ []) l1" using fol by simp
  have a: "act_id (xi_Action ?in) = ''a'' @ nul # ''b''" "xi_AttemptID ?in = ''t''" "act_id example_action = ''a''"
    by (simp_all add: first_action_def example_action_def)
  have second: "case run_on example_ports (Execute mirror_rt (Some example_use_case)
          \<lparr>xi_Action = example_action, xi_AttemptID = ''b'' @ nul # ''t''\<rparr>) l1 of
        ((tr', r', e'), l2) \<Rightarrow> error_is e' Memory_ErrEventConflict \<and> has_stage StageRecord e'
          \<and> dispatched tr' = [] \<and> l2 = l1"
    by (rule event_identity_ambiguous [OF log_inv_New a(1,2) ex claimed fol' a(3) mirror_conditions(1,2) first_action_ok(2)
          mirror_conditions(4,5)]) (use other in auto)
  show ?thesis by (rule exI [of _ tr], rule exI [of _ r], rule exI [of _ l1], intro conjI; fact pl fol d second)
qed

end
