(* ===== verification/Exec_Errors.thy ===== *)
theory Exec_Errors
  imports Execute_Theorems Exec_Event_Laws
begin

text \<open>
  Which sentinels the error of a use case can wrap. \<open>yields P R p\<close> is a weakest precondition over answers:
  when every call of \<open>p\<close> is answered as \<open>P\<close> allows, \<open>p\<close> returns a value with \<open>R\<close>.
\<close>

primrec yields :: "(call \<Rightarrow> bool) \<Rightarrow> ('a \<Rightarrow> bool) \<Rightarrow> 'a prog \<Rightarrow> bool" where
  "yields P R (Done v) = R v"
| "yields P R (Now k) = (\<forall>r. P (DidNow r) \<longrightarrow> yields P R (k r))"
| "yields P R (BeginAttempt c a t es k) = (\<forall>r. P (DidBegin c a t es r) \<longrightarrow> yields P R (k r))"
| "yields P R (AppendAll c es k) = (\<forall>r. P (DidAppend c es r) \<longrightarrow> yields P R (k r))"
| "yields P R (EventsByAttempt c i k) = (\<forall>r. P (DidEvents c i r) \<longrightarrow> yields P R (k r))"
| "yields P R (ActionByID c i k) = (\<forall>r. P (DidAction c i r) \<longrightarrow> yields P R (k r))"
| "yields P R (AttemptIDs c k) = (\<forall>r. P (DidAttempts c r) \<longrightarrow> yields P R (k r))"
| "yields P R (Admit c a k) = (\<forall>r. P (DidAdmit c a r) \<longrightarrow> yields P R (k r))"
| "yields P R (Resolve c a k) = (\<forall>r. P (DidResolve c a r) \<longrightarrow> yields P R (k r))"
| "yields P R (Dispatch c t a g k) = (\<forall>r. P (DidDispatch c t a g r) \<longrightarrow> yields P R (k r))"
| "yields P R (Observe c a g k) = (\<forall>r. P (DidObserve c a g r) \<longrightarrow> yields P R (k r))"
| "yields P R (Verify c a os u k) = (\<forall>r. P (DidVerify c a os u r) \<longrightarrow> yields P R (k r))"

lemma yields_advance: "yields P R p \<Longrightarrow> advance p c = Some q \<Longrightarrow> P c \<Longrightarrow> yields P R q"
  by (cases p) (auto simp: advance_iff)

lemma yields_plays: "plays p tr w \<Longrightarrow> yields P R p \<Longrightarrow> list_all P tr \<Longrightarrow> R w"
  by (induction rule: plays.induct) (auto dest: yields_advance)

lemma yields_branch:
  "yields P R (if b then p else q) \<longleftrightarrow> (if b then yields P R p else yields P R q)"
  "yields P R (case z of Inl x \<Rightarrow> f x | Inr y \<Rightarrow> g y) \<longleftrightarrow>
     (case z of Inl x \<Rightarrow> yields P R (f x) | Inr y \<Rightarrow> yields P R (g y))"
  by (simp_all split: sum.split)

text \<open>The sentinels a transport tells apart. No error a port returns may wrap one, except that a journal
  reports a conflict of action identities.\<close>

definition api_sentinels :: "sentinel set" where
  "api_sentinels = {ErrInvalidInput, ErrRecoveryNotAuthorized, ErrInvalidAction, ErrAttemptNotFound,
     ErrAttemptAlreadyStarted, ErrActionMismatch, ErrActionIdentityConflict}"

definition plain :: "err option \<Rightarrow> bool" where
  "plain e \<longleftrightarrow> (\<forall>s\<in>api_sentinels. \<not> error_is e s)"

lemma plain_simps [simp]:
  "plain None" "plain (stageError st e) = plain e" "plain (Some (StageError st x)) = plain (Some x)"
  "plain (errorsJoin es) \<longleftrightarrow> (\<forall>e\<in>set es. plain e)"
  by (auto simp: plain_def)

definition port_plain :: "call \<Rightarrow> bool" where
  "port_plain did =
    (case did of
       DidBegin c a t es ans \<Rightarrow> \<forall>s\<in>api_sentinels. error_is (snd ans) s \<longrightarrow> s = ErrActionIdentityConflict
     | DidAppend c es ans \<Rightarrow> plain ans
     | DidAdmit c a ans \<Rightarrow> plain (snd ans)
     | DidResolve c a ans \<Rightarrow> plain (snd ans)
     | DidDispatch c t a g ans \<Rightarrow> plain (snd ans)
     | _ \<Rightarrow> True)"

lemma plain_sentinel: "(\<And>t. errorsIs e t \<longleftrightarrow> t = s) \<Longrightarrow> s \<notin> api_sentinels \<Longrightarrow> plain (Some e)"
  by (auto simp: plain_def)

lemma json_marshal_Inl:
  "json_marshal v = Inl e \<Longrightarrow> \<not> errorsIs e t"
  "json_fields fs = Inl e \<Longrightarrow> \<not> errorsIs e t"
  "json_elements vs = Inl e \<Longrightarrow> \<not> errorsIs e t"
proof (induction v and fs and vs rule: json_marshal_json_fields_json_elements.induct)
  case (2 x)
  then show ?case by (auto simp: json_time_def split: sum.splits)
qed auto

lemma marshalPayload_plain: "marshalPayload v = Inl e \<Longrightarrow> plain (Some e)"
  by (simp add: marshalPayload_def plain_def json_marshal_Inl)

lemma newEvent_plain: "newEvent rt a t k q u w data = Inl e \<Longrightarrow> plain (Some e)"
  using NewExecutionEvent_Inl by (auto simp: newEvent_def Let_def plain_def api_sentinels_def)

lemma builder_errors_plain:
  "admissionEvent rt a t adm er now = Inl e \<Longrightarrow> plain (Some e)"
  "notDispatchedEvent rt a t er now = Inl e \<Longrightarrow> plain (Some e)"
  "dispatchEvents rt a t g d er now = Inl e \<Longrightarrow> plain (Some e)"
  "actionRequestedEvent rt a i now = Inl e \<Longrightarrow> plain (Some e)"
  "attemptStartedEvent rt a t now = Inl e \<Longrightarrow> plain (Some e)"
  "recoveryAuthorizedEvent rt a t au now = Inl e \<Longrightarrow> plain (Some e)"
  by (auto simp: admissionEvent_def notDispatchedEvent_def dispatchEvents_def actionRequestedEvent_def
      attemptStartedEvent_def recoveryAuthorizedEvent_def RecoveryOf_def Let_def
      dest: marshalPayload_plain newEvent_plain split: if_splits)

lemma initialFacts_plain: "initialFacts rt a t auth now = Inl e \<Longrightarrow> plain (Some e)"
  by (auto simp: initialFacts_def dest: builder_errors_plain split: option.splits)

lemma normalizeDispatch_plain: "plain (snd (normalizeDispatch d p i))"
proof -
  have "plain (Some e)" if "NewDispatchResult s = Inl e" for s e
    using NewDispatchResult_Inl [OF that] by (auto simp: plain_def api_sentinels_def)
  then show ?thesis
    by (auto simp: normalizeDispatch_def plain_def api_sentinels_def split: sum.splits)
qed

lemma normalizeAdmission_plain: "plain e \<Longrightarrow> plain (snd (normalizeAdmission s e))"
  by (auto simp: normalizeAdmission_def plain_def api_sentinels_def)

text \<open>After the claim, an execution ends with its attempt and an error without any of these sentinels.\<close>

definition executed :: "AttemptID \<Rightarrow> ExecuteResult \<times> err option \<Rightarrow> bool" where
  "executed i w \<longleftrightarrow> att_id (er_Attempt (fst w)) = i \<and> plain (snd w)"

lemma append_built_yields:
  assumes "\<And>e. built = Inl e \<Longrightarrow> plain (Some e)" "\<And>x. plain x \<Longrightarrow> R (f x)"
  shows "yields port_plain R (append_built u built (\<lambda>x. Done (f x)))"
  using assms by (auto simp: append_built_def appendAfterIO_def port_plain_def split: sum.split)

lemma execute_dispatch_executed:
  "att_id (er_Attempt res) = i \<Longrightarrow> yields port_plain (executed i) (execute_dispatch rt u a t g res)"
  using normalizeDispatch_plain
  by (auto simp: execute_dispatch_def Let_def split_beta port_plain_def executed_def
      intro!: append_built_yields dest: builder_errors_plain)

lemma execute_blocked_executed:
  assumes "att_id (er_Attempt res) = i" "plain cause"
  shows "yields port_plain (executed i) (execute_blocked rt u a t st cause res)"
proof -
  have "plain (Some e)" if "map_sum id (\<lambda>event. [event]) (notDispatchedEvent rt a t cause now) = Inl e" for e now
    using that builder_errors_plain(2) by (cases "notDispatchedEvent rt a t cause now") auto
  with assms show ?thesis
    by (auto simp: execute_blocked_def executed_def intro!: append_built_yields)
qed

lemma plain_unknown: "plain (Some (Sentinel ErrAdmissionUnknown))"
  by (simp add: plain_def api_sentinels_def)

lemma execute_decide_executed:
  assumes "att_id (er_Attempt res) = i" "plain er"
  shows "yields port_plain (executed i) (execute_decide rt u a t er res)"
  using assms
  by (auto simp: execute_decide_def execute_resolve_def Let_def split_beta yields_branch port_plain_def plain_unknown
      intro!: execute_blocked_executed execute_dispatch_executed)

lemma execute_admit_executed:
  assumes "att_id (er_Attempt res) = i"
  shows "yields port_plain (executed i) (execute_admit rt u a t res)"
proof -
  have step: "yields port_plain (executed i)
      (case admissionEvent rt a t st er now of
         Inl eventErr \<Rightarrow> Done (res', stageError StageRecord (Some eventErr))
       | Inr event \<Rightarrow> appendAfterIO u [event] (\<lambda>eventErr.
           if eventErr \<noteq> None
           then Done (res', errorsJoin [stageError StageAdmit er, stageError StageRecord eventErr])
           else execute_decide rt u a t er res'))"
    if "att_id (er_Attempt res') = i" "plain er" for st er now res'
    using that builder_errors_plain(1) [of rt a t st er now] execute_decide_executed [OF that]
    by (auto simp: appendAfterIO_def executed_def port_plain_def yields_branch split: sum.split)
  show ?thesis
    unfolding execute_admit_def Let_def split_beta yields.simps yields_branch(1)
  proof (intro allI impI)
    fix ans
    assume "port_plain (DidAdmit CallerCtx a ans)"
    then have pl: "plain (snd (normalizeAdmission (fst ans) (snd ans)))"
      by (intro normalizeAdmission_plain) (simp add: port_plain_def)
    let ?res = "res\<lparr>er_Admission := fst (normalizeAdmission (fst ans) (snd ans))\<rparr>"
    have "att_id (er_Attempt ?res) = i" using assms by simp
    note both = step [OF this pl] execute_decide_executed [OF this pl]
    show "if fst (normalizeAdmission (fst ans) (snd ans)) = AdmissionAdmitted
          \<or> fst (normalizeAdmission (fst ans) (snd ans)) = AdmissionRejected
        then \<forall>r. port_plain (DidNow r) \<longrightarrow>
          yields port_plain (executed i)
            (case admissionEvent rt a t (fst (normalizeAdmission (fst ans) (snd ans)))
                   (snd (normalizeAdmission (fst ans) (snd ans))) (UTC r) of
               Inl eventErr \<Rightarrow> Done (?res, stageError StageRecord (Some eventErr))
             | Inr event \<Rightarrow> appendAfterIO u [event] (\<lambda>eventErr.
                 if eventErr \<noteq> None
                 then Done (?res, errorsJoin [stageError StageAdmit (snd (normalizeAdmission (fst ans) (snd ans))),
                                              stageError StageRecord eventErr])
                 else execute_decide rt u a t (snd (normalizeAdmission (fst ans) (snd ans))) ?res))
        else yields port_plain (executed i)
          (execute_decide rt u a t (snd (normalizeAdmission (fst ans) (snd ans))) ?res)"
      by (cases "fst (normalizeAdmission (fst ans) (snd ans)) = AdmissionAdmitted
          \<or> fst (normalizeAdmission (fst ans) (snd ans)) = AdmissionRejected")
         (simp_all only: if_True if_False both simp_thms)
  qed
qed

text \<open>
  The whole of \<open>execute\<close>, over plain ports: it is refused for its input without a call but the clock's, or
  it keeps its attempt and its error is plain, or wraps one sentinel for a claim that was not granted.
\<close>

lemma execute_errors:
  assumes "plays (execute rt (Some u) input auth) tr (r, e)" and "list_all port_plain tr"
  shows "(\<exists>now. tr = [DidNow now]) \<and> r = zero_result \<and> error_is e ErrInvalidInput \<or>
    att_id (er_Attempt r) = xi_AttemptID input \<and> xi_AttemptID input \<noteq> '''' \<and>
    ((\<exists>now. tr = [DidNow now]) \<and> plain e \<or>
     (\<exists>now a t es ans. tr = [DidNow now, DidBegin CallerCtx a t es ans] \<and> ans \<noteq> (True, None)
        \<and> e = (if snd ans = None then Some (StageError StageValidate (Sentinel ErrAttemptAlreadyStarted))
               else stageError StageRecord (snd ans))) \<or>
     (\<exists>now a t es rest. tr = [DidNow now, DidBegin CallerCtx a t es (True, None)] @ rest \<and> plain e
        \<and> list_all (\<lambda>did. \<not> claims_call did) rest))"
proof -
  let ?a = "xi_Action input"
  from assms(1) obtain now tr1 where tr: "tr = DidNow now # tr1"
    and p: "plays (case NewExecutionAttempt (attemptSpec input auth (UTC now)) of
       Inl err \<Rightarrow> Done (zero_result, stageError StageValidate (errorsJoin [Some (Sentinel ErrInvalidInput), Some err]))
     | Inr attempt \<Rightarrow>
         (case initialFacts rt ?a attempt auth (UTC now) of
            Inl err \<Rightarrow> Done (started_result ?a attempt, stageError StageRecord (Some err))
          | Inr initial \<Rightarrow> BeginAttempt CallerCtx ?a attempt initial (\<lambda>(claimed, err).
              if err \<noteq> None then Done (started_result ?a attempt, stageError StageRecord err)
              else if \<not> claimed
              then Done (started_result ?a attempt, stageError StageValidate (Some (Sentinel ErrAttemptAlreadyStarted)))
              else execute_admit rt u ?a attempt (started_result ?a attempt)))) tr1 (r, e)"
    unfolding execute_def Let_def by (auto simp only: option.case plays_calls)
  show ?thesis
  proof (cases "NewExecutionAttempt (attemptSpec input auth (UTC now))")
    case (Inl err)
    with p tr show ?thesis by auto
  next
    case (Inr t)
    note built = this
    then have t: "att_id t = xi_AttemptID input" "xi_AttemptID input \<noteq> ''''"
      by (auto simp: NewExecutionAttempt_Inr_iff attemptSpec_def attempt_ok_def)
    have st: "att_id (er_Attempt (started_result ?a t)) = xi_AttemptID input" by (simp add: started_result_def t)
    show ?thesis
    proof (cases "initialFacts rt ?a t auth (UTC now)")
      case (Inl err)
      with p tr t st built initialFacts_plain [OF Inl] show ?thesis by auto
    next
      case facts: (Inr es)
      with p built obtain ans rest where tr1: "tr1 = DidBegin CallerCtx ?a t es ans # rest"
        and q: "plays (case ans of (claimed, err) \<Rightarrow>
              if err \<noteq> None then Done (started_result ?a t, stageError StageRecord err)
              else if \<not> claimed
              then Done (started_result ?a t, stageError StageValidate (Some (Sentinel ErrAttemptAlreadyStarted)))
              else execute_admit rt u ?a t (started_result ?a t)) rest (r, e)"
        by (auto simp: plays_calls)
      show ?thesis
      proof (cases "ans = (True, None)")
        case True
        with q have admitted: "plays (execute_admit rt u ?a t (started_result ?a t)) rest (r, e)" by simp
        from yields_plays [OF admitted execute_admit_executed [OF st]] assms(2) tr tr1
        have "executed (xi_AttemptID input) (r, e)" by simp
        moreover have "list_all (\<lambda>did. \<not> claims_call did) rest"
          using only_plays [OF admitted no_second_claim(5)] by (simp add: list_all_iff)
        ultimately show ?thesis using tr tr1 True t by (auto simp: executed_def)
      next
        case False
        with q tr tr1 st t show ?thesis by (cases ans) (auto split: if_splits)
      qed
    qed
  qed
qed

end
