(* ===== verification/Exec_Types.thy ===== *)
theory Exec_Types
  imports Execute_Properties Verify_Properties Recover_Attempt Exec_Errors
begin

text \<open>
  The values of a use case are values of their Go types: what it hands to its ports passed its
  constructor and belongs to the action and the attempt of the input, and so does what it returns.
\<close>

subsection \<open>Values that Go's types allow\<close>

text \<open>
  The fields of these types are private: a port can answer with the zero value or with one that the constructor
  made. \<open>answers_made\<close> says that of an answer; statuses may be any byte.
\<close>

definition made_target :: "ResolvedTarget \<Rightarrow> bool" where
  "made_target g \<longleftrightarrow> g = zero_target \<or> NewResolvedTarget (tgt_provider g) (tgt_endpoint g) = Inr g"

definition zero_observation :: Observation where
  "zero_observation = \<lparr>obs_id = [], obs_source = [], obs_target = [], obs_value = [], obs_evidence = [],
     obs_observedAt = zero_time, obs_recordedAt = zero_time\<rparr>"

definition made_observation :: "Observation \<Rightarrow> bool" where
  "made_observation b \<longleftrightarrow> b = zero_observation \<or> observation_ok b"

lemma made_zero_target [simp]: "made_target zero_target"
  by (simp add: made_target_def)

definition answers_made :: "call \<Rightarrow> bool" where
  "answers_made did =
    (case did of
       DidResolve c a ans \<Rightarrow> made_target (fst ans)
     | DidDispatch c t a g ans \<Rightarrow> dispatch_ok (fst ans)
     | DidObserve c a g ans \<Rightarrow> list_all made_observation (fst ans)
     | DidVerify c a os u ans \<Rightarrow> verification_ok (fst ans)
     | _ \<Rightarrow> True)"

text \<open>
  What a use case hands to a port besides the action, the attempt, facts and times (\<^const>\<open>records_for\<close>):
  targets and observations, and what it asks the journal for, the facts of the attempts in \<open>js\<close> and the intent
  of the action.
\<close>

fun hands_on :: "Action \<Rightarrow> AttemptID set \<Rightarrow> call \<Rightarrow> bool" where
  "hands_on a js (DidDispatch c t a' g r) \<longleftrightarrow> made_target g"
| "hands_on a js (DidObserve c a' g r) \<longleftrightarrow> made_target g"
| "hands_on a js (DidVerify c a' os u r) \<longleftrightarrow> list_all made_observation os"
| "hands_on a js (DidEvents c j r) \<longleftrightarrow> j \<in> js"
| "hands_on a js (DidAction c j r) \<longleftrightarrow> j = act_id a"
| "hands_on a js (DidAttempts c r) \<longleftrightarrow> False"
| "hands_on a js _ \<longleftrightarrow> True"

definition handed :: "Action \<Rightarrow> AttemptID \<Rightarrow> AttemptID set \<Rightarrow> call \<Rightarrow> bool" where
  "handed a i js did \<longleftrightarrow> records_for a i did \<and> hands_on a js did"

text \<open>\<open>given A H p\<close>: every call of \<open>p\<close> satisfies \<open>H\<close>, as long as the answers before it satisfy \<open>A\<close>.\<close>

primrec given :: "(call \<Rightarrow> bool) \<Rightarrow> (call \<Rightarrow> bool) \<Rightarrow> 'a prog \<Rightarrow> bool" where
  "given A H (Done v) = True"
| "given A H (Now k) = (\<forall>r. H (DidNow r) \<and> (A (DidNow r) \<longrightarrow> given A H (k r)))"
| "given A H (BeginAttempt c a t es k) = (\<forall>r. H (DidBegin c a t es r) \<and> (A (DidBegin c a t es r) \<longrightarrow> given A H (k r)))"
| "given A H (AppendAll c es k) = (\<forall>r. H (DidAppend c es r) \<and> (A (DidAppend c es r) \<longrightarrow> given A H (k r)))"
| "given A H (EventsByAttempt c i k) = (\<forall>r. H (DidEvents c i r) \<and> (A (DidEvents c i r) \<longrightarrow> given A H (k r)))"
| "given A H (ActionByID c i k) = (\<forall>r. H (DidAction c i r) \<and> (A (DidAction c i r) \<longrightarrow> given A H (k r)))"
| "given A H (AttemptIDs c k) = (\<forall>r. H (DidAttempts c r) \<and> (A (DidAttempts c r) \<longrightarrow> given A H (k r)))"
| "given A H (Admit c a k) = (\<forall>r. H (DidAdmit c a r) \<and> (A (DidAdmit c a r) \<longrightarrow> given A H (k r)))"
| "given A H (Resolve c a k) = (\<forall>r. H (DidResolve c a r) \<and> (A (DidResolve c a r) \<longrightarrow> given A H (k r)))"
| "given A H (Dispatch c t a g k) = (\<forall>r. H (DidDispatch c t a g r) \<and> (A (DidDispatch c t a g r) \<longrightarrow> given A H (k r)))"
| "given A H (Observe c a g k) = (\<forall>r. H (DidObserve c a g r) \<and> (A (DidObserve c a g r) \<longrightarrow> given A H (k r)))"
| "given A H (Verify c a os u k) = (\<forall>r. H (DidVerify c a os u r) \<and> (A (DidVerify c a os u r) \<longrightarrow> given A H (k r)))"

lemma given_branch:
  "given A H (if b then p else q) \<longleftrightarrow> (if b then given A H p else given A H q)"
  "given A H (case z of Inl x \<Rightarrow> f x | Inr y \<Rightarrow> g y) \<longleftrightarrow> (case z of Inl x \<Rightarrow> given A H (f x) | Inr y \<Rightarrow> given A H (g y))"
  by (simp_all split: sum.split)

lemma given_advance: "given A H p \<Longrightarrow> advance p c = Some q \<Longrightarrow> H c \<and> (A c \<longrightarrow> given A H q)"
  by (cases p) (auto simp: advance_iff)

lemma given_plays: "plays p tr w \<Longrightarrow> given A H p \<Longrightarrow> list_all A tr \<Longrightarrow> list_all H tr"
  by (induction rule: plays.induct) (auto dest: given_advance)

lemma only_given: "only P p \<Longrightarrow> given A H p \<Longrightarrow> given A (\<lambda>did. P did \<and> H did) p"
  by (induction p) auto

lemma records_handed: "only (records_for a i) p \<Longrightarrow> given A (hands_on a js) p \<Longrightarrow> given A (handed a i js) p"
  using only_given [of "records_for a i" p A "hands_on a js"] unfolding handed_def .

subsection \<open>What is handed over\<close>

lemma execute_hands_over: "only (records_for (xi_Action input) (xi_AttemptID input)) (execute rt u input auth)"
  using execute_own by (cases u) (simp_all add: execute_def)

lemma recover_hands_over: "only (records_for (ri_Action input) (ri_AttemptID input)) (Recover rt u input)"
proof (cases u)
  case (Some rv)
  have "only (records_for (ri_Action input) (ri_AttemptID input))
      (execute rt (Some (rv_executor rv)) \<lparr>xi_Action = ri_Action input, xi_AttemptID = ri_AttemptID input\<rparr>
        (Some (ri_Authorization input)))"
    using execute_own [of "\<lparr>xi_Action = ri_Action input, xi_AttemptID = ri_AttemptID input\<rparr>"] by simp
  with Some show ?thesis by (simp add: Recover_def recover_failed_def Let_def split_beta only_branch)
qed (simp add: Recover_def recover_failed_def)

lemma observation_facts_own:
  "list_all (fact_of a i) (fst acc) \<Longrightarrow> list_all (fact_of a i) (fst (observation_facts rt a i os acc))"
  by (induction rt a i os acc rule: observation_facts.induct)
     (auto simp: single_builder_facts split: sum.split)

lemma assessment_facts_own: "list_all (fact_of a i) (fst (assessment_facts rt a i os v oe now))"
proof -
  have "list_all (fact_of a i) (fst (go_pair [] (verificationEvents rt a i v oe now)))"
    using verificationEvents_facts [of rt a i v oe now] by (cases "verificationEvents rt a i v oe now") auto
  with observation_facts_own [of a i "([], None)" rt os] show ?thesis
    by (simp add: assessment_facts_def Let_def split_beta)
qed

lemma verify_hands_over: "only (records_for (vi_Action input) (vi_AttemptID input)) (VerifyAttempt_Verify rt u input)"
proof -
  let ?only = "only (records_for (vi_Action input) (vi_AttemptID input))"
  have recorded: "?only (verify_record rt v input oe ve now res)" for v oe ve now res
    using assessment_facts_own by (simp add: verify_record_def Let_def split_beta only_branch)
  have "?only (verify_assess rt v input res)" for v res
    by (simp add: verify_assess_def Let_def split_beta only_branch recorded UTC_def)
  then show ?thesis
    by (simp add: VerifyAttempt_Verify_def Let_def split_beta only_branch split: option.split)
qed

subsection \<open>What is returned\<close>

definition provider_made :: "call \<Rightarrow> bool" where
  "provider_made did = (case did of DidDispatch c t a g ans \<Rightarrow> fst ans = zero_dispatch \<or> dispatch_ok (fst ans) | _ \<Rightarrow> True)"

definition outcome_ok :: "Outcome \<Rightarrow> bool" where
  "outcome_ok o1 \<longleftrightarrow> admission_valid (o_admission o1) \<and> dispatch_valid (o_dispatch o1) \<and> effect_valid (o_effect o1)"

definition result_made :: "Action \<Rightarrow> AttemptID \<Rightarrow> ExecuteResult \<Rightarrow> bool" where
  "result_made a i r \<longleftrightarrow> er_Action r = a \<and> attempt_for a i (er_Attempt r) \<and> admission_valid (er_Admission r)
     \<and> outcome_ok (er_Outcome r)
     \<and> (er_Dispatch r = zero_dispatch \<or> dispatch_ok (er_Dispatch r) \<and> dr_attemptID (er_Dispatch r) = i
          \<and> dr_provider (er_Dispatch r) = tgt_provider (er_Target r))"

lemma outcome_made: "outcome_ok (outcome a d e)"
  by (auto simp: outcome_def outcome_ok_def NewOutcome_def zero_outcome_def admission_valid_iff dispatch_valid_iff
      effect_valid_iff status_defs)

lemma normalizeDispatch_made:
  assumes "d0 = zero_dispatch \<or> dispatch_ok d0" and "i \<noteq> []"
  shows "fst (normalizeDispatch d0 p i) = zero_dispatch \<or> dispatch_ok (fst (normalizeDispatch d0 p i))
    \<and> dr_attemptID (fst (normalizeDispatch d0 p i)) = i \<and> dr_provider (fst (normalizeDispatch d0 p i)) = p"
  using assms by (auto simp: normalizeDispatch_def zero_dispatch_def NewDispatchResult_Inr_iff split: sum.split)

lemma append_built_made:
  "(\<And>x. R (f x)) \<Longrightarrow> yields P R (append_built u built (\<lambda>x. Done (f x)))"
  by (simp add: append_built_def appendAfterIO_def split: sum.split)

abbreviation makes :: "Action \<Rightarrow> AttemptID \<Rightarrow> execution \<Rightarrow> bool" where
  "makes a i p \<equiv> yields provider_made (\<lambda>w. fst w = zero_result \<and> snd w \<noteq> None \<or> result_made a i (fst w)) p"

lemma execute_blocked_made: "result_made a i res \<Longrightarrow> makes a i (execute_blocked rt u a t st cause res)"
  by (simp add: execute_blocked_def) (intro allI impI append_built_made; simp add: result_made_def outcome_made)

lemma execute_dispatch_made:
  assumes "result_made a i res" "attempt_for a i t" "tgt_provider (er_Target res) = tgt_provider g"
  shows "makes a i (execute_dispatch rt u a t g res)"
proof -
  have "i \<noteq> []" "att_id t = i" using assms(2) by (auto simp: attempt_for_def attempt_ok_def text_ok_def)
  note made = normalizeDispatch_made [OF _ this(1), of _ "tgt_provider g", folded this(2)]
  show ?thesis
    unfolding execute_dispatch_def Let_def split_beta yields.simps
  proof (intro allI impI append_built_made disjI2)
    fix ans now x
    assume "provider_made (DidDispatch CallerCtx t a g ans)"
    then have "fst ans = zero_dispatch \<or> dispatch_ok (fst ans)" by (simp add: provider_made_def)
    from made [OF this] assms \<open>att_id t = i\<close>
    show "result_made a i (fst (res\<lparr>er_Dispatch := fst (normalizeDispatch (fst ans) (tgt_provider g) (att_id t)),
        er_Outcome := outcome (er_Admission (res\<lparr>er_Dispatch := fst (normalizeDispatch (fst ans) (tgt_provider g) (att_id t))\<rparr>))
          (dr_status (fst (normalizeDispatch (fst ans) (tgt_provider g) (att_id t))))
          (if dr_status (fst (normalizeDispatch (fst ans) (tgt_provider g) (att_id t))) = DispatchDispatched
              \<or> dr_status (fst (normalizeDispatch (fst ans) (tgt_provider g) (att_id t))) = DispatchAcknowledged
           then EffectUnverified else EffectUnknown)\<rparr>, x))"
      by (simp add: result_made_def outcome_made)
  qed
qed

lemma execute_decide_made:
  assumes "result_made a i res" "attempt_for a i t" "er_Dispatch res = zero_dispatch"
  shows "makes a i (execute_decide rt u a t er res)"
proof -
  have res: "result_made a i (res\<lparr>er_Target := g\<rparr>)" for g using assms(1,3) by (simp add: result_made_def)
  show ?thesis
    using execute_blocked_made [OF assms(1)] execute_blocked_made [OF res] execute_dispatch_made [OF res assms(2)]
    by (simp add: execute_decide_def execute_resolve_def Let_def split_beta yields_branch)
qed

lemma execute_admit_made:
  assumes "result_made a i res" "attempt_for a i t" "er_Dispatch res = zero_dispatch"
  shows "makes a i (execute_admit rt u a t res)"
proof -
  have res: "result_made a i (res\<lparr>er_Admission := fst (normalizeAdmission s e)\<rparr>)" for s e
    using assms(1) normalizeAdmission_valid by (simp add: result_made_def)
  have decide: "makes a i (execute_decide rt u a t er (res\<lparr>er_Admission := fst (normalizeAdmission s e)\<rparr>))" for s e er
    using execute_decide_made [OF res assms(2)] assms(3) by simp
  have recorded: "makes a i
      (case built of
         Inl eventErr \<Rightarrow> Done (res', e1 eventErr)
       | Inr event \<Rightarrow> appendAfterIO u [event] (\<lambda>eventErr. if eventErr \<noteq> None then Done (res', e2 eventErr) else q))"
    if "result_made a i res'" "makes a i q" for built res' e1 e2 q
    using that by (simp add: appendAfterIO_def yields_branch split: sum.split)
  show ?thesis
    unfolding execute_admit_def Let_def split_beta yields.simps yields_branch(1)
    by (intro allI impI if_bool_eq_conj [THEN iffD2] conjI recorded res decide)
qed

lemma execute_made:
  "makes (xi_Action input) (xi_AttemptID input) (execute rt u input auth)"
proof -
  let ?a = "xi_Action input" and ?i = "xi_AttemptID input"
  have started: "result_made ?a ?i (started_result ?a t)" if "attempt_for ?a ?i t" for t
    using that by (simp add: result_made_def started_result_def outcome_made zero_result_def admission_valid_iff status_defs)
  have zero: "er_Dispatch (started_result ?a t) = zero_dispatch" for t by (simp add: started_result_def zero_result_def)
  have made: "attempt_for ?a ?i t" if "NewExecutionAttempt (attemptSpec input auth (UTC now)) = Inr t" for t now
    using that by (auto simp: NewExecutionAttempt_Inr_iff attemptSpec_def attempt_for_def UTC_def)
  show ?thesis
    using started execute_admit_made [OF started _ zero]
    by (auto simp: execute_def Let_def split_beta yields_branch simp del: not_None_eq dest!: made split: option.split sum.split)
qed

lemma recover_made: "makes (ri_Action input) (ri_AttemptID input) (Recover rt u input)"
  using execute_made [of "\<lparr>xi_Action = ri_Action input, xi_AttemptID = ri_AttemptID input\<rparr>"]
  by (simp del: not_None_eq add: Recover_def recover_failed_def Let_def split_beta yields_branch split: option.split)

subsection \<open>Targets, observations and verdicts\<close>

lemma append_built_hands: "given A (hands_on a js) (append_built u built (\<lambda>x. Done (f x)))"
  by (simp add: append_built_def appendAfterIO_def split: sum.split)

lemma execute_hands_on: "given answers_made (hands_on (xi_Action input) js) (execute rt use_case input auth)"
proof -
  let ?given = "given answers_made (hands_on (xi_Action input) js)"
  have dispatch: "?given (execute_dispatch rt u a t g res)" if "made_target g" for u a t g res
    using that by (simp add: execute_dispatch_def Let_def split_beta append_built_hands)
  have blocked: "?given (execute_blocked rt u a t st cause res)" for u a t st cause res
    by (simp add: execute_blocked_def append_built_hands)
  have decide: "?given (execute_decide rt u a t er res)" for u a t er res
    by (simp add: execute_decide_def execute_resolve_def Let_def split_beta given_branch blocked dispatch answers_made_def)
  have admit: "?given (execute_admit rt u a t res)" for u a t res
    by (simp add: execute_admit_def Let_def split_beta appendAfterIO_def given_branch decide split: sum.split)
  show ?thesis
    by (cases use_case) (simp_all add: execute_def Let_def split_beta given_branch admit split: sum.split)
qed

lemma recover_hands_on:
  "given answers_made (hands_on (ri_Action input) {ra_previousAttemptID (ri_Authorization input)}) (Recover rt use_case input)"
proof (cases use_case)
  case (Some rv)
  show ?thesis
    using execute_hands_on [of "\<lparr>xi_Action = ri_Action input, xi_AttemptID = ri_AttemptID input\<rparr>"] Some
    by (simp add: Recover_def recover_failed_def Let_def split_beta given_branch)
qed (simp add: Recover_def recover_failed_def)

lemma verify_hands_on:
  "given answers_made (hands_on (vi_Action input) {vi_AttemptID input}) (VerifyAttempt_Verify rt use_case input)"
proof -
  let ?given = "given answers_made (hands_on (vi_Action input) {vi_AttemptID input})"
  have recorded: "?given (verify_record rt u input oe ve now res)" for u oe ve now res
    by (simp add: verify_record_def Let_def split_beta given_branch)
  have "?given (verify_assess rt u input res)" for u res
    by (simp add: verify_assess_def Let_def split_beta given_branch recorded answers_made_def)
  then show ?thesis
    by (simp add: VerifyAttempt_Verify_def Let_def split_beta given_branch split: option.split)
qed

text \<open>The target a run returns.\<close>

lemma execute_target:
  "yields answers_made (\<lambda>w. made_target (er_Target (fst w))) (execute rt use_case input auth)"
proof -
  let ?yields = "yields answers_made (\<lambda>w. made_target (er_Target (fst w)))"
  have dispatch: "?yields (execute_dispatch rt u a t g res)" if "made_target (er_Target res)" for u a t g res
    using that by (simp add: execute_dispatch_def Let_def split_beta append_built_made)
  have blocked: "?yields (execute_blocked rt u a t st cause res)" if "made_target (er_Target res)" for u a t st cause res
    using that by (simp add: execute_blocked_def append_built_made)
  have decide: "?yields (execute_decide rt u a t er res)" if "made_target (er_Target res)" for u a t er res
    using that
    by (simp add: execute_decide_def execute_resolve_def Let_def split_beta yields_branch blocked dispatch answers_made_def)
  have admit: "?yields (execute_admit rt u a t res)" if "made_target (er_Target res)" for u a t res
    using that by (simp add: execute_admit_def Let_def split_beta appendAfterIO_def yields_branch decide split: sum.split)
  show ?thesis
    by (cases use_case)
      (simp_all add: execute_def Let_def split_beta yields_branch admit started_result_def zero_result_def split: sum.split)
qed

lemma recover_target: "yields answers_made (\<lambda>w. made_target (er_Target (fst w))) (Recover rt use_case input)"
proof (cases use_case)
  case (Some rv)
  show ?thesis
    using execute_target [of rt "Some (rv_executor rv)" "\<lparr>xi_Action = ri_Action input, xi_AttemptID = ri_AttemptID input\<rparr>"] Some
    by (simp add: Recover_def recover_failed_def Let_def split_beta yields_branch zero_result_def)
qed (simp add: Recover_def recover_failed_def zero_result_def)

text \<open>
  What an assessment returns: nothing, with an error, when the input has no identities; else the identities of
  the input and what the resolver, the observer and the verifier answered.
\<close>

definition verified_made :: "Action \<Rightarrow> AttemptID \<Rightarrow> VerifyResult \<Rightarrow> bool" where
  "verified_made a i r \<longleftrightarrow> vo_ActionID r = act_id a \<and> vo_AttemptID r = i \<and> made_target (vo_Target r)
     \<and> list_all made_observation (vo_Observations r) \<and> verification_ok (vo_Verification r)"

lemma verify_made:
  "yields answers_made (\<lambda>w. fst w = zero_verify_result \<and> snd w \<noteq> None \<or> verified_made (vi_Action input) (vi_AttemptID input) (fst w))
    (VerifyAttempt_Verify rt use_case input)"
proof -
  let ?R = "\<lambda>w. fst w = zero_verify_result \<and> snd w \<noteq> None \<or> verified_made (vi_Action input) (vi_AttemptID input) (fst w)"
  let ?yields = "yields answers_made ?R"
  have recorded: "?yields (verify_record rt u input oe ve now res)" if "verified_made (vi_Action input) (vi_AttemptID input) res"
    for u oe ve now res
    using that by (simp add: verify_record_def Let_def split_beta yields_branch)
  have zero: "verified_made (vi_Action input) (vi_AttemptID input)
      (zero_verify_result\<lparr>vo_ActionID := act_id (vi_Action input), vo_AttemptID := vi_AttemptID input\<rparr>)"
    by (simp add: verified_made_def zero_verify_result_def verification_ok_def)
  have assess: "?yields (verify_assess rt u input res)" if "verified_made (vi_Action input) (vi_AttemptID input) res" for u res
  proof -
    have "verified_made (vi_Action input) (vi_AttemptID input) (res\<lparr>vo_Target := g\<rparr>)"
      "verified_made (vi_Action input) (vi_AttemptID input) (res\<lparr>vo_Target := g, vo_Observations := os, vo_Verification := v\<rparr>)"
      if "made_target g" "list_all made_observation os" "verification_ok v" for g os v
      using that \<open>verified_made _ _ res\<close> by (simp_all add: verified_made_def)
    moreover have "verified_made (vi_Action input) (vi_AttemptID input) (res\<lparr>vo_Target := g\<rparr>)" if "made_target g" for g
      using that \<open>verified_made _ _ res\<close> by (simp add: verified_made_def)
    ultimately show ?thesis
      by (simp add: verify_assess_def Let_def split_beta yields_branch recorded answers_made_def del: not_None_eq)
  qed
  show ?thesis
    using zero assess [OF zero]
    by (simp add: VerifyAttempt_Verify_def Let_def split_beta yields_branch del: not_None_eq split: option.split)
qed

lemma yields_conj: "yields P R p \<Longrightarrow> yields P S p \<Longrightarrow> yields P (\<lambda>w. R w \<and> S w) p"
  by (induction p) auto

lemma yields_weaken: "(\<And>did. P' did \<Longrightarrow> P did) \<Longrightarrow> yields P R p \<Longrightarrow> yields P' R p"
  by (induction p) auto

lemma answers_provider: "answers_made did \<Longrightarrow> provider_made did"
  by (cases did) (simp_all add: answers_made_def provider_made_def)

text \<open>What \<open>Execute\<close> and \<open>Recover\<close> return: nothing, with an error, or a result of the input's attempt.\<close>

definition run_made :: "Action \<Rightarrow> AttemptID \<Rightarrow> ExecuteResult \<times> err option \<Rightarrow> bool" where
  "run_made a i w \<longleftrightarrow> (fst w = zero_result \<and> snd w \<noteq> None \<or> result_made a i (fst w)) \<and> made_target (er_Target (fst w))"

definition assessment_made :: "Action \<Rightarrow> AttemptID \<Rightarrow> VerifyResult \<times> err option \<Rightarrow> bool" where
  "assessment_made a i w \<longleftrightarrow> fst w = zero_verify_result \<and> snd w \<noteq> None \<or> verified_made a i (fst w)"

text \<open>C16: suppose every value a port answers is the zero value of its type or was made by its constructor, as the
  private fields of the types enforce. Then a use case hands to its ports only what belongs to its input
  and is well made. The attempt and all facts passed their constructors and carry the identities of the
  action and the attempt of the input; the action is that of the input; the clock's times are in UTC;
  targets and observations are zero or made by their constructors; the journal is asked for the facts of
  no attempt but the one that is verified, or that a recovery follows, and for no intent but the
  action's. \<open>Execute\<close> and \<open>Recover\<close> return nothing but an error, or the attempt of the input with declared
  statuses only, a target that is zero or made, and a dispatch result that is the zero value or was made by
  its constructor for this attempt and the provider of the resolved target. \<open>Verify\<close> returns nothing but
  an error, or the identities of the input with a target, observations and a verdict that are zero or made.\<close>

theorem use_cases_made_values:
  "given answers_made (handed a i {}) (Execute rt u \<lparr>xi_Action = a, xi_AttemptID = i\<rparr>)
   \<and> given answers_made (handed a i {ra_previousAttemptID auth})
       (Recover rt rv \<lparr>ri_Action = a, ri_AttemptID = i, ri_Authorization = auth\<rparr>)
   \<and> given answers_made (handed a i {i}) (VerifyAttempt_Verify rt v \<lparr>vi_Action = a, vi_AttemptID = i\<rparr>)
   \<and> yields answers_made (run_made a i) (Execute rt u \<lparr>xi_Action = a, xi_AttemptID = i\<rparr>)
   \<and> yields answers_made (run_made a i) (Recover rt rv \<lparr>ri_Action = a, ri_AttemptID = i, ri_Authorization = auth\<rparr>)
   \<and> yields answers_made (assessment_made a i) (VerifyAttempt_Verify rt v \<lparr>vi_Action = a, vi_AttemptID = i\<rparr>)"
proof (intro conjI)
  let ?x = "\<lparr>xi_Action = a, xi_AttemptID = i\<rparr>" and ?v = "\<lparr>vi_Action = a, vi_AttemptID = i\<rparr>"
  let ?r = "\<lparr>ri_Action = a, ri_AttemptID = i, ri_Authorization = auth\<rparr>"
  show "given answers_made (handed a i {}) (Execute rt u ?x)"
    unfolding Execute_def using execute_hands_over [of ?x rt u None] execute_hands_on [of ?x "{}" rt u None]
    by (intro records_handed) simp_all
  show "given answers_made (handed a i {ra_previousAttemptID auth}) (Recover rt rv ?r)"
    using recover_hands_over [of ?r rt rv] recover_hands_on [of ?r rt rv] by (intro records_handed) simp_all
  show "given answers_made (handed a i {i}) (VerifyAttempt_Verify rt v ?v)"
    using verify_hands_over [of ?v rt v] verify_hands_on [of ?v rt v] by (intro records_handed) simp_all
  show "yields answers_made (run_made a i) (Execute rt u ?x)"
    using yields_conj [OF yields_weaken [OF answers_provider execute_made] execute_target, of ?x rt u None]
    unfolding Execute_def ExecuteInput.select_convs run_made_def [abs_def] .
  show "yields answers_made (run_made a i) (Recover rt rv ?r)"
    using yields_conj [OF yields_weaken [OF answers_provider recover_made] recover_target, of ?r rt rv]
    unfolding RecoverInput.select_convs run_made_def [abs_def] .
  show "yields answers_made (assessment_made a i) (VerifyAttempt_Verify rt v ?v)"
    using verify_made [of ?v rt v] unfolding VerifyInput.select_convs assessment_made_def [abs_def] .
qed

end
