(* ===== verification/Exec_Bounds.thy ===== *)
theory Exec_Bounds
  imports Execute Recover_Attempt Verify_Attempt Query
begin

text \<open>
  How many calls a use case makes. \<open>calls_within p n\<close>: whatever the answers, \<open>p\<close> makes at most \<open>n\<close> calls.
  \<open>proceed p tr\<close> is the program after the calls of \<open>tr\<close>, so an execution cut short at any point is a
  \<open>proceed\<close> that has not returned.
\<close>

subsection \<open>Counting calls\<close>

primrec calls_within :: "'a prog \<Rightarrow> nat \<Rightarrow> bool" where
  "calls_within (Done v) n = True"
| "calls_within (Now k) n = (0 < n \<and> (\<forall>r. calls_within (k r) (n - 1)))"
| "calls_within (BeginAttempt c a t es k) n = (0 < n \<and> (\<forall>r. calls_within (k r) (n - 1)))"
| "calls_within (AppendAll c es k) n = (0 < n \<and> (\<forall>r. calls_within (k r) (n - 1)))"
| "calls_within (EventsByAttempt c i k) n = (0 < n \<and> (\<forall>r. calls_within (k r) (n - 1)))"
| "calls_within (ActionByID c i k) n = (0 < n \<and> (\<forall>r. calls_within (k r) (n - 1)))"
| "calls_within (AttemptIDs c k) n = (0 < n \<and> (\<forall>r. calls_within (k r) (n - 1)))"
| "calls_within (Admit c a k) n = (0 < n \<and> (\<forall>r. calls_within (k r) (n - 1)))"
| "calls_within (Resolve c a k) n = (0 < n \<and> (\<forall>r. calls_within (k r) (n - 1)))"
| "calls_within (Dispatch c t a g k) n = (0 < n \<and> (\<forall>r. calls_within (k r) (n - 1)))"
| "calls_within (Observe c a g k) n = (0 < n \<and> (\<forall>r. calls_within (k r) (n - 1)))"
| "calls_within (Verify c a os u k) n = (0 < n \<and> (\<forall>r. calls_within (k r) (n - 1)))"

lemma calls_within_advance: "calls_within p n \<Longrightarrow> advance p c = Some q \<Longrightarrow> 0 < n \<and> calls_within q (n - 1)"
  by (cases p) (auto simp: advance_iff)

lemma calls_within_branch:
  "calls_within (if b then p else q) n \<longleftrightarrow> (if b then calls_within p n else calls_within q n)"
  "calls_within (case z of Inl x \<Rightarrow> f x | Inr y \<Rightarrow> g y) n \<longleftrightarrow>
     (case z of Inl x \<Rightarrow> calls_within (f x) n | Inr y \<Rightarrow> calls_within (g y) n)"
  by (simp_all split: sum.split)

primrec proceed :: "call list \<Rightarrow> 'a prog \<Rightarrow> 'a prog option" where
  "proceed [] p = Some p"
| "proceed (c # tr) p = Option.bind (advance p c) (proceed tr)"

lemma calls_within_proceed:
  "calls_within p n \<Longrightarrow> proceed tr p = Some q \<Longrightarrow> length tr \<le> n \<and> calls_within q (n - length tr)"
proof (induction tr arbitrary: p n)
  case (Cons c tr)
  then obtain p' where "advance p c = Some p'" "proceed tr p' = Some q" by (auto simp: bind_eq_Some_conv)
  with calls_within_advance [OF Cons.prems(1), of c p'] Cons.IH [of p' "n - 1"] show ?case by auto
qed simp

lemma plays_proceed: "proceed tr p = Some q \<Longrightarrow> plays q tr' v \<Longrightarrow> plays p (tr @ tr') v"
  by (induction tr arbitrary: p) (auto simp: bind_eq_Some_conv plays_Cons)

text \<open>
  \<open>p\<close> returns within \<open>n\<close> calls: no run of it, finished or cut short, is longer, and one cut short
  anywhere can go on to a result, whatever answers it got so far.
\<close>

definition returns_within :: "nat \<Rightarrow> 'a prog \<Rightarrow> bool" where
  "returns_within n p \<longleftrightarrow>
     (\<forall>tr q. proceed tr p = Some q \<longrightarrow> length tr \<le> n \<and> (\<exists>tr' v. plays p (tr @ tr') v \<and> length (tr @ tr') \<le> n))"

lemma plays_length: "plays p tr v \<Longrightarrow> calls_within p n \<Longrightarrow> length tr \<le> n"
proof (induction arbitrary: n rule: plays.induct)
  case (call p c q tr v)
  then show ?case using calls_within_advance [of p n c q] call.IH [of "n - 1"] by (cases n) auto
qed simp

lemma calls_within_returns:
  assumes "calls_within p n"
  shows "returns_within n p"
  unfolding returns_within_def
proof (intro allI impI conjI)
  fix tr q
  assume q: "proceed tr p = Some q"
  show "length tr \<le> n" using calls_within_proceed [OF assms q] by simp
  obtain tr' v where "plays q tr' v" using run_plays by blast
  from plays_proceed [OF q this] plays_length [OF _ assms]
  show "\<exists>tr' v. plays p (tr @ tr') v \<and> length (tr @ tr') \<le> n" by blast
qed

subsection \<open>The use cases\<close>

lemma append_built_within: "calls_within (append_built u built (\<lambda>x. Done (f x))) (Suc n)"
  by (simp add: append_built_def appendAfterIO_def split: sum.split)

lemma execute_within: "calls_within (execute rt u input auth) 9"
proof -
  have blocked: "calls_within (execute_blocked rt u a t st cause res) (Suc (Suc n))" for u a t st cause res n
    by (simp add: execute_blocked_def append_built_within)
  have dispatch: "calls_within (execute_dispatch rt u a t g res) (Suc (Suc (Suc n)))" for u a t g res n
    by (simp add: execute_dispatch_def Let_def split_beta append_built_within)
  have decide: "calls_within (execute_decide rt u a t er res) (Suc (Suc (Suc (Suc n))))" for u a t er res n
    by (simp add: execute_decide_def execute_resolve_def Let_def split_beta calls_within_branch blocked dispatch)
  have admit: "calls_within (execute_admit rt u a t res) (Suc (Suc (Suc (Suc (Suc (Suc (Suc n)))))))" for u a t res n
    by (simp add: execute_admit_def Let_def split_beta appendAfterIO_def calls_within_branch decide split: sum.split)
  show ?thesis
    using admit [where n = 0]
    by (auto simp: execute_def Let_def split_beta calls_within_branch numeral_eq_Suc split: option.split sum.split)
qed

lemma recover_within: "calls_within (Recover rt u input) 11"
  using execute_within
  by (auto simp: Recover_def recover_failed_def Let_def split_beta calls_within_branch split: option.split)

lemma verify_within: "calls_within (VerifyAttempt_Verify rt u input) 7"
  by (auto simp: VerifyAttempt_Verify_def verify_assess_def verify_record_def Let_def split_beta calls_within_branch
      split: option.split)

lemma get_within: "calls_within (GetAttempt_Get present i) 1"
  by (simp add: GetAttempt_Get_def split_beta)

lemma scan_within: "calls_within (scan_loop ids acc) (length ids)"
  by (induction ids arbitrary: acc) (simp_all add: split_beta)

text \<open>C17: every use case returns, however its ports answer and wherever the run is looked at: an execution
  after at most nine calls, a recovery after at most eleven, an assessment after at most seven, a query
  for one attempt after one, and a scan after one call for each identity that the lister reported.\<close>

theorem use_cases_return:
  "returns_within 9 (Execute rt u input) \<and> returns_within 11 (Recover rt rv rinput)
   \<and> returns_within 7 (VerifyAttempt_Verify rt v vinput) \<and> returns_within 1 (GetAttempt_Get present i)
   \<and> (case advance (ScanIncompleteAttempts_Scan present) (DidAttempts CallerCtx answer) of
         None \<Rightarrow> returns_within 0 (ScanIncompleteAttempts_Scan present)
       | Some q \<Rightarrow> returns_within (length (fst answer)) q)"
proof -
  have "calls_within (Execute rt u input) 9" by (simp add: Execute_def execute_within)
  moreover have "case advance (ScanIncompleteAttempts_Scan present) (DidAttempts CallerCtx answer) of
         None \<Rightarrow> calls_within (ScanIncompleteAttempts_Scan present) 0
       | Some q \<Rightarrow> calls_within q (length (fst answer))"
    by (simp add: ScanIncompleteAttempts_Scan_def advance_def split_beta scan_within)
  ultimately show ?thesis
    using recover_within verify_within get_within by (auto simp: calls_within_returns split: option.splits)
qed

end
