(* ===== verification/Core_Memory.thy ===== *)
theory Core_Memory
  imports Core_Event Core_Provider
begin

text \<open>
  Why the values of package \<open>atoha\<close> can be modelled as values although some hold byte slices: their
  constructors and getters copy (\<open>cloneBytes\<close>). Here slices are addresses of an explicit store, a client
  holds the slices it allocated or got from a getter and may write them at any time, and a constructed
  value still reads as it did when it was constructed.
\<close>

subsection \<open>Slices and copies\<close>

text \<open>A nil slice is \<^const>\<open>None\<close>. Addresses below \<open>st_next\<close> are in use.\<close>

type_synonym slice = "nat option"

record store =
  st_cell :: "nat \<Rightarrow> bytes"
  st_next :: nat

definition slice_bytes :: "store \<Rightarrow> slice \<Rightarrow> bytes" where
  "slice_bytes st s = (case s of None \<Rightarrow> [] | Some a \<Rightarrow> st_cell st a)"

definition allocate :: "bytes \<Rightarrow> store \<Rightarrow> nat \<times> store" where
  "allocate b st = (st_next st, \<lparr>st_cell = (st_cell st)(st_next st := b), st_next = Suc (st_next st)\<rparr>)"

text \<open>\<open>cloneBytes\<close>; appending nothing to a nil slice allocates nothing.\<close>

definition cloneBytes :: "slice \<Rightarrow> store \<Rightarrow> slice \<times> store" where
  "cloneBytes s st =
    (case s of
       None \<Rightarrow> (None, st)
     | Some a \<Rightarrow> if st_cell st a = [] then (None, st) else apfst Some (allocate (st_cell st a) st))"

fun cloneAll :: "slice list \<Rightarrow> store \<Rightarrow> slice list \<times> store" where
  "cloneAll [] st = ([], st)"
| "cloneAll (s # ss) st =
    (let (s', st1) = cloneBytes s st; (ss', st2) = cloneAll ss st1 in (s' # ss', st2))"

subsection \<open>Values that hold slices\<close>

datatype sealed_spec =
  OfAction ActionSpec | OfObservation ObservationSpec | OfReceipt ReceiptSpec | OfEvent ExecutionEventSpec
| OfTarget string

datatype sealed =
  ActionValue Action | ObservationValue Observation | ReceiptValue Receipt | EventValue ExecutionEvent
| TargetValue ResolvedTarget

text \<open>The constructors, on the contents of the slices of a specification in the order of its fields.\<close>

fun construct :: "sealed_spec \<Rightarrow> bytes list \<Rightarrow> err + sealed" where
  "construct (OfAction s) [b] = map_sum id ActionValue (NewAction (s\<lparr>as_Input := b\<rparr>))"
| "construct (OfObservation s) [b, c] =
     map_sum id ObservationValue (NewObservation (s\<lparr>bs_Value := b, bs_Evidence := c\<rparr>))"
| "construct (OfReceipt s) [b] = map_sum id ReceiptValue (NewReceipt (s\<lparr>rs_Evidence := b\<rparr>))"
| "construct (OfEvent s) [b] = map_sum id EventValue (NewExecutionEvent (s\<lparr>xs_Data := b\<rparr>))"
| "construct (OfTarget provider) [b] = map_sum id TargetValue (NewResolvedTarget provider b)"
| "construct _ _ = Inl (Message ''no such fields'')"

text \<open>A value with other contents of its slices, and the contents it has.\<close>

fun with_contents :: "sealed \<Rightarrow> bytes list \<Rightarrow> sealed" where
  "with_contents (ActionValue a) [b] = ActionValue (a\<lparr>act_input := b\<rparr>)"
| "with_contents (ObservationValue v) [b, c] = ObservationValue (v\<lparr>obs_value := b, obs_evidence := c\<rparr>)"
| "with_contents (ReceiptValue r) [b] = ReceiptValue (r\<lparr>rc_evidence := b\<rparr>)"
| "with_contents (EventValue e) [b] = EventValue (e\<lparr>ev_data := b\<rparr>)"
| "with_contents (TargetValue t) [b] = TargetValue (t\<lparr>tgt_endpoint := b\<rparr>)"
| "with_contents v _ = v"

fun contents :: "sealed \<Rightarrow> bytes list" where
  "contents (ActionValue a) = [act_input a]"
| "contents (ObservationValue v) = [obs_value v, obs_evidence v]"
| "contents (ReceiptValue r) = [rc_evidence r]"
| "contents (EventValue e) = [ev_data e]"
| "contents (TargetValue t) = [tgt_endpoint t]"

lemma with_contents_same [simp]: "with_contents v (contents v) = v"
  by (cases v) simp_all

lemma construct_contents: "construct spec cs = Inr v \<Longrightarrow> contents v = cs"
  by (induction spec cs rule: construct.induct)
     (auto simp: NewAction_def NewObservation_def NewReceipt_def NewExecutionEvent_def NewResolvedTarget_def
       split: if_splits option.splits)

text \<open>
  A struct in memory: its other fields as the value was constructed, and its slices. What it reads as, and
  its construction: the specification is checked, then its slices are copied.
\<close>

type_synonym object = "sealed \<times> slice list"

definition object_value :: "store \<Rightarrow> object \<Rightarrow> sealed" where
  "object_value st ob = with_contents (fst ob) (map (slice_bytes st) (snd ob))"

definition new_object :: "sealed_spec \<Rightarrow> slice list \<Rightarrow> store \<Rightarrow> (err + object) \<times> store" where
  "new_object spec slices st =
    (case construct spec (map (slice_bytes st) slices) of
       Inl e \<Rightarrow> (Inl e, st)
     | Inr v \<Rightarrow> (case cloneAll slices st of (slices', st') \<Rightarrow> (Inr (v, slices'), st')))"

text \<open>The getter of the slice \<open>i\<close>.\<close>

definition get_slice :: "object \<Rightarrow> nat \<Rightarrow> store \<Rightarrow> slice \<times> store" where
  "get_slice ob i st = (if i < length (snd ob) then cloneBytes (snd ob ! i) st else (None, st))"

subsection \<open>Clients\<close>

text \<open>
  A client allocates slices, writes through those it holds, constructs values from them and asks for the
  slices of any value.
\<close>

record memory =
  me_store :: store
  me_held :: "nat set"
  me_made :: "object list"

inductive client_step :: "memory \<Rightarrow> memory \<Rightarrow> bool" where
  alloc: "allocate b (me_store m) = (a, st) \<Longrightarrow>
    client_step m (m\<lparr>me_store := st, me_held := insert a (me_held m)\<rparr>)"
| overwrite: "a \<in> me_held m \<Longrightarrow>
    client_step m (m\<lparr>me_store := (me_store m)\<lparr>st_cell := (st_cell (me_store m))(a := b)\<rparr>\<rparr>)"
| make: "\<forall>s\<in>set slices. set_option s \<subseteq> me_held m \<Longrightarrow> new_object spec slices (me_store m) = (Inr ob, st) \<Longrightarrow>
    client_step m (m\<lparr>me_store := st, me_made := ob # me_made m\<rparr>)"
| get: "ob \<in> set (me_made m) \<Longrightarrow> get_slice ob i (me_store m) = (s, st) \<Longrightarrow>
    client_step m (m\<lparr>me_store := st, me_held := set_option s \<union> me_held m\<rparr>)"

definition no_memory :: memory where
  "no_memory = \<lparr>me_store = \<lparr>st_cell = (\<lambda>_. []), st_next = 0\<rparr>, me_held = {}, me_made = []\<rparr>"

inductive client_run :: "memory \<Rightarrow> bool" where
  start: "client_run no_memory"
| step: "client_run m \<Longrightarrow> client_step m m' \<Longrightarrow> client_run m'"

inductive_cases client_stepE: "client_step m m'"

subsection \<open>Values stay\<close>

text \<open>Nothing that was there changes when a slice is allocated or copied, and a copy is new.\<close>

definition grows :: "store \<Rightarrow> store \<Rightarrow> bool" where
  "grows st st' \<longleftrightarrow> st_next st \<le> st_next st' \<and> (\<forall>a < st_next st. st_cell st' a = st_cell st a)"

definition fresh_slice :: "store \<Rightarrow> store \<Rightarrow> slice \<Rightarrow> bool" where
  "fresh_slice st st' s \<longleftrightarrow> (\<forall>a. s = Some a \<longrightarrow> st_next st \<le> a \<and> a < st_next st')"

lemma grows_trans: "grows st st1 \<Longrightarrow> grows st1 st2 \<Longrightarrow> grows st st2"
  by (auto simp: grows_def)

lemma slice_grows: "grows st st' \<Longrightarrow> set_option s \<subseteq> {..<st_next st} \<Longrightarrow> slice_bytes st' s = slice_bytes st s"
  by (auto simp: grows_def slice_bytes_def split: option.split)

lemma allocate_grows: "allocate b st = (a, st') \<Longrightarrow> grows st st' \<and> a = st_next st \<and> st_next st' = Suc a \<and> st_cell st' a = b"
  by (auto simp: allocate_def grows_def)

lemma cloneBytes_spec:
  assumes "cloneBytes s st = (s', st')"
  shows "grows st st'" "fresh_slice st st' s'" "slice_bytes st' s' = slice_bytes st s"
proof -
  have "grows st st' \<and> fresh_slice st st' s' \<and> slice_bytes st' s' = slice_bytes st s"
  proof (cases s)
    case None
    with assms show ?thesis by (simp add: cloneBytes_def grows_def fresh_slice_def slice_bytes_def)
  next
    case (Some a)
    obtain n st1 where al: "allocate (st_cell st a) st = (n, st1)" by (metis surj_pair)
    with assms Some allocate_grows [OF al] show ?thesis
      by (auto simp: cloneBytes_def grows_def fresh_slice_def slice_bytes_def split: if_splits)
  qed
  then show "grows st st'" "fresh_slice st st' s'" "slice_bytes st' s' = slice_bytes st s" by simp_all
qed

lemma cloneAll_spec:
  assumes "cloneAll ss st = (ss', st')" "\<forall>s\<in>set ss. set_option s \<subseteq> {..<st_next st}"
  shows "grows st st' \<and> list_all (fresh_slice st st') ss' \<and> map (slice_bytes st') ss' = map (slice_bytes st) ss"
  using assms
proof (induction ss arbitrary: st ss')
  case Nil
  then show ?case by (simp add: grows_def)
next
  case (Cons s ss)
  obtain s1 st1 where one: "cloneBytes s st = (s1, st1)" by (metis surj_pair)
  obtain ss2 where rest: "cloneAll ss st1 = (ss2, st')" and ss': "ss' = s1 # ss2"
    using Cons.prems(1) one by (auto split: prod.splits)
  note c = cloneBytes_spec [OF one]
  have n: "st_next st \<le> st_next st1" using c(1) by (simp add: grows_def)
  then have "\<forall>s\<in>set ss. set_option s \<subseteq> {..<st_next st1}" using Cons.prems(2) by fastforce
  note r = Cons.IH [OF rest this]
  have old: "map (slice_bytes st1) ss = map (slice_bytes st) ss"
    using slice_grows [OF c(1)] Cons.prems(2) by auto
  have "set_option s1 \<subseteq> {..<st_next st1}" using c(2) by (auto simp: fresh_slice_def)
  then have "slice_bytes st' s1 = slice_bytes st s" using slice_grows [of st1 st' s1] r c(3) by simp
  moreover have "fresh_slice st st' s1" using c(2) r by (auto simp: fresh_slice_def grows_def)
  moreover have "list_all (fresh_slice st st') ss2" using r n by (fastforce simp: list_all_iff fresh_slice_def)
  ultimately show ?case using grows_trans [OF c(1)] r old ss' by simp
qed

text \<open>The slices of the values are in use and not held by the client.\<close>

definition sealed_memory :: "memory \<Rightarrow> bool" where
  "sealed_memory m \<longleftrightarrow> me_held m \<subseteq> {..<st_next (me_store m)}
     \<and> (\<forall>ob\<in>set (me_made m). (\<exists>spec cs. construct spec cs = Inr (fst ob))
          \<and> map (slice_bytes (me_store m)) (snd ob) = contents (fst ob)
          \<and> (\<forall>s\<in>set (snd ob). set_option s \<subseteq> {..<st_next (me_store m)} - me_held m))"

lemma map_slices_grows:
  "grows st st' \<Longrightarrow> \<forall>s\<in>set ss. set_option s \<subseteq> {..<st_next st} \<Longrightarrow> map (slice_bytes st') ss = map (slice_bytes st) ss"
  using slice_grows by auto

text \<open>Growing the store and letting the client hold more of the new addresses keeps the invariant.\<close>

lemma sealed_grows:
  assumes "sealed_memory m" "grows (me_store m) st" "set_option s \<subseteq> {st_next (me_store m) ..< st_next st}"
  shows "sealed_memory (m\<lparr>me_store := st, me_held := set_option s \<union> me_held m\<rparr>)"
proof -
  have n: "st_next (me_store m) \<le> st_next st" using assms(2) by (simp add: grows_def)
  have "map (slice_bytes st) (snd ob) = contents (fst ob)
      \<and> (\<forall>x\<in>set (snd ob). set_option x \<subseteq> {..<st_next st} - (set_option s \<union> me_held m))"
    if "ob \<in> set (me_made m)" for ob
    using assms(1,3) that n map_slices_grows [OF assms(2), of "snd ob"] by (fastforce simp: sealed_memory_def)
  then show ?thesis using assms(1,3) n by (fastforce simp: sealed_memory_def)
qed

lemma sealed_step:
  assumes "sealed_memory m" "client_step m m'"
  shows "sealed_memory m'"
  using assms(2)
proof cases
  case (alloc b a st)
  then show ?thesis using sealed_grows [OF assms(1), of st "Some a"] allocate_grows [OF alloc(2)] by simp
next
  case (overwrite a b)
  have "slice_bytes (me_store m\<lparr>st_cell := (st_cell (me_store m))(a := b)\<rparr>) s = slice_bytes (me_store m) s"
    if "ob \<in> set (me_made m)" "s \<in> set (snd ob)" for ob s
    using that assms(1) overwrite(2)
    by (fastforce simp: sealed_memory_def slice_bytes_def split: option.split)
  then have "map (slice_bytes (me_store m\<lparr>st_cell := (st_cell (me_store m))(a := b)\<rparr>)) (snd ob) =
      map (slice_bytes (me_store m)) (snd ob)" if "ob \<in> set (me_made m)" for ob
    using that by simp
  with overwrite(1) assms(1) show ?thesis by (simp add: sealed_memory_def)
next
  case (make slices spec ob st)
  then obtain v ss where ob: "ob = (v, ss)" "cloneAll slices (me_store m) = (ss, st)"
      "construct spec (map (slice_bytes (me_store m)) slices) = Inr v"
    by (auto simp: new_object_def split: sum.splits prod.splits)
  have "\<forall>s\<in>set slices. set_option s \<subseteq> {..<st_next (me_store m)}"
    using make(2) assms(1) by (fastforce simp: sealed_memory_def)
  note c = cloneAll_spec [OF ob(2) this]
  have "map (slice_bytes st) ss = contents v" using c construct_contents [OF ob(3)] by simp
  moreover have "set_option s \<subseteq> {..<st_next st} - me_held m" if "s \<in> set ss" for s
    using that c assms(1) by (fastforce simp: list_all_iff fresh_slice_def sealed_memory_def)
  ultimately show ?thesis
    using sealed_grows [OF assms(1), of st None] c ob(1,3) make(1) by (auto simp: sealed_memory_def)
next
  case (get ob i s st)
  then have "grows (me_store m) st \<and> set_option s \<subseteq> {st_next (me_store m) ..< st_next st}"
    using cloneBytes_spec(1,2) [of "snd ob ! i" "me_store m" s st]
    by (auto simp: get_slice_def grows_def fresh_slice_def split: if_splits)
  with sealed_grows [OF assms(1), of st s] get(1) show ?thesis by simp
qed

lemma client_run_sealed: "client_run m \<Longrightarrow> sealed_memory m"
proof (induction rule: client_run.induct)
  case start
  then show ?case by (simp add: sealed_memory_def no_memory_def)
qed (rule sealed_step)

lemma sealed_reads:
  assumes "client_run m" "ob \<in> set (me_made m)"
  shows "object_value (me_store m) ob = fst ob \<and> (\<exists>spec cs. construct spec cs = Inr (fst ob))
    \<and> (\<forall>i. let (s, st) = get_slice ob i (me_store m)
           in slice_bytes st s = (if i < length (contents (fst ob)) then contents (fst ob) ! i else []))"
proof -
  have inv: "map (slice_bytes (me_store m)) (snd ob) = contents (fst ob)" "\<exists>spec cs. construct spec cs = Inr (fst ob)"
    using client_run_sealed [OF assms(1)] assms(2) by (auto simp: sealed_memory_def)
  have len: "length (contents (fst ob)) = length (snd ob)" by (metis inv(1) length_map)
  have "slice_bytes (snd (get_slice ob i (me_store m))) (fst (get_slice ob i (me_store m)))
      = (if i < length (contents (fst ob)) then contents (fst ob) ! i else [])" for i
  proof (cases "i < length (snd ob)")
    case True
    then have "contents (fst ob) ! i = slice_bytes (me_store m) (snd ob ! i)" by (metis inv(1) nth_map)
    with True len show ?thesis using cloneBytes_spec(3) [of "snd ob ! i" "me_store m"] by (simp add: get_slice_def)
  qed (simp add: get_slice_def slice_bytes_def len)
  then show ?thesis using inv by (simp add: object_value_def split_beta)
qed

text \<open>C10: a value of package \<open>atoha\<close> that holds byte slices never changes: whatever a client does afterwards with the slices it passed to
  the constructor and the slices it got from getters, the value reads as the one the constructor checked
  and returned, and each getter gives the bytes it had then.\<close>

theorem values_are_immutable:
  assumes "client_run m" and "ob \<in> set (me_made m)"
  shows "object_value (me_store m) ob = fst ob \<and> (\<exists>spec cs. construct spec cs = Inr (fst ob))
    \<and> (\<forall>i. let (s, st) = get_slice ob i (me_store m)
           in slice_bytes st s = (if i < length (contents (fst ob)) then contents (fst ob) ! i else []))"
  using assms by (rule sealed_reads)
definition client_example :: memory where
  "client_example =
    \<lparr>me_store = \<lparr>st_cell = (\<lambda>_. [])(0 := ''{}'', 1 := ''{}'', 0 := ''on''), st_next = 2\<rparr>, me_held = {0},
     me_made = [(ActionValue (example_action\<lparr>act_input := ''{}''\<rparr>), [Some 1])]\<rparr>"

lemma client_example_run: "client_run client_example"
proof -
  let ?spec = "OfAction \<lparr>as_ID = ''a'', as_Target = ''lamp'', as_Name = ''turn_on'', as_Input = [],
    as_RequestedAt = \<lparr>t_ns = 1, t_off = 0\<rparr>\<rparr>"
  let ?st1 = "\<lparr>st_cell = (\<lambda>_. [])(0 := ''{}''), st_next = 1\<rparr>"
  let ?st2 = "\<lparr>st_cell = (\<lambda>_. [])(0 := ''{}'', 1 := ''{}''), st_next = 2\<rparr>"
  let ?ob = "(ActionValue (example_action\<lparr>act_input := ''{}''\<rparr>), [Some 1])"
  have "client_run \<lparr>me_store = ?st1, me_held = {0}, me_made = []\<rparr>"
    using client_step.alloc [of "''{}''" no_memory 0 ?st1] client_run.start
    by (auto simp: no_memory_def allocate_def intro: client_run.step)
  moreover have "new_object ?spec [Some 0] ?st1 = (Inr ?ob, ?st2)"
  proof -
    have "text_ok ''a''" "text_ok ''lamp''" "text_ok ''turn_on''" by (rule visible_text_ok; simp add: visible_def code_def)+
    then have "NewAction \<lparr>as_ID = ''a'', as_Target = ''lamp'', as_Name = ''turn_on'', as_Input = ''{}'',
        as_RequestedAt = \<lparr>t_ns = 1, t_off = 0\<rparr>\<rparr> = Inr (example_action\<lparr>act_input := ''{}''\<rparr>)"
      by (simp add: NewAction_Inr_iff action_ok_def example_action_def IsZero_def)
    then show ?thesis by (simp add: new_object_def slice_bytes_def cloneBytes_def allocate_def)
  qed
  ultimately have "client_run \<lparr>me_store = ?st2, me_held = {0}, me_made = [?ob]\<rparr>"
    using client_step.make [of "[Some 0]" "\<lparr>me_store = ?st1, me_held = {0}, me_made = []\<rparr>" ?spec ?ob ?st2]
    by (auto intro: client_run.step)
  moreover have "client_step \<lparr>me_store = ?st2, me_held = {0}, me_made = [?ob]\<rparr> client_example"
    using client_step.overwrite [of 0 "\<lparr>me_store = ?st2, me_held = {0}, me_made = [?ob]\<rparr>" "''on''"]
    by (simp add: client_example_def)
  ultimately show ?thesis by (rule client_run.step)
qed

lemma values_are_immutable_witness:
  "st_cell (me_store client_example) 0 = ''on''
   \<and> object_value (me_store client_example) (ActionValue (example_action\<lparr>act_input := ''{}''\<rparr>), [Some 1])
       = ActionValue (example_action\<lparr>act_input := ''{}''\<rparr>)"
  using values_are_immutable [OF client_example_run, of "(ActionValue (example_action\<lparr>act_input := ''{}''\<rparr>), [Some 1])"]
  by (simp add: client_example_def)

end
