(* ===== verification/Json_Scan.thy ===== *)
theory Json_Scan
  imports Json_Encode
begin

text \<open>
  Reading JSON as \<open>encoding/json\<close> does: the scanner that checks the whole text before anything is
  decoded, and the pieces the decoder cuts it into. A scanning function returns the input after the
  text it accepts, or \<^const>\<open>None\<close> for a syntax error. A value may nest 10000 containers; the loop over the
  members of one container runs on fuel, and the number of characters left is always enough, because
  every round consumes some. The decoder itself works on the raw text of a value, as the code does with
  \<open>json.RawMessage\<close>.
\<close>

subsection \<open>White space, literals, numbers\<close>

definition json_space :: "char \<Rightarrow> bool" where
  "json_space c \<longleftrightarrow> c = CHR '' '' \<or> c = CHR 0x09 \<or> c = CHR 0x0A \<or> c = CHR 0x0D"

definition skip_space :: "string \<Rightarrow> string" where
  "skip_space s = dropWhile json_space s"

definition is_hex :: "char \<Rightarrow> bool" where
  "is_hex c \<longleftrightarrow> is_digit c \<or> 97 \<le> code c \<and> code c \<le> 102 \<or> 65 \<le> code c \<and> code c \<le> 70"

definition hex_val :: "char \<Rightarrow> nat" where
  "hex_val c = (if is_digit c then code c - 48 else if 97 \<le> code c then code c - 87 else code c - 55)"

definition escape_char :: "char \<Rightarrow> bool" where
  "escape_char e \<longleftrightarrow>
     e \<in> set [CHR ''b'', CHR ''f'', CHR ''n'', CHR ''r'', CHR ''t'', CHR 0x5C, CHR ''/'', CHR 0x22]"

text \<open>After the opening quote, up to and including the closing one.\<close>

fun scan_string :: "string \<Rightarrow> string option" where
  "scan_string [] = None"
| "scan_string (c # cs) =
    (if c = CHR 0x22 then Some cs
     else if c = CHR 0x5C then
       (case cs of
          [] \<Rightarrow> None
        | e # es \<Rightarrow>
            if escape_char e then scan_string es
            else if e = CHR ''u'' then
              (case es of
                 h1 # h2 # h3 # h4 # rest \<Rightarrow>
                   if is_hex h1 \<and> is_hex h2 \<and> is_hex h3 \<and> is_hex h4 then scan_string rest else None
               | _ \<Rightarrow> None)
            else None)
     else if code c < 32 then None
     else scan_string cs)"

text \<open>A non-empty run of digits.\<close>

definition scan_digits :: "string \<Rightarrow> string option" where
  "scan_digits s = (case s of c # cs \<Rightarrow> if is_digit c then Some (dropWhile is_digit cs) else None | [] \<Rightarrow> None)"

definition scan_integer :: "string \<Rightarrow> string option" where
  "scan_integer s = (case s of c # cs \<Rightarrow> if c = CHR ''0'' then Some cs else scan_digits s | [] \<Rightarrow> None)"

definition scan_frac :: "string \<Rightarrow> string option" where
  "scan_frac s = (case s of c # cs \<Rightarrow> if c = CHR ''.'' then scan_digits cs else Some s | [] \<Rightarrow> Some s)"

definition skip_sign :: "string \<Rightarrow> string" where
  "skip_sign s = (case s of c # cs \<Rightarrow> if c = CHR ''+'' \<or> c = CHR ''-'' then cs else s | [] \<Rightarrow> s)"

definition scan_exp :: "string \<Rightarrow> string option" where
  "scan_exp s =
    (case s of
       c # cs \<Rightarrow> if c = CHR ''e'' \<or> c = CHR ''E'' then scan_digits (skip_sign cs) else Some s
     | [] \<Rightarrow> Some s)"

definition skip_minus :: "string \<Rightarrow> string" where
  "skip_minus s = (case s of c # cs \<Rightarrow> if c = CHR ''-'' then cs else s | [] \<Rightarrow> s)"

definition scan_number :: "string \<Rightarrow> string option" where
  "scan_number s = Option.bind (scan_integer (skip_minus s)) (\<lambda>s1. Option.bind (scan_frac s1) scan_exp)"

definition scan_word :: "string \<Rightarrow> string \<Rightarrow> string option" where
  "scan_word w s = (if prefix w s then Some (drop (length w) s) else None)"

definition scan_scalar :: "string \<Rightarrow> string option" where
  "scan_scalar s =
    (case s of
       [] \<Rightarrow> None
     | c # cs \<Rightarrow>
         if c = CHR 0x22 then scan_string cs
         else if c = CHR ''-'' \<or> is_digit c then scan_number s
         else if c = CHR ''t'' then scan_word ''true'' s
         else if c = CHR ''f'' then scan_word ''false'' s
         else if c = CHR ''n'' then scan_word ''null'' s
         else None)"

subsection \<open>Strings decoded\<close>

text \<open>\<open>utf8.AppendRune\<close> on the runes \<open>unquoteBytes\<close> writes; the replacement rune is FFFD.\<close>

definition encode_rune :: "nat \<Rightarrow> bytes" where
  "encode_rune r =
    (if r < 128 then [byte r]
     else if r < 2048 then [byte (192 + r div 64), byte (128 + r mod 64)]
     else if r < 65536 then [byte (224 + r div 4096), byte (128 + r div 64 mod 64), byte (128 + r mod 64)]
     else [byte (240 + r div 262144), byte (128 + r div 4096 mod 64), byte (128 + r div 64 mod 64),
           byte (128 + r mod 64)])"

definition fffd :: bytes where
  "fffd = encode_rune 65533"

text \<open>\<open>getu4\<close>: the four hexadecimal digits after \<open>\u\<close>, when they are there.\<close>

definition hex4 :: "string \<Rightarrow> nat option" where
  "hex4 s =
    (case s of
       h1 # h2 # h3 # h4 # _ \<Rightarrow>
         if is_hex h1 \<and> is_hex h2 \<and> is_hex h3 \<and> is_hex h4
         then Some (hex_val h1 * 4096 + hex_val h2 * 256 + hex_val h3 * 16 + hex_val h4) else None
     | _ \<Rightarrow> None)"

definition low_surrogate :: "string \<Rightarrow> nat option" where
  "low_surrogate s =
    (case s of
       b # u # rest \<Rightarrow>
         (if b = CHR 0x5C \<and> u = CHR ''u'' then
           (case hex4 rest of
              Some r \<Rightarrow> if 56320 \<le> r \<and> r < 57344 then Some r else None
            | None \<Rightarrow> None)
          else None)
     | _ \<Rightarrow> None)"

definition simple_escape :: "char \<Rightarrow> char option" where
  "simple_escape e =
    (if e = CHR ''b'' then Some CHR 0x08 else if e = CHR ''f'' then Some CHR 0x0C
     else if e = CHR ''n'' then Some CHR 0x0A else if e = CHR ''r'' then Some CHR 0x0D
     else if e = CHR ''t'' then Some CHR 0x09
     else if e \<in> set [CHR 0x22, CHR 0x5C, CHR ''/'', CHR 0x27] then Some e else None)"

text \<open>
  The bytes of an escape \<open>\u\<close> whose digits start \<open>es\<close>, and what follows it: a surrogate pair is one
  rune, a surrogate without its partner is replaced.
\<close>

definition unquote_u :: "string \<Rightarrow> bytes \<times> string" where
  "unquote_u es =
    (case hex4 es of
       None \<Rightarrow> ([], drop 4 es)
     | Some r \<Rightarrow>
         if 55296 \<le> r \<and> r < 57344 then
           (case low_surrogate (drop 4 es) of
              Some r2 \<Rightarrow>
                if r < 56320 then (encode_rune ((r - 55296) * 1024 + (r2 - 56320) + 65536), drop 10 es)
                else (fffd, drop 4 es)
            | None \<Rightarrow> (fffd, drop 4 es))
         else (encode_rune r, drop 4 es))"

lemma unquote_u_length: "length (snd (unquote_u es)) \<le> length es"
  by (simp add: unquote_u_def split: option.splits)

text \<open>
  \<open>unquoteBytes\<close> on the text between the quotes, which the scanner has accepted; the branches it gives up
  in are out of reach then, and the result is cut there.
\<close>

function unquote_body :: "string \<Rightarrow> bytes" where
  "unquote_body [] = []"
| "unquote_body (c # cs) =
    (if c = CHR 0x5C then
       (case cs of
          [] \<Rightarrow> []
        | e # es \<Rightarrow>
            if e = CHR ''u'' then fst (unquote_u es) @ unquote_body (snd (unquote_u es))
            else (case simple_escape e of None \<Rightarrow> [] | Some x \<Rightarrow> x # unquote_body es))
     else
       (case decode_rune (c # cs) of
          None \<Rightarrow> fffd @ unquote_body cs
        | Some (r, n) \<Rightarrow> take n (c # cs) @ unquote_body (drop n (c # cs))))"
  by pat_completeness auto
termination
proof (relation "measure length")
  fix c cs p r n
  assume "decode_rune (c # cs) = Some p" and "(r, n) = p"
  then have "0 < n" by (metis decode_rune_width)
  then show "(drop n (c # cs), c # cs) \<in> measure length" by simp
next
  fix c e :: char and cs es :: string
  assume "cs = e # es"
  with unquote_u_length [of es] show "(snd (unquote_u es), c # cs) \<in> measure length" by simp
qed simp_all

declare unquote_body.simps(2) [simp del]

text \<open>The string a quoted literal denotes.\<close>

definition unquote :: "string \<Rightarrow> bytes" where
  "unquote raw = unquote_body (butlast (tl raw))"

subsection \<open>Containers\<close>

text \<open>The text consumed between an input and its rest.\<close>

definition consumed :: "string \<Rightarrow> string \<Rightarrow> string" where
  "consumed s rest = take (length s - length rest) s"

text \<open>
  The loop over the members of an object, after the opening brace or a comma: the members with their
  names decoded and their values raw. The parameter scans a value.
\<close>

primrec object_members ::
    "nat \<Rightarrow> (string \<Rightarrow> string option) \<Rightarrow> string \<Rightarrow> ((string \<times> string) list \<times> string) option" where
  "object_members 0 f s = None"
| "object_members (Suc n) f s =
    (case skip_space s of
       [] \<Rightarrow> None
     | q # s1 \<Rightarrow>
       if q \<noteq> CHR 0x22 then None
       else
       (case scan_string s1 of
          None \<Rightarrow> None
        | Some s2 \<Rightarrow>
          (case skip_space s2 of
             [] \<Rightarrow> None
           | col # s3 \<Rightarrow>
             if col \<noteq> CHR '':'' then None
             else
             (let v = skip_space s3 in
              case f v of
                None \<Rightarrow> None
              | Some s4 \<Rightarrow>
                (let member = (unquote_body (butlast (consumed s1 s2)), consumed v s4) in
                 case skip_space s4 of
                   [] \<Rightarrow> None
                 | d # s5 \<Rightarrow>
                     if d = CHR '','' then map_option (apfst (Cons member)) (object_members n f s5)
                     else if d = CHR 0x7D then Some ([member], s5)
                     else None)))))"

primrec array_elements :: "nat \<Rightarrow> (string \<Rightarrow> string option) \<Rightarrow> string \<Rightarrow> string option" where
  "array_elements 0 f s = None"
| "array_elements (Suc n) f s =
    (case f (skip_space s) of
       None \<Rightarrow> None
     | Some s1 \<Rightarrow>
       (case skip_space s1 of
          [] \<Rightarrow> None
        | d # s2 \<Rightarrow>
            if d = CHR '','' then array_elements n f s2 else if d = CHR '']'' then Some s2 else None))"

definition scan_object :: "(string \<Rightarrow> string option) \<Rightarrow> string \<Rightarrow> ((string \<times> string) list \<times> string) option" where
  "scan_object f s =
    (case skip_space s of
       [] \<Rightarrow> None
     | c # cs \<Rightarrow> if c = CHR 0x7D then Some ([], cs) else object_members (length s) f s)"

definition scan_array :: "(string \<Rightarrow> string option) \<Rightarrow> string \<Rightarrow> string option" where
  "scan_array f s =
    (case skip_space s of
       [] \<Rightarrow> None
     | c # cs \<Rightarrow> if c = CHR '']'' then Some cs else array_elements (length s) f s)"

text \<open>A value that nests at most the given number of containers.\<close>

primrec scan_value :: "nat \<Rightarrow> string \<Rightarrow> string option" where
  "scan_value 0 s = scan_scalar s"
| "scan_value (Suc d) s =
    (case s of
       [] \<Rightarrow> None
     | c # cs \<Rightarrow>
         if c = CHR 0x7B then map_option snd (scan_object (scan_value d) cs)
         else if c = CHR ''['' then scan_array (scan_value d) cs
         else scan_scalar s)"

declare scan_value.simps [simp del]

lemma scan_value_0 [simp]: "scan_value 0 s = scan_scalar s"
  by (simp add: scan_value.simps)

lemma scan_value_Nil [simp]: "scan_value d [] = None"
  by (cases d) (simp_all add: scan_value.simps scan_scalar_def)

lemma scan_value_Cons:
  "scan_value (Suc d) (c # cs) =
    (if c = CHR 0x7B then map_option snd (scan_object (scan_value d) cs)
     else if c = CHR ''['' then scan_array (scan_value d) cs
     else scan_scalar (c # cs))"
  by (simp add: scan_value.simps)

definition maxNestingDepth :: nat where
  "maxNestingDepth = 10000"

end
