(* ===== verification/Json_Decode.thy ===== *)
theory Json_Decode
  imports Json_Scan
begin

text \<open>
  Decoding and re-encoding on top of the scanner: \<open>json.Unmarshal\<close> and \<open>Decoder.Decode\<close> into the kinds of
  values the program uses (structs of strings, numbers, times, nested structs and raw values, and maps
  from strings), and \<open>json.Marshal\<close> of a map of raw values. A decoder of the code stores into an existing
  variable, so a store here takes the old contents; \<^const>\<open>None\<close> is an error, after which every caller in the
  program discards the variable. The texts of these errors are a parameter.
\<close>

type_synonym json_texts = "string \<Rightarrow> bytes \<Rightarrow> string"

subsection \<open>One value\<close>

datatype raw_kind = RawNull | RawBool | RawNumber | RawString | RawObject | RawArray

definition raw_kind :: "string \<Rightarrow> raw_kind" where
  "raw_kind raw =
    (case raw of
       [] \<Rightarrow> RawNull
     | c # cs \<Rightarrow>
         if c = CHR ''n'' then RawNull
         else if c = CHR ''t'' \<or> c = CHR ''f'' then RawBool
         else if c = CHR 0x22 then RawString
         else if c = CHR 0x7B then RawObject
         else if c = CHR ''['' then RawArray
         else RawNumber)"

text \<open>\<open>json.Unmarshal\<close> accepts exactly one value, \<open>Decoder.Decode\<close> the next one of a stream.\<close>

definition whole_value :: "string \<Rightarrow> string option" where
  "whole_value s =
    (let v = skip_space s in
     case scan_value maxNestingDepth v of
       None \<Rightarrow> None
     | Some rest \<Rightarrow> if skip_space rest = [] then Some (consumed v rest) else None)"

datatype stream_value = StreamEOF | StreamError | StreamValue string string

definition next_value :: "string \<Rightarrow> stream_value" where
  "next_value s =
    (let v = skip_space s in
     if v = [] then StreamEOF
     else case scan_value maxNestingDepth v of
            None \<Rightarrow> StreamError
          | Some rest \<Rightarrow> StreamValue (consumed v rest) rest)"

text \<open>The members of an accepted object.\<close>

definition raw_members :: "string \<Rightarrow> (string \<times> string) list" where
  "raw_members raw =
    (case scan_object (scan_value maxNestingDepth) (tl raw) of Some (ms, _) \<Rightarrow> ms | None \<Rightarrow> [])"

subsection \<open>Maps\<close>

text \<open>
  A Go map whose keys are printed in order: an association list sorted by key. Assigning to a key
  replaces its value.
\<close>

fun bytes_less :: "bytes \<Rightarrow> bytes \<Rightarrow> bool" where
  "bytes_less xs [] = False"
| "bytes_less [] (y # ys) = True"
| "bytes_less (x # xs) (y # ys) = (code x < code y \<or> x = y \<and> bytes_less xs ys)"

fun map_put :: "string \<Rightarrow> 'v \<Rightarrow> (string \<times> 'v) list \<Rightarrow> (string \<times> 'v) list" where
  "map_put k v [] = [(k, v)]"
| "map_put k v ((k', v') # m) =
    (if k = k' then (k, v) # m
     else if bytes_less k k' then (k, v) # (k', v') # m
     else (k', v') # map_put k v m)"

definition map_put_all :: "(string \<times> 'v) list \<Rightarrow> (string \<times> 'v) list \<Rightarrow> (string \<times> 'v) list" where
  "map_put_all kvs m = foldl (\<lambda>m (k, v). map_put k v m) m kvs"

subsection \<open>Structs\<close>

text \<open>
  The key of a member names a field exactly, or else up to case (\<open>foldName\<close>): the letters, and the two
  runes outside ASCII that fold to a letter, the Kelvin sign and the long s.
\<close>

fun fold_name :: "bytes \<Rightarrow> bytes" where
  "fold_name [] = []"
| "fold_name (c # cs) =
    (if 97 \<le> code c \<and> code c \<le> 122 then byte (code c - 32) # fold_name cs
     else case cs of
            d # ds \<Rightarrow>
              if c = CHR 0xC5 \<and> d = CHR 0xBF then CHR ''S'' # fold_name ds
              else (case ds of
                      e # es \<Rightarrow>
                        if c = CHR 0xE2 \<and> d = CHR 0x84 \<and> e = CHR 0xAA then CHR ''K'' # fold_name es
                        else c # fold_name cs
                    | [] \<Rightarrow> c # fold_name cs)
          | [] \<Rightarrow> [c])"

type_synonym 'r store = "string \<Rightarrow> 'r \<Rightarrow> 'r option"

definition find_field :: "(string \<times> 'f) list \<Rightarrow> string \<Rightarrow> 'f option" where
  "find_field fs key =
    (case map_of fs key of
       Some f \<Rightarrow> Some f
     | None \<Rightarrow> map_option snd (find (\<lambda>(name, f). fold_name name = fold_name key) fs))"

fun store_members :: "bool \<Rightarrow> (string \<times> 'r store) list \<Rightarrow> (string \<times> string) list \<Rightarrow> 'r \<Rightarrow> 'r option" where
  "store_members strict fs [] r = Some r"
| "store_members strict fs ((key, raw) # ms) r =
    (case find_field fs key of
       None \<Rightarrow> if strict then None else store_members strict fs ms r
     | Some store \<Rightarrow> Option.bind (store raw r) (store_members strict fs ms))"

text \<open>\<open>strict\<close> is \<open>DisallowUnknownFields\<close>; \<open>null\<close> leaves a struct as it is.\<close>

definition store_struct :: "bool \<Rightarrow> (string \<times> 'r store) list \<Rightarrow> 'r store" where
  "store_struct strict fs raw r =
    (case raw_kind raw of
       RawNull \<Rightarrow> Some r
     | RawObject \<Rightarrow> store_members strict fs (raw_members raw) r
     | _ \<Rightarrow> None)"

definition store_string :: "string store" where
  "store_string raw s =
    (case raw_kind raw of RawNull \<Rightarrow> Some s | RawString \<Rightarrow> Some (unquote raw) | _ \<Rightarrow> None)"

text \<open>\<open>json.Number\<close>: a number as written, or a string that holds one.\<close>

definition valid_number :: "string \<Rightarrow> bool" where
  "valid_number s \<longleftrightarrow> scan_number s = Some []"

definition store_number :: "string store" where
  "store_number raw s =
    (case raw_kind raw of
       RawNull \<Rightarrow> Some s
     | RawNumber \<Rightarrow> Some raw
     | RawString \<Rightarrow> if valid_number (unquote raw) then Some (unquote raw) else None
     | _ \<Rightarrow> None)"

text \<open>\<open>Time.UnmarshalJSON\<close> reads the text between the quotes as it is.\<close>

definition store_time :: "gtime store" where
  "store_time raw t =
    (case raw_kind raw of
       RawNull \<Rightarrow> Some t
     | RawString \<Rightarrow> ParseRFC3339Nano (butlast (tl raw))
     | _ \<Rightarrow> None)"

text \<open>\<open>json.RawMessage\<close> takes every value, \<open>null\<close> included.\<close>

definition store_raw :: "string store" where
  "store_raw raw s = Some raw"

text \<open>
  A Go map that may be nil; the decoder makes one when it reads an object and keeps the entries of an
  existing one. A value is decoded into a fresh zero value.
\<close>

type_synonym 'v gomap = "(string \<times> 'v) list option"

definition map_get :: "'v gomap \<Rightarrow> string \<Rightarrow> 'v option" where
  "map_get m k = (case m of None \<Rightarrow> None | Some l \<Rightarrow> map_of l k)"

fun store_entries :: "'v \<Rightarrow> 'v store \<Rightarrow> (string \<times> string) list \<Rightarrow> (string \<times> 'v) list \<Rightarrow> (string \<times> 'v) list option"
where
  "store_entries zero store [] m = Some m"
| "store_entries zero store ((key, raw) # ms) m =
    Option.bind (store raw zero) (\<lambda>v. store_entries zero store ms (map_put key v m))"

definition store_map :: "'v \<Rightarrow> 'v store \<Rightarrow> 'v gomap store" where
  "store_map zero store raw m =
    (case raw_kind raw of
       RawNull \<Rightarrow> Some None
     | RawObject \<Rightarrow> map_option Some (store_entries zero store (raw_members raw) (case m of None \<Rightarrow> [] | Some l \<Rightarrow> l))
     | _ \<Rightarrow> None)"

text \<open>A field of a struct, by its reading and writing functions.\<close>

definition field :: "('r \<Rightarrow> 'v) \<Rightarrow> (('v \<Rightarrow> 'v) \<Rightarrow> 'r \<Rightarrow> 'r) \<Rightarrow> 'v store \<Rightarrow> 'r store" where
  "field get upd store raw r = map_option (\<lambda>v. upd (\<lambda>_. v) r) (store raw (get r))"

definition Unmarshal :: "'r store \<Rightarrow> string \<Rightarrow> 'r \<Rightarrow> 'r option" where
  "Unmarshal store s r = Option.bind (whole_value s) (\<lambda>raw. store raw r)"

lemma store_entries_raw: "store_entries zero store_raw ms m = Some (map_put_all ms m)"
  by (induction ms arbitrary: m) (auto simp: store_raw_def map_put_all_def)

subsection \<open>Compacting\<close>

text \<open>
  \<open>appendCompact\<close> with HTML escaping, on the text of a valid value: white space outside strings goes,
  the three HTML characters and the two line separators inside strings are escaped. The flag is
  \<^const>\<open>True\<close> inside a string.
\<close>

fun compact :: "bool \<Rightarrow> string \<Rightarrow> string" where
  "compact inside [] = []"
| "compact inside (c # cs) =
    (if \<not> inside then
       (if json_space c then compact False cs else c # compact (c = CHR 0x22) cs)
     else if c = CHR 0x22 then c # compact False cs
     else if c = CHR 0x5C then
       (case cs of [] \<Rightarrow> [c] | e # es \<Rightarrow> c # e # compact True es)
     else if c = CHR ''<'' \<or> c = CHR ''>'' \<or> c = CHR ''&'' then
       CHR 0x5C # ''u00'' @ hex_byte c @ compact True cs
     else
       (case cs of
          d # e # es \<Rightarrow>
            if c = CHR 0xE2 \<and> d = CHR 0x80 \<and> (e = CHR 0xA8 \<or> e = CHR 0xA9)
            then CHR 0x5C # ''u202'' @ [hex_digit (code e mod 16)] @ compact True es
            else c # compact True cs
        | _ \<Rightarrow> c # compact True cs))"

definition marshal_raw_map :: "(string \<times> string) list \<Rightarrow> string" where
  "marshal_raw_map m =
    CHR 0x7B # json_commas (map (\<lambda>(k, raw). json_string k @ CHR '':'' # compact False raw) m) @ [CHR 0x7D]"

subsection \<open>Laws of maps\<close>

lemma map_of_map_put [simp]: "map_of (map_put k v m) = (map_of m)(k \<mapsto> v)"
  by (induction m) (auto simp: fun_eq_iff)

lemma map_of_map_put_all: "map_of (map_put_all kvs m) = map_of m ++ map_of (rev kvs)"
  by (induction kvs arbitrary: m) (auto simp: map_put_all_def map_add_def fun_eq_iff split: option.splits)

lemma bytes_less_irrefl [simp]: "\<not> bytes_less xs xs"
  by (induction xs) auto

lemma bytes_less_trans: "bytes_less xs ys \<Longrightarrow> bytes_less ys zs \<Longrightarrow> bytes_less xs zs"
proof (induction xs ys arbitrary: zs rule: bytes_less.induct)
  case (2 y ys)
  then show ?case by (cases zs) auto
next
  case (3 x xs y ys)
  then show ?case by (cases zs) auto
qed auto

lemma bytes_less_total: "xs \<noteq> ys \<Longrightarrow> bytes_less xs ys \<or> bytes_less ys xs"
proof (induction xs ys rule: bytes_less.induct)
  case (1 xs)
  then show ?case by (cases xs) auto
next
  case (3 x xs y ys)
  then show ?case by (metis bytes_less.simps(3) byte_code linorder_neqE_nat)
qed auto

lemma set_map_put: "fst ` set (map_put k v m) = insert k (fst ` set m)"
  by (metis dom_map_of_conv_image_fst map_of_map_put dom_fun_upd option.distinct(1))

lemma sorted_map_put:
  assumes "sorted_wrt bytes_less (map fst m)"
  shows "sorted_wrt bytes_less (map fst (map_put k v m))"
  using assms
proof (induction m)
  case (Cons kv m)
  obtain k' v' where kv: "kv = (k', v')" by force
  from Cons.prems kv have le: "\<forall>x\<in>fst ` set m. bytes_less k' x" and m: "sorted_wrt bytes_less (map fst m)"
    by auto
  show ?case
  proof (cases "k = k' \<or> bytes_less k k'")
    case True
    with kv le m show ?thesis by (auto intro: bytes_less_trans)
  next
    case False
    then have "bytes_less k' k" using bytes_less_total by blast
    with le have "\<forall>x\<in>fst ` set (map_put k v m). bytes_less k' x" by (simp add: set_map_put)
    with False kv Cons.IH [OF m] show ?thesis by auto
  qed
qed simp

end
