(* ===== verification/Json_Laws.thy ===== *)
theory Json_Laws
  imports Json_Decode
begin

text \<open>
  Laws of the scanner: what it accepts is a non-empty prefix of its input, a deeper limit accepts the
  same texts and more, and the fuel of the loops over members and elements is enough.
\<close>

subsection \<open>Scanning consumes a prefix\<close>

text \<open>\<open>eats f\<close>: the scanning function \<open>f\<close> returns a proper suffix of its input.\<close>

definition eats :: "(string \<Rightarrow> string option) \<Rightarrow> bool" where
  "eats f \<longleftrightarrow> (\<forall>s r. f s = Some r \<longrightarrow> strict_suffix r s)"

lemma eatsD: "eats f \<Longrightarrow> f s = Some r \<Longrightarrow> strict_suffix r s"
  by (simp add: eats_def)

lemma skip_space_suffix: "suffix (skip_space s) s"
  by (simp add: skip_space_def suffix_dropWhile)

lemma skip_space_length: "length (skip_space s) \<le> length s"
  using skip_space_suffix suffix_length_le by blast

lemma skip_space_Cons [simp]: "\<not> json_space c \<Longrightarrow> skip_space (c # cs) = c # cs"
  by (simp add: skip_space_def)

lemma skip_space_Nil [simp]: "skip_space [] = []"
  by (simp add: skip_space_def)

lemma skip_space_idem [simp]: "skip_space (skip_space s) = skip_space s"
  by (induction s) (auto simp: skip_space_def)

lemma skip_space_hd: "skip_space s = c # cs \<Longrightarrow> \<not> json_space c"
  by (metis hd_dropWhile list.distinct(1) list.sel(1) skip_space_def)

lemma strict_suffix_Cons [simp]: "strict_suffix r (x # xs) \<longleftrightarrow> suffix r xs"
proof -
  have "suffix r xs \<Longrightarrow> r \<noteq> x # xs" using suffix_length_le by fastforce
  then show ?thesis by (auto simp: strict_suffix_def suffix_Cons)
qed

lemma strict_suffix_Cons_self: "strict_suffix xs (x # xs)"
  by simp

lemma strict_suffix_imp: "strict_suffix a b \<Longrightarrow> suffix a b"
  by (rule suffix_order.less_imp_le)

lemma suffix_strict_trans: "suffix a b \<Longrightarrow> strict_suffix b c \<Longrightarrow> strict_suffix a c"
  by (metis suffix_order.le_less_trans)

lemma strict_suffix_trans': "strict_suffix a b \<Longrightarrow> suffix b c \<Longrightarrow> strict_suffix a c"
  by (metis suffix_order.less_le_trans)

lemma strict_suffix_length: "strict_suffix a b \<Longrightarrow> length a < length b"
  by (auto simp: strict_suffix_def suffix_def)

text \<open>After the first character a string ends, or the scan goes on further right.\<close>

lemma scan_string_step:
  assumes "scan_string (c # cs) = Some r"
  shows "r = cs \<or> (\<exists>t. suffix t cs \<and> scan_string t = Some r)"
proof -
  have "suffix x (a # b # d # e # x)" "suffix x (u # a # b # d # e # x)" "suffix x (u # x)"
    for x :: string and u a b d e
    by (simp_all add: suffix_Cons)
  with assms show ?thesis
    by (auto split: if_splits list.splits)
qed

lemma scan_string_suffix: "scan_string s = Some r \<Longrightarrow> strict_suffix r s"
proof (induction s rule: length_induct)
  case (1 s)
  show ?case
  proof (cases s)
    case (Cons c cs)
    with 1 scan_string_step [of c cs r] consider "r = cs" | t where "suffix t cs" "scan_string t = Some r"
      by blast
    then show ?thesis
    proof cases
      case 2
      moreover from 2 have "length t < length s" using Cons suffix_length_le by fastforce
      ultimately have "strict_suffix r t" using 1 by blast
      with 2 show ?thesis using Cons by (auto dest: strict_suffix_imp intro: suffix_order.trans)
    qed (simp add: Cons)
  qed (use 1 in simp)
qed

lemma scan_digits_suffix: "scan_digits s = Some r \<Longrightarrow> strict_suffix r s"
  by (auto simp: scan_digits_def suffix_dropWhile split: list.splits if_splits)

lemma scan_integer_suffix: "scan_integer s = Some r \<Longrightarrow> strict_suffix r s"
  by (auto simp: scan_integer_def split: list.splits if_splits dest: scan_digits_suffix)

lemma suffix_signs: "suffix (skip_sign s) s" "suffix (skip_minus s) s"
  by (simp_all add: skip_sign_def skip_minus_def suffix_Cons split: list.split)

lemma scan_frac_suffix: "scan_frac s = Some r \<Longrightarrow> suffix r s"
proof (cases s)
  case (Cons c cs)
  assume "scan_frac s = Some r"
  with Cons have "r = s \<or> scan_digits cs = Some r"
    by (simp add: scan_frac_def split: if_splits)
  then show ?thesis
    by (elim disjE) (simp_all add: Cons suffix_Cons scan_digits_suffix strict_suffix_imp)
qed (simp add: scan_frac_def)

lemma scan_exp_suffix: "scan_exp s = Some r \<Longrightarrow> suffix r s"
proof (cases s)
  case (Cons c cs)
  assume "scan_exp s = Some r"
  with Cons have "r = s \<or> scan_digits (skip_sign cs) = Some r"
    by (simp add: scan_exp_def split: if_splits)
  then show ?thesis
  proof
    assume "scan_digits (skip_sign cs) = Some r"
    then have "suffix r (skip_sign cs)" by (simp add: scan_digits_suffix strict_suffix_imp)
    then have "suffix r cs" using suffix_signs(1) by (rule suffix_order.trans)
    then show ?thesis by (simp add: Cons suffix_Cons)
  qed simp
qed (simp add: scan_exp_def)

lemma scan_number_suffix:
  assumes "scan_number s = Some r"
  shows "strict_suffix r s"
proof -
  from assms obtain s1 s2 where s1: "scan_integer (skip_minus s) = Some s1" and s2: "scan_frac s1 = Some s2"
    and r: "scan_exp s2 = Some r"
    by (auto simp: scan_number_def bind_eq_Some_conv)
  from s1 have "strict_suffix s1 s"
    using scan_integer_suffix strict_suffix_trans' suffix_signs(2) by blast
  moreover have "suffix r s1"
    using scan_exp_suffix [OF r] scan_frac_suffix [OF s2] suffix_order.trans by blast
  ultimately show ?thesis by (rule suffix_strict_trans [rotated])
qed

lemma scan_word_suffix: "scan_word w s = Some r \<Longrightarrow> w \<noteq> [] \<Longrightarrow> strict_suffix r s"
  by (auto simp: scan_word_def prefix_def strict_suffix_def suffix_def split: if_splits)

lemma scan_scalar_eats: "eats scan_scalar"
  by (auto simp: eats_def scan_scalar_def split: list.splits if_splits
      dest!: scan_string_suffix scan_number_suffix scan_word_suffix
      intro: suffix_strict_trans [OF suffix_order.less_imp_le])

text \<open>One round of the loop over members, and its shape.\<close>

lemma object_members_SucE:
  assumes "object_members (Suc n) f s = Some (ms, r)"
  obtains s1 s2 s3 s4 d s5 where "skip_space s = CHR 0x22 # s1" "scan_string s1 = Some s2"
    "skip_space s2 = CHR '':'' # s3" "f (skip_space s3) = Some s4" "skip_space s4 = d # s5"
    and "d = CHR '','' \<and> (\<exists>ms'. object_members n f s5 = Some (ms', r)
           \<and> ms = (unquote_body (butlast (consumed s1 s2)), consumed (skip_space s3) s4) # ms')
         \<or> d = CHR 0x7D \<and> r = s5 \<and> ms = [(unquote_body (butlast (consumed s1 s2)), consumed (skip_space s3) s4)]"
  using assms
  by (auto simp: Let_def split: list.splits option.splits if_splits)

lemma skip_space_eats: "skip_space s = c # cs \<Longrightarrow> strict_suffix cs s"
  using strict_suffix_trans' [OF strict_suffix_Cons_self, of c cs s] skip_space_suffix [of s] by simp

lemma eats_skip: "eats f \<Longrightarrow> f (skip_space s) = Some r \<Longrightarrow> strict_suffix r s"
  by (rule strict_suffix_trans' [OF eatsD skip_space_suffix])

lemma round_suffix:
  assumes f: "eats f"
    and "skip_space s = CHR 0x22 # s1" "scan_string s1 = Some s2"
    and "skip_space s2 = CHR '':'' # s3" "f (skip_space s3) = Some s4" "skip_space s4 = d # s5"
  shows "strict_suffix s5 s"
proof -
  note trans = suffix_order.less_trans
  have "strict_suffix s5 s3" by (rule trans [OF skip_space_eats [OF assms(6)] eats_skip [OF f assms(5)]])
  also have "strict_suffix s3 s1"
    by (rule trans [OF skip_space_eats [OF assms(4)] scan_string_suffix [OF assms(3)]])
  also have "strict_suffix s1 s" by (rule skip_space_eats [OF assms(2)])
  finally show ?thesis .
qed

lemma object_members_suffix:
  "eats f \<Longrightarrow> object_members n f s = Some (ms, r) \<Longrightarrow> strict_suffix r s"
proof (induction n arbitrary: s ms)
  case (Suc n)
  from Suc.prems(2) obtain s1 s2 s3 s4 d s5 where
    round: "skip_space s = CHR 0x22 # s1" "scan_string s1 = Some s2" "skip_space s2 = CHR '':'' # s3"
      "f (skip_space s3) = Some s4" "skip_space s4 = d # s5"
    and rest: "(\<exists>ms'. object_members n f s5 = Some (ms', r)) \<or> r = s5"
    by (elim object_members_SucE) blast+
  have s5: "strict_suffix s5 s" by (rule round_suffix [OF Suc.prems(1) round])
  from rest show ?case
  proof
    assume "\<exists>ms'. object_members n f s5 = Some (ms', r)"
    then have "strict_suffix r s5" using Suc.IH [OF Suc.prems(1)] by blast
    then show ?thesis using s5 by (rule suffix_order.less_trans)
  qed (simp add: s5)
qed simp

lemma array_elements_suffix:
  "eats f \<Longrightarrow> array_elements n f s = Some r \<Longrightarrow> strict_suffix r s"
proof (induction n arbitrary: s)
  case (Suc n)
  from Suc.prems(2) obtain s1 d s2 where
    round: "f (skip_space s) = Some s1" "skip_space s1 = d # s2"
    and rest: "array_elements n f s2 = Some r \<or> r = s2"
    by (auto split: option.splits list.splits if_splits)
  have s2: "strict_suffix s2 s"
    by (rule suffix_order.less_trans [OF skip_space_eats [OF round(2)] eats_skip [OF Suc.prems(1) round(1)]])
  from rest show ?case
  proof
    assume "array_elements n f s2 = Some r"
    then have "strict_suffix r s2" by (rule Suc.IH [OF Suc.prems(1)])
    then show ?thesis using s2 by (rule suffix_order.less_trans)
  qed (simp add: s2)
qed simp

lemma scan_object_suffix:
  assumes "eats f" "scan_object f s = Some (ms, r)"
  shows "strict_suffix r s"
proof (cases "skip_space s")
  case (Cons c cs)
  with assms(2) have "r = cs \<or> object_members (length s) f s = Some (ms, r)"
    by (simp add: scan_object_def split: if_splits)
  then show ?thesis
    by (elim disjE) (simp_all add: skip_space_eats [OF Cons] object_members_suffix [OF assms(1)])
qed (use assms in \<open>simp add: scan_object_def\<close>)

lemma scan_array_suffix:
  assumes "eats f" "scan_array f s = Some r"
  shows "strict_suffix r s"
proof (cases "skip_space s")
  case (Cons c cs)
  with assms(2) have "r = cs \<or> array_elements (length s) f s = Some r"
    by (simp add: scan_array_def split: if_splits)
  then show ?thesis
    by (elim disjE) (simp_all add: skip_space_eats [OF Cons] array_elements_suffix [OF assms(1)])
qed (use assms in \<open>simp add: scan_array_def\<close>)

lemma scan_value_eats: "eats (scan_value d)"
proof (induction d)
  case 0
  then show ?case using scan_scalar_eats by (simp add: eats_def)
next
  case (Suc d)
  show ?case unfolding eats_def
  proof (intro allI impI)
    fix s r
    assume scan: "scan_value (Suc d) s = Some r"
    then obtain c cs where s: "s = c # cs" by (cases s) simp_all
    consider ms where "scan_object (scan_value d) cs = Some (ms, r)" | "scan_array (scan_value d) cs = Some r"
      | "scan_scalar s = Some r"
      using scan s by (auto simp: scan_value_Cons split: if_splits)
    then show "strict_suffix r s"
    proof cases
      case 1
      then show ?thesis by (simp add: s scan_object_suffix [OF Suc.IH] strict_suffix_imp)
    next
      case 2
      then show ?thesis by (simp add: s scan_array_suffix [OF Suc.IH] strict_suffix_imp)
    next
      case 3
      then show ?thesis using scan_scalar_eats by (simp add: eats_def)
    qed
  qed
qed
subsection \<open>The fuel of the loops\<close>

text \<open>Any number of rounds from the length of the input on gives the same result.\<close>

lemma object_members_fuel:
  "eats f \<Longrightarrow> length s \<le> n \<Longrightarrow> length s \<le> m \<Longrightarrow> object_members n f s = object_members m f s"
proof (induction n arbitrary: s m)
  case 0
  then show ?case by (cases m) simp_all
next
  case (Suc n)
  show ?case
  proof (cases m)
    case 0
    with Suc.prems show ?thesis by simp
  next
    case (Suc m')
    have rest: "object_members n f s5 = object_members m' f s5" if "strict_suffix s5 s" for s5
      using Suc.IH [OF Suc.prems(1)] strict_suffix_length [OF that] Suc.prems Suc by simp
    show ?thesis unfolding Suc object_members.simps
      by (auto simp: Let_def split: list.split option.split intro!: rest round_suffix [OF Suc.prems(1)]
          arg_cong [where f = "map_option (apfst (Cons p))" for p])
  qed
qed

lemma array_elements_fuel:
  "eats f \<Longrightarrow> length s \<le> n \<Longrightarrow> length s \<le> m \<Longrightarrow> array_elements n f s = array_elements m f s"
proof (induction n arbitrary: s m)
  case 0
  then show ?case
  proof (cases m)
    case (Suc m')
    from 0 have "f [] = None" by (cases "f []") (auto dest: eatsD)
    with 0 Suc show ?thesis by simp
  qed simp
next
  case (Suc n)
  show ?case
  proof (cases m)
    case 0
    with Suc.prems have s: "s = []" by simp
    from Suc.prems(1) have "f [] = None" by (cases "f []") (auto dest: eatsD)
    with s 0 show ?thesis by simp
  next
    case (Suc m')
    have rest: "array_elements n f s2 = array_elements m' f s2" if "strict_suffix s2 s" for s2
      using Suc.IH [OF Suc.prems(1)] strict_suffix_length [OF that] Suc.prems Suc by simp
    show ?thesis unfolding Suc array_elements.simps
      by (auto split: list.split option.split intro!: rest
          suffix_order.less_trans [OF skip_space_eats eats_skip [OF Suc.prems(1)]])
  qed
qed

subsection \<open>The depth limit\<close>

lemma object_members_mono:
  "\<forall>s r. f s = Some r \<longrightarrow> g s = Some r \<Longrightarrow> object_members n f s = Some x \<Longrightarrow> object_members n g s = Some x"
proof (induction n arbitrary: s x)
  case (Suc n)
  obtain ms r where x: "x = (ms, r)" by force
  from Suc.prems(2) [unfolded x] show ?case
    by (elim object_members_SucE disjE conjE exE) (auto simp: x Suc.prems(1) dest: Suc.IH [OF Suc.prems(1)])
qed simp

lemma array_elements_mono:
  "\<forall>s r. f s = Some r \<longrightarrow> g s = Some r \<Longrightarrow> array_elements n f s = Some r \<Longrightarrow> array_elements n g s = Some r"
  by (induction n arbitrary: s) (auto split: option.splits list.splits if_splits)

lemma scan_object_mono:
  assumes "\<forall>s r. f s = Some r \<longrightarrow> g s = Some r" "scan_object f s = Some x"
  shows "scan_object g s = Some x"
  using assms(2) object_members_mono [OF assms(1), of "length s" s x]
  by (cases "skip_space s") (simp_all add: scan_object_def split: if_splits)

lemma scan_array_mono:
  assumes "\<forall>s r. f s = Some r \<longrightarrow> g s = Some r" "scan_array f s = Some r"
  shows "scan_array g s = Some r"
  using assms(2) array_elements_mono [OF assms(1), of "length s" s r]
  by (cases "skip_space s") (simp_all add: scan_array_def split: if_splits)

lemma scan_scalar_bracket [simp]: "scan_scalar (CHR 0x7B # cs) = None" "scan_scalar (CHR ''['' # cs) = None"
  by (simp_all add: scan_scalar_def is_digit_def code_def)

lemma scan_value_Suc: "scan_value d s = Some r \<Longrightarrow> scan_value (Suc d) s = Some r"
proof (induction d arbitrary: s r)
  case 0
  then show ?case
    by (cases s) (auto simp: scan_value_Cons)
next
  case (Suc d)
  have le: "\<forall>s r. scan_value d s = Some r \<longrightarrow> scan_value (Suc d) s = Some r" using Suc.IH by blast
  obtain c cs where s: "s = c # cs" using Suc.prems by (cases s) simp_all
  have eq: "scan_value (Suc e) s =
      (if c = CHR 0x7B then map_option snd (scan_object (scan_value e) cs)
       else if c = CHR ''['' then scan_array (scan_value e) cs else scan_scalar s)" for e
    unfolding s by (rule scan_value_Cons)
  note prem = Suc.prems [unfolded eq [of d]]
  show ?case
  proof (cases "c = CHR 0x7B")
    case True
    with prem obtain ms where "scan_object (scan_value d) cs = Some (ms, r)" by auto
    from scan_object_mono [OF le this] True show ?thesis unfolding eq [of "Suc d"] by simp
  next
    case False
    note brace = this
    show ?thesis
    proof (cases "c = CHR ''[''")
      case True
      with prem brace have "scan_array (scan_value d) cs = Some r" by simp
      from scan_array_mono [OF le this] True show ?thesis unfolding eq [of "Suc d"] by simp
    next
      case False
      with prem brace show ?thesis unfolding eq [of "Suc d"] by simp
    qed
  qed
qed

lemma scan_value_mono: "d \<le> d' \<Longrightarrow> scan_value d s = Some r \<Longrightarrow> scan_value d' s = Some r"
  by (induction d' rule: dec_induct) (auto intro: scan_value_Suc)

lemma scan_value_limit: "scan_value d s = Some r \<Longrightarrow> d \<le> maxNestingDepth \<Longrightarrow> scan_value maxNestingDepth s = Some r"
  by (rule scan_value_mono)

end
