(* ===== verification/HA_Translator.thy ===== *)
theory HA_Translator
  imports Core_Provider Json_Laws
begin

text \<open>
  \<open>provider/homeassistant/translator.go\<close>: from an Atoha action and a resolved target to a Home
  Assistant service request. The bindings of logical targets are a Go map; the constructor walks it in
  an arbitrary order, which is the order of the list it is given.
\<close>

definition ProviderID :: string where
  "ProviderID = ''homeassistant''"

record serviceRequest =
  sq_Domain :: string
  sq_Service :: string
  sq_Body :: bytes

definition zero_serviceRequest :: serviceRequest where
  "zero_serviceRequest = \<lparr>sq_Domain = [], sq_Service = [], sq_Body = []\<rparr>"

record translator =
  tr_bindings :: "(string \<times> string) list"

text \<open>
  The range loop decodes runes; a byte outside ASCII belongs to a rune outside the three ranges, so
  that looking at the bytes decides the same.
\<close>

definition segment_char :: "char \<Rightarrow> bool" where
  "segment_char r \<longleftrightarrow> \<not> ((code r < 97 \<or> 122 < code r) \<and> (code r < 48 \<or> 57 < code r) \<and> r \<noteq> CHR ''_'')"

definition validSegment :: "string \<Rightarrow> bool" where
  "validSegment value \<longleftrightarrow> (if value = '''' then False else list_all segment_char value)"

definition splitEntityID :: "string \<Rightarrow> err + string \<times> string" where
  "splitEntityID entityID =
    (case Cut CHR ''.'' entityID of
       (domain, objectID, ok) \<Rightarrow>
         if \<not> ok \<or> \<not> validSegment domain \<or> \<not> validSegment objectID
         then Inl (Errorf [T ''invalid entity ID '', Q entityID])
         else Inr (domain, objectID))"

fun newTranslator_loop :: "(string \<times> string) list \<Rightarrow> (string \<times> string) list \<Rightarrow> err + translator" where
  "newTranslator_loop [] bindings = Inr \<lparr>tr_bindings = bindings\<rparr>"
| "newTranslator_loop ((logical, entityID) # source) bindings =
    (if TrimSpace logical = '''' \<or> logical \<noteq> TrimSpace logical
     then Inl (Errorf [W (Sentinel HA_ErrInvalidConfig), T '': invalid logical target '', Q logical])
     else
     (case splitEntityID entityID of
        Inl e \<Rightarrow> Inl (Errorf [W (Sentinel HA_ErrInvalidConfig), T '': binding '', Q logical, T '': '', V e])
      | Inr _ \<Rightarrow> newTranslator_loop source (map_put logical entityID bindings)))"

definition newTranslator :: "(string \<times> string) list \<Rightarrow> err + translator" where
  "newTranslator source = newTranslator_loop source []"

definition target_not_found :: "string \<Rightarrow> err" where
  "target_not_found target = Errorf [W (Sentinel HA_ErrTargetNotFound), T '': '', T target]"

definition resolve_target :: "translator \<Rightarrow> Action \<Rightarrow> err + ResolvedTarget" where
  "resolve_target t action =
    (case map_of (tr_bindings t) (act_target action) of
       None \<Rightarrow> Inl (target_not_found (act_target action))
     | Some entityID \<Rightarrow> NewResolvedTarget ProviderID entityID)"

definition entityFor :: "translator \<Rightarrow> Action \<Rightarrow> ResolvedTarget \<Rightarrow> err + string" where
  "entityFor t action target =
    (if tgt_provider target \<noteq> ProviderID
     then Inl (Errorf [W (Sentinel HA_ErrInvalidTarget), T '': provider '', Q (tgt_provider target)])
     else
     let entityID = tgt_endpoint target in
     (case splitEntityID entityID of
        Inl e \<Rightarrow> Inl (wrap_err HA_ErrInvalidTarget e)
      | Inr _ \<Rightarrow>
        (case map_of (tr_bindings t) (act_target action) of
           None \<Rightarrow> Inl (target_not_found (act_target action))
         | Some expected \<Rightarrow>
             if entityID \<noteq> expected
             then Inl (Errorf [W (Sentinel HA_ErrTargetMismatch), T '': target '', Q (act_target action),
                               T '' resolves to '', Q expected, T '', got '', Q entityID])
             else Inr entityID)))"

text \<open>The map of raw values the input decodes to; a blank input is an empty map.\<close>

definition input_members :: "json_texts \<Rightarrow> bytes \<Rightarrow> err + (string \<times> string) list" where
  "input_members jt input =
    (if TrimSpace input = [] then Inr []
     else
     (case Unmarshal (store_map [] store_raw) input (Some []) of
        None \<Rightarrow> Inl (Errorf [W (Sentinel HA_ErrInvalidAction), T '': input must be a JSON object: '',
                             V (Message (jt ''map[string]json.RawMessage'' input))])
      | Some None \<Rightarrow> Inl (wrap_msg HA_ErrInvalidAction ''input must be a JSON object'')
      | Some (Some data) \<Rightarrow> Inr data))"

definition serviceData :: "json_texts \<Rightarrow> bytes \<Rightarrow> string \<Rightarrow> err + bytes" where
  "serviceData jt input entityID =
    result_bind (input_members jt input) (\<lambda>data.
      if map_of data ''entity_id'' \<noteq> None
      then Inl (wrap_msg HA_ErrInvalidAction ''input cannot override resolved entity_id'')
      else Inr (marshal_raw_map (map_put ''entity_id'' (json_string entityID) data)))"

definition dispatchRequest :: "json_texts \<Rightarrow> translator \<Rightarrow> Action \<Rightarrow> ResolvedTarget \<Rightarrow> err + serviceRequest" where
  "dispatchRequest jt t action target =
    result_bind (entityFor t action target) (\<lambda>entityID.
      let domain = (case splitEntityID entityID of Inl e \<Rightarrow> [] | Inr (d, _) \<Rightarrow> d)
      in if \<not> validSegment (act_name action)
         then Inl (Errorf [W (Sentinel HA_ErrInvalidAction), T '': invalid service action '', Q (act_name action)])
         else result_bind (serviceData jt (act_input action) entityID) (\<lambda>body.
           Inr \<lparr>sq_Domain = domain, sq_Service = act_name action, sq_Body = body\<rparr>))"

subsection \<open>Entities\<close>

definition entity_ok :: "string \<Rightarrow> bool" where
  "entity_ok e \<longleftrightarrow> (\<exists>d ob. e = d @ CHR ''.'' # ob \<and> validSegment d \<and> validSegment ob)"

lemma validSegment_iff: "validSegment v \<longleftrightarrow> v \<noteq> [] \<and> list_all segment_char v"
  by (simp add: validSegment_def)

lemma dot_not_segment [simp]: "\<not> segment_char CHR ''.''"
  by (simp add: segment_char_def code_def)

lemma validSegment_no_dot: "validSegment v \<Longrightarrow> CHR ''.'' \<notin> set v"
  by (auto simp: validSegment_iff list_all_iff)

lemma splitEntityID_Inr_iff:
  "splitEntityID e = Inr (d, ob) \<longleftrightarrow> e = d @ CHR ''.'' # ob \<and> validSegment d \<and> validSegment ob"
proof
  assume "splitEntityID e = Inr (d, ob)"
  then have "Cut CHR ''.'' e = (d, ob, True)" and "validSegment d" "validSegment ob"
    by (auto simp: splitEntityID_def split: prod.splits if_splits)
  then show "e = d @ CHR ''.'' # ob \<and> validSegment d \<and> validSegment ob" by (auto dest: Cut_found)
next
  assume "e = d @ CHR ''.'' # ob \<and> validSegment d \<and> validSegment ob"
  then show "splitEntityID e = Inr (d, ob)"
    by (auto simp: splitEntityID_def Cut_append validSegment_no_dot)
qed

lemma splitEntityID_Inr_ok: "(\<exists>x. splitEntityID e = Inr x) \<longleftrightarrow> entity_ok e"
  by (auto simp: entity_ok_def splitEntityID_Inr_iff)

lemma splitEntityID_Inl: "splitEntityID e = Inl x \<Longrightarrow> \<not> entity_ok e \<and> \<not> errorsIs x t"
  using splitEntityID_Inr_ok [of e] by (auto simp: splitEntityID_def split: prod.splits if_splits)

text \<open>What the constructor accepts, and what it keeps.\<close>

definition bindings_ok :: "(string \<times> string) list \<Rightarrow> bool" where
  "bindings_ok bs \<longleftrightarrow> (\<forall>(l, e) \<in> set bs. text_ok l \<and> entity_ok e)"

lemma newTranslator_loop_spec:
  "newTranslator_loop source bs = Inr t \<longleftrightarrow>
     bindings_ok source \<and> t = \<lparr>tr_bindings = map_put_all source bs\<rparr>"
proof (induction source arbitrary: bs)
  case Nil
  then show ?case by (auto simp: bindings_ok_def map_put_all_def)
next
  case (Cons le source)
  obtain l e where le: "le = (l, e)" by force
  show ?case
  proof (cases "splitEntityID e")
    case (Inl x)
    with splitEntityID_Inl le show ?thesis by (auto simp: bindings_ok_def)
  next
    case (Inr x)
    with splitEntityID_Inr_ok have "entity_ok e" by blast
    with Inr le Cons.IH show ?thesis
      by (auto simp: bindings_ok_def map_put_all_def text_ok_def)
  qed
qed

lemma newTranslator_Inr_iff:
  "newTranslator source = Inr t \<longleftrightarrow> bindings_ok source \<and> t = \<lparr>tr_bindings = map_put_all source []\<rparr>"
  by (simp add: newTranslator_def newTranslator_loop_spec)

lemma newTranslator_Inl: "newTranslator source = Inl e \<Longrightarrow> errorsIs e t \<longleftrightarrow> t = HA_ErrInvalidConfig"
proof -
  have "newTranslator_loop source bs = Inl e \<Longrightarrow> errorsIs e t \<longleftrightarrow> t = HA_ErrInvalidConfig" for bs
    by (induction source bs rule: newTranslator_loop.induct) (auto split: if_splits sum.splits)
  then show "newTranslator source = Inl e \<Longrightarrow> errorsIs e t \<longleftrightarrow> t = HA_ErrInvalidConfig"
    by (simp add: newTranslator_def)
qed

lemma newTranslator_bindings:
  "newTranslator source = Inr t \<Longrightarrow> map_of (tr_bindings t) l = Some e \<Longrightarrow> text_ok l \<and> entity_ok e"
  by (auto simp: newTranslator_Inr_iff map_of_map_put_all bindings_ok_def dest!: map_of_SomeD)

text \<open>What \<open>entityFor\<close> and \<open>dispatchRequest\<close> accept.\<close>

lemma entityFor_Inr_iff:
  "entityFor t action target = Inr e \<longleftrightarrow>
     tgt_provider target = ProviderID \<and> e = tgt_endpoint target \<and> entity_ok e
     \<and> map_of (tr_bindings t) (act_target action) = Some e"
  using splitEntityID_Inr_ok [of "tgt_endpoint target"] splitEntityID_Inl [of "tgt_endpoint target"]
  by (auto simp: entityFor_def Let_def split: sum.splits option.splits)

lemma entityFor_resolved:
  assumes "newTranslator source = Inr t" "resolve_target t action = Inr target"
  shows "entityFor t action target = Inr (tgt_endpoint target)"
  using assms newTranslator_bindings [OF assms(1)]
  by (auto simp: resolve_target_def NewResolvedTarget_def entityFor_Inr_iff split: option.splits if_splits)

end
