(* ===== verification/HA_Client.thy ===== *)
theory HA_Client
  imports HA_Translator
begin

text \<open>
  \<open>provider/homeassistant/client.go\<close>: the REST transport. The network is a parameter: \<open>url.Parse\<close>,
  the checks of \<open>http.NewRequestWithContext\<close> and \<open>(*http.Client).Do\<close>, which gives a response or fails
  without one. A response body delivers its bytes and then ends, or fails by a read of its own.
  Every operation returns the requests it handed to the HTTP client beside its Go result, so that
  "no request was sent" is a statement about the code.
\<close>

definition maxResponseSize :: nat where
  "maxResponseSize = 1048576"

text \<open>The fields of a \<open>url.URL\<close> the program reads; \<open>u_rest\<close> stands for the others.\<close>

record url =
  u_scheme :: string
  u_host :: string
  u_path :: string
  u_rawQuery :: string
  u_fragment :: string
  u_rest :: string

record http_request =
  rq_method :: string
  rq_url :: url
  rq_headers :: "(string \<times> string) list"
  rq_body :: bytes

record http_response =
  hs_statusCode :: int
  hs_status :: string
  hs_body :: bytes
  hs_bodyErr :: "err option"

record http_env =
  he_parse :: "string \<Rightarrow> err + url"
  he_newRequest :: "string \<Rightarrow> url \<Rightarrow> err option"
  he_do :: "http_request \<Rightarrow> err + http_response"

record serviceResponse =
  sr_received :: bool
  sr_statusCode :: int
  sr_status :: string
  sr_body :: bytes

definition zero_serviceResponse :: serviceResponse where
  "zero_serviceResponse = \<lparr>sr_received = False, sr_statusCode = 0, sr_status = [], sr_body = []\<rparr>"

record externalState =
  xs_EntityID :: string
  xs_LastUpdated :: gtime
  xs_Raw :: bytes

definition zero_state :: externalState where
  "zero_state = \<lparr>xs_EntityID = [], xs_LastUpdated = zero_time, xs_Raw = []\<rparr>"

record restClient =
  rc_baseURL :: url
  rc_token :: string

subsection \<open>Reading at most a limit\<close>

text \<open>
  \<open>io.ReadAll(io.LimitReader(reader, n))\<close>: the reader is asked for no more than \<open>n\<close> bytes, so a failure
  behind them is not seen.
\<close>

definition ReadAll_limited :: "nat \<Rightarrow> bytes \<Rightarrow> err option \<Rightarrow> bytes \<times> err option" where
  "ReadAll_limited n content failure =
    (if length content < n then (content, failure) else (take n content, None))"

definition readLimited :: "bytes \<Rightarrow> err option \<Rightarrow> bytes \<times> err option" where
  "readLimited content failure =
    (let (body, err) = ReadAll_limited (maxResponseSize + 1) content failure
     in if err \<noteq> None then (body, err)
        else if maxResponseSize < length body
        then (take maxResponseSize body, Some (Sentinel HA_ErrResponseTooLarge))
        else (body, None))"

subsection \<open>Requests\<close>

text \<open>\<open>url.PathEscape\<close>: the bytes a path segment may hold as they are, the others as \<open>%XX\<close>.\<close>

definition segment_safe :: "char \<Rightarrow> bool" where
  "segment_safe c \<longleftrightarrow> is_digit c \<or> 97 \<le> code c \<and> code c \<le> 122 \<or> 65 \<le> code c \<and> code c \<le> 90
     \<or> c \<in> set ''-_.~$&+:=@''"

definition upper_hex :: "nat \<Rightarrow> char" where
  "upper_hex n = (if n < 10 then byte (48 + n) else byte (55 + n))"

definition PathEscape :: "string \<Rightarrow> string" where
  "PathEscape s =
    concat (map (\<lambda>c. if segment_safe c then [c]
                     else [CHR ''%'', upper_hex (code c div 16), upper_hex (code c mod 16)]) s)"

fun join_slash :: "string list \<Rightarrow> string" where
  "join_slash [] = []"
| "join_slash [x] = x"
| "join_slash (x # xs) = x @ CHR ''/'' # join_slash xs"

text \<open>The URL of a request; the code sends its \<open>String()\<close>.\<close>

definition apiURL :: "restClient \<Rightarrow> string list \<Rightarrow> url" where
  "apiURL c parts =
    (let u = rc_baseURL c; escaped = map PathEscape parts
     in u\<lparr>u_path := u_path u @ ''/api/'' @ join_slash escaped\<rparr>)"

definition authorize :: "restClient \<Rightarrow> http_request \<Rightarrow> http_request" where
  "authorize c req =
    req\<lparr>rq_headers := rq_headers req @ [(''Authorization'', ''Bearer '' @ rc_token c),
                                        (''Content-Type'', ''application/json'')]\<rparr>"

text \<open>\<open>http.NewRequestWithContext\<close>, with no headers yet.\<close>

definition NewRequest :: "http_env \<Rightarrow> string \<Rightarrow> url \<Rightarrow> bytes \<Rightarrow> err + http_request" where
  "NewRequest env method u body =
    (case he_newRequest env method u of
       Some e \<Rightarrow> Inl e
     | None \<Rightarrow> Inr \<lparr>rq_method = method, rq_url = u, rq_headers = [], rq_body = body\<rparr>)"

definition callService ::
    "http_env \<Rightarrow> restClient \<Rightarrow> serviceRequest \<Rightarrow> http_request list \<times> serviceResponse \<times> err option" where
  "callService env c request =
    (case NewRequest env ''POST'' (apiURL c [''services'', sq_Domain request, sq_Service request]) (sq_Body request) of
       Inl err \<Rightarrow> ([], zero_serviceResponse, Some err)
     | Inr req0 \<Rightarrow>
       (let req = authorize c req0 in
        case he_do env req of
          Inl err \<Rightarrow> ([req], zero_serviceResponse, Some err)
        | Inr resp \<Rightarrow>
          (let (body, readErr) = readLimited (hs_body resp) (hs_bodyErr resp)
           in ([req], \<lparr>sr_received = True, sr_statusCode = hs_statusCode resp, sr_status = hs_status resp,
                       sr_body = body\<rparr>, readErr))))"

text \<open>The anonymous struct \<open>getState\<close> decodes the state into.\<close>

record wire_state =
  ws_EntityID :: string
  ws_LastUpdated :: gtime

definition zero_wire_state :: wire_state where
  "zero_wire_state = \<lparr>ws_EntityID = [], ws_LastUpdated = zero_time\<rparr>"

definition wire_state_fields :: "(string \<times> wire_state store) list" where
  "wire_state_fields =
    [(''entity_id'', field ws_EntityID ws_EntityID_update store_string),
     (''last_updated'', field ws_LastUpdated ws_LastUpdated_update store_time)]"

definition success_status :: "int \<Rightarrow> bool" where
  "success_status statusCode \<longleftrightarrow> \<not> (statusCode < 200 \<or> 300 \<le> statusCode)"

definition getState ::
    "json_texts \<Rightarrow> http_env \<Rightarrow> restClient \<Rightarrow> string \<Rightarrow> http_request list \<times> (err + externalState)" where
  "getState jt env c entityID =
    (case NewRequest env ''GET'' (apiURL c [''states'', entityID]) [] of
       Inl err \<Rightarrow> ([], Inl err)
     | Inr req0 \<Rightarrow>
       (let req = authorize c req0 in
        case he_do env req of
          Inl err \<Rightarrow> ([req], Inl err)
        | Inr resp \<Rightarrow>
          (let (body, err) = readLimited (hs_body resp) (hs_bodyErr resp) in
           case err of
             Some e \<Rightarrow> ([req], Inl e)
           | None \<Rightarrow>
             if \<not> success_status (hs_statusCode resp)
             then ([req], Inl (Errorf [W (Sentinel HA_ErrUnexpectedStatus), T '': '', T (hs_status resp)]))
             else
             (case Unmarshal (store_struct False wire_state_fields) body zero_wire_state of
                None \<Rightarrow> ([req], Inl (Errorf [T ''homeassistant: decode state: '',
                                             W (Message (jt ''struct state'' body))]))
              | Some wire \<Rightarrow> ([req], Inr \<lparr>xs_EntityID = ws_EntityID wire,
                                          xs_LastUpdated = ws_LastUpdated wire, xs_Raw = body\<rparr>)))))"

subsection \<open>Laws\<close>

lemma readLimited_spec:
  "readLimited content failure =
     (if maxResponseSize < length content
      then (take maxResponseSize content, Some (Sentinel HA_ErrResponseTooLarge))
      else (content, failure))"
  by (auto simp: readLimited_def ReadAll_limited_def min_def)

text \<open>A valid segment or entity identifier is its own escape.\<close>

lemma segment_char_safe: "segment_char c \<Longrightarrow> segment_safe c"
  by (auto simp: segment_char_def segment_safe_def is_digit_def)

lemma PathEscape_safe: "list_all segment_safe s \<Longrightarrow> PathEscape s = s"
  by (induction s) (auto simp: PathEscape_def)

lemma PathEscape_segment: "validSegment s \<Longrightarrow> PathEscape s = s"
  by (rule PathEscape_safe) (auto simp: validSegment_iff list_all_iff segment_char_safe)

lemma PathEscape_entity: "entity_ok e \<Longrightarrow> PathEscape e = e"
  by (rule PathEscape_safe)
     (auto simp: entity_ok_def validSegment_iff list_all_iff segment_char_safe, simp_all add: segment_safe_def)

lemma callService_requests:
  "callService env c request = (rqs, resp, err) \<Longrightarrow>
     rqs = [] \<and> resp = zero_serviceResponse \<and> err \<noteq> None
       \<and> he_newRequest env ''POST'' (apiURL c [''services'', sq_Domain request, sq_Service request]) = err \<or>
     (\<exists>rq. rqs = [rq] \<and> rq_method rq = ''POST''
        \<and> rq_url rq = apiURL c [''services'', sq_Domain request, sq_Service request]
        \<and> rq_body rq = sq_Body request
        \<and> rq_headers rq = [(''Authorization'', ''Bearer '' @ rc_token c), (''Content-Type'', ''application/json'')]
        \<and> ((\<exists>e. he_do env rq = Inl e \<and> resp = zero_serviceResponse \<and> err = Some e) \<or>
           (\<exists>r. he_do env rq = Inr r \<and> sr_received resp \<and> sr_statusCode resp = hs_statusCode r
              \<and> sr_status resp = hs_status r
              \<and> (sr_body resp, err) = readLimited (hs_body r) (hs_bodyErr r))))"
  by (cases "he_newRequest env ''POST'' (apiURL c [''services'', sq_Domain request, sq_Service request])")
     (auto simp: callService_def NewRequest_def authorize_def Let_def dest: sym split: sum.splits prod.splits)

end
