(* ===== verification/HA_Provider.thy ===== *)
theory HA_Provider
  imports HA_Client
begin

text \<open>
  \<open>provider/homeassistant/provider.go\<close>: the facade that Atoha calls as its resolver, provider and
  observer. Every operation returns the requests it made beside the Go pair of a result and an error;
  the reading of the clock is an argument.
\<close>

datatype http_client = DefaultClient | ConfiguredClient

record Config =
  hc_BaseURL :: string
  hc_Token :: string
  hc_Bindings :: "(string \<times> string) list"
  hc_Client :: bool
  hc_Now :: bool

record Provider =
  pv_translator :: translator
  pv_client :: restClient
  pv_http :: http_client
  pv_now :: clock

text \<open>\<open>strings.TrimRight(path, "/")\<close>.\<close>

definition TrimRight_slash :: "string \<Rightarrow> string" where
  "TrimRight_slash s = rev (dropWhile (\<lambda>c. c = CHR ''/'') (rev s))"

definition HA_New :: "http_env \<Rightarrow> Config \<Rightarrow> err + Provider" where
  "HA_New env config =
    (let parsed = he_parse env (hc_BaseURL config);
         invalid = (\<lambda>m. Inl (wrap_msg HA_ErrInvalidConfig m)) in
     case parsed of
       Inl err \<Rightarrow> invalid ''base URL must be absolute HTTP(S)''
     | Inr baseURL \<Rightarrow>
       if (u_scheme baseURL \<noteq> ''http'' \<and> u_scheme baseURL \<noteq> ''https'') \<or> u_host baseURL = ''''
       then invalid ''base URL must be absolute HTTP(S)''
       else if u_rawQuery baseURL \<noteq> '''' \<or> u_fragment baseURL \<noteq> ''''
       then invalid ''base URL cannot contain query or fragment''
       else if TrimSpace (hc_Token config) = '''' then invalid ''token is required''
       else result_bind (newTranslator (hc_Bindings config)) (\<lambda>translation.
         Inr \<lparr>pv_translator = translation,
              pv_client = \<lparr>rc_baseURL = baseURL\<lparr>u_path := TrimRight_slash (u_path baseURL)\<rparr>,
                           rc_token = hc_Token config\<rparr>,
              pv_http = (if hc_Client config then ConfiguredClient else DefaultClient),
              pv_now = (if hc_Now config then ConfiguredNow else TimeNow)\<rparr>))"

definition HA_Resolve :: "Provider \<Rightarrow> Action \<Rightarrow> ResolvedTarget \<times> err option" where
  "HA_Resolve p action = go_pair zero_target (resolve_target (pv_translator p) action)"

definition HA_result ::
    "AttemptID \<Rightarrow> DispatchStatus \<Rightarrow> Receipt option \<Rightarrow> err option \<Rightarrow> DispatchResult \<times> err option" where
  "HA_result attemptID status receipt operationErr =
    (case NewDispatchResult \<lparr>ds_Provider = ProviderID, ds_AttemptID = attemptID, ds_Status = status,
                             ds_Receipt = receipt\<rparr> of
       Inl err \<Rightarrow> (zero_dispatch, Some err)
     | Inr result \<Rightarrow> (result, operationErr))"

definition HA_Dispatch ::
    "json_texts \<Rightarrow> http_env \<Rightarrow> gtime \<Rightarrow> Provider \<Rightarrow> ExecutionAttempt \<Rightarrow> Action \<Rightarrow> ResolvedTarget
     \<Rightarrow> http_request list \<times> DispatchResult \<times> err option" where
  "HA_Dispatch jt env now p attempt action target =
    (if att_actionID attempt \<noteq> act_id action
     then ([], HA_result (att_id attempt) DispatchNotDispatched None
             (Some (Errorf [W (Sentinel HA_ErrAttemptMismatch), T '': attempt action '', Q (att_actionID attempt),
                            T '', action '', Q (act_id action)])))
     else
     (case dispatchRequest jt (pv_translator p) action target of
        Inl err \<Rightarrow> ([], HA_result (att_id attempt) DispatchNotDispatched None (Some err))
      | Inr request \<Rightarrow>
        (case callService env (pv_client p) request of
           (requests, response, err) \<Rightarrow>
             if err \<noteq> None \<and> \<not> sr_received response
             then (requests, HA_result (att_id attempt) DispatchUnknown None err)
             else if sr_statusCode response < 200 \<or> 300 \<le> sr_statusCode response
             then (requests, HA_result (att_id attempt) DispatchDispatched None
                    (errorsJoin [Some (Errorf [W (Sentinel HA_ErrUnexpectedStatus), T '': '',
                                               T (sr_status response)]), err]))
             else
             (case NewReceipt \<lparr>rs_Provider = ProviderID, rs_AttemptID = att_id attempt, rs_ReceivedAt = now,
                               rs_Evidence = sr_body response\<rparr> of
                Inl receiptErr \<Rightarrow> (requests, zero_dispatch, Some receiptErr)
              | Inr receipt \<Rightarrow>
                  (requests, HA_result (att_id attempt) DispatchAcknowledged (Some receipt) err)))))"

text \<open>The identity of an observation: a digest of the entity and the state text.\<close>

definition HA_observationID :: "go_runtime \<Rightarrow> string \<Rightarrow> bytes \<Rightarrow> ObservationID" where
  "HA_observationID rt entityID raw = ''ha-'' @ hex_encode (rt_sha256 rt (entityID @ CHR 0x00 # raw))"

definition HA_Observe ::
    "go_runtime \<Rightarrow> json_texts \<Rightarrow> http_env \<Rightarrow> gtime \<Rightarrow> Provider \<Rightarrow> Action \<Rightarrow> ResolvedTarget
     \<Rightarrow> http_request list \<times> Observation list \<times> err option" where
  "HA_Observe rt jt env now p action target =
    (case entityFor (pv_translator p) action target of
       Inl err \<Rightarrow> ([], [], Some err)
     | Inr entityID \<Rightarrow>
       (case getState jt env (pv_client p) entityID of
          (requests, Inl err) \<Rightarrow> (requests, [], Some err)
        | (requests, Inr state) \<Rightarrow>
            if xs_EntityID state \<noteq> entityID
            then (requests, [], Some (Errorf [T ''homeassistant: state entity '', Q (xs_EntityID state),
                                              T '' does not match '', Q entityID]))
            else if IsZero (xs_LastUpdated state)
            then (requests, [], Some (Message ''homeassistant: state has no last_updated time''))
            else
            (case NewObservation \<lparr>bs_ID = HA_observationID rt entityID (xs_Raw state),
                                  bs_Source = ProviderID @ ''/rest'', bs_Target = act_target action,
                                  bs_Value = xs_Raw state, bs_Evidence = [],
                                  bs_ObservedAt = xs_LastUpdated state, bs_RecordedAt = now\<rparr> of
               Inl err \<Rightarrow> (requests, [], Some err)
             | Inr observation \<Rightarrow> (requests, [observation], None))))"

end
