(* ===== verification/HA_Verifier.thy ===== *)
theory HA_Verifier
  imports HA_Provider
begin

text \<open>
  \<open>provider/homeassistant/verifier.go\<close>: the verdict on an action from the freshest observation of its
  target. Temperatures are compared as the exact rationals \<open>big.Rat\<close> reads from the number texts; its
  reader refuses exponents beyond a million, and an exponent that is no 64-bit integer.
\<close>

definition stateVerifierID :: string where
  "stateVerifierID = ''homeassistant/state-v1''"

record StateVerifier =
  sv_maxAge :: int

definition NewStateVerifier :: "int \<Rightarrow> err + StateVerifier" where
  "NewStateVerifier maxAge =
    (if maxAge \<le> 0 then Inl (Message ''homeassistant: verifier max age must be positive'')
     else Inr \<lparr>sv_maxAge = maxAge\<rparr>)"

subsection \<open>Numbers\<close>

text \<open>
  A JSON number cut at its point and exponent: the mantissa with its sign, the count of fraction digits,
  the exponent.
\<close>

definition fraction_part :: "string \<Rightarrow> string \<times> string" where
  "fraction_part s =
    (case s of
       c # cs \<Rightarrow> if c = CHR ''.'' then (takeWhile is_digit cs, dropWhile is_digit cs) else ([], s)
     | [] \<Rightarrow> ([], []))"

definition exponent_part :: "string \<Rightarrow> int" where
  "exponent_part s =
    (case s of
       [] \<Rightarrow> 0
     | e # r \<Rightarrow> (case r of c # cs \<Rightarrow> if c = CHR ''-'' then - dec_value 0 cs
                                else if c = CHR ''+'' then dec_value 0 cs else dec_value 0 r
                | [] \<Rightarrow> 0))"

definition number_parts :: "string \<Rightarrow> int \<times> nat \<times> int" where
  "number_parts s =
    (let s1 = skip_minus s;
         (frac, s2) = fraction_part (dropWhile is_digit s1);
         mantissa = dec_value 0 (takeWhile is_digit s1 @ frac)
     in (if s1 = s then mantissa else - mantissa, length frac, exponent_part s2))"

text \<open>
  \<open>(*big.Rat).SetString\<close> on the text of a \<open>json.Number\<close>: \<open>Some (m, e)\<close> is the rational \<open>m * 10 ^ e\<close>. No other text
  reaches it, as the decoder only stores valid numbers (lemma \<open>temperatures_valid\<close>); the few other forms that
  Go reads, such as fractions, are therefore left out and refused here like any text that is no number.
\<close>

definition Rat_SetString :: "string \<Rightarrow> (int \<times> int) option" where
  "Rat_SetString s =
    (case number_parts s of
       (mantissa, digits, ex) \<Rightarrow>
         if \<not> valid_number s then None
         else if ex < - (2 ^ 63) \<or> 2 ^ 63 - 1 < ex then None
         else if mantissa = 0 then Some (0, 0)
         else if 1000000 < \<bar>ex - int digits\<bar> then None
         else Some (mantissa, ex - int digits))"

text \<open>\<open>left.Cmp(right) == 0\<close>, by cross-multiplication over the common power of ten.\<close>

definition Rat_equal :: "int \<times> int \<Rightarrow> int \<times> int \<Rightarrow> bool" where
  "Rat_equal a b =
    (case (a, b) of
       ((m1, e1), (m2, e2)) \<Rightarrow>
         m1 * 10 ^ nat (e1 - min e1 e2) = m2 * 10 ^ nat (e2 - min e1 e2))"

definition equalNumber :: "string \<Rightarrow> string \<Rightarrow> bool" where
  "equalNumber a b =
    (case Rat_SetString a of
       None \<Rightarrow> False
     | Some left \<Rightarrow> (case Rat_SetString b of None \<Rightarrow> False | Some right \<Rightarrow> Rat_equal left right))"

subsection \<open>Verdicts\<close>

text \<open>The first value of a stream, stored; \<^const>\<open>None\<close> is the error of \<open>Decode\<close>.\<close>

definition Decode_first :: "'r store \<Rightarrow> string \<Rightarrow> 'r \<Rightarrow> 'r option" where
  "Decode_first store s r =
    (case next_value s of StreamValue raw rest \<Rightarrow> store raw r | _ \<Rightarrow> None)"

record ha_state =
  hst_State :: string
  hst_Attributes :: "string gomap"

definition zero_ha_state :: ha_state where
  "zero_ha_state = \<lparr>hst_State = [], hst_Attributes = None\<rparr>"

definition ha_state_fields :: "(string \<times> ha_state store) list" where
  "ha_state_fields =
    [(''state'', field hst_State hst_State_update store_string),
     (''attributes'', field hst_Attributes hst_Attributes_update (store_map [] store_raw))]"

definition desired_fields :: "(string \<times> string store) list" where
  "desired_fields = [(''temperature'', store_number)]"

definition StateVerifier_result ::
    "VerificationStatus \<Rightarrow> gtime \<Rightarrow> Observation option \<Rightarrow> string \<Rightarrow> VerificationResult \<times> err option" where
  "StateVerifier_result status asOf observation reason =
    go_pair zero_verification (NewVerificationResult
      \<lparr>vs_Status = status, vs_Verifier = stateVerifierID, vs_CheckedAt = asOf,
       vs_ObservationIDs = (case observation of None \<Rightarrow> [] | Some b \<Rightarrow> [obs_id b]), vs_Reason = reason\<rparr>)"

text \<open>A verdict that goes with an error of its own, unless the verdict itself is refused.\<close>

definition result_with ::
    "VerificationStatus \<Rightarrow> gtime \<Rightarrow> Observation option \<Rightarrow> string \<Rightarrow> err option \<Rightarrow> VerificationResult \<times> err option" where
  "result_with status asOf observation reason err =
    (case StateVerifier_result status asOf observation reason of
       (result, resultErr) \<Rightarrow>
         if resultErr \<noteq> None then (zero_verification, resultErr) else (result, err))"

definition compareState ::
    "string \<Rightarrow> string \<Rightarrow> gtime \<Rightarrow> Observation \<Rightarrow> VerificationResult \<times> err option" where
  "compareState got want asOf observation =
    (if got = want
     then StateVerifier_result VerificationVerified asOf (Some observation) ''fresh state matches desired effect''
     else StateVerifier_result VerificationUnsatisfied asOf (Some observation)
            ''fresh state contradicts desired effect'')"

definition compareTemperature ::
    "json_texts \<Rightarrow> bytes \<Rightarrow> bytes \<Rightarrow> gtime \<Rightarrow> Observation \<Rightarrow> VerificationResult \<times> err option" where
  "compareTemperature jt input observed asOf observation =
    (case Decode_first (store_struct False desired_fields) input '''' of
       None \<Rightarrow> (zero_verification, Some (Errorf [T ''homeassistant: decode desired temperature: '',
                                                W (Message (jt ''struct temperature'' input))]))
     | Some desired \<Rightarrow>
       if desired = ''''
       then (zero_verification, Some (Message ''homeassistant: desired temperature is required''))
       else
       (let decoded = Decode_first store_number observed '''' in
        if decoded = None \<or> decoded = Some ''''
        then result_with VerificationInconclusive asOf (Some observation) ''temperature attribute unavailable''
               (if decoded = None then Some (Message (jt ''json.Number'' observed)) else None)
        else if equalNumber desired (the decoded)
        then StateVerifier_result VerificationVerified asOf (Some observation)
               ''fresh setpoint matches desired value''
        else StateVerifier_result VerificationUnsatisfied asOf (Some observation)
               ''fresh setpoint contradicts desired value''))"

fun select_observation :: "string \<Rightarrow> Observation list \<Rightarrow> Observation option \<Rightarrow> Observation option" where
  "select_observation target [] selected = selected"
| "select_observation target (b # bs) selected =
    (if obs_target b \<noteq> target then select_observation target bs selected
     else
     (case selected of
        None \<Rightarrow> select_observation target bs (Some b)
      | Some s \<Rightarrow>
          if TimeAfter (obs_observedAt b) (obs_observedAt s) then select_observation target bs (Some b)
          else select_observation target bs selected))"

text \<open>The verdict once the observation is selected and fresh.\<close>

definition verify_fresh ::
    "json_texts \<Rightarrow> Action \<Rightarrow> Observation \<Rightarrow> gtime \<Rightarrow> VerificationResult \<times> err option" where
  "verify_fresh jt action selected asOf =
    (case Unmarshal (store_struct False ha_state_fields) (obs_value selected) zero_ha_state of
       None \<Rightarrow> result_with VerificationInconclusive asOf (Some selected) ''malformed Home Assistant state''
                 (Some (Errorf [T ''homeassistant: decode observation: '',
                                W (Message (jt ''struct state'' (obs_value selected)))]))
     | Some state \<Rightarrow>
       if act_name action = ''turn_on'' then compareState (hst_State state) ''on'' asOf selected
       else if act_name action = ''turn_off'' then compareState (hst_State state) ''off'' asOf selected
       else if act_name action = ''set_temperature''
       then compareTemperature jt (act_input action)
              (case map_get (hst_Attributes state) ''temperature'' of None \<Rightarrow> [] | Some raw \<Rightarrow> raw) asOf selected
       else StateVerifier_result VerificationInconclusive asOf (Some selected)
              ''unsupported proof-of-concept action'')"

definition StateVerifier_Verify ::
    "json_texts \<Rightarrow> StateVerifier \<Rightarrow> Action \<Rightarrow> Observation list \<Rightarrow> gtime \<Rightarrow> VerificationResult \<times> err option" where
  "StateVerifier_Verify jt v action observations asOf =
    (case select_observation (act_target action) observations None of
       None \<Rightarrow> StateVerifier_result VerificationInconclusive asOf None ''no matching observation''
     | Some selected \<Rightarrow>
       (let age = TimeSub asOf (obs_observedAt selected) in
        if age < 0
        then StateVerifier_result VerificationInconclusive asOf (Some selected) ''observation is in the future''
        else if sv_maxAge v < age
        then StateVerifier_result VerificationInconclusive asOf (Some selected) ''observation is stale''
        else verify_fresh jt action selected asOf))"

end
