(* ===== verification/Json_Roundtrip.thy ===== *)
theory Json_Roundtrip
  imports Json_Laws
begin

text \<open>
  What is printed can be read back: the scanner accepts every printed string and the decoder gives the
  bytes back when they are well-formed UTF-8, which every decoded string is; compacting keeps a value
  valid; a printed map of raw values decodes to its entries.
\<close>

subsection \<open>UTF-8\<close>

lemma code_eq_iff: "c = d \<longleftrightarrow> code c = code d"
  by (metis byte_code)

lemma decode_rune_append:
  assumes "decode_rune s = Some (r, n)"
  shows "decode_rune (take n s @ t) = Some (r, n)"
proof -
  consider c0 s' where "s = [c0]" | c0 c1 s' where "s = [c0, c1]" | c0 c1 c2 where "s = [c0, c1, c2]"
    | c0 c1 c2 c3 s' where "s = c0 # c1 # c2 # c3 # s'"
    using assms by (metis decode_rune.simps(1) list.exhaust option.distinct(1))
  then show ?thesis using assms
    by cases (auto simp: decode_rune.simps Let_def split: if_splits)
qed

lemma decode_rune_1:
  assumes "decode_rune (c # cs) = Some (r, n)"
  shows "(n = 1 \<and> r = code c \<and> code c < 128) \<or> (1 < n \<and> (\<forall>x\<in>set (take n (c # cs)). 128 \<le> code x))"
proof -
  consider "cs = []" | c1 where "cs = [c1]" | c1 c2 where "cs = [c1, c2]"
    | c1 c2 c3 s' where "cs = c1 # c2 # c3 # s'"
    by (metis list.exhaust)
  then show ?thesis using assms
    by cases (auto simp: decode_rune.simps Let_def cont_byte_def second_ok_def split: if_splits)
qed

lemma byte_of_mod: "code c = k + x \<Longrightarrow> byte (k + x) = c"
  by (metis byte_code)

lemma add_mod_small: "a < m \<Longrightarrow> (m * q + a) mod m = (a :: nat)"
  by simp

lemma cont_mod: "cont_byte c \<Longrightarrow> 128 + code c mod 64 = code c \<and> code c mod 64 < 64"
proof -
  assume "cont_byte c"
  then obtain k where k: "code c = 128 + k" "k < 64"
    by (auto simp: cont_byte_def intro: that [of "code c - 128"])
  then have "code c mod 64 = k" using add_mod_small [of k 64 2] by simp
  with k show ?thesis by simp
qed

lemma encode_decode_2:
  assumes "194 \<le> code c0" "code c0 \<le> 223" "cont_byte c1"
  shows "encode_rune ((code c0 mod 32) * 64 + code c1 mod 64) = [c0, c1]"
proof -
  define a where "a = code c0 - 192"
  have a: "code c0 = 192 + a" "2 \<le> a" "a < 32" using assms by (auto simp: a_def)
  have m: "code c0 mod 32 = a" using add_mod_small [of a 32 6] a by simp
  define b where "b = code c1 mod 64"
  have b: "128 + b = code c1" "b < 64" using cont_mod [OF assms(3)] by (simp_all add: b_def)
  have "a * 64 + b < 2048" "128 \<le> a * 64 + b" "(a * 64 + b) div 64 = a" "(a * 64 + b) mod 64 = b"
    using a b by simp_all
  then show ?thesis unfolding m b_def [symmetric] encode_rune_def using a b by (simp add: byte_of_mod)
qed

lemma encode_decode_3:
  assumes "224 \<le> code c0" "code c0 \<le> 239" "second_ok (code c0) (code c1)" "cont_byte c2"
  shows "encode_rune ((code c0 mod 16) * 4096 + (code c1 mod 64) * 64 + code c2 mod 64) = [c0, c1, c2]"
proof -
  define a where "a = code c0 - 224"
  have a: "code c0 = 224 + a" "a < 16" using assms by (auto simp: a_def)
  have m: "code c0 mod 16 = a" using add_mod_small [of a 16 14] a by simp
  have c1: "cont_byte c1" using assms(3) by (auto simp: second_ok_def cont_byte_def split: if_splits)
  define b where "b = code c1 mod 64"
  have b: "128 + b = code c1" "b < 64" using cont_mod [OF c1] by (simp_all add: b_def)
  define d where "d = code c2 mod 64"
  have d: "128 + d = code c2" "d < 64" using cont_mod [OF assms(4)] by (simp_all add: d_def)
  have big: "2048 \<le> a * 4096 + b * 64 + d"
  proof (cases "a = 0")
    case True
    then have "32 \<le> b" using assms(3) a b by (simp add: second_ok_def)
    then show ?thesis by linarith
  qed simp
  have "a * 4096 + b * 64 + d < 65536" using a b d by linarith
  moreover have "(a * 4096 + b * 64 + d) div 4096 = a" using b d by simp
  moreover have "(a * 4096 + b * 64 + d) div 64 = a * 64 + b" using d by simp
  moreover have "(a * 64 + b) mod 64 = b" using b by simp
  moreover have "(a * 4096 + b * 64 + d) mod 64 = d"
    using add_mod_small [of d 64 "a * 64 + b"] d by (simp add: algebra_simps)
  ultimately show ?thesis unfolding m b_def [symmetric] d_def [symmetric] encode_rune_def
    using a b d big by (simp add: byte_of_mod)
qed
lemma encode_decode_4:
  assumes "240 \<le> code c0" "code c0 \<le> 244" "second_ok (code c0) (code c1)" "cont_byte c2" "cont_byte c3"
  shows "encode_rune ((code c0 mod 8) * 262144 + (code c1 mod 64) * 4096 + (code c2 mod 64) * 64 + code c3 mod 64)
    = [c0, c1, c2, c3]"
proof -
  define a where "a = code c0 - 240"
  have a: "code c0 = 240 + a" "a < 5" using assms by (auto simp: a_def)
  have m: "code c0 mod 8 = a" using add_mod_small [of a 8 30] a by simp
  have c1: "cont_byte c1" using assms(3) by (auto simp: second_ok_def cont_byte_def split: if_splits)
  define b where "b = code c1 mod 64"
  have b: "128 + b = code c1" "b < 64" using cont_mod [OF c1] by (simp_all add: b_def)
  define d where "d = code c2 mod 64"
  have d: "128 + d = code c2" "d < 64" using cont_mod [OF assms(4)] by (simp_all add: d_def)
  define e where "e = code c3 mod 64"
  have e: "128 + e = code c3" "e < 64" using cont_mod [OF assms(5)] by (simp_all add: e_def)
  define r where "r = a * 262144 + b * 4096 + d * 64 + e"
  have big: "65536 \<le> r"
  proof (cases "a = 0")
    case True
    then have "16 \<le> b" using assms(3) a b by (simp add: second_ok_def)
    then show ?thesis unfolding r_def by linarith
  qed (simp add: r_def)
  have "r div 262144 = a" unfolding r_def using b d e by simp
  moreover have "r div 4096 = a * 64 + b" unfolding r_def using d e by simp
  moreover have "(a * 64 + b) mod 64 = b" using b by simp
  moreover have "r div 64 = (a * 64 + b) * 64 + d" unfolding r_def using e by simp
  moreover have "((a * 64 + b) * 64 + d) mod 64 = d"
    using add_mod_small [of d 64 "a * 64 + b"] d by (simp add: algebra_simps)
  moreover have "r mod 64 = e" unfolding r_def
    using add_mod_small [of e 64 "a * 4096 + b * 64 + d"] e by (simp add: algebra_simps)
  ultimately show ?thesis unfolding m b_def [symmetric] d_def [symmetric] e_def [symmetric] r_def [symmetric] encode_rune_def
    using a b d e big by (simp add: byte_of_mod)
qed

lemma encode_decode:
  assumes "decode_rune s = Some (r, n)"
  shows "take n s = encode_rune r"
proof -
  consider c0 where "s = [c0]" | c0 c1 where "s = [c0, c1]" | c0 c1 c2 where "s = [c0, c1, c2]"
    | c0 c1 c2 c3 s' where "s = c0 # c1 # c2 # c3 # s'"
    using assms by (metis decode_rune.simps(1) list.exhaust option.distinct(1))
  then show ?thesis using assms
    by cases (auto simp: decode_rune.simps Let_def encode_decode_2 encode_decode_3 encode_decode_4
        split: if_splits, simp_all add: encode_rune_def)
qed

definition rune_ok :: "nat \<Rightarrow> bool" where
  "rune_ok r \<longleftrightarrow> r < 55296 \<or> 57344 \<le> r \<and> r < 1114112"

lemma encode_rune_length: "length (encode_rune r) \<noteq> 0"
  by (simp add: encode_rune_def)

lemma decode_encode:
  assumes "rune_ok r"
  shows "decode_rune (encode_rune r @ t) = Some (r, length (encode_rune r))"
proof -
  have m: "(192 + x) mod 32 = x" if "x < 32" for x :: nat using add_mod_small [of x 32 6] that by simp
  have m2: "(224 + x) mod 16 = x" if "x < 16" for x :: nat using add_mod_small [of x 16 14] that by simp
  have m3: "(240 + x) mod 8 = x" if "x < 8" for x :: nat using add_mod_small [of x 8 30] that by simp
  have c: "(128 + x) mod 64 = x" if "x < 64" for x :: nat using add_mod_small [of x 64 2] that by simp
  have code: "code (byte (128 + x mod 64)) = 128 + x mod 64" "128 + x mod 64 \<le> 191" for x
    using mod_less_divisor [of 64 x] by (auto intro!: code_byte)
  consider "r < 128" | "128 \<le> r" "r < 2048" | "2048 \<le> r" "r < 65536" | "65536 \<le> r" "r < 1114112"
    using assms by (fastforce simp: rune_ok_def)
  then show ?thesis
  proof cases
    case 1
    then show ?thesis by (simp add: encode_rune_def decode_rune.simps)
  next
    case 2
    then have d: "r div 64 < 32" "2 \<le> r div 64" by (simp_all add: less_mult_imp_div_less div_le_mono[of 128 r 64, simplified])
    then have "code (byte (192 + r div 64)) = 192 + r div 64" by simp
    with 2 d code show ?thesis by (simp add: encode_rune_def decode_rune.simps cont_byte_def m c)
  next
    case 3
    define a b d where abd: "a = r div 64 div 64" "b = r div 64 mod 64" "d = r mod 64"
    have r: "r = a * 4096 + b * 64 + d" and b: "b < 64" and d: "d < 64"
      using div_mult_mod_eq [of r 64] div_mult_mod_eq [of "r div 64" 64] unfolding abd by (linarith, simp_all)
    have a: "a < 16" using r 3(2) by linarith
    have q: "r div 4096 = a" using div_mult2_eq [of r 64 64] by (simp add: abd)
    have c0: "code (byte (224 + a)) = 224 + a" using a by simp
    have bd: "code (byte (128 + b)) = 128 + b" "code (byte (128 + d)) = 128 + d" using b d by simp_all
    have ok: "second_ok (224 + a) (128 + b)"
      using assms 3 r a b d unfolding second_ok_def rune_ok_def by auto
    have e: "encode_rune r = [byte (224 + a), byte (128 + b), byte (128 + d)]"
      using 3 q by (simp add: encode_rune_def abd)
    show ?thesis unfolding e using a b d ok c0 bd r
      by (simp add: decode_rune.simps cont_byte_def m2 c)
  next
    case 4
    define a b d e where abd: "a = r div 64 div 64 div 64" "b = r div 64 div 64 mod 64" "d = r div 64 mod 64" "e = r mod 64"
    have r: "r = a * 262144 + b * 4096 + d * 64 + e" and b: "b < 64" and d: "d < 64" and e: "e < 64"
      using div_mult_mod_eq [of r 64] div_mult_mod_eq [of "r div 64" 64] div_mult_mod_eq [of "r div 64 div 64" 64]
      unfolding abd by (linarith, simp_all)
    have a: "a < 5" using r 4(2) by linarith
    have q: "r div 262144 = a" "r div 4096 = r div 64 div 64"
      using div_mult2_eq [of r 64 64] div_mult2_eq [of r 4096 64] by (simp_all add: abd)
    have c0: "code (byte (240 + a)) = 240 + a" using a by simp
    have bd: "code (byte (128 + b)) = 128 + b" "code (byte (128 + d)) = 128 + d" "code (byte (128 + e)) = 128 + e"
      using b d e by simp_all
    have ok: "second_ok (240 + a) (128 + b)"
      using 4 r a b d e unfolding second_ok_def by auto
    have enc: "encode_rune r = [byte (240 + a), byte (128 + b), byte (128 + d), byte (128 + e)]"
      using 4 q by (simp add: encode_rune_def abd)
    show ?thesis unfolding enc using a b d e ok c0 bd r
      by (simp add: decode_rune.simps cont_byte_def m3 c)
  qed
qed

text \<open>Well-formed UTF-8.\<close>

function utf8_ok :: "bytes \<Rightarrow> bool" where
  "utf8_ok [] = True"
| "utf8_ok (c # cs) =
    (case decode_rune (c # cs) of None \<Rightarrow> False | Some (r, n) \<Rightarrow> utf8_ok (drop n (c # cs)))"
  by pat_completeness auto
termination
proof (relation "measure length")
  fix c cs p r n
  assume "decode_rune (c # cs) = Some p" and "(r, n) = p"
  then have "0 < n" by (metis decode_rune_width)
  then show "(drop n (c # cs), c # cs) \<in> measure length" by simp
qed simp_all

declare utf8_ok.simps(2) [simp del]

lemma utf8_ok_rune: "rune_ok r \<Longrightarrow> utf8_ok (encode_rune r @ t) = utf8_ok t"
proof -
  assume "rune_ok r"
  from decode_encode [OF this] show ?thesis
    using encode_rune_length [of r] by (cases "encode_rune r") (auto simp: utf8_ok.simps)
qed

subsection \<open>Printed strings\<close>

text \<open>
  A piece of a printed string is skipped by the scanner, and the decoder turns it into some bytes.
\<close>

definition piece :: "string \<Rightarrow> bytes \<Rightarrow> bool" where
  "piece p b \<longleftrightarrow> (\<forall>t. scan_string (p @ t) = scan_string t \<and> unquote_body (p @ t) = b @ unquote_body t)"

lemma scan_string_plain:
  "\<forall>x\<in>set p. 32 \<le> code x \<and> x \<noteq> CHR 0x22 \<and> x \<noteq> CHR 0x5C \<Longrightarrow> scan_string (p @ t) = scan_string t"
  by (induction p) auto

lemma hex_digit_props [simp]: "n < 16 \<Longrightarrow> is_hex (hex_digit n) \<and> hex_val (hex_digit n) = n"
  by (auto simp: hex_digit_def is_hex_def hex_val_def is_digit_def)

lemma piece_u:
  assumes "is_hex h1" "is_hex h2" "is_hex h3" "is_hex h4"
    and r: "r = hex_val h1 * 4096 + hex_val h2 * 256 + hex_val h3 * 16 + hex_val h4" and ok: "rune_ok r"
  shows "piece (CHR 0x5C # CHR ''u'' # [h1, h2, h3, h4]) (encode_rune r)"
proof -
  have "\<not> (55296 \<le> r \<and> r < 57344)" using ok by (auto simp: rune_ok_def)
  then show ?thesis using assms(1-4)
    by (auto simp: piece_def escape_char_def unquote_body.simps unquote_u_def hex4_def r)
qed

lemma piece_escape:
  assumes "escape_char e" "simple_escape e = Some c"
  shows "piece [CHR 0x5C, e] [c]"
  using assms by (auto simp: piece_def unquote_body.simps escape_char_def)

lemma decode_rune_quote [simp]: "decode_rune (CHR 0x22 # cs) = Some (34, 1)" "decode_rune (CHR 0x5C # cs) = Some (92, 1)"
  by (simp_all add: decode_rune.simps code_def)

lemma piece_rune:
  assumes "decode_rune (c # cs) = Some (r, n)" and "c \<noteq> CHR 0x22" "c \<noteq> CHR 0x5C" "32 \<le> code c"
  shows "piece (take n (c # cs)) (take n (c # cs))"
proof -
  let ?p = "take n (c # cs)"
  have n: "0 < n" "n \<le> length (c # cs)" using decode_rune_width [OF assms(1)] by auto
  then obtain q where p: "?p = c # q" by (cases n) auto
  have plain: "\<forall>x\<in>set ?p. 32 \<le> code x \<and> x \<noteq> CHR 0x22 \<and> x \<noteq> CHR 0x5C"
    using decode_rune_1 [OF assms(1)] assms n
    by (auto simp: code_eq_iff [of _ "CHR 0x22"] code_eq_iff [of _ "CHR 0x5C"]) (auto simp: code_def)
  have "unquote_body (?p @ t) = ?p @ unquote_body t" for t
  proof -
    have d: "decode_rune (?p @ t) = Some (r, n)" by (rule decode_rune_append [OF assms(1)])
    have l: "length ?p = n" using n by simp
    have "take n (?p @ t) = ?p" "drop n (?p @ t) = t" using l by simp_all
    with d assms(3) show ?thesis unfolding p by (simp add: unquote_body.simps)
  qed
  then show ?thesis using scan_string_plain [OF plain] by (simp add: piece_def)
qed

lemma piece_ascii: "code c < 128 \<Longrightarrow> piece (json_escape_ascii c) [c]"
proof -
  assume c: "code c < 128"
  have r: "decode_rune [c] = Some (code c, 1)" using c by (simp add: decode_rune.simps)
  consider "html_safe (code c)" | "code c \<in> {92, 34, 8, 12, 10, 13, 9}"
    | "\<not> html_safe (code c)" "code c \<notin> {92, 34, 8, 12, 10, 13, 9}"
    by blast
  note cs = this
  have digits: "hex_val (hex_digit (code c div 16)) = code c div 16" "hex_val (hex_digit (code c mod 16)) = code c mod 16"
      "is_hex (hex_digit (code c div 16))" "is_hex (hex_digit (code c mod 16))"
    using c by simp_all
  have zero: "hex_val CHR ''0'' = 0" "is_hex CHR ''0''" by (simp_all add: hex_val_def is_hex_def is_digit_def code_def)
  show ?thesis
    using cs
  proof cases
    case 1
    then have "c \<noteq> CHR 0x22" "c \<noteq> CHR 0x5C" "32 \<le> code c" by (auto simp: html_safe_def code_def)
    with piece_rune [OF r] 1 show ?thesis by (simp add: json_escape_ascii_def)
  next
    case 2
    then have "c \<in> set [CHR 0x5C, CHR 0x22, CHR 0x08, CHR 0x0C, CHR 0x0A, CHR 0x0D, CHR 0x09]"
      by (auto simp: code_eq_iff [of c]) (auto simp: code_def)
    then show ?thesis
      by (auto simp: json_escape_ascii_def html_safe_def code_def intro!: piece_escape)
         (simp_all add: escape_char_def simple_escape_def)
  next
    case 3
    have u: "piece (CHR 0x5C # CHR ''u'' # [CHR ''0'', CHR ''0'', hex_digit (code c div 16), hex_digit (code c mod 16)])
        (encode_rune (code c))"
    proof (rule piece_u)
      show "code c = hex_val CHR ''0'' * 4096 + hex_val CHR ''0'' * 256 + hex_val (hex_digit (code c div 16)) * 16
          + hex_val (hex_digit (code c mod 16))"
        using digits zero by simp
    qed (use c digits zero in \<open>simp_all add: rune_ok_def\<close>)
    with 3 c show ?thesis by (auto simp: json_escape_ascii_def hex_byte_def encode_rune_def Let_def)
  qed
qed

lemma piece_append: "piece p b \<Longrightarrow> piece q d \<Longrightarrow> piece (p @ q) (b @ d)"
  by (simp add: piece_def)

lemma piece_Nil: "piece [] []"
  by (simp add: piece_def)

text \<open>The escape of a byte that starts no rune, and of the two line separators.\<close>

lemma piece_replacement: "piece (CHR 0x5C # ''ufffd'') fffd"
  unfolding fffd_def
  by (rule piece_u [of "CHR ''f''" "CHR ''f''" "CHR ''f''" "CHR ''d''", simplified])
     (simp_all add: is_hex_def hex_val_def is_digit_def code_def rune_ok_def)

lemma piece_separator:
  assumes "r = 8232 \<or> r = 8233"
  shows "piece (CHR 0x5C # ''u202'' @ [hex_digit (r mod 16)]) (encode_rune r)"
proof -
  have "piece (CHR 0x5C # CHR ''u'' # [CHR ''2'', CHR ''0'', CHR ''2'', hex_digit (r mod 16)]) (encode_rune r)"
    using assms by (intro piece_u) (auto simp: rune_ok_def is_hex_def hex_val_def is_digit_def code_def hex_digit_def byte_def)
  then show ?thesis by simp
qed

lemma json_string_piece: "\<exists>b. piece (json_string_body k) b \<and> (utf8_ok k \<longrightarrow> b = k)"
proof (induction k rule: json_string_body.induct)
  case 1
  show ?case using piece_Nil by auto
next
  case (2 c cs)
  show ?case
  proof (cases "decode_rune (c # cs)")
    case None
    with 2 piece_append [OF piece_replacement] show ?thesis by (auto simp: utf8_ok.simps)
  next
    case (Some rn)
    obtain r n where rn: "rn = (r, n)" by force
    obtain b where b: "piece (json_string_body (drop n (c # cs))) b" "utf8_ok (drop n (c # cs)) \<longrightarrow> b = drop n (c # cs)"
      using "2.IH"(2) [OF Some [unfolded rn] refl] by blast
    let ?p = "if n = 1 then json_escape_ascii c
          else if r = 8232 \<or> r = 8233 then CHR 0x5C # ''u202'' @ [hex_digit (r mod 16)]
          else take n (c # cs)"
    have "piece ?p (take n (c # cs))"
    proof (cases "n = 1")
      case True
      with decode_rune_1 [OF Some [unfolded rn]] piece_ascii [of c] show ?thesis by simp
    next
      case False
      with decode_rune_1 [OF Some [unfolded rn]] have "1 < n" and big: "128 \<le> code c" by (auto simp: take_Cons')
      then have "c \<noteq> CHR 0x22" "c \<noteq> CHR 0x5C" "32 \<le> code c" by (auto simp: code_def)
      with False piece_rune [OF Some [unfolded rn]] piece_separator [of r] encode_decode [OF Some [unfolded rn]]
      show ?thesis by auto
    qed
    from piece_append [OF this b(1)] b(2) have "piece (json_string_body (c # cs)) (take n (c # cs) @ b)"
      and "utf8_ok (c # cs) \<longrightarrow> take n (c # cs) @ b = c # cs"
      using Some rn by (auto simp: utf8_ok.simps)
    then show ?thesis by blast
  qed
qed

lemma scan_json_string: "scan_string (json_string_body k @ CHR 0x22 # t) = Some t"
  using json_string_piece [of k] by (auto simp: piece_def)

lemma unquote_json_string: "utf8_ok k \<Longrightarrow> unquote_body (json_string_body k) = k"
  using json_string_piece [of k] by (auto simp: piece_def dest: spec [of _ "[]"])

lemma utf8_ok_append: "utf8_ok a \<Longrightarrow> utf8_ok b \<Longrightarrow> utf8_ok (a @ b)"
proof (induction a rule: utf8_ok.induct)
  case (2 c cs)
  then obtain r n where r: "decode_rune (c # cs) = Some (r, n)" by (auto simp: utf8_ok.simps split: option.splits)
  with 2 have "utf8_ok (drop n (c # cs) @ b)" by (simp add: utf8_ok.simps)
  moreover have n: "n \<le> length (c # cs)" using decode_rune_width [OF r] by simp
  moreover have "decode_rune ((c # cs) @ b) = Some (r, n)"
    using decode_rune_append [OF r, of "drop n (c # cs) @ b"] by (metis append_assoc append_take_drop_id)
  moreover have "drop n (c # cs @ b) = drop n (c # cs) @ b" using n drop_append [of n "c # cs" b] by simp
  ultimately show ?case by (simp add: utf8_ok.simps)
qed simp

lemma utf8_ok_encode: "rune_ok r \<Longrightarrow> utf8_ok (encode_rune r)"
  using utf8_ok_rune [of r "[]"] by simp

lemma hex4_less: "hex4 s = Some r \<Longrightarrow> r < 65536"
proof -
  assume h: "hex4 s = Some r"
  have v: "is_hex c \<Longrightarrow> hex_val c < 16" for c
    by (auto simp: is_hex_def hex_val_def is_digit_def)
  from h obtain a b c d where "is_hex a" "is_hex b" "is_hex c" "is_hex d"
    and "r = hex_val a * 4096 + hex_val b * 256 + hex_val c * 16 + hex_val d"
    by (auto simp: hex4_def split: list.splits if_splits)
  with v [of a] v [of b] v [of c] v [of d] show ?thesis by linarith
qed

lemma unquote_u_ok: "utf8_ok (fst (unquote_u es))"
proof -
  have "rune_ok 65533" by (simp add: rune_ok_def)
  then have f: "utf8_ok fffd" unfolding fffd_def by (rule utf8_ok_encode)
  show ?thesis
  proof (cases "hex4 es")
    case (Some r)
    have "utf8_ok (encode_rune ((r - 55296) * 1024 + (r2 - 56320) + 65536))"
      if "low_surrogate s = Some r2" "r < 56320" for s r2
    proof -
      from that(1) have "56320 \<le> r2" "r2 < 57344"
        by (auto simp: low_surrogate_def split: list.splits if_splits option.splits)
      then have "(r - 55296) * 1024 + (r2 - 56320) + 65536 < 1114112" using that(2) by linarith
      then show ?thesis by (intro utf8_ok_encode) (simp add: rune_ok_def)
    qed
    with Some f hex4_less [OF Some] show ?thesis
      by (auto simp: unquote_u_def rune_ok_def split: option.splits intro!: utf8_ok_encode)
  qed (simp add: unquote_u_def)
qed

lemma unquote_body_utf8: "utf8_ok (unquote_body s)"
proof (induction s rule: unquote_body.induct)
  case (2 c cs)
  show ?case
  proof (cases "c = CHR 0x5C")
    case True
    show ?thesis
    proof (cases cs)
      case (Cons e es)
      have "utf8_ok (x # unquote_body es)" if "simple_escape e = Some x" "e \<noteq> CHR ''u''" for x
      proof -
        have "x \<in> set [CHR 0x08, CHR 0x0C, CHR 0x0A, CHR 0x0D, CHR 0x09, CHR 0x22, CHR 0x5C, CHR ''/'', CHR 0x27]"
          using that(1) by (simp add: simple_escape_def split: if_splits)
        then have "code x < 128" by (auto simp: code_def)
        then have "utf8_ok [x]" by (simp add: utf8_ok.simps decode_rune.simps)
        from utf8_ok_append [OF this] "2.IH"(2) [OF True Cons that(2,1)] show ?thesis by simp
      qed
      with True Cons "2.IH"(1) [OF True Cons] show ?thesis
        by (auto simp: unquote_body.simps unquote_u_ok utf8_ok_append split: option.splits)
    qed (simp add: True unquote_body.simps)
  next
    case False
    show ?thesis
    proof (cases "decode_rune (c # cs)")
      case None
      have "utf8_ok fffd" unfolding fffd_def by (rule utf8_ok_encode) (simp add: rune_ok_def)
      with None False "2.IH"(3) show ?thesis by (simp add: unquote_body.simps utf8_ok_append)
    next
      case (Some rn)
      obtain r n where rn: "rn = (r, n)" by force
      have n: "0 < n" "n \<le> length (c # cs)" using decode_rune_width Some rn by blast+
      let ?p = "take n (c # cs)"
      have l: "length ?p = n" using n by simp
      have "decode_rune ?p = Some (r, n)" using decode_rune_append [OF Some [unfolded rn], of "[]"] by simp
      moreover have "drop n ?p = []" using l by simp
      ultimately have "utf8_ok ?p" using n by (cases ?p) (auto simp: utf8_ok.simps)
      with Some rn False "2.IH"(4) [OF False] show ?thesis by (simp add: unquote_body.simps utf8_ok_append)
    qed
  qed
qed simp

end
