(* ===== verification/Json_Compact.thy ===== *)
theory Json_Compact
  imports Json_Roundtrip
begin

text \<open>
  The text of a value stays that value when it is compacted, and a printed map of raw values is an object
  whose members are its entries. The argument follows the scanner: every scanning function accepts the
  compacted form of what it accepted, before any continuation that does not extend a number.
\<close>

subsection \<open>Compacting keeps a value\<close>

lemma compact_space: "\<forall>c\<in>set w. json_space c \<Longrightarrow> compact False (w @ x) = compact False x"
  by (induction w) auto

lemma skip_space_split: "\<exists>w. s = w @ skip_space s \<and> (\<forall>c\<in>set w. json_space c)"
  unfolding skip_space_def by (metis set_takeWhileD takeWhile_dropWhile_id)

lemma compact_plain:
  "\<forall>c\<in>set v. \<not> json_space c \<and> c \<noteq> CHR 0x22 \<Longrightarrow> compact False (v @ x) = v @ compact False x"
  by (induction v) auto

definition separator :: "string \<Rightarrow> bool" where
  "separator cs \<longleftrightarrow> (\<exists>e es. cs = CHR 0x80 # e # es \<and> (e = CHR 0xA8 \<or> e = CHR 0xA9))"

lemma compact_string_char:
  assumes "c \<noteq> CHR 0x22" "c \<noteq> CHR 0x5C"
  shows "compact True (c # cs) =
    (if c = CHR ''<'' \<or> c = CHR ''>'' \<or> c = CHR ''&'' then CHR 0x5C # ''u00'' @ hex_byte c @ compact True cs
     else if c = CHR 0xE2 \<and> separator cs
     then CHR 0x5C # ''u202'' @ [hex_digit (code (cs ! 1) mod 16)] @ compact True (drop 2 cs)
     else c # compact True cs)"
  using assms by (auto simp: separator_def split: list.split)

text \<open>The rest of a string: what is compacted and what the scanner makes of it.\<close>

definition string_kept :: "string \<Rightarrow> string \<Rightarrow> bool" where
  "string_kept b d \<longleftrightarrow> (b = [CHR 0x22] \<or> 2 \<le> length b)
     \<and> (\<forall>x. compact True (b @ x) = d @ compact False x) \<and> (\<forall>t. scan_string (d @ t) = Some t)"

lemma string_kept_quote: "string_kept [CHR 0x22] [CHR 0x22]"
  by (simp add: string_kept_def)

lemma string_kept_append:
  assumes "string_kept b d" "p \<noteq> []"
    and "\<forall>x. compact True (p @ x) = q @ compact True x" "\<forall>t. scan_string (q @ t) = scan_string t"
  shows "string_kept (p @ b) (q @ d)"
  using assms by (cases p; cases b) (auto simp: string_kept_def)

lemma compact_escape: "compact True (CHR 0x5C # e # x) = CHR 0x5C # e # compact True x"
  by simp

lemma hex_plain: "is_hex h \<Longrightarrow> compact True (h # x) = h # compact True x"
  by (subst compact_string_char) (auto simp: is_hex_def is_digit_def code_def)

lemma separator_kept: "string_kept b d \<Longrightarrow> separator (b @ x) = separator (b @ y)"
proof -
  assume "string_kept b d"
  then consider "b = [CHR 0x22]" | b0 b1 b' where "b = b0 # b1 # b'"
    by (cases b; cases "tl b") (auto simp: string_kept_def)
  then show "separator (b @ x) = separator (b @ y)"
    by cases (auto simp: separator_def)
qed

lemma scan_hex4 [simp]:
  "is_hex a \<Longrightarrow> is_hex b \<Longrightarrow> is_hex c \<Longrightarrow> is_hex d \<Longrightarrow>
    scan_string (CHR 0x5C # CHR ''u'' # a # b # c # d # t) = scan_string t"
  by (simp add: escape_char_def)

lemma is_hex_literals [simp]: "is_hex CHR ''0''" "is_hex CHR ''2''"
  by (simp_all add: is_hex_def is_digit_def code_def)

lemma hex_digits_of_byte: "is_hex (hex_digit (code c div 16))" "is_hex (hex_digit (code c mod 16))"
proof -
  have "code c div 16 < 16" using code_less [of c] by linarith
  then show "is_hex (hex_digit (code c div 16))" by simp
qed simp

lemma scan_u00: "scan_string (CHR 0x5C # ''u00'' @ hex_byte c @ t) = scan_string t"
  using scan_hex4 [of "CHR ''0''" "CHR ''0''" "hex_digit (code c div 16)" "hex_digit (code c mod 16)" t]
    hex_digits_of_byte [of c] by (simp add: hex_byte_def del: scan_string.simps(2))

lemma scan_u202: "scan_string (CHR 0x5C # ''u202'' @ [hex_digit (n mod 16)] @ t) = scan_string t"
  using scan_hex4 [of "CHR ''2''" "CHR ''0''" "CHR ''2''" "hex_digit (n mod 16)" t] by (simp del: scan_string.simps(2))

lemma scan_string_kept: "scan_string s = Some r \<Longrightarrow> \<exists>b d. s = b @ r \<and> string_kept b d"
proof (induction s rule: length_induct)
  case (1 s)
  then obtain c cs where s: "s = c # cs" by (cases s) auto
  have IH: "\<exists>b d. t = b @ r \<and> string_kept b d" if "scan_string t = Some r" "length t \<le> length cs" for t
    using 1(1) that s by auto
  show ?case
  proof (cases "c = CHR 0x22")
    case True
    with 1(2) s string_kept_quote show ?thesis by auto
  next
    case quote: False
    show ?thesis
    proof (cases "c = CHR 0x5C")
      case True
      with 1(2) s obtain e es where cs: "cs = e # es" by (cases cs) auto
      show ?thesis
      proof (cases "escape_char e")
        case esc: True
        with 1(2) s cs True IH [of es] obtain b d where b: "es = b @ r" "string_kept b d" by auto
        have "string_kept ([CHR 0x5C, e] @ b) ([CHR 0x5C, e] @ d)"
          by (rule string_kept_append [OF b(2)]) (use esc in auto)
        moreover have "s = ([CHR 0x5C, e] @ b) @ r" using b(1) s cs True by simp
        ultimately show ?thesis by blast
      next
        case False
        with 1(2) s cs True obtain h1 h2 h3 h4 rest where e: "e = CHR ''u''" "es = h1 # h2 # h3 # h4 # rest"
          and h: "is_hex h1" "is_hex h2" "is_hex h3" "is_hex h4" and sc: "scan_string rest = Some r"
          by (auto split: if_splits list.splits)
        with IH [of rest] cs obtain b d where b: "rest = b @ r" "string_kept b d" by auto
        have "string_kept ([CHR 0x5C, e, h1, h2, h3, h4] @ b) ([CHR 0x5C, e, h1, h2, h3, h4] @ d)"
        proof (rule string_kept_append [OF b(2)])
          show "\<forall>x. compact True ([CHR 0x5C, e, h1, h2, h3, h4] @ x) = [CHR 0x5C, e, h1, h2, h3, h4] @ compact True x"
            using h by (simp add: compact_escape hex_plain del: compact.simps)
        qed (use h e(1) in \<open>simp_all del: scan_string.simps\<close>)
        moreover have "s = ([CHR 0x5C, e, h1, h2, h3, h4] @ b) @ r" using b(1) s cs e(2) True by simp
        ultimately show ?thesis by blast
      qed
    next
      case bs: False
      with 1(2) s quote have c: "32 \<le> code c" and sc: "scan_string cs = Some r" by (auto split: if_splits)
      show ?thesis
      proof (cases "c = CHR 0xE2 \<and> separator cs")
        case True
        then obtain e es where e: "cs = CHR 0x80 # e # es" "e = CHR 0xA8 \<or> e = CHR 0xA9"
          by (auto simp: separator_def)
        with sc have "scan_string es = Some r" by (auto simp: code_def split: if_splits)
        with IH [of es] e obtain b d where b: "es = b @ r" "string_kept b d" by auto
        have "string_kept ([c, CHR 0x80, e] @ b) ((CHR 0x5C # ''u202'' @ [hex_digit (code e mod 16)]) @ d)"
        proof (rule string_kept_append [OF b(2)])
          show "\<forall>x. compact True ([c, CHR 0x80, e] @ x) = (CHR 0x5C # ''u202'' @ [hex_digit (code e mod 16)]) @ compact True x"
            using True e(2) by auto
          show "\<forall>t. scan_string ((CHR 0x5C # ''u202'' @ [hex_digit (code e mod 16)]) @ t) = scan_string t"
            using scan_u202 [of "code e"] by (simp del: scan_string.simps(2))
        qed simp
        moreover have "s = ([c, CHR 0x80, e] @ b) @ r" using b(1) s e(1) by simp
        ultimately show ?thesis by blast
      next
        case False
        from IH [of cs] sc obtain b d where b: "cs = b @ r" "string_kept b d" by auto
        have ns: "\<not> (c = CHR 0xE2 \<and> separator (b @ x))" for x
          using False b separator_kept by blast
        let ?p = "if c = CHR ''<'' \<or> c = CHR ''>'' \<or> c = CHR ''&'' then CHR 0x5C # ''u00'' @ hex_byte c else [c]"
        have len: "b = [CHR 0x22] \<or> 2 \<le> length b" and bc: "\<forall>x. compact True (b @ x) = d @ compact False x"
          and bd: "\<forall>t. scan_string (d @ t) = Some t"
          using b(2) by (auto simp: string_kept_def)
        have "compact True ((c # b) @ x) = (?p @ d) @ compact False x" for x
          using compact_string_char [OF quote bs, of "b @ x"] ns [of x] bc by auto
        moreover have "scan_string ((?p @ d) @ t) = Some t" for t
          using bd c quote bs scan_u00 [of c "d @ t"] by (auto simp del: scan_hex4)
        ultimately have "string_kept (c # b) (?p @ d)"
          using len by (auto simp: string_kept_def)
        moreover have "s = (c # b) @ r" using b(1) s by simp
        ultimately show ?thesis by blast
      qed
    qed
  qed
qed

subsection \<open>Numbers\<close>

definition follow :: "string \<Rightarrow> bool" where
  "follow t \<longleftrightarrow> (case t of [] \<Rightarrow> True | c # cs \<Rightarrow> \<not> is_digit c \<and> c \<noteq> CHR ''.'' \<and> c \<noteq> CHR ''e'' \<and> c \<noteq> CHR ''E'')"

definition no_digit :: "string \<Rightarrow> bool" where
  "no_digit t \<longleftrightarrow> (case t of [] \<Rightarrow> True | c # cs \<Rightarrow> \<not> is_digit c)"

definition number_char :: "char \<Rightarrow> bool" where
  "number_char c \<longleftrightarrow> is_digit c \<or> c \<in> set [CHR ''-'', CHR ''+'', CHR ''.'', CHR ''e'', CHR ''E'']"

lemma scan_digits_kept:
  assumes "scan_digits s = Some r"
  shows "\<exists>v. s = v @ r \<and> v \<noteq> [] \<and> list_all is_digit v"
proof -
  obtain c cs where s: "s = c # cs" "is_digit c" "r = dropWhile is_digit cs"
    using assms by (auto simp: scan_digits_def split: list.splits if_splits)
  have "s = (c # takeWhile is_digit cs) @ r" "list_all is_digit (c # takeWhile is_digit cs)"
    using s by (auto simp: list_all_iff dest: set_takeWhileD)
  then show ?thesis by blast
qed

lemma scan_digits_again:
  assumes "list_all is_digit v" "v \<noteq> []" "no_digit t"
  shows "scan_digits (v @ t) = Some t"
proof -
  obtain c cs where v: "v = c # cs" using assms(2) by (cases v) auto
  have "dropWhile is_digit (cs @ t) = dropWhile is_digit t"
    using assms(1) v by (simp add: dropWhile_append3 list_all_iff)
  also have "\<dots> = t" using assms(3) by (cases t) (auto simp: no_digit_def)
  finally show ?thesis using assms(1) v by (simp add: scan_digits_def)
qed

lemma follow_no_digit: "follow t \<Longrightarrow> no_digit t"
  by (auto simp: follow_def no_digit_def split: list.splits)

lemma scan_integer_kept:
  assumes "scan_integer s = Some r"
  shows "\<exists>v. s = v @ r \<and> v \<noteq> [] \<and> list_all is_digit v \<and> (\<forall>t. no_digit t \<longrightarrow> scan_integer (v @ t) = Some t)"
proof (cases "\<exists>cs. s = CHR ''0'' # cs")
  case True
  with assms show ?thesis by (intro exI [of _ "''0''"]) (auto simp: scan_integer_def)
next
  case False
  then have "scan_digits s = Some r" using assms by (auto simp: scan_integer_def split: list.splits if_splits)
  then obtain v where v: "s = v @ r" "v \<noteq> []" "list_all is_digit v" using scan_digits_kept by blast
  then obtain c v' where c: "v = c # v'" "c \<noteq> CHR ''0''" using False by (cases v) auto
  then have "scan_integer (v @ t) = Some t" if "no_digit t" for t
    using scan_digits_again [OF v(3,2) that] by (simp add: scan_integer_def)
  with v show ?thesis by blast
qed

lemma scan_frac_kept:
  assumes "scan_frac s = Some r"
  shows "\<exists>v. s = v @ r \<and> list_all number_char v \<and> (v = [] \<or> hd v = CHR ''.'')
    \<and> (\<forall>t. no_digit t \<longrightarrow> (v = [] \<longrightarrow> t = [] \<or> hd t \<noteq> CHR ''.'') \<longrightarrow> scan_frac (v @ t) = Some t)"
proof (cases "\<exists>cs. s = CHR ''.'' # cs")
  case True
  then obtain cs where s: "s = CHR ''.'' # cs" by blast
  with assms obtain v where v: "cs = v @ r" "v \<noteq> []" "list_all is_digit v"
    using scan_digits_kept by (auto simp: scan_frac_def)
  then have "scan_frac ((CHR ''.'' # v) @ t) = Some t" if "no_digit t" for t
    using scan_digits_again [OF v(3,2) that] by (simp add: scan_frac_def)
  moreover have "list_all number_char (CHR ''.'' # v)" using v by (auto simp: list_all_iff number_char_def)
  ultimately show ?thesis using v s by (intro exI [of _ "CHR ''.'' # v"]) auto
next
  case False
  with assms have "r = s" by (auto simp: scan_frac_def split: list.splits if_splits)
  then show ?thesis by (intro exI [of _ "[]"]) (auto simp: scan_frac_def split: list.split)
qed

lemma skip_sign_split: "\<exists>g. s = g @ skip_sign s \<and> (g = [] \<or> g = ''+'' \<or> g = ''-'')"
  by (auto simp: skip_sign_def split: list.split)

lemma skip_minus_split: "\<exists>g. s = g @ skip_minus s \<and> (g = [] \<or> g = ''-'')"
  by (auto simp: skip_minus_def split: list.split)

lemma scan_exp_kept:
  assumes "scan_exp s = Some r"
  shows "\<exists>v. s = v @ r \<and> list_all number_char v \<and> (v = [] \<or> hd v \<in> {CHR ''e'', CHR ''E''})
    \<and> (\<forall>t. follow t \<longrightarrow> scan_exp (v @ t) = Some t)"
proof (cases "\<exists>c cs. s = c # cs \<and> (c = CHR ''e'' \<or> c = CHR ''E'')")
  case True
  then obtain c cs where s: "s = c # cs" "c = CHR ''e'' \<or> c = CHR ''E''" by blast
  with assms obtain v where v: "skip_sign cs = v @ r" "v \<noteq> []" "list_all is_digit v"
    using scan_digits_kept by (auto simp: scan_exp_def)
  obtain g where g: "cs = g @ skip_sign cs" "g = [] \<or> g = ''+'' \<or> g = ''-''"
    using skip_sign_split [of cs] by blast
  obtain a v' where a: "v = a # v'" "is_digit a" using v by (cases v) auto
  then have na: "a \<noteq> CHR ''+''" "a \<noteq> CHR ''-''" by (auto simp: is_digit_def code_def)
  have "skip_sign (g @ v @ t) = v @ t" for t using g(2) a na by (auto simp: skip_sign_def)
  then have "scan_exp ((c # g @ v) @ t) = Some t" if "follow t" for t
    using scan_digits_again [OF v(3,2) follow_no_digit [OF that]] s(2) by (auto simp: scan_exp_def)
  moreover have "list_all number_char (c # g @ v)" using v g s by (auto simp: list_all_iff number_char_def)
  moreover have "s = (c # g @ v) @ r" using g(1) v(1) s(1) by simp
  ultimately show ?thesis using s(2) by (intro exI [of _ "c # g @ v"]) auto
next
  case False
  with assms have "r = s" by (auto simp: scan_exp_def split: list.splits if_splits)
  then show ?thesis by (intro exI [of _ "[]"]) (auto simp: scan_exp_def follow_def split: list.split)
qed

lemma scan_number_kept:
  assumes "scan_number s = Some r"
  shows "\<exists>v. s = v @ r \<and> v \<noteq> [] \<and> list_all number_char v \<and> (\<forall>t. follow t \<longrightarrow> scan_number (v @ t) = Some t)"
proof -
  from assms obtain s1 s2 where s1: "scan_integer (skip_minus s) = Some s1" and s2: "scan_frac s1 = Some s2"
    and r: "scan_exp s2 = Some r"
    by (auto simp: scan_number_def bind_eq_Some_conv)
  obtain g where g: "s = g @ skip_minus s" "g = [] \<or> g = ''-''" using skip_minus_split [of s] by blast
  obtain v1 where v1: "skip_minus s = v1 @ s1" "v1 \<noteq> []" "list_all is_digit v1"
    "\<forall>t. no_digit t \<longrightarrow> scan_integer (v1 @ t) = Some t"
    using scan_integer_kept [OF s1] by blast
  obtain v2 where v2: "s1 = v2 @ s2" "list_all number_char v2" "v2 = [] \<or> hd v2 = CHR ''.''"
    "\<forall>t. no_digit t \<longrightarrow> (v2 = [] \<longrightarrow> t = [] \<or> hd t \<noteq> CHR ''.'') \<longrightarrow> scan_frac (v2 @ t) = Some t"
    using scan_frac_kept [OF s2] by blast
  obtain v3 where v3: "s2 = v3 @ r" "list_all number_char v3" "v3 = [] \<or> hd v3 \<in> {CHR ''e'', CHR ''E''}"
    "\<forall>t. follow t \<longrightarrow> scan_exp (v3 @ t) = Some t"
    using scan_exp_kept [OF r] by blast
  obtain a v1' where a: "v1 = a # v1'" "is_digit a" using v1 by (cases v1) auto
  then have na: "a \<noteq> CHR ''-''" by (auto simp: is_digit_def code_def)
  have lits: "\<not> is_digit CHR ''.''" "\<not> is_digit CHR ''e''" "\<not> is_digit CHR ''E''"
    by (simp_all add: is_digit_def code_def)
  have "scan_number ((g @ v1 @ v2 @ v3) @ t) = Some t" if t: "follow t" for t
  proof -
    have m: "skip_minus ((g @ v1 @ v2 @ v3) @ t) = v1 @ v2 @ v3 @ t"
      using g(2) a na by (auto simp: skip_minus_def)
    have n3: "no_digit (v3 @ t)" "v3 @ t = [] \<or> hd (v3 @ t) \<noteq> CHR ''.''"
      using v3(3) lits t by (cases v3; cases t; auto simp: no_digit_def follow_def)+
    have n2: "no_digit (v2 @ v3 @ t)"
      using v2(3) lits n3(1) by (cases v2) (auto simp: no_digit_def)
    show ?thesis unfolding scan_number_def m
      using v1(4) n2 v2(4) n3 v3(4) t by simp
  qed
  moreover have "list_all number_char (g @ v1 @ v2 @ v3)"
    using g(2) v1(3) v2(2) v3(2) by (auto simp: list_all_iff number_char_def)
  moreover have "s = (g @ v1 @ v2 @ v3) @ r" using g(1) v1(1) v2(1) v3(1) by simp
  ultimately show ?thesis using v1(2) by (intro exI [of _ "g @ v1 @ v2 @ v3"]) auto
qed

subsection \<open>Values\<close>

text \<open>
  \<open>value_kept f v\<close>: compacting the text \<open>v\<close> is independent of what follows it, and the scanning function
  accepts the compacted text before any continuation that cannot extend a number.
\<close>

definition value_kept :: "(string \<Rightarrow> string option) \<Rightarrow> string \<Rightarrow> bool" where
  "value_kept f v \<longleftrightarrow> (\<forall>x. compact False (v @ x) = compact False v @ compact False x)
     \<and> (\<exists>c cs. compact False v = c # cs \<and> \<not> json_space c)
     \<and> (\<forall>t. follow t \<longrightarrow> f (compact False v @ t) = Some t)"

definition keeps :: "(string \<Rightarrow> string option) \<Rightarrow> bool" where
  "keeps f \<longleftrightarrow> (\<forall>s r. f s = Some r \<longrightarrow> skip_space s = s \<longrightarrow> (\<exists>v. s = v @ r \<and> value_kept f v))"

lemma value_kept_plain:
  assumes "v = c # cs" "list_all (\<lambda>c. \<not> json_space c \<and> c \<noteq> CHR 0x22) v" "\<forall>t. follow t \<longrightarrow> f (v @ t) = Some t"
  shows "value_kept f v"
proof -
  have "compact False (v @ x) = v @ compact False x" for x
    using assms(2) by (intro compact_plain) (simp add: list_all_iff)
  from this this [of "[]"] show ?thesis using assms by (simp add: value_kept_def)
qed

lemma number_char_plain: "number_char c \<Longrightarrow> \<not> json_space c \<and> c \<noteq> CHR 0x22"
  by (auto simp: number_char_def json_space_def is_digit_def code_def)

lemma scan_word_kept:
  assumes "scan_word w s = Some r"
  shows "s = w @ r \<and> (\<forall>t. scan_word w (w @ t) = Some t)"
  using assms by (auto simp: scan_word_def prefix_def split: if_splits)

lemma scan_scalar_number:
  assumes "v = c # cs" "c = CHR ''-'' \<or> is_digit c" "scan_number (v @ t) = Some t"
  shows "scan_scalar (v @ t) = Some t"
proof -
  have "c \<noteq> CHR 0x22" using assms(2) by (auto simp: is_digit_def code_def)
  with assms show ?thesis by (simp add: scan_scalar_def)
qed

lemma scan_scalar_keeps: "keeps scan_scalar"
  unfolding keeps_def
proof (intro allI impI)
  fix s r
  assume scan: "scan_scalar s = Some r"
  then obtain c cs where s: "s = c # cs" by (cases s) (auto simp: scan_scalar_def)
  consider "c = CHR 0x22" "scan_string cs = Some r" | "c = CHR ''-'' \<or> is_digit c" "scan_number s = Some r"
    | w where "w \<in> set [''true'', ''false'', ''null'']" "scan_word w s = Some r"
    using scan s by (auto simp: scan_scalar_def split: if_splits)
  then show "\<exists>v. s = v @ r \<and> value_kept scan_scalar v"
  proof cases
    case 1
    then obtain b d where b: "cs = b @ r" "string_kept b d" using scan_string_kept by blast
    then have c: "compact False (CHR 0x22 # b @ x) = CHR 0x22 # d @ compact False x" for x
      by (simp add: string_kept_def json_space_def)
    have "value_kept scan_scalar (CHR 0x22 # b)"
      using c [of "[]"] c b(2) by (simp add: value_kept_def scan_scalar_def string_kept_def json_space_def)
    with b(1) s 1(1) show ?thesis by (intro exI [of _ "CHR 0x22 # b"]) simp
  next
    case 2
    then obtain v where v: "s = v @ r" "v \<noteq> []" "list_all number_char v"
      "\<forall>t. follow t \<longrightarrow> scan_number (v @ t) = Some t"
      using scan_number_kept by blast
    obtain v' where v': "v = c # v'" using v(1,2) s by (cases v) auto
    have "value_kept scan_scalar v"
      using v(3,4) 2(1) scan_scalar_number [OF v'] number_char_plain
      by (intro value_kept_plain [OF v']) (auto simp: list_all_iff)
    with v(1) show ?thesis by blast
  next
    case 3
    from scan_word_kept [OF 3(2)] have w: "s = w @ r" "\<forall>t. scan_word w (w @ t) = Some t" by auto
    have "scan_scalar (w @ t) = scan_word w (w @ t)" for t
      using 3(1) by (auto simp: scan_scalar_def is_digit_def code_def)
    with w 3(1) have "value_kept scan_scalar w"
      by (cases w) (auto intro!: value_kept_plain simp: json_space_def)
    with w(1) show ?thesis by blast
  qed
qed

subsection \<open>Containers\<close>

lemma object_members_more: "object_members n f s = Some x \<Longrightarrow> n \<le> m \<Longrightarrow> object_members m f s = Some x"
proof (induction n arbitrary: s x m)
  case (Suc n)
  then obtain m' where m: "m = Suc m'" "n \<le> m'" by (cases m) auto
  obtain ms r where x: "x = (ms, r)" by force
  from Suc.prems(1) [unfolded x] show ?case unfolding m
    by (elim object_members_SucE disjE conjE exE) (auto simp: x dest: Suc.IH [OF _ m(2)])
qed simp

lemma object_members_enough:
  "eats f \<Longrightarrow> object_members n f s = Some x \<Longrightarrow> object_members (length s) f s = Some x"
  using object_members_more [of n f s x "max n (length s)"] object_members_fuel [of f s "max n (length s)" "length s"]
  by simp

lemma array_elements_more: "array_elements n f s = Some r \<Longrightarrow> n \<le> m \<Longrightarrow> array_elements m f s = Some r"
proof (induction n arbitrary: s m)
  case (Suc n)
  then obtain m' where m: "m = Suc m'" "n \<le> m'" by (cases m) auto
  from Suc.prems(1) show ?case unfolding m
    by (auto split: option.splits list.splits if_splits dest: Suc.IH [OF _ m(2)])
qed simp

lemma array_elements_enough:
  "eats f \<Longrightarrow> array_elements n f s = Some r \<Longrightarrow> array_elements (length s) f s = Some r"
  using array_elements_more [of n f s r "max n (length s)"] array_elements_fuel [of f s "max n (length s)" "length s"]
  by simp

lemma skip_space_Cons_split:
  assumes "skip_space s = c # cs"
  shows "\<exists>w. s = w @ c # cs \<and> (\<forall>c\<in>set w. json_space c)"
  using skip_space_split [of s] assms by auto

lemma skip_space_kept: "value_kept f v \<Longrightarrow> skip_space (compact False v @ t) = compact False v @ t"
  by (auto simp: value_kept_def)

lemma follow_delim: "c \<in> set [CHR '','', CHR 0x7D, CHR '']''] \<Longrightarrow> follow (c # t)"
  by (auto simp: follow_def is_digit_def code_def)

lemma keepsD: "keeps f \<Longrightarrow> f (skip_space s) = Some r \<Longrightarrow> \<exists>v. skip_space s = v @ r \<and> value_kept f v"
  by (simp add: keeps_def)

text \<open>The text of one round of the loop over members, and its compacted form.\<close>

lemma round_kept:
  assumes f: "keeps f"
    and r: "skip_space s = CHR 0x22 # s1" "scan_string s1 = Some s2"
      "skip_space s2 = CHR '':'' # s3" "f (skip_space s3) = Some s4" "skip_space s4 = d # s5"
    and d: "d \<in> set [CHR '','', CHR 0x7D]"
  shows "\<exists>v c. s = v @ s5 \<and> (\<forall>x. compact False (v @ x) = CHR 0x22 # c @ compact False x)
    \<and> (\<forall>t. \<exists>t1 t2 t3. skip_space (CHR 0x22 # c @ t) = CHR 0x22 # t1 \<and> scan_string t1 = Some t2
         \<and> skip_space t2 = CHR '':'' # t3 \<and> f (skip_space t3) = Some (d # t) \<and> skip_space (d # t) = d # t)"
proof -
  obtain w0 where w0: "s = w0 @ CHR 0x22 # s1" "\<forall>c\<in>set w0. json_space c" using skip_space_Cons_split [OF r(1)] by blast
  obtain b e where b: "s1 = b @ s2" "string_kept b e" using scan_string_kept [OF r(2)] by blast
  obtain w1 where w1: "s2 = w1 @ CHR '':'' # s3" "\<forall>c\<in>set w1. json_space c" using skip_space_Cons_split [OF r(3)] by blast
  obtain w2 where w2: "s3 = w2 @ skip_space s3" "\<forall>c\<in>set w2. json_space c" using skip_space_split by blast
  obtain v where v: "skip_space s3 = v @ s4" "value_kept f v" using keepsD [OF f r(4)] by blast
  obtain w3 where w3: "s4 = w3 @ d # s5" "\<forall>c\<in>set w3. json_space c" using skip_space_Cons_split [OF r(5)] by blast
  have nd: "\<not> json_space d" "d \<noteq> CHR 0x22" "\<not> json_space CHR '':''" "\<not> json_space CHR 0x22"
    using d by (auto simp: json_space_def)
  let ?v = "w0 @ CHR 0x22 # b @ w1 @ CHR '':'' # w2 @ v @ w3 @ [d]"
  let ?c = "e @ CHR '':'' # compact False v @ [d]"
  have "s = ?v @ s5" using w0(1) b(1) w1(1) w2(1) v(1) w3(1) by simp
  moreover have "compact False (?v @ x) = CHR 0x22 # ?c @ compact False x" for x
    using w0(2) w1(2) w2(2) w3(2) b(2) v(2) nd by (simp add: compact_space string_kept_def value_kept_def)
  moreover have "\<exists>t1 t2 t3. skip_space (CHR 0x22 # ?c @ t) = CHR 0x22 # t1 \<and> scan_string t1 = Some t2
         \<and> skip_space t2 = CHR '':'' # t3 \<and> f (skip_space t3) = Some (d # t) \<and> skip_space (d # t) = d # t" for t
    using b(2) v(2) nd follow_delim [of d t] d
    by (auto simp: string_kept_def value_kept_def skip_space_kept [OF v(2)])
  ultimately show ?thesis by blast
qed

lemma object_members_kept:
  assumes f: "keeps f"
  shows "object_members n f s = Some (ms, r) \<Longrightarrow>
    \<exists>v c. s = v @ r \<and> (\<forall>x. compact False (v @ x) = CHR 0x22 # c @ compact False x)
      \<and> (\<forall>t. \<exists>ms'. object_members n f (CHR 0x22 # c @ t) = Some (ms', t))"
proof (induction n arbitrary: s ms)
  case (Suc n)
  from Suc.prems obtain s1 s2 s3 s4 d s5 where
    r: "skip_space s = CHR 0x22 # s1" "scan_string s1 = Some s2" "skip_space s2 = CHR '':'' # s3"
      "f (skip_space s3) = Some s4" "skip_space s4 = d # s5"
    and d: "d = CHR '','' \<and> (\<exists>ms'. object_members n f s5 = Some (ms', r)) \<or> d = CHR 0x7D \<and> r = s5"
    by (elim object_members_SucE) blast+
  obtain v c where v: "s = v @ s5" "\<forall>x. compact False (v @ x) = CHR 0x22 # c @ compact False x"
    and again: "\<forall>t. \<exists>t1 t2 t3. skip_space (CHR 0x22 # c @ t) = CHR 0x22 # t1 \<and> scan_string t1 = Some t2
         \<and> skip_space t2 = CHR '':'' # t3 \<and> f (skip_space t3) = Some (d # t) \<and> skip_space (d # t) = d # t"
    using round_kept [OF f r] d by auto
  from d show ?case
  proof
    assume "d = CHR 0x7D \<and> r = s5"
    moreover from this have "\<exists>ms'. object_members (Suc n) f (CHR 0x22 # c @ t) = Some (ms', t)" for t
      using again [rule_format, of t] by (elim exE conjE) (simp del: scan_string.simps)
    ultimately show ?thesis using v by blast
  next
    assume c: "d = CHR '','' \<and> (\<exists>ms'. object_members n f s5 = Some (ms', r))"
    with Suc.IH obtain v' c' where v': "s5 = v' @ r" "\<forall>x. compact False (v' @ x) = CHR 0x22 # c' @ compact False x"
      "\<forall>t. \<exists>ms'. object_members n f (CHR 0x22 # c' @ t) = Some (ms', t)"
      by blast
    have "\<exists>ms'. object_members (Suc n) f (CHR 0x22 # (c @ CHR 0x22 # c') @ t) = Some (ms', t)" for t
      using again [rule_format, of "CHR 0x22 # c' @ t"] v'(3) [rule_format, of t] c
      by (elim exE conjE) (simp del: scan_string.simps)
    moreover have "compact False ((v @ v') @ x) = CHR 0x22 # (c @ CHR 0x22 # c') @ compact False x" for x
      using v(2) v'(2) by simp
    moreover have "s = (v @ v') @ r" using v(1) v'(1) by simp
    ultimately show ?thesis by blast
  qed
qed simp

lemma array_elements_kept:
  assumes f: "keeps f"
  shows "array_elements n f s = Some r \<Longrightarrow>
    \<exists>v c c0. s = v @ r \<and> (\<forall>x. compact False (v @ x) = c0 # c @ compact False x) \<and> \<not> json_space c0
      \<and> (\<forall>t. f (c0 # c @ t) \<noteq> None)
      \<and> (\<forall>t. array_elements n f (c0 # c @ t) = Some t)"
proof (induction n arbitrary: s)
  case (Suc n)
  from Suc.prems obtain s1 d s2 where r: "f (skip_space s) = Some s1" "skip_space s1 = d # s2"
    and d: "d = CHR '','' \<and> array_elements n f s2 = Some r \<or> d = CHR '']'' \<and> s2 = r"
    by (auto split: option.splits list.splits if_splits)
  obtain w where w: "s = w @ skip_space s" "\<forall>c\<in>set w. json_space c" using skip_space_split by blast
  obtain v where v: "skip_space s = v @ s1" "value_kept f v" using keepsD [OF f r(1)] by blast
  obtain w1 where w1: "s1 = w1 @ d # s2" "\<forall>c\<in>set w1. json_space c" using skip_space_Cons_split [OF r(2)] by blast
  obtain c0 c where c: "compact False v = c0 # c" "\<not> json_space c0" using v(2) by (auto simp: value_kept_def)
  have nd: "\<not> json_space d" "d \<noteq> CHR 0x22" "d \<in> set [CHR '','', CHR 0x7D, CHR '']'']" using d by (auto simp: json_space_def)
  have comp: "compact False ((w @ v @ w1 @ [d]) @ x) = c0 # (c @ [d]) @ compact False x" for x
    using w(2) w1(2) v(2) nd c by (simp add: compact_space value_kept_def)
  have fv: "f (c0 # c @ d # t) = Some (d # t)" for t
    using v(2) c(1) follow_delim [OF nd(3), of t] by (simp add: value_kept_def)
  have s: "s = (w @ v @ w1 @ [d]) @ s2" using w(1) v(1) w1(1) by simp
  from d show ?case
  proof
    assume e: "d = CHR '']'' \<and> s2 = r"
    have "array_elements (Suc n) f (c0 # (c @ [d]) @ t) = Some t" "f (c0 # (c @ [d]) @ t) \<noteq> None" for t
      using fv [of t] c(2) nd(1) e by simp_all
    with comp s c(2) e show ?thesis by blast
  next
    assume e: "d = CHR '','' \<and> array_elements n f s2 = Some r"
    with Suc.IH obtain v' c' c0' where v': "s2 = v' @ r" "\<forall>x. compact False (v' @ x) = c0' # c' @ compact False x"
      "\<forall>t. array_elements n f (c0' # c' @ t) = Some t"
      by blast
    have "array_elements (Suc n) f (c0 # (c @ d # c0' # c') @ t) = Some t" "f (c0 # (c @ d # c0' # c') @ t) \<noteq> None" for t
      using fv [of "c0' # c' @ t"] c(2) nd(1) e v'(3) by simp_all
    moreover have "compact False ((w @ v @ w1 @ [d] @ v') @ x) = c0 # (c @ d # c0' # c') @ compact False x" for x
      using comp [of "v' @ x"] v'(2) by simp
    moreover have "s = (w @ v @ w1 @ [d] @ v') @ r" using s v'(1) by simp
    ultimately show ?thesis using c(2) by blast
  qed
qed simp

lemma value_keptI:
  assumes "\<And>x. compact False (v @ x) = c # d @ compact False x" "\<not> json_space c"
    and "\<And>t. f (c # d @ t) = Some t"
  shows "value_kept f v"
  using assms(1) [of "[]"] assms by (simp add: value_kept_def)

lemma scan_object_kept:
  assumes f: "keeps f" "eats f" and s: "scan_object f s = Some (ms, r)"
  shows "\<exists>v c. s = v @ r \<and> (\<forall>x. compact False (v @ x) = c @ compact False x)
    \<and> (\<forall>t. \<exists>ms'. scan_object f (c @ t) = Some (ms', t))"
proof (cases "skip_space s")
  case (Cons b bs)
  obtain w where w: "s = w @ b # bs" "\<forall>c\<in>set w. json_space c" using skip_space_Cons_split [OF Cons] by blast
  show ?thesis
  proof (cases "b = CHR 0x7D")
    case True
    with s Cons have "bs = r" by (simp add: scan_object_def)
    moreover have "compact False ((w @ [CHR 0x7D]) @ x) = [CHR 0x7D] @ compact False x" for x
      using w(2) by (simp add: compact_space json_space_def)
    moreover have "scan_object f ([CHR 0x7D] @ t) = Some ([], t)" for t
      by (simp add: scan_object_def json_space_def)
    moreover have "s = (w @ [CHR 0x7D]) @ bs" using w(1) True by simp
    ultimately show ?thesis by blast
  next
    case False
    with s Cons have "object_members (length s) f s = Some (ms, r)" by (simp add: scan_object_def)
    then obtain v c where v: "s = v @ r" "\<forall>x. compact False (v @ x) = CHR 0x22 # c @ compact False x"
      and again: "\<forall>t. \<exists>ms'. object_members (length s) f (CHR 0x22 # c @ t) = Some (ms', t)"
      using object_members_kept [OF f(1)] by blast
    have "\<exists>ms'. scan_object f ((CHR 0x22 # c) @ t) = Some (ms', t)" for t
    proof -
      obtain ms' where "object_members (length s) f (CHR 0x22 # c @ t) = Some (ms', t)" using again by blast
      from object_members_enough [OF f(2) this] show ?thesis by (auto simp: scan_object_def json_space_def)
    qed
    moreover have "compact False (v @ x) = (CHR 0x22 # c) @ compact False x" for x using v(2) by simp
    ultimately show ?thesis using v(1) by blast
  qed
qed (use s in \<open>simp add: scan_object_def\<close>)

lemma scan_array_kept:
  assumes f: "keeps f" "eats f" and nb: "\<forall>t. f (CHR '']'' # t) = None" and s: "scan_array f s = Some r"
  shows "\<exists>v c. s = v @ r \<and> (\<forall>x. compact False (v @ x) = c @ compact False x)
    \<and> (\<forall>t. scan_array f (c @ t) = Some t)"
proof (cases "skip_space s")
  case (Cons b bs)
  obtain w where w: "s = w @ b # bs" "\<forall>c\<in>set w. json_space c" using skip_space_Cons_split [OF Cons] by blast
  show ?thesis
  proof (cases "b = CHR '']''")
    case True
    with s Cons have "bs = r" by (simp add: scan_array_def)
    moreover have "compact False ((w @ [CHR '']'']) @ x) = [CHR '']''] @ compact False x" for x
      using w(2) by (simp add: compact_space json_space_def)
    moreover have "scan_array f ([CHR '']''] @ t) = Some t" for t
      by (simp add: scan_array_def json_space_def)
    moreover have "s = (w @ [CHR '']'']) @ bs" using w(1) True by simp
    ultimately show ?thesis by blast
  next
    case False
    with s Cons have "array_elements (length s) f s = Some r" by (simp add: scan_array_def)
    then obtain v c c0 where v: "s = v @ r" "\<forall>x. compact False (v @ x) = c0 # c @ compact False x" "\<not> json_space c0"
      "\<forall>t. f (c0 # c @ t) \<noteq> None" and again: "\<forall>t. array_elements (length s) f (c0 # c @ t) = Some t"
      using array_elements_kept [OF f(1)] by blast
    from v(4) nb have "c0 \<noteq> CHR '']''" by auto
    then have "scan_array f ((c0 # c) @ t) = Some t" for t
      using array_elements_enough [OF f(2) again [rule_format, of t]] v(3) by (simp add: scan_array_def)
    moreover have "compact False (v @ x) = (c0 # c) @ compact False x" for x using v(2) by simp
    ultimately show ?thesis using v(1) by blast
  qed
qed (use s in \<open>simp add: scan_array_def\<close>)

lemma scan_value_bracket: "scan_value d (CHR '']'' # t) = None"
  by (cases d) (simp_all add: scan_value_Cons scan_scalar_def is_digit_def code_def)

lemma scan_value_keeps: "keeps (scan_value d)"
proof (induction d)
  case 0
  then show ?case using scan_scalar_keeps by (simp add: keeps_def value_kept_def)
next
  case (Suc d)
  show ?case unfolding keeps_def
  proof (intro allI impI)
    fix s r
    assume scan: "scan_value (Suc d) s = Some r" and sk: "skip_space s = s"
    then obtain c cs where s: "s = c # cs" by (cases s) simp_all
    consider ms where "c = CHR 0x7B" "scan_object (scan_value d) cs = Some (ms, r)"
      | "c = CHR ''[''" "scan_array (scan_value d) cs = Some r"
      | "scan_scalar s = Some r"
      using scan s by (auto simp: scan_value_Cons split: if_splits)
    then show "\<exists>v. s = v @ r \<and> value_kept (scan_value (Suc d)) v"
    proof cases
      case 1
      obtain v e where v: "cs = v @ r" "\<forall>x. compact False (v @ x) = e @ compact False x"
        "\<forall>t. \<exists>ms'. scan_object (scan_value d) (e @ t) = Some (ms', t)"
        using scan_object_kept [OF Suc.IH scan_value_eats 1(2)] by blast
      have "value_kept (scan_value (Suc d)) (CHR 0x7B # v)"
      proof (rule value_keptI)
        show "scan_value (Suc d) (CHR 0x7B # e @ t) = Some t" for t
          using v(3) [rule_format, of t] by (auto simp: scan_value_Cons)
      qed (use v(2) in \<open>simp_all add: json_space_def\<close>)
      with v(1) s 1(1) show ?thesis by (intro exI [of _ "CHR 0x7B # v"]) simp
    next
      case 2
      obtain v e where v: "cs = v @ r" "\<forall>x. compact False (v @ x) = e @ compact False x"
        "\<forall>t. scan_array (scan_value d) (e @ t) = Some t"
        using scan_array_kept [OF Suc.IH scan_value_eats _ 2(2)] scan_value_bracket by blast
      have "value_kept (scan_value (Suc d)) (CHR ''['' # v)"
      proof (rule value_keptI)
        show "scan_value (Suc d) (CHR ''['' # e @ t) = Some t" for t
          using v(3) by (simp add: scan_value_Cons)
      qed (use v(2) in \<open>simp_all add: json_space_def\<close>)
      with v(1) s 2(1) show ?thesis by (intro exI [of _ "CHR ''['' # v"]) simp
    next
      case 3
      with sk obtain v where v: "s = v @ r" "value_kept scan_scalar v" using scan_scalar_keeps by (auto simp: keeps_def)
      have "scan_value (Suc d) t = Some u" if "scan_scalar t = Some u" for t u
        using that scan_value_mono [of 0 "Suc d" t u] by simp
      with v show ?thesis by (auto simp: value_kept_def)
    qed
  qed
qed

end
