(* ===== verification/Json_Members.thy ===== *)
theory Json_Members
  imports Json_Compact
begin

text \<open>
  What decoding an object and printing a map give: a scanning function decides by the text it consumes,
  so that the raw text of a member is a value again, and the members of a printed map are its entries.
\<close>

subsection \<open>Locality\<close>

text \<open>
  A scanning function decides by the text it consumes: the same text is accepted before any
  continuation that cannot extend a number, with the same members.
\<close>

definition scan_local :: "(string \<Rightarrow> string option) \<Rightarrow> bool" where
  "scan_local f \<longleftrightarrow> (\<forall>s r. f s = Some r \<longrightarrow> (\<exists>v. s = v @ r \<and> v \<noteq> [] \<and> (\<forall>t. follow t \<longrightarrow> f (v @ t) = Some t)))"

lemma scan_localD:
  "scan_local f \<Longrightarrow> f s = Some r \<Longrightarrow> \<exists>v. s = v @ r \<and> v \<noteq> [] \<and> (\<forall>t. follow t \<longrightarrow> f (v @ t) = Some t)"
  by (simp add: scan_local_def)

lemma consumed_append [simp]: "consumed (v @ r) r = v"
  by (simp add: consumed_def)

lemma scan_string_local: "scan_string s = Some r \<Longrightarrow> \<exists>b. s = b @ r \<and> (\<forall>t. scan_string (b @ t) = Some t)"
proof (induction s rule: length_induct)
  case (1 s)
  then obtain c cs where s: "s = c # cs" by (cases s) auto
  have IH: "\<exists>b. t = b @ r \<and> (\<forall>x. scan_string (b @ x) = Some x)" if "scan_string t = Some r" "length t \<le> length cs" for t
    using 1(1) that s by auto
  have step: ?case if "cs = p @ t" "scan_string t = Some r" "\<forall>x. scan_string ((c # p) @ x) = scan_string x" for p t
  proof -
    from IH [of t] that(1,2) obtain b where "t = b @ r" "\<forall>x. scan_string (b @ x) = Some x" by auto
    with that s have "s = ((c # p) @ b) @ r" "\<forall>x. scan_string (((c # p) @ b) @ x) = Some x" by simp_all
    then show ?thesis by blast
  qed
  show ?case
  proof (cases "c = CHR 0x22")
    case True
    with 1(2) s show ?thesis by (intro exI [of _ "[CHR 0x22]"]) simp
  next
    case quote: False
    show ?thesis
    proof (cases "c = CHR 0x5C")
      case True
      with 1(2) s obtain e es where cs: "cs = e # es" by (cases cs) auto
      show ?thesis
      proof (cases "escape_char e")
        case esc: True
        with 1(2) s cs True show ?thesis by (intro step [of "[e]" es]) simp_all
      next
        case False
        with 1(2) s cs True obtain h1 h2 h3 h4 rest where e: "e = CHR ''u''" "es = h1 # h2 # h3 # h4 # rest"
          and h: "is_hex h1" "is_hex h2" "is_hex h3" "is_hex h4" and sc: "scan_string rest = Some r"
          by (auto split: if_splits list.splits)
        show ?thesis
          by (rule step [of "[e, h1, h2, h3, h4]" rest]) (use e h sc cs True in \<open>simp_all del: scan_string.simps\<close>)
      qed
    next
      case False
      with 1(2) s quote show ?thesis by (intro step [of "[]" cs]) (simp_all split: if_splits)
    qed
  qed
qed

lemma scan_scalar_local: "scan_local scan_scalar"
  unfolding scan_local_def
proof (intro allI impI)
  fix s r
  assume scan: "scan_scalar s = Some r"
  then obtain c cs where s: "s = c # cs" by (cases s) (auto simp: scan_scalar_def)
  consider "c = CHR 0x22" "scan_string cs = Some r" | "c = CHR ''-'' \<or> is_digit c" "scan_number s = Some r"
    | w where "w \<in> set [''true'', ''false'', ''null'']" "scan_word w s = Some r"
    using scan s by (auto simp: scan_scalar_def split: if_splits)
  then show "\<exists>v. s = v @ r \<and> v \<noteq> [] \<and> (\<forall>t. follow t \<longrightarrow> scan_scalar (v @ t) = Some t)"
  proof cases
    case 1
    then obtain b where "cs = b @ r" "\<forall>t. scan_string (b @ t) = Some t" using scan_string_local by blast
    with s 1(1) show ?thesis by (intro exI [of _ "CHR 0x22 # b"]) (simp add: scan_scalar_def)
  next
    case 2
    then obtain v where v: "s = v @ r" "v \<noteq> []" "\<forall>t. follow t \<longrightarrow> scan_number (v @ t) = Some t"
      using scan_number_kept by blast
    obtain v' where v': "v = c # v'" using v(1,2) s by (cases v) auto
    with v 2(1) scan_scalar_number [OF v'] show ?thesis by blast
  next
    case 3
    from scan_word_kept [OF 3(2)] have w: "s = w @ r" "\<forall>t. scan_word w (w @ t) = Some t" by auto
    have "scan_scalar (w @ t) = scan_word w (w @ t)" for t
      using 3(1) by (auto simp: scan_scalar_def is_digit_def code_def)
    with w 3(1) show ?thesis by (intro exI [of _ w]) auto
  qed
qed

lemma skip_space_append: "skip_space s = c # cs \<Longrightarrow> \<exists>w. s = w @ c # cs \<and> (\<forall>x. skip_space (w @ c # x) = c # x)"
  using skip_space_Cons_split [of s c cs] skip_space_hd [of s c cs]
  by (auto simp: skip_space_def dropWhile_append)

lemma follow_space:
  assumes "\<forall>x. skip_space (w @ d # x) = d # x" "d \<in> set [CHR '','', CHR 0x7D, CHR '']'']"
  shows "follow (w @ d # x)"
proof (cases w)
  case Nil
  then show ?thesis using follow_delim [OF assms(2)] by simp
next
  case (Cons a w')
  have "json_space a"
  proof (rule ccontr)
    assume "\<not> json_space a"
    then have "skip_space (w @ [d]) = w @ [d]" using Cons by simp
    with assms(1) Cons show False by simp
  qed
  then show ?thesis using Cons by (auto simp: follow_def json_space_def is_digit_def code_def)
qed

lemma object_members_local:
  assumes f: "scan_local f"
  shows "object_members n f s = Some (ms, r) \<Longrightarrow>
    \<exists>v. s = v @ r \<and> (\<forall>t. object_members n f (v @ t) = Some (ms, t))"
proof (induction n arbitrary: s ms)
  case (Suc n)
  from Suc.prems obtain s1 s2 s3 s4 d s5 where
    r: "skip_space s = CHR 0x22 # s1" "scan_string s1 = Some s2" "skip_space s2 = CHR '':'' # s3"
      "f (skip_space s3) = Some s4" "skip_space s4 = d # s5"
    and d: "d = CHR '','' \<and> (\<exists>ms'. object_members n f s5 = Some (ms', r)
           \<and> ms = (unquote_body (butlast (consumed s1 s2)), consumed (skip_space s3) s4) # ms')
         \<or> d = CHR 0x7D \<and> r = s5 \<and> ms = [(unquote_body (butlast (consumed s1 s2)), consumed (skip_space s3) s4)]"
    by (elim object_members_SucE)
  obtain w0 where w0: "s = w0 @ CHR 0x22 # s1" "\<forall>x. skip_space (w0 @ CHR 0x22 # x) = CHR 0x22 # x"
    using skip_space_append [OF r(1)] by blast
  obtain b where b: "s1 = b @ s2" "\<forall>t. scan_string (b @ t) = Some t" using scan_string_local [OF r(2)] by blast
  obtain w1 where w1: "s2 = w1 @ CHR '':'' # s3" "\<forall>x. skip_space (w1 @ CHR '':'' # x) = CHR '':'' # x"
    using skip_space_append [OF r(3)] by blast
  obtain v where v: "skip_space s3 = v @ s4" "v \<noteq> []" "\<forall>t. follow t \<longrightarrow> f (v @ t) = Some t"
    using scan_localD [OF f r(4)] by blast
  obtain c v' where c: "v = c # v'" using v(2) by (cases v) auto
  obtain w2 where w2: "s3 = w2 @ v @ s4" "\<forall>x. skip_space (w2 @ v @ x) = v @ x"
    using skip_space_append [of s3 c "v' @ s4"] v(1) c by auto
  obtain w3 where w3: "s4 = w3 @ d # s5" "\<forall>x. skip_space (w3 @ d # x) = d # x"
    using skip_space_append [OF r(5)] by blast
  have fol: "follow (w3 @ d # x)" for x using follow_space [OF w3(2)] d by auto
  let ?v = "w0 @ CHR 0x22 # b @ w1 @ CHR '':'' # w2 @ v @ w3 @ [d]"
  have s: "s = ?v @ s5" using w0(1) b(1) w1(1) w2(1) w3(1) by simp
  have go: "object_members (Suc n) f (?v @ t) =
      (if d = CHR '','' then map_option (apfst (Cons (unquote_body (butlast b), v))) (object_members n f t)
       else if d = CHR 0x7D then Some ([(unquote_body (butlast b), v)], t) else None)" for t
  proof -
    have cons: "consumed (b @ w1 @ CHR '':'' # w2 @ v @ w3 @ d # t) (w1 @ CHR '':'' # w2 @ v @ w3 @ d # t) = b"
      "consumed (v @ w3 @ d # t) (w3 @ d # t) = v"
      using consumed_append [of b] consumed_append [of v] by blast+
    show ?thesis using w0(2) b(2) w1(2) w2(2) v(3) fol w3(2) by (simp add: Let_def cons)
  qed
  have eq: "consumed s1 s2 = b" "consumed (skip_space s3) s4 = v" using b(1) v(1) by simp_all
  from d show ?case
  proof
    assume "d = CHR 0x7D \<and> r = s5 \<and> ms = [(unquote_body (butlast (consumed s1 s2)), consumed (skip_space s3) s4)]"
    with go s eq show ?thesis by (intro exI [of _ ?v]) simp
  next
    assume "d = CHR '','' \<and> (\<exists>ms'. object_members n f s5 = Some (ms', r)
           \<and> ms = (unquote_body (butlast (consumed s1 s2)), consumed (skip_space s3) s4) # ms')"
    then obtain ms' where ms': "d = CHR '',''" "object_members n f s5 = Some (ms', r)" "ms = (unquote_body (butlast b), v) # ms'"
      using eq by auto
    with Suc.IH obtain v' where v': "s5 = v' @ r" "\<forall>t. object_members n f (v' @ t) = Some (ms', t)" by blast
    have "object_members (Suc n) f ((?v @ v') @ t) = Some (ms, t)" for t
      using go [of "v' @ t"] v'(2) ms'(1,3) by simp
    moreover have "s = (?v @ v') @ r" using s v'(1) by simp
    ultimately show ?thesis by blast
  qed
qed simp

lemma array_elements_local:
  assumes f: "scan_local f"
  shows "array_elements n f s = Some r \<Longrightarrow> \<exists>v. s = v @ r \<and> (\<forall>t. array_elements n f (v @ t) = Some t)"
proof (induction n arbitrary: s)
  case (Suc n)
  from Suc.prems obtain s1 d s2 where r: "f (skip_space s) = Some s1" "skip_space s1 = d # s2"
    and d: "d = CHR '','' \<and> array_elements n f s2 = Some r \<or> d = CHR '']'' \<and> s2 = r"
    by (auto split: option.splits list.splits if_splits)
  obtain v where v: "skip_space s = v @ s1" "v \<noteq> []" "\<forall>t. follow t \<longrightarrow> f (v @ t) = Some t"
    using scan_localD [OF f r(1)] by blast
  obtain c v' where c: "v = c # v'" using v(2) by (cases v) auto
  obtain w where w: "s = w @ v @ s1" "\<forall>x. skip_space (w @ v @ x) = v @ x"
    using skip_space_append [of s c "v' @ s1"] v(1) c by auto
  obtain w1 where w1: "s1 = w1 @ d # s2" "\<forall>x. skip_space (w1 @ d # x) = d # x"
    using skip_space_append [OF r(2)] by blast
  have fol: "follow (w1 @ d # x)" for x using follow_space [OF w1(2)] d by auto
  let ?v = "w @ v @ w1 @ [d]"
  have s: "s = ?v @ s2" using w(1) w1(1) by simp
  have go: "array_elements (Suc n) f (?v @ t) =
      (if d = CHR '','' then array_elements n f t else if d = CHR '']'' then Some t else None)" for t
    using w(2) v(3) fol w1(2) by simp
  from d show ?case
  proof
    assume "d = CHR '']'' \<and> s2 = r"
    with go s show ?thesis by (intro exI [of _ ?v]) simp
  next
    assume e: "d = CHR '','' \<and> array_elements n f s2 = Some r"
    with Suc.IH obtain v' where v': "s2 = v' @ r" "\<forall>t. array_elements n f (v' @ t) = Some t" by blast
    have "array_elements (Suc n) f ((?v @ v') @ t) = Some t" for t
      using go [of "v' @ t"] v'(2) e by simp
    moreover have "s = (?v @ v') @ r" using s v'(1) by simp
    ultimately show ?thesis by blast
  qed
qed simp

lemma scan_object_local:
  assumes f: "scan_local f" "eats f" and s: "scan_object f s = Some (ms, r)"
  shows "\<exists>v. s = v @ r \<and> (\<forall>t. scan_object f (v @ t) = Some (ms, t))"
proof (cases "skip_space s")
  case (Cons b bs)
  obtain w where w: "s = w @ b # bs" "\<forall>x. skip_space (w @ b # x) = b # x" using skip_space_append [OF Cons] by blast
  show ?thesis
  proof (cases "b = CHR 0x7D")
    case True
    with s Cons w show ?thesis by (intro exI [of _ "w @ [b]"]) (simp add: scan_object_def)
  next
    case False
    with s Cons have m: "object_members (length s) f s = Some (ms, r)" by (simp add: scan_object_def)
    then obtain v where v: "s = v @ r" and again: "\<forall>t. object_members (length s) f (v @ t) = Some (ms, t)"
      using object_members_local [OF f(1)] by blast
    have "strict_suffix r s" using s by (rule scan_object_suffix [OF f(2)])
    have "scan_object f (v @ t) = Some (ms, t)" for t
    proof -
      obtain b' bs' where b': "skip_space (v @ t) = b' # bs'" "b' \<noteq> CHR 0x7D"
        using again [rule_format, of t] by (cases "length s") (auto split: list.splits if_splits)
      then show ?thesis using object_members_enough [OF f(2) again [rule_format, of t]] by (simp add: scan_object_def)
    qed
    with v show ?thesis by blast
  qed
qed (use s in \<open>simp add: scan_object_def\<close>)

lemma scan_array_local:
  assumes f: "scan_local f" "eats f" and nb: "\<forall>t. f (CHR '']'' # t) = None" and s: "scan_array f s = Some r"
  shows "\<exists>v. s = v @ r \<and> (\<forall>t. scan_array f (v @ t) = Some t)"
proof (cases "skip_space s")
  case (Cons b bs)
  obtain w where w: "s = w @ b # bs" "\<forall>x. skip_space (w @ b # x) = b # x" using skip_space_append [OF Cons] by blast
  show ?thesis
  proof (cases "b = CHR '']''")
    case True
    with s Cons w show ?thesis by (intro exI [of _ "w @ [b]"]) (simp add: scan_array_def)
  next
    case False
    with s Cons have m: "array_elements (length s) f s = Some r" by (simp add: scan_array_def)
    then obtain v where v: "s = v @ r" and again: "\<forall>t. array_elements (length s) f (v @ t) = Some t"
      using array_elements_local [OF f(1)] by blast
    have "scan_array f (v @ t) = Some t" for t
    proof -
      have ne: "f (skip_space (v @ t)) \<noteq> None"
        using again [rule_format, of t] by (cases "length s") (auto split: option.splits)
      then obtain b' bs' where b': "skip_space (v @ t) = b' # bs'"
        using eatsD [OF f(2), of "[]"] by (cases "skip_space (v @ t)") (auto simp: strict_suffix_def)
      moreover have "b' \<noteq> CHR '']''" using nb ne b' by auto
      ultimately show ?thesis using array_elements_enough [OF f(2) again [rule_format, of t]] by (simp add: scan_array_def)
    qed
    with v show ?thesis by blast
  qed
qed (use s in \<open>simp add: scan_array_def\<close>)

lemma scan_value_local: "scan_local (scan_value d)"
proof (induction d)
  case 0
  then show ?case using scan_scalar_local by (simp add: scan_local_def)
next
  case (Suc d)
  show ?case unfolding scan_local_def
  proof (intro allI impI)
    fix s r
    assume scan: "scan_value (Suc d) s = Some r"
    then obtain c cs where s: "s = c # cs" by (cases s) simp_all
    consider ms where "c = CHR 0x7B" "scan_object (scan_value d) cs = Some (ms, r)"
      | "c = CHR ''[''" "scan_array (scan_value d) cs = Some r"
      | "scan_scalar s = Some r"
      using scan s by (auto simp: scan_value_Cons split: if_splits)
    then show "\<exists>v. s = v @ r \<and> v \<noteq> [] \<and> (\<forall>t. follow t \<longrightarrow> scan_value (Suc d) (v @ t) = Some t)"
    proof cases
      case 1
      obtain v where "cs = v @ r" "\<forall>t. scan_object (scan_value d) (v @ t) = Some (ms, t)"
        using scan_object_local [OF Suc.IH scan_value_eats 1(2)] by blast
      with 1(1) s show ?thesis by (intro exI [of _ "c # v"]) (simp add: scan_value_Cons)
    next
      case 2
      obtain v where "cs = v @ r" "\<forall>t. scan_array (scan_value d) (v @ t) = Some t"
        using scan_array_local [OF Suc.IH scan_value_eats _ 2(2)] scan_value_bracket by blast
      with 2(1) s show ?thesis by (intro exI [of _ "c # v"]) (simp add: scan_value_Cons)
    next
      case 3
      then obtain v where v: "s = v @ r" "v \<noteq> []" "\<forall>t. follow t \<longrightarrow> scan_scalar (v @ t) = Some t"
        using scan_localD [OF scan_scalar_local] by blast
      have "scan_value (Suc d) t = Some u" if "scan_scalar t = Some u" for t u
        using that scan_value_mono [of 0 "Suc d" t u] by simp
      with v show ?thesis by blast
    qed
  qed
qed

subsection \<open>Members\<close>

text \<open>The key of a member is well-formed, its raw text a value by itself.\<close>

definition member_ok :: "(string \<Rightarrow> string option) \<Rightarrow> string \<times> string \<Rightarrow> bool" where
  "member_ok f m \<longleftrightarrow> utf8_ok (fst m) \<and> value_kept f (snd m) \<and> f (snd m) = Some [] \<and> skip_space (snd m) = snd m"

lemma follow_Nil [simp]: "follow []"
  by (simp add: follow_def)

lemma object_members_ok:
  assumes f: "keeps f" "scan_local f"
  shows "object_members n f s = Some (ms, r) \<Longrightarrow> list_all (member_ok f) ms"
proof (induction n arbitrary: s ms)
  case (Suc n)
  from Suc.prems obtain s1 s2 s3 s4 d s5 where r: "f (skip_space s3) = Some s4"
    and d: "(\<exists>ms'. object_members n f s5 = Some (ms', r)
           \<and> ms = (unquote_body (butlast (consumed s1 s2)), consumed (skip_space s3) s4) # ms')
         \<or> ms = [(unquote_body (butlast (consumed s1 s2)), consumed (skip_space s3) s4)]"
    by (elim object_members_SucE) blast
  obtain v where v: "skip_space s3 = v @ s4" "value_kept f v" using keepsD [OF f(1) r] by blast
  obtain v' where v': "skip_space s3 = v' @ s4" "v' \<noteq> []" "\<forall>t. follow t \<longrightarrow> f (v' @ t) = Some t"
    using scan_localD [OF f(2) r] by blast
  have vv: "v' = v" using v(1) v'(1) by simp
  then obtain c w where c: "v = c # w" using v'(2) by (cases v) auto
  have "\<not> json_space c" using skip_space_hd [of s3 c "w @ s4"] v(1) c by simp
  then have "skip_space v = v" using c by simp
  moreover have "f v = Some []" using v'(3) vv by (metis append_Nil2 follow_Nil)
  ultimately have ok: "member_ok f (unquote_body (butlast (consumed s1 s2)), consumed (skip_space s3) s4)"
    using v by (simp add: member_ok_def unquote_body_utf8)
  from d show ?case using ok Suc.IH by auto
qed simp

lemma scan_object_ok:
  assumes "keeps f" "scan_local f" "scan_object f s = Some (ms, r)"
  shows "list_all (member_ok f) ms"
  using assms(3) object_members_ok [OF assms(1,2)]
  by (auto simp: scan_object_def split: list.splits if_splits)

lemma member_ok_mono:
  assumes "d \<le> d'" "member_ok (scan_value d) m"
  shows "member_ok (scan_value d') m"
  using assms(2) scan_value_mono [OF assms(1)] by (auto simp: member_ok_def value_kept_def)

text \<open>An accepted value is its own text; the members of an accepted object are values.\<close>

lemma maxNestingDepth_Suc: "maxNestingDepth = Suc 9999"
  by (simp add: maxNestingDepth_def)

lemmas scan_value_max = scan_value_Cons [of 9999, folded maxNestingDepth_Suc]

lemma scan_value_max_mono: "scan_value 9999 s = Some r \<Longrightarrow> scan_value maxNestingDepth s = Some r"
  using scan_value_limit [of 9999 s r] by (simp add: maxNestingDepth_Suc del: Suc_eq_numeral)

lemma whole_value_raw:
  assumes "whole_value s = Some raw"
  shows "scan_value maxNestingDepth raw = Some [] \<and> skip_space raw = raw \<and> raw \<noteq> []"
proof -
  obtain rest where sc: "scan_value maxNestingDepth (skip_space s) = Some rest" and raw: "raw = consumed (skip_space s) rest"
    using assms by (auto simp: whole_value_def Let_def split: option.splits if_splits)
  obtain v where v: "skip_space s = v @ rest" "v \<noteq> []" "\<forall>t. follow t \<longrightarrow> scan_value maxNestingDepth (v @ t) = Some t"
    using scan_localD [OF scan_value_local sc] by blast
  obtain c w where c: "v = c # w" using v(2) by (cases v) auto
  have "\<not> json_space c" using skip_space_hd [of s c "w @ rest"] v(1) c by simp
  moreover have "raw = v" using raw v(1) by simp
  ultimately show ?thesis using v(2) v(3) [rule_format, of "[]"] c by simp
qed

lemma raw_members_object:
  assumes "scan_value maxNestingDepth raw = Some []" "raw_kind raw = RawObject"
  shows "list_all (member_ok (scan_value 9999)) (raw_members raw)"
proof -
  obtain cs where raw: "raw = CHR 0x7B # cs"
    using assms(2) by (cases raw) (auto simp: raw_kind_def split: if_splits)
  then obtain ms where ms: "scan_object (scan_value 9999) cs = Some (ms, [])"
    using assms(1) by (auto simp: scan_value_max)
  have "scan_object (scan_value maxNestingDepth) cs = Some (ms, [])"
    by (rule scan_object_mono [OF _ ms]) (simp add: scan_value_max_mono)
  then have "raw_members raw = ms" by (simp add: raw_members_def raw)
  with scan_object_ok [OF scan_value_keeps scan_value_local ms] show ?thesis by simp
qed

subsection \<open>Plain texts\<close>

text \<open>Texts of characters that JSON does not escape print as they are.\<close>

lemma json_string_body_plain:
  "list_all (\<lambda>c. code c < 128 \<and> html_safe (code c)) s \<Longrightarrow> json_string_body s = s"
proof (induction s)
  case (Cons c s)
  then have "decode_rune (c # s) = Some (code c, 1)" by (simp add: decode_rune.simps)
  with Cons show ?case by (simp add: json_escape_ascii_def)
qed simp

lemma ascii_utf8: "list_all (\<lambda>c. code c < 128) s \<Longrightarrow> utf8_ok s"
proof (induction s)
  case (Cons c s)
  then have "decode_rune (c # s) = Some (code c, 1)" by (simp add: decode_rune.simps)
  with Cons show ?case by (simp add: utf8_ok.simps)
qed simp

subsection \<open>Printed objects\<close>

text \<open>
  The text of an object from its members as they stand; \<open>raw_ok f\<close> holds of a text that the scanning
  function accepts before any continuation that cannot extend a number.
\<close>

definition raw_entry :: "string \<times> string \<Rightarrow> string" where
  "raw_entry = (\<lambda>(k, raw). json_string k @ CHR '':'' # raw)"

definition object_text :: "(string \<times> string) list \<Rightarrow> string" where
  "object_text ms = CHR 0x7B # json_commas (map raw_entry ms) @ [CHR 0x7D]"

definition raw_ok :: "(string \<Rightarrow> string option) \<Rightarrow> string \<Rightarrow> bool" where
  "raw_ok f raw \<longleftrightarrow> (\<exists>c cs. raw = c # cs \<and> \<not> json_space c) \<and> (\<forall>t. follow t \<longrightarrow> f (raw @ t) = Some t)"

definition entry_ok :: "(string \<Rightarrow> string option) \<Rightarrow> string \<times> string \<Rightarrow> bool" where
  "entry_ok f m \<longleftrightarrow> utf8_ok (fst m) \<and> raw_ok f (snd m)"

lemma raw_ok_scans: "raw_ok f raw \<Longrightarrow> f raw = Some []"
  unfolding raw_ok_def by (metis append_Nil2 follow_Nil)

lemma raw_ok_local:
  assumes "scan_local f" "f raw = Some []" "skip_space raw = raw"
  shows "raw_ok f raw"
proof -
  obtain v where v: "raw = v @ []" "v \<noteq> []" "\<forall>t. follow t \<longrightarrow> f (v @ t) = Some t"
    using scan_localD [OF assms(1,2)] by blast
  then obtain c cs where "raw = c # cs" by (cases raw) auto
  with v assms(3) skip_space_hd [of raw c cs] show ?thesis by (auto simp: raw_ok_def)
qed

lemma raw_ok_mono: "d \<le> d' \<Longrightarrow> raw_ok (scan_value d) raw \<Longrightarrow> raw_ok (scan_value d') raw"
  using scan_value_mono [of d d'] by (auto simp: raw_ok_def)

lemma object_members_raw:
  assumes ok: "utf8_ok k" "raw_ok f raw" and d: "d = CHR '','' \<or> d = CHR 0x7D"
  shows "object_members (Suc n) f (raw_entry (k, raw) @ d # t) =
    (if d = CHR '','' then map_option (apfst (Cons (k, raw))) (object_members n f t) else Some ([(k, raw)], t))"
proof -
  let ?b = "json_string_body k @ [CHR 0x22]"
  have q: "\<not> json_space CHR 0x22" "\<not> json_space CHR '':''" "\<not> json_space d" using d by (auto simp: json_space_def)
  have sc: "scan_string (?b @ t) = Some t" for t using scan_json_string [of k t] by simp
  have cons: "consumed (?b @ x) x = ?b" "consumed (raw @ x) x = raw" for x by (rule consumed_append)+
  have "follow (d # t)" using d follow_delim [of d t] by auto
  then have fv: "f (raw @ d # t) = Some (d # t)" using ok(2) by (simp add: raw_ok_def)
  have sp: "skip_space (raw @ x) = raw @ x" for x using ok(2) by (auto simp: raw_ok_def)
  have s: "raw_entry (k, raw) @ d # t = CHR 0x22 # ?b @ CHR '':'' # raw @ d # t"
    by (simp add: raw_entry_def json_string_def)
  show ?thesis unfolding s object_members.simps
    using q sc [of "CHR '':'' # raw @ d # t"] fv d cons sp unquote_json_string [OF ok(1)]
    by (auto simp: Let_def simp del: scan_string.simps)
qed

lemma object_members_text:
  assumes "list_all (entry_ok f) ms" "ms \<noteq> []"
  shows "object_members (length ms) f (json_commas (map raw_entry ms) @ CHR 0x7D # t) = Some (ms, t)"
  using assms
proof (induction ms rule: induct_list012)
  case (2 x)
  then show ?case using object_members_raw [of "fst x" f "snd x" "CHR 0x7D" 0 t] by (simp add: entry_ok_def)
next
  case (3 x y zs)
  then show ?case
    using object_members_raw [of "fst x" f "snd x" "CHR '',''" "Suc (length zs)" "json_commas (map raw_entry (y # zs)) @ CHR 0x7D # t"]
    by (simp add: entry_ok_def)
qed simp

lemma scan_object_text:
  assumes "list_all (entry_ok f) ms" "eats f"
  shows "scan_object f (json_commas (map raw_entry ms) @ CHR 0x7D # t) = Some (ms, t)"
proof (cases ms)
  case Nil
  then show ?thesis by (simp add: scan_object_def json_space_def)
next
  case (Cons x ms')
  then obtain cs where cs: "json_commas (map raw_entry ms) = CHR 0x22 # cs"
    by (cases ms'; cases x) (simp_all add: raw_entry_def json_string_def)
  have "ms \<noteq> []" using Cons by simp
  from object_members_enough [OF assms(2) object_members_text [OF assms(1) this]]
  show ?thesis unfolding cs by (simp add: scan_object_def json_space_def)
qed

text \<open>A printed object is one value, one level deeper than its members, and shows its members.\<close>

lemma object_text_ok:
  assumes "list_all (entry_ok (scan_value d)) ms"
  shows "raw_ok (scan_value (Suc d)) (object_text ms)"
proof -
  have "\<not> json_space CHR 0x7B" by (simp add: json_space_def)
  then show ?thesis
    using scan_object_text [OF assms scan_value_eats]
    by (simp add: raw_ok_def object_text_def scan_value_Cons)
qed

lemma object_text_decodes:
  assumes "list_all (entry_ok (scan_value 9999)) ms"
  shows "scan_value maxNestingDepth (object_text ms @ t) = Some t"
    and "whole_value (object_text ms) = Some (object_text ms)"
    and "raw_kind (object_text ms) = RawObject" and "raw_members (object_text ms) = ms"
proof -
  note sc = scan_object_text [OF assms scan_value_eats]
  show scanned: "scan_value maxNestingDepth (object_text ms @ t) = Some t" for t
    using sc [of t] by (simp add: object_text_def scan_value_max)
  have "\<not> json_space CHR 0x7B" by (simp add: json_space_def)
  then show "whole_value (object_text ms) = Some (object_text ms)"
    using scanned [of "[]"] consumed_append [of "object_text ms" "[]"] by (simp add: whole_value_def object_text_def)
  show "raw_kind (object_text ms) = RawObject" by (simp add: raw_kind_def object_text_def)
  have "scan_object (scan_value maxNestingDepth) (json_commas (map raw_entry ms) @ [CHR 0x7D]) = Some (ms, [])"
    by (rule scan_object_mono [OF _ sc [of "[]"]]) (simp add: scan_value_max_mono)
  then show "raw_members (object_text ms) = ms" by (simp add: raw_members_def object_text_def)
qed

subsection \<open>Printed maps\<close>

definition compact_entry :: "string \<times> string \<Rightarrow> string \<times> string" where
  "compact_entry = (\<lambda>(k, raw). (k, compact False raw))"

lemma marshal_raw_map_eq: "marshal_raw_map m = object_text (map compact_entry m)"
  by (simp add: marshal_raw_map_def object_text_def raw_entry_def compact_entry_def case_prod_unfold comp_def)

lemma compact_entry_ok: "member_ok f m \<Longrightarrow> entry_ok f (compact_entry m)"
  by (auto simp: member_ok_def entry_ok_def compact_entry_def raw_ok_def value_kept_def split: prod.split)

text \<open>A printed map is one JSON object whose members are the entries with their values compacted.\<close>

lemma marshal_raw_map_decodes:
  assumes "list_all (member_ok (scan_value 9999)) m"
  shows "whole_value (marshal_raw_map m) = Some (marshal_raw_map m)"
    and "raw_kind (marshal_raw_map m) = RawObject"
    and "raw_members (marshal_raw_map m) = map compact_entry m"
proof -
  have "list_all (entry_ok (scan_value 9999)) (map compact_entry m)"
    using assms compact_entry_ok by (auto simp: list_all_iff)
  note d = object_text_decodes(2-4) [OF this, folded marshal_raw_map_eq]
  show "whole_value (marshal_raw_map m) = Some (marshal_raw_map m)"
    and "raw_kind (marshal_raw_map m) = RawObject"
    and "raw_members (marshal_raw_map m) = map compact_entry m" by (rule d)+
qed

lemma map_of_compact: "map_of (map compact_entry m) k = map_option (compact False) (map_of m k)"
  by (induction m) (auto simp: compact_entry_def)

lemma list_all_map_put: "list_all P m \<Longrightarrow> P (k, v) \<Longrightarrow> list_all P (map_put k v m)"
  by (induction m) auto

lemma list_all_map_put_all: "list_all P ms \<Longrightarrow> list_all P m \<Longrightarrow> list_all P (map_put_all ms m)"
proof (induction ms arbitrary: m)
  case (Cons kv ms)
  obtain k v where kv: "kv = (k, v)" by force
  with Cons.prems have "list_all P (map_put k v m)" "list_all P ms" by (simp_all add: list_all_map_put)
  with Cons.IH have "list_all P (map_put_all ms (map_put k v m))" by blast
  then show ?case by (simp add: map_put_all_def kv)
qed (simp add: map_put_all_def)

end
