(* ===== verification/HA_Examples.thy ===== *)
theory HA_Examples
  imports HA_Verifier Json_Members Exec_Examples
begin

text \<open>
  Concrete inputs for the witnesses of the Home Assistant properties: one lamp bound to \<open>light.lamp\<close>, a
  network that answers every request with a success and the lamp's state.
\<close>

text \<open>The JSON text of a member with a string value.\<close>

definition quoted :: "string \<Rightarrow> string" where
  "quoted s = CHR 0x22 # s @ [CHR 0x22]"

definition lamp_state :: string where
  "lamp_state = CHR 0x7B # quoted ''entity_id'' @ CHR '':'' # quoted ''light.lamp'' @ CHR '','' # quoted ''state''
     @ CHR '':'' # quoted ''on'' @ CHR '','' # quoted ''last_updated'' @ CHR '':'' # quoted ''2026-09-12T12:00:00Z''
     @ [CHR 0x7D]"

definition lamp_url :: url where
  "lamp_url = \<lparr>u_scheme = ''http'', u_host = ''ha'', u_path = [], u_rawQuery = [], u_fragment = [], u_rest = []\<rparr>"

definition lamp_env :: http_env where
  "lamp_env = \<lparr>he_parse = (\<lambda>_. Inr lamp_url), he_newRequest = (\<lambda>_ _. None),
     he_do = (\<lambda>_. Inr \<lparr>hs_statusCode = 200, hs_status = ''200 OK'', hs_body = lamp_state, hs_bodyErr = None\<rparr>)\<rparr>"

definition lamp_provider :: Provider where
  "lamp_provider = \<lparr>pv_translator = \<lparr>tr_bindings = [(''lamp'', ''light.lamp'')]\<rparr>,
     pv_client = \<lparr>rc_baseURL = lamp_url, rc_token = ''secret''\<rparr>, pv_http = ConfiguredClient, pv_now = TimeNow\<rparr>"

definition lamp_target :: ResolvedTarget where
  "lamp_target = \<lparr>tgt_provider = ProviderID, tgt_endpoint = ''light.lamp''\<rparr>"

definition lamp_attempt :: ExecutionAttempt where
  "lamp_attempt = \<lparr>att_id = ''t'', att_actionID = ''a'', att_startedAt = \<lparr>t_ns = 2, t_off = 0\<rparr>, att_recoveryOf = []\<rparr>"

definition lamp_clock :: gtime where
  "lamp_clock = \<lparr>t_ns = 2, t_off = 0\<rparr>"

definition lamp_texts :: json_texts where
  "lamp_texts = (\<lambda>_ _. ''error'')"

lemma lamp_values [simp]: "text_ok (att_id lamp_attempt)" "\<not> IsZero lamp_clock"
  by (simp_all add: lamp_attempt_def lamp_clock_def IsZero_def)

lemma lamp_entity: "splitEntityID ''light.lamp'' = Inr (''light'', ''lamp'')"
  by (simp add: splitEntityID_Inr_iff validSegment_iff segment_char_def code_def)

lemma lamp_dispatch_request:
  "dispatchRequest lamp_texts (pv_translator lamp_provider) example_action lamp_target =
    Inr \<lparr>sq_Domain = ''light'', sq_Service = ''turn_on'',
         sq_Body = marshal_raw_map [(''entity_id'', json_string ''light.lamp'')]\<rparr>"
proof -
  have "validSegment ''turn_on''" by (simp add: validSegment_iff segment_char_def code_def)
  then show ?thesis
    by (simp add: dispatchRequest_def entityFor_def lamp_provider_def lamp_target_def example_action_def lamp_entity
        serviceData_def input_members_def)
qed

lemma lamp_dispatch:
  "\<exists>rq r. HA_Dispatch lamp_texts lamp_env lamp_clock lamp_provider lamp_attempt example_action lamp_target = ([rq], r, None)
     \<and> rq_method rq = ''POST''"
proof -
  have "text_ok ProviderID" unfolding ProviderID_def by (rule visible_text_ok; simp add: visible_def code_def)
  then show ?thesis
    unfolding HA_Dispatch_def lamp_dispatch_request
    by (simp add: callService_def NewRequest_def lamp_env_def authorize_def Let_def readLimited_spec maxResponseSize_def
        NewReceipt_def HA_result_def NewDispatchResult_def dispatch_valid_iff lamp_attempt_def lamp_clock_def IsZero_def
        example_action_def lamp_state_def quoted_def)
qed

subsection \<open>The lamp's state decoded\<close>

lemma lamp_scan: "scan_object (scan_value 0) (tl lamp_state) = Some (
    [(''entity_id'', quoted ''light.lamp''), (''state'', quoted ''on''), (''last_updated'', quoted ''2026-09-12T12:00:00Z'')], [])"
  by code_simp

lemma lamp_members: "raw_members lamp_state =
    [(''entity_id'', quoted ''light.lamp''), (''state'', quoted ''on''), (''last_updated'', quoted ''2026-09-12T12:00:00Z'')]"
proof -
  have "scan_object (scan_value maxNestingDepth) (tl lamp_state) = Some (
    [(''entity_id'', quoted ''light.lamp''), (''state'', quoted ''on''), (''last_updated'', quoted ''2026-09-12T12:00:00Z'')], [])"
    by (rule scan_object_mono [OF _ lamp_scan]) (use scan_value_mono [of 0 maxNestingDepth] in auto)
  then show ?thesis by (simp add: raw_members_def)
qed

lemma lamp_whole: "whole_value lamp_state = Some lamp_state" "raw_kind lamp_state = RawObject"
proof -
  have "scan_value 1 lamp_state = Some []"
    using lamp_scan by (simp add: lamp_state_def scan_value_Cons [of 0, simplified])
  then have "scan_value maxNestingDepth lamp_state = Some []"
    by (rule scan_value_limit) (simp add: maxNestingDepth_def)
  moreover have "skip_space lamp_state = lamp_state" by (simp add: lamp_state_def json_space_def)
  ultimately show "whole_value lamp_state = Some lamp_state"
    using consumed_append [of lamp_state "[]"] by (simp add: whole_value_def)
  show "raw_kind lamp_state = RawObject" by (simp add: lamp_state_def raw_kind_def)
qed

lemma lamp_strings: "unquote (quoted s) = unquote_body s" "raw_kind (quoted s) = RawString"
  "butlast (tl (quoted s)) = s"
  by (simp_all add: unquote_def quoted_def raw_kind_def)

lemma lamp_unquoted: "unquote_body ''light.lamp'' = ''light.lamp''" "unquote_body ''on'' = ''on''"
  by code_simp+

lemma lamp_time: "ParseRFC3339Nano ''2026-09-12T12:00:00Z'' = Some \<lparr>t_ns = 63924811200000000000, t_off = 0\<rparr>"
  by code_simp

lemma wire_fields: "find_field wire_state_fields ''entity_id'' = Some (field ws_EntityID ws_EntityID_update store_string)"
  "find_field wire_state_fields ''last_updated'' = Some (field ws_LastUpdated ws_LastUpdated_update store_time)"
  by (simp_all add: find_field_def wire_state_fields_def)

lemma wire_field_state: "find_field wire_state_fields ''state'' = None"
proof -
  have "fold_name ''entity_id'' \<noteq> fold_name ''state'' \<and> fold_name ''last_updated'' \<noteq> fold_name ''state''" by code_simp
  then show ?thesis by (simp add: find_field_def wire_state_fields_def)
qed

lemma lamp_time_stored: "store_time (quoted ''2026-09-12T12:00:00Z'') t = Some \<lparr>t_ns = 63924811200000000000, t_off = 0\<rparr>"
  unfolding store_time_def lamp_strings by (simp add: lamp_time)

lemma quoted_stored: "store_string (quoted s) t = Some (unquote_body s)"
  unfolding store_string_def lamp_strings by simp

lemma lamp_wire: "Unmarshal (store_struct False wire_state_fields) lamp_state zero_wire_state =
    Some \<lparr>ws_EntityID = ''light.lamp'', ws_LastUpdated = \<lparr>t_ns = 63924811200000000000, t_off = 0\<rparr>\<rparr>"
  unfolding Unmarshal_def lamp_whole store_struct_def lamp_members
  by (simp add: lamp_whole lamp_members wire_fields wire_field_state field_def quoted_stored lamp_time_stored lamp_unquoted
      zero_wire_state_def)

subsection \<open>The lamp observed and verified\<close>

definition lamp_observation :: Observation where
  "lamp_observation = \<lparr>obs_id = HA_observationID example_rt ''light.lamp'' lamp_state, obs_source = ProviderID @ ''/rest'',
     obs_target = ''lamp'', obs_value = lamp_state, obs_evidence = [],
     obs_observedAt = \<lparr>t_ns = 63924811200000000000, t_off = 0\<rparr>, obs_recordedAt = lamp_clock\<rparr>"

lemma lamp_observation_ok: "text_ok (HA_observationID example_rt ''light.lamp'' lamp_state)" "text_ok (ProviderID @ ''/rest'')"
proof -
  show "text_ok (HA_observationID example_rt ''light.lamp'' lamp_state)"
    unfolding HA_observationID_def by (rule text_ok_hex) (simp_all add: visible_def code_def)
  show "text_ok (ProviderID @ ''/rest'')"
    unfolding ProviderID_def by (rule visible_text_ok; simp add: visible_def code_def)
qed

lemma lamp_length: "length lamp_state \<le> maxResponseSize"
  by (simp add: lamp_state_def quoted_def maxResponseSize_def)

lemma lamp_getState: "getState lamp_texts lamp_env (pv_client lamp_provider) ''light.lamp'' =
    ([authorize (pv_client lamp_provider) \<lparr>rq_method = ''GET'',
       rq_url = apiURL (pv_client lamp_provider) [''states'', ''light.lamp''], rq_headers = [], rq_body = []\<rparr>],
     Inr \<lparr>xs_EntityID = ''light.lamp'', xs_LastUpdated = \<lparr>t_ns = 63924811200000000000, t_off = 0\<rparr>, xs_Raw = lamp_state\<rparr>)"
  using lamp_length
  by (simp add: getState_def NewRequest_def lamp_env_def Let_def readLimited_spec success_status_def lamp_wire)

lemma lamp_observed: "\<exists>rq. HA_Observe example_rt lamp_texts lamp_env lamp_clock lamp_provider example_action lamp_target =
    ([rq], [lamp_observation], None)"
proof -
  have e: "entityFor (pv_translator lamp_provider) example_action lamp_target = Inr ''light.lamp''"
    by (simp add: entityFor_def lamp_provider_def lamp_target_def example_action_def lamp_entity)
  have "\<not> IsZero \<lparr>t_ns = 63924811200000000000, t_off = 0\<rparr>" by (simp add: IsZero_def)
  moreover have "NewObservation \<lparr>bs_ID = HA_observationID example_rt ''light.lamp'' lamp_state,
      bs_Source = ProviderID @ ''/rest'', bs_Target = act_target example_action, bs_Value = lamp_state, bs_Evidence = [],
      bs_ObservedAt = \<lparr>t_ns = 63924811200000000000, t_off = 0\<rparr>, bs_RecordedAt = lamp_clock\<rparr> = Inr lamp_observation"
    using lamp_observation_ok calculation
    by (simp add: NewObservation_Inr_iff observation_ok_def lamp_observation_def example_action_def)
  ultimately show ?thesis by (simp add: HA_Observe_def e lamp_getState)
qed

lemma state_fields: "find_field ha_state_fields ''state'' = Some (field hst_State hst_State_update store_string)"
  by (simp add: find_field_def ha_state_fields_def)

lemma state_fields_other: "find_field ha_state_fields ''entity_id'' = None" "find_field ha_state_fields ''last_updated'' = None"
proof -
  have "list_all (\<lambda>k. fold_name ''state'' \<noteq> fold_name k \<and> fold_name ''attributes'' \<noteq> fold_name k) [''entity_id'', ''last_updated'']"
    by code_simp
  then show "find_field ha_state_fields ''entity_id'' = None" "find_field ha_state_fields ''last_updated'' = None"
    by (simp_all add: find_field_def ha_state_fields_def)
qed

lemma lamp_decoded: "Unmarshal (store_struct False ha_state_fields) lamp_state zero_ha_state =
    Some \<lparr>hst_State = ''on'', hst_Attributes = None\<rparr>"
  unfolding Unmarshal_def lamp_whole store_struct_def lamp_members
  by (simp add: lamp_whole lamp_members state_fields state_fields_other field_def quoted_stored lamp_unquoted
      zero_ha_state_def)

definition lamp_verdict :: VerificationResult where
  "lamp_verdict = \<lparr>vr_status = VerificationVerified, vr_verifier = stateVerifierID,
     vr_checkedAt = \<lparr>t_ns = 63924811200000000001, t_off = 0\<rparr>, vr_observationIDs = [obs_id lamp_observation],
     vr_reason = ''fresh state matches desired effect''\<rparr>"

lemma lamp_verified: "StateVerifier_Verify lamp_texts \<lparr>sv_maxAge = 5\<rparr> example_action [lamp_observation]
    \<lparr>t_ns = 63924811200000000001, t_off = 0\<rparr> = (lamp_verdict, None)"
proof -
  have "text_ok stateVerifierID"
    unfolding stateVerifierID_def by (rule visible_text_ok; simp add: visible_def code_def)
  moreover have "text_ok ''fresh state matches desired effect''" by (rule visible_text_ok; simp add: visible_def code_def)
  ultimately have "StateVerifier_result VerificationVerified \<lparr>t_ns = 63924811200000000001, t_off = 0\<rparr> (Some lamp_observation)
      ''fresh state matches desired effect'' = (lamp_verdict, None)"
    using lamp_observation_ok
    by (simp add: StateVerifier_result_def NewVerificationResult_def verification_valid_def status_defs lamp_verdict_def
        lamp_observation_def IsZero_def)
  then show ?thesis
    by (simp add: StateVerifier_Verify_def TimeSub_def verify_fresh_def compareState_def Let_def
        lamp_observation_def [THEN arg_cong [where f = obs_target]] lamp_observation_def [THEN arg_cong [where f = obs_value]]
        lamp_observation_def [THEN arg_cong [where f = obs_observedAt]] lamp_decoded example_action_def)
qed

end
