(* ===== verification/HA_Properties.thy ===== *)
theory HA_Properties
  imports HA_Examples Execute_Properties
begin

text \<open>
  Properties of the Home Assistant provider: how a dispatch status follows from the HTTP exchange, what
  must agree before a request leaves, and that the request is the translated action.
\<close>

subsection \<open>Dispatch results\<close>

lemma text_ok_ProviderID [simp]: "text_ok ProviderID"
  unfolding ProviderID_def by (rule visible_text_ok; simp add: visible_def code_def)

definition HA_answer :: "AttemptID \<Rightarrow> DispatchResult \<Rightarrow> bool" where
  "HA_answer attemptID r \<longleftrightarrow> dispatch_ok r \<and> dr_provider r = ProviderID \<and> dr_attemptID r = attemptID"

text \<open>Results the facade builds are admissible and carry its name, the attempt and the status asked for.\<close>

lemma HA_result_plain:
  assumes "text_ok attemptID" "dispatch_valid status" "status \<noteq> DispatchAcknowledged"
    and "HA_result attemptID status None e = (r, err)"
  shows "HA_answer attemptID r \<and> dr_status r = status \<and> dispatch_Receipt r = None \<and> err = e"
proof (cases "NewDispatchResult \<lparr>ds_Provider = ProviderID, ds_AttemptID = attemptID, ds_Status = status,
                             ds_Receipt = None\<rparr>")
  case (Inl x)
  with assms show ?thesis by (simp add: NewDispatchResult_def)
next
  case (Inr x)
  with assms(4) have "r = x" "err = e" by (simp_all add: HA_result_def)
  with Inr show ?thesis by (simp add: NewDispatchResult_Inr_iff HA_answer_def)
qed

lemma HA_result_receipt:
  assumes "text_ok attemptID" "rc_provider receipt = ProviderID" "rc_attemptID receipt = attemptID"
    and "HA_result attemptID DispatchAcknowledged (Some receipt) e = (r, err)"
  shows "HA_answer attemptID r \<and> dr_status r = DispatchAcknowledged \<and> dispatch_Receipt r = Some receipt \<and> err = e"
proof (cases "NewDispatchResult \<lparr>ds_Provider = ProviderID, ds_AttemptID = attemptID,
                             ds_Status = DispatchAcknowledged, ds_Receipt = Some receipt\<rparr>")
  case (Inl x)
  with assms show ?thesis by (simp add: NewDispatchResult_def dispatch_valid_iff Let_def)
next
  case (Inr x)
  with assms(4) have "r = x" "err = e" by (simp_all add: HA_result_def)
  with Inr show ?thesis by (simp add: NewDispatchResult_Inr_iff HA_answer_def)
qed

text \<open>The three ways a dispatch goes: refused before any request, refused by the HTTP library, exchanged.\<close>

definition dispatch_target_ok :: "Provider \<Rightarrow> ExecutionAttempt \<Rightarrow> Action \<Rightarrow> ResolvedTarget \<Rightarrow> bool" where
  "dispatch_target_ok p attempt action target \<longleftrightarrow>
     att_actionID attempt = act_id action \<and> tgt_provider target = ProviderID
     \<and> map_of (tr_bindings (pv_translator p)) (act_target action) = Some (tgt_endpoint target)
     \<and> entity_ok (tgt_endpoint target) \<and> validSegment (act_name action)"

lemma dispatchRequest_Inr:
  assumes "dispatchRequest jt t action target = Inr request"
  shows "tgt_provider target = ProviderID"
    "map_of (tr_bindings t) (act_target action) = Some (tgt_endpoint target)"
    "entity_ok (tgt_endpoint target)" "validSegment (act_name action)"
    "serviceData jt (act_input action) (tgt_endpoint target) = Inr (sq_Body request)"
    "sq_Service request = act_name action"
    "\<exists>ob. tgt_endpoint target = sq_Domain request @ CHR ''.'' # ob" "validSegment (sq_Domain request)"
proof -
  from assms obtain e where e: "entityFor t action target = Inr e" and seg: "validSegment (act_name action)"
    and body: "serviceData jt (act_input action) e = Inr (sq_Body request)"
    and req: "sq_Service request = act_name action"
      "sq_Domain request = (case splitEntityID e of Inl _ \<Rightarrow> [] | Inr (d, _) \<Rightarrow> d)"
    by (auto simp: dispatchRequest_def Let_def split: if_splits)
  from e have ent: "tgt_provider target = ProviderID" "tgt_endpoint target = e" "entity_ok e"
    "map_of (tr_bindings t) (act_target action) = Some e"
    by (auto simp: entityFor_Inr_iff)
  then obtain d ob where split: "splitEntityID e = Inr (d, ob)" using splitEntityID_Inr_ok by fastforce
  have "sq_Domain request = d" unfolding req(2) split by simp
  moreover from split have "e = d @ CHR ''.'' # ob" "validSegment d" by (simp_all add: splitEntityID_Inr_iff)
  ultimately show "tgt_provider target = ProviderID"
    "map_of (tr_bindings t) (act_target action) = Some (tgt_endpoint target)"
    "entity_ok (tgt_endpoint target)" "validSegment (act_name action)"
    "serviceData jt (act_input action) (tgt_endpoint target) = Inr (sq_Body request)"
    "sq_Service request = act_name action"
    "\<exists>ob. tgt_endpoint target = sq_Domain request @ CHR ''.'' # ob" "validSegment (sq_Domain request)"
    using ent seg body req by auto
qed

lemma HA_Dispatch_cases:
  assumes "HA_Dispatch jt env now p attempt action target = (rqs, r, err)"
    and "text_ok (att_id attempt)" "\<not> IsZero now"
  obtains
    (refused) "HA_answer (att_id attempt) r" "rqs = []" "dr_status r = DispatchNotDispatched" "err \<noteq> None" "dispatch_Receipt r = None"
  | (unsent) request where "HA_answer (att_id attempt) r" "dispatchRequest jt (pv_translator p) action target = Inr request"
      "rqs = []" "dr_status r = DispatchUnknown" "err \<noteq> None" "dispatch_Receipt r = None"
      "he_newRequest env ''POST'' (apiURL (pv_client p) [''services'', sq_Domain request, sq_Service request]) = err"
  | (lost) request rq e where "HA_answer (att_id attempt) r" "att_actionID attempt = act_id action"
      "dispatchRequest jt (pv_translator p) action target = Inr request"
      "callService env (pv_client p) request = ([rq], zero_serviceResponse, Some e)"
      "rqs = [rq]" "he_do env rq = Inl e" "dr_status r = DispatchUnknown" "err = Some e"
      "dispatch_Receipt r = None"
  | (answered) request rq resp where "HA_answer (att_id attempt) r" "att_actionID attempt = act_id action"
      "dispatchRequest jt (pv_translator p) action target = Inr request"
      "rqs = [rq]" "he_do env rq = Inr resp"
      "rq_method rq = ''POST'' \<and> rq_url rq = apiURL (pv_client p) [''services'', sq_Domain request, sq_Service request]
         \<and> rq_body rq = sq_Body request
         \<and> rq_headers rq = [(''Authorization'', ''Bearer '' @ rc_token (pv_client p)), (''Content-Type'', ''application/json'')]"
      "if success_status (hs_statusCode resp)
       then dr_status r = DispatchAcknowledged
         \<and> (\<exists>rc. dispatch_Receipt r = Some rc \<and> rc_receivedAt rc = now
                \<and> (rc_evidence rc, err) = readLimited (hs_body resp) (hs_bodyErr resp))
       else dr_status r = DispatchDispatched \<and> err \<noteq> None \<and> error_is err HA_ErrUnexpectedStatus
         \<and> dispatch_Receipt r = None"
proof (cases "att_actionID attempt = act_id action")
  case False
  with assms refused show thesis
    by (auto simp: HA_Dispatch_def dest!: HA_result_plain [rotated 3] simp: dispatch_valid_iff status_defs)
next
  case matched: True
  show thesis
  proof (cases "dispatchRequest jt (pv_translator p) action target")
    case (Inl x)
    with matched assms refused show thesis
      by (auto simp: HA_Dispatch_def dest!: HA_result_plain [rotated 3] simp: dispatch_valid_iff status_defs)
  next
    case (Inr request)
    obtain rqs' resp e where call: "callService env (pv_client p) request = (rqs', resp, e)"
      using prod_cases3 by blast
    from callService_requests [OF call] consider
        "rqs' = []" "resp = zero_serviceResponse" "e \<noteq> None"
          "he_newRequest env ''POST'' (apiURL (pv_client p) [''services'', sq_Domain request, sq_Service request]) = e"
      | rq e' where "rqs' = [rq]" "he_do env rq = Inl e'" "resp = zero_serviceResponse" "e = Some e'"
      | rq hr where "rqs' = [rq]" "he_do env rq = Inr hr" "rq_method rq = ''POST''"
          "rq_url rq = apiURL (pv_client p) [''services'', sq_Domain request, sq_Service request]"
          "rq_body rq = sq_Body request"
          "rq_headers rq = [(''Authorization'', ''Bearer '' @ rc_token (pv_client p)), (''Content-Type'', ''application/json'')]"
          "sr_received resp" "sr_statusCode resp = hs_statusCode hr"
          "(sr_body resp, e) = readLimited (hs_body hr) (hs_bodyErr hr)"
      by blast
    then show thesis
    proof cases
      case 1
      then have "(rqs, r, err) = ([], HA_result (att_id attempt) DispatchUnknown None e)"
        using assms(1) matched Inr call by (simp add: HA_Dispatch_def zero_serviceResponse_def)
      with HA_result_plain [of "att_id attempt" DispatchUnknown e r err] assms(2)
      have u: "HA_answer (att_id attempt) r" "rqs = []" "dr_status r = DispatchUnknown" "dispatch_Receipt r = None" "err = e"
        by (simp_all add: dispatch_valid_iff status_defs)
      show thesis
        by (rule unsent [OF u(1) Inr u(2,3) _ u(4)]) (use 1(3,4) u(5) in auto)
    next
      case 2
      then have "(rqs, r, err) = ([rq], HA_result (att_id attempt) DispatchUnknown None e)"
        using assms(1) matched Inr call by (simp add: HA_Dispatch_def zero_serviceResponse_def)
      with 2 lost [OF _ matched Inr] HA_result_plain [of "att_id attempt" DispatchUnknown e r err] assms(2) call
      show thesis by (simp add: dispatch_valid_iff status_defs)
    next
      case 3
      show thesis
      proof (cases "success_status (hs_statusCode hr)")
        case False
        define se where "se = Errorf [W (Sentinel HA_ErrUnexpectedStatus), T '': '', T (sr_status resp)]"
        from False have "(rqs, r, err) = ([rq], HA_result (att_id attempt) DispatchDispatched None (errorsJoin [Some se, e]))"
          using assms(1) matched Inr call 3 by (simp add: HA_Dispatch_def success_status_def se_def)
        with HA_result_plain [of "att_id attempt" DispatchDispatched _ r err] assms(2)
        have "HA_answer (att_id attempt) r" "rqs = [rq]" "dr_status r = DispatchDispatched" "dispatch_Receipt r = None" "err = errorsJoin [Some se, e]"
          by (simp_all add: dispatch_valid_iff status_defs)
        with 3 False answered [OF _ matched Inr, of rq hr] show thesis by (simp add: se_def)
      next
        case True
        define rc where "rc = \<lparr>rc_provider = ProviderID, rc_attemptID = att_id attempt, rc_receivedAt = now,
          rc_evidence = sr_body resp\<rparr>"
        from True have "(rqs, r, err) = ([rq], HA_result (att_id attempt) DispatchAcknowledged (Some rc) e)"
          using assms matched Inr call 3 by (simp add: HA_Dispatch_def success_status_def NewReceipt_def rc_def)
        with HA_result_receipt [of "att_id attempt" rc e r err] assms(2)
        have "HA_answer (att_id attempt) r" "rqs = [rq]" "dr_status r = DispatchAcknowledged" "dispatch_Receipt r = Some rc" "err = e"
          by (simp_all add: rc_def)
        with 3 True answered [OF _ matched Inr, of rq hr] show thesis by (simp add: rc_def)
      qed
    qed
  qed
qed
subsection \<open>The status tells the exchange\<close>

text \<open>What the status of a dispatch must be, from the requests it made and the answers they got.\<close>

definition exchange_status :: "http_env \<Rightarrow> http_request \<Rightarrow> DispatchStatus" where
  "exchange_status env rq =
    (case he_do env rq of
       Inl e \<Rightarrow> DispatchUnknown
     | Inr resp \<Rightarrow> if success_status (hs_statusCode resp) then DispatchAcknowledged else DispatchDispatched)"

lemma HA_answer_kept:
  "HA_answer i r \<Longrightarrow> normalizeDispatch r ProviderID i = (r, None)"
  by (simp add: HA_answer_def normalizeDispatch_def)

lemma dispatch_exchange:
  assumes "HA_Dispatch jt env now p attempt action target = (rqs, r, err)"
    and "text_ok (att_id attempt)" "\<not> IsZero now"
  shows "normalizeDispatch r ProviderID (att_id attempt) = (r, None)
    \<and> (case rqs of
         [] \<Rightarrow> dr_status r = DispatchNotDispatched
             \<or> dr_status r = DispatchUnknown \<and> (\<exists>u. he_newRequest env ''POST'' u = err)
       | rq # rest \<Rightarrow> rest = [] \<and> dr_status r = exchange_status env rq)
    \<and> (\<forall>rc. dispatch_Receipt r = Some rc \<longrightarrow> (\<exists>rq resp. rqs = [rq] \<and> he_do env rq = Inr resp
          \<and> rc_receivedAt rc = now \<and> (rc_evidence rc, err) = readLimited (hs_body resp) (hs_bodyErr resp)))
    \<and> (err = None \<longrightarrow> dr_status r = DispatchAcknowledged)"
  using assms
proof (cases rule: HA_Dispatch_cases)
  case refused
  then show ?thesis by (auto simp: HA_answer_kept)
next
  case (unsent request)
  then show ?thesis by (auto simp: HA_answer_kept)
next
  case (lost request rq e)
  then show ?thesis by (simp add: HA_answer_kept exchange_status_def)
next
  case (answered request rq resp)
  then show ?thesis
    by (auto simp: HA_answer_kept exchange_status_def split: if_splits)
qed

text \<open>C36: for an attempt with a valid identity and a clock that runs, \<open>Dispatch\<close> of the Home Assistant
  provider sends at most one request and returns a result the use case accepts as it is. When a request
  was sent, the status is unknown exactly if the HTTP client failed without a response, acknowledged
  exactly if the response was a success, with the receipt holding the body up to the limit, and
  dispatched otherwise. When none was sent, the status is not-dispatched, or unknown where the HTTP
  library refused to build the request. Only an acknowledged dispatch comes without an error.\<close>

theorem homeassistant_status_tells_exchange:
  assumes "HA_Dispatch jt env now p attempt action target = (rqs, r, err)"
    and "text_ok (att_id attempt)" "\<not> IsZero now"
  shows "normalizeDispatch r ProviderID (att_id attempt) = (r, None)
    \<and> (case rqs of
         [] \<Rightarrow> dr_status r = DispatchNotDispatched
             \<or> dr_status r = DispatchUnknown \<and> (\<exists>u. he_newRequest env ''POST'' u = err)
       | rq # rest \<Rightarrow> rest = [] \<and> dr_status r = exchange_status env rq)
    \<and> (\<forall>rc. dispatch_Receipt r = Some rc \<longrightarrow> (\<exists>rq resp. rqs = [rq] \<and> he_do env rq = Inr resp
          \<and> rc_receivedAt rc = now \<and> (rc_evidence rc, err) = readLimited (hs_body resp) (hs_bodyErr resp)))
    \<and> (err = None \<longrightarrow> dr_status r = DispatchAcknowledged)"
  using assms by (rule dispatch_exchange)

subsection \<open>What a request carries\<close>

lemma input_members_ok: "input_members jt input = Inr data \<Longrightarrow> list_all (member_ok (scan_value 9999)) data"
proof -
  assume im: "input_members jt input = Inr data"
  show ?thesis
  proof (cases "TrimSpace input = []")
    case False
    with im obtain raw where raw: "whole_value input = Some raw" "store_map [] store_raw raw (Some []) = Some (Some data)"
      by (auto simp: input_members_def Unmarshal_def bind_eq_Some_conv split: option.splits)
    then have "raw_kind raw = RawObject" "data = map_put_all (raw_members raw) []"
      by (auto simp: store_map_def store_entries_raw split: raw_kind.splits)
    then show ?thesis using whole_value_raw [OF raw(1)] raw_members_object [of raw]
      by (simp add: list_all_map_put_all)
  qed (use im in \<open>simp add: input_members_def\<close>)
qed

definition entity_char :: "char \<Rightarrow> bool" where
  "entity_char c \<longleftrightarrow> segment_char c \<or> c = CHR ''.''"

lemma entity_chars: "entity_ok e \<Longrightarrow> list_all entity_char e"
  by (auto simp: entity_ok_def validSegment_iff list_all_iff entity_char_def)

lemma entity_char_plain:
  assumes "entity_char c"
  shows "code c < 128 \<and> html_safe (code c)"
proof -
  have "code CHR ''_'' = 95" "code CHR ''.'' = 46" by (simp_all add: code_def)
  with assms show ?thesis
    by (auto simp: entity_char_def segment_char_def html_safe_def not_less)
qed

lemma entity_json_string: "list_all entity_char e \<Longrightarrow> json_string_body e = e"
  by (rule json_string_body_plain) (auto simp: list_all_iff entity_char_plain)

lemma compact_entity: "list_all entity_char e \<Longrightarrow> compact True (e @ x) = e @ compact True x"
proof (induction e)
  case (Cons c e)
  then have c: "code c < 128" "html_safe (code c)" using entity_char_plain [of c] by simp_all
  then have "c \<noteq> CHR 0x22" "c \<noteq> CHR 0x5C" "c \<noteq> CHR ''<''" "c \<noteq> CHR ''>''" "c \<noteq> CHR ''&''" "c \<noteq> CHR 0xE2"
    by (auto simp: html_safe_def code_def)
  with Cons show ?case by (simp add: compact_string_char del: compact.simps)
qed simp

lemma json_string_member:
  assumes "utf8_ok k"
  shows "member_ok (scan_value d) (k, json_string s)"
proof -
  have "scan_scalar (json_string s) = Some []"
    using scan_json_string [of s "[]"] by (simp add: scan_scalar_def json_string_def)
  then have sc: "scan_value d (json_string s) = Some []" using scan_value_mono [of 0 d "json_string s" "[]"] by simp
  have sk: "skip_space (json_string s) = json_string s" by (simp add: json_string_def json_space_def)
  have "value_kept (scan_value d) (json_string s)"
    using keepsD [OF scan_value_keeps, of d "json_string s" "[]"] sc sk by auto
  with sc sk assms show ?thesis by (simp add: member_ok_def)
qed

lemma service_body:
  assumes body: "serviceData jt input e = Inr body" and e: "entity_ok e"
  shows "\<exists>data. input_members jt input = Inr data \<and> map_of data ''entity_id'' = None
    \<and> whole_value body = Some body \<and> raw_kind body = RawObject
    \<and> map_of (raw_members body) = (\<lambda>k. map_option (compact False) (map_of data k))(''entity_id'' \<mapsto> CHR 0x22 # e @ [CHR 0x22])"
proof -
  from body obtain data where data: "input_members jt input = Inr data" "map_of data ''entity_id'' = None"
    and b: "body = marshal_raw_map (map_put ''entity_id'' (json_string e) data)"
    by (auto simp: serviceData_def split: if_splits)
  have "utf8_ok ''entity_id''" by (rule ascii_utf8) (simp add: code_def)
  then have "list_all (member_ok (scan_value 9999)) (map_put ''entity_id'' (json_string e) data)"
    by (intro list_all_map_put input_members_ok [OF data(1)] json_string_member)
  from marshal_raw_map_decodes [OF this] have dec: "whole_value body = Some body" "raw_kind body = RawObject"
    "raw_members body = map compact_entry (map_put ''entity_id'' (json_string e) data)"
    by (simp_all add: b)
  have "compact False (json_string e) = CHR 0x22 # e @ [CHR 0x22]"
    using compact_entity [OF entity_chars [OF e], of "[CHR 0x22]"] entity_json_string [OF entity_chars [OF e]]
    by (simp add: json_string_def json_space_def)
  then have "map_of (raw_members body) = (\<lambda>k. map_option (compact False) (map_of data k))(''entity_id'' \<mapsto> CHR 0x22 # e @ [CHR 0x22])"
    unfolding dec(3) by (auto simp: map_of_compact fun_eq_iff)
  with data dec show ?thesis by blast
qed

lemma dispatch_request:
  assumes "HA_Dispatch jt env now p attempt action target = (rqs, r, err)"
    and "text_ok (att_id attempt)" "\<not> IsZero now" "rq \<in> set rqs"
  shows "att_actionID attempt = act_id action \<and> tgt_provider target = ProviderID
    \<and> map_of (tr_bindings (pv_translator p)) (act_target action) = Some (tgt_endpoint target)
    \<and> rqs = [rq] \<and> rq_method rq = ''POST''
    \<and> (\<exists>domain ob. tgt_endpoint target = domain @ CHR ''.'' # ob
         \<and> rq_url rq = (rc_baseURL (pv_client p))\<lparr>u_path := u_path (rc_baseURL (pv_client p))
             @ ''/api/services/'' @ domain @ ''/'' @ act_name action\<rparr>)
    \<and> (\<exists>data. input_members jt (act_input action) = Inr data \<and> map_of data ''entity_id'' = None
         \<and> whole_value (rq_body rq) = Some (rq_body rq) \<and> raw_kind (rq_body rq) = RawObject
         \<and> map_of (raw_members (rq_body rq)) =
             (\<lambda>k. map_option (compact False) (map_of data k))(''entity_id'' \<mapsto> CHR 0x22 # tgt_endpoint target @ [CHR 0x22]))"
proof -
  have url: "apiURL c [''services'', d, n] = (rc_baseURL c)\<lparr>u_path := u_path (rc_baseURL c) @ ''/api/services/'' @ d @ ''/'' @ n\<rparr>"
    if "validSegment d" "validSegment n" for c d n
  proof -
    have "validSegment ''services''" by (simp add: validSegment_iff segment_char_def code_def)
    with that show ?thesis by (simp add: apiURL_def PathEscape_segment Let_def)
  qed
  have carried: ?thesis
    if "att_actionID attempt = act_id action" and req: "dispatchRequest jt (pv_translator p) action target = Inr request"
      and "rqs = [rq]" "rq_method rq = ''POST''" "rq_body rq = sq_Body request"
      and u: "rq_url rq = apiURL (pv_client p) [''services'', sq_Domain request, sq_Service request]" for request
  proof -
    note d = dispatchRequest_Inr [OF req]
    from d(7) obtain ob where ob: "tgt_endpoint target = sq_Domain request @ CHR ''.'' # ob" by blast
    have "rq_url rq = (rc_baseURL (pv_client p))\<lparr>u_path := u_path (rc_baseURL (pv_client p))
             @ ''/api/services/'' @ sq_Domain request @ ''/'' @ act_name action\<rparr>"
      using url [OF d(8,4)] u d(6) by simp
    with ob have "\<exists>domain ob. tgt_endpoint target = domain @ CHR ''.'' # ob
         \<and> rq_url rq = (rc_baseURL (pv_client p))\<lparr>u_path := u_path (rc_baseURL (pv_client p))
             @ ''/api/services/'' @ domain @ ''/'' @ act_name action\<rparr>" by blast
    with that(1,3,4) d(1,2) show ?thesis
      by (intro conjI) (fact | simp only: that(5) service_body [OF d(5,3)])+
  qed
  from assms(1-3) show ?thesis
  proof (cases rule: HA_Dispatch_cases)
    case (lost request rq' e)
    with assms(4) callService_requests [OF lost(4)] show ?thesis by (intro carried [of request]) auto
  next
    case (answered request rq' resp)
    with assms(4) show ?thesis by (intro carried [of request]) auto
  qed (use assms(4) in auto)
qed

text \<open>C35: a request leaves only when the attempt belongs to the action and the resolved target is the
  binding of the action's target. It is then one authorized POST to the service the entity's domain and
  the action's name select, and its body is one JSON object that decodes to the members of the input,
  their values compacted, and to the bound entity, which the input cannot override.\<close>

theorem homeassistant_request_translated:
  assumes "HA_Dispatch jt env now p attempt action target = (rqs, r, err)"
    and "text_ok (att_id attempt)" "\<not> IsZero now" "rq \<in> set rqs"
  shows "att_actionID attempt = act_id action \<and> tgt_provider target = ProviderID
    \<and> map_of (tr_bindings (pv_translator p)) (act_target action) = Some (tgt_endpoint target)
    \<and> rqs = [rq] \<and> rq_method rq = ''POST''
    \<and> (\<exists>domain ob. tgt_endpoint target = domain @ CHR ''.'' # ob
         \<and> rq_url rq = (rc_baseURL (pv_client p))\<lparr>u_path := u_path (rc_baseURL (pv_client p))
             @ ''/api/services/'' @ domain @ ''/'' @ act_name action\<rparr>)
    \<and> (\<exists>data. input_members jt (act_input action) = Inr data \<and> map_of data ''entity_id'' = None
         \<and> whole_value (rq_body rq) = Some (rq_body rq) \<and> raw_kind (rq_body rq) = RawObject
         \<and> map_of (raw_members (rq_body rq)) =
             (\<lambda>k. map_option (compact False) (map_of data k))(''entity_id'' \<mapsto> CHR 0x22 # tgt_endpoint target @ [CHR 0x22]))"
  using assms by (rule dispatch_request)
subsection \<open>The lamp\<close>

lemma homeassistant_status_tells_exchange_witness:
  "\<exists>rq r. HA_Dispatch lamp_texts lamp_env lamp_clock lamp_provider lamp_attempt example_action lamp_target = ([rq], r, None)
     \<and> normalizeDispatch r ProviderID ''t'' = (r, None) \<and> dr_status r = DispatchAcknowledged"
proof -
  obtain rq r where d: "HA_Dispatch lamp_texts lamp_env lamp_clock lamp_provider lamp_attempt example_action lamp_target = ([rq], r, None)"
    using lamp_dispatch by blast
  from homeassistant_status_tells_exchange [OF d] have "normalizeDispatch r ProviderID ''t'' = (r, None)"
    "dr_status r = DispatchAcknowledged" by (simp_all add: lamp_attempt_def lamp_clock_def IsZero_def exchange_status_def lamp_env_def success_status_def)
  with d show ?thesis by blast
qed

lemma homeassistant_request_translated_witness:
  "\<exists>rq r. HA_Dispatch lamp_texts lamp_env lamp_clock lamp_provider lamp_attempt example_action lamp_target = ([rq], r, None)
     \<and> u_path (rq_url rq) = ''/api/services/light/turn_on''
     \<and> map_of (raw_members (rq_body rq)) ''entity_id'' = Some (quoted ''light.lamp'')"
proof -
  obtain rq r where d: "HA_Dispatch lamp_texts lamp_env lamp_clock lamp_provider lamp_attempt example_action lamp_target = ([rq], r, None)"
    using lamp_dispatch by blast
  from homeassistant_request_translated [OF d, of rq]
  obtain domain ob where "''light.lamp'' = domain @ CHR ''.'' # ob"
    and u: "u_path (rq_url rq) = ''/api/services/'' @ domain @ ''/turn_on''"
    and m: "map_of (raw_members (rq_body rq)) ''entity_id'' = Some (quoted ''light.lamp'')"
    by (auto simp: lamp_target_def lamp_provider_def lamp_url_def example_action_def quoted_def)
  have "domain = ''light''"
    using \<open>''light.lamp'' = domain @ CHR ''.'' # ob\<close> by (auto simp: Cons_eq_append_conv)
  with d u m show ?thesis by auto
qed

end
