(* ===== verification/HA_Observation.thy ===== *)
theory HA_Observation
  imports HA_Properties
begin

text \<open>
  Properties of the evidence side of the Home Assistant adapter: what an observation rests on and what the
  verifier concludes from it.
\<close>

subsection \<open>Observations\<close>

lemma getState_cases:
  assumes "getState jt env c e = (rqs, res)"
  shows "(rqs = [] \<and> (\<exists>x. res = Inl x)) \<or>
    (\<exists>rq. rqs = [rq] \<and> rq_method rq = ''GET'' \<and> rq_url rq = apiURL c [''states'', e] \<and>
      ((\<exists>x. res = Inl x) \<or>
       (\<exists>resp wire. he_do env rq = Inr resp \<and> success_status (hs_statusCode resp) \<and> hs_bodyErr resp = None
          \<and> length (hs_body resp) \<le> maxResponseSize
          \<and> Unmarshal (store_struct False wire_state_fields) (hs_body resp) zero_wire_state = Some wire
          \<and> res = Inr \<lparr>xs_EntityID = ws_EntityID wire, xs_LastUpdated = ws_LastUpdated wire, xs_Raw = hs_body resp\<rparr>)))"
proof (cases "NewRequest env ''GET'' (apiURL c [''states'', e]) []")
  case (Inl x)
  with assms show ?thesis by (auto simp: getState_def)
next
  case (Inr req0)
  define rq where "rq = authorize c req0"
  have rq: "rq_method rq = ''GET''" "rq_url rq = apiURL c [''states'', e]"
    using Inr by (auto simp: rq_def authorize_def NewRequest_def split: option.splits)
  show ?thesis
  proof (cases "he_do env rq")
    case (Inl x)
    with assms Inr rq show ?thesis by (auto simp: getState_def rq_def [symmetric])
  next
    case resp: (Inr resp)
    show ?thesis
    proof (cases "snd (readLimited (hs_body resp) (hs_bodyErr resp))")
      case (Some x)
      with assms Inr resp rq show ?thesis by (auto simp: getState_def rq_def [symmetric] split_beta)
    next
      case None
      then have body: "hs_bodyErr resp = None" "length (hs_body resp) \<le> maxResponseSize"
        by (auto simp: readLimited_spec split: if_splits)
      with assms Inr resp show ?thesis using rq
        by (auto simp: getState_def rq_def [symmetric] readLimited_spec split: if_splits option.splits)
    qed
  qed
qed

lemma observation_sound:
  assumes "HA_Observe rt jt env now p action target = (rqs, obs, err)"
  shows "(rqs = [] \<or> (\<exists>rq. rqs = [rq] \<and> rq_method rq = ''GET''
       \<and> rq_url rq = apiURL (pv_client p) [''states'', tgt_endpoint target]))
    \<and> (if err \<noteq> None then obs = []
       else \<exists>b rq resp wire. obs = [b] \<and> rqs = [rq] \<and> he_do env rq = Inr resp
         \<and> success_status (hs_statusCode resp) \<and> hs_bodyErr resp = None \<and> length (hs_body resp) \<le> maxResponseSize
         \<and> map_of (tr_bindings (pv_translator p)) (act_target action) = Some (tgt_endpoint target)
         \<and> Unmarshal (store_struct False wire_state_fields) (hs_body resp) zero_wire_state = Some wire
         \<and> ws_EntityID wire = tgt_endpoint target \<and> \<not> IsZero (ws_LastUpdated wire)
         \<and> observation_ok b \<and> obs_target b = act_target action \<and> obs_value b = hs_body resp
         \<and> obs_observedAt b = ws_LastUpdated wire \<and> obs_recordedAt b = now
         \<and> obs_id b = HA_observationID rt (tgt_endpoint target) (hs_body resp))"
proof (cases "entityFor (pv_translator p) action target")
  case (Inl x)
  with assms show ?thesis by (auto simp: HA_Observe_def)
next
  case (Inr e)
  then have e: "e = tgt_endpoint target" "map_of (tr_bindings (pv_translator p)) (act_target action) = Some e"
    by (simp_all add: entityFor_Inr_iff)
  obtain rqs' res where g: "getState jt env (pv_client p) e = (rqs', res)" by force
  show ?thesis
  proof (cases res)
    case (Inl x)
    with assms Inr g getState_cases [OF g] e show ?thesis by (auto simp: HA_Observe_def)
  next
    case state: (Inr st)
    with getState_cases [OF g] obtain rq resp wire where
      rq: "rqs' = [rq]" "rq_method rq = ''GET''" "rq_url rq = apiURL (pv_client p) [''states'', e]"
      and resp: "he_do env rq = Inr resp" "success_status (hs_statusCode resp)" "hs_bodyErr resp = None"
        "length (hs_body resp) \<le> maxResponseSize"
        "Unmarshal (store_struct False wire_state_fields) (hs_body resp) zero_wire_state = Some wire"
      and st: "st = \<lparr>xs_EntityID = ws_EntityID wire, xs_LastUpdated = ws_LastUpdated wire, xs_Raw = hs_body resp\<rparr>"
      by auto
    have rqs: "rqs = [rq]"
      using assms Inr g state rq(1) by (auto simp: HA_Observe_def split: if_splits sum.splits)
    show ?thesis
    proof (cases "err = None")
      case False
      then have "obs = []" using assms Inr g state by (auto simp: HA_Observe_def split: if_splits sum.splits)
      with False rqs rq e show ?thesis by simp
    next
      case True
      then obtain b where b: "obs = [b]" "xs_EntityID st = e" "\<not> IsZero (xs_LastUpdated st)"
        and new: "NewObservation \<lparr>bs_ID = HA_observationID rt e (xs_Raw st), bs_Source = ProviderID @ ''/rest'',
          bs_Target = act_target action, bs_Value = xs_Raw st, bs_Evidence = [], bs_ObservedAt = xs_LastUpdated st,
          bs_RecordedAt = now\<rparr> = Inr b"
        using assms Inr g state by (auto simp: HA_Observe_def split: if_splits sum.splits)
      from new have "observation_ok b" "obs_target b = act_target action" "obs_value b = hs_body resp"
        "obs_observedAt b = ws_LastUpdated wire" "obs_recordedAt b = now" "obs_id b = HA_observationID rt e (hs_body resp)"
        by (simp_all add: NewObservation_Inr_iff st)
      with True b rqs rq resp e st show ?thesis by simp
    qed
  qed
qed

text \<open>\<open>Observe\<close> of the Home Assistant provider makes at most one GET request, for the state of the
  entity bound to the action's target. It returns an observation only from a success response, read in
  full within the limit, whose JSON names that entity and has a last-updated time; the observation then
  carries the response body as its value and that time as its time of observation, and its identity is
  a digest of the entity and the body alone. In every other case it returns no observation and an error.\<close>

lemma homeassistant_observation_sound:
  assumes "HA_Observe rt jt env now p action target = (rqs, obs, err)"
  shows "(rqs = [] \<or> (\<exists>rq. rqs = [rq] \<and> rq_method rq = ''GET''
       \<and> rq_url rq = apiURL (pv_client p) [''states'', tgt_endpoint target]))
    \<and> (if err \<noteq> None then obs = []
       else \<exists>b rq resp wire. obs = [b] \<and> rqs = [rq] \<and> he_do env rq = Inr resp
         \<and> success_status (hs_statusCode resp) \<and> hs_bodyErr resp = None \<and> length (hs_body resp) \<le> maxResponseSize
         \<and> map_of (tr_bindings (pv_translator p)) (act_target action) = Some (tgt_endpoint target)
         \<and> Unmarshal (store_struct False wire_state_fields) (hs_body resp) zero_wire_state = Some wire
         \<and> ws_EntityID wire = tgt_endpoint target \<and> \<not> IsZero (ws_LastUpdated wire)
         \<and> observation_ok b \<and> obs_target b = act_target action \<and> obs_value b = hs_body resp
         \<and> obs_observedAt b = ws_LastUpdated wire \<and> obs_recordedAt b = now
         \<and> obs_id b = HA_observationID rt (tgt_endpoint target) (hs_body resp))"
  using assms by (rule observation_sound)
subsection \<open>Verdicts\<close>

definition freshest :: "string \<Rightarrow> Observation list \<Rightarrow> Observation \<Rightarrow> bool" where
  "freshest target obs b \<longleftrightarrow> b \<in> set obs \<and> obs_target b = target
     \<and> (\<forall>b'\<in>set obs. obs_target b' = target \<longrightarrow> t_ns (obs_observedAt b') \<le> t_ns (obs_observedAt b))"

lemma select_observation_spec:
  "select_observation target obs sel = Some b \<Longrightarrow>
    (sel = Some b \<or> b \<in> set obs \<and> obs_target b = target)
    \<and> (\<forall>s. sel = Some s \<longrightarrow> t_ns (obs_observedAt s) \<le> t_ns (obs_observedAt b))
    \<and> (\<forall>b'\<in>set obs. obs_target b' = target \<longrightarrow> t_ns (obs_observedAt b') \<le> t_ns (obs_observedAt b))"
proof (induction target obs sel arbitrary: b rule: select_observation.induct)
  case (2 target x xs sel)
  show ?case
  proof (cases "obs_target x = target")
    case False
    with 2 show ?thesis by auto
  next
    case True
    show ?thesis
    proof (cases sel)
      case None
      with 2 True show ?thesis by auto
    next
      case (Some s)
      with 2 True show ?thesis by (cases "TimeAfter (obs_observedAt x) (obs_observedAt s)") (fastforce simp: TimeAfter_def)+
    qed
  qed
qed simp

lemma select_freshest: "select_observation target obs None = Some b \<Longrightarrow> freshest target obs b"
  using select_observation_spec [of target obs None b] by (simp add: freshest_def)

lemma StateVerifier_result_cases:
  assumes "StateVerifier_result st asOf ob reason = (r, e)"
  shows "(e \<noteq> None \<and> vr_status r = VerificationUnknown) \<or>
    (e = None \<and> vr_status r = st \<and> (st \<noteq> VerificationUnknown \<longrightarrow> vr_verifier r = stateVerifierID \<and> vr_checkedAt r = asOf
       \<and> vr_observationIDs r = (case ob of None \<Rightarrow> [] | Some b \<Rightarrow> [obs_id b])))"
proof (cases "NewVerificationResult \<lparr>vs_Status = st, vs_Verifier = stateVerifierID, vs_CheckedAt = asOf,
       vs_ObservationIDs = (case ob of None \<Rightarrow> [] | Some b \<Rightarrow> [obs_id b]), vs_Reason = reason\<rparr>")
  case (Inl x)
  with assms show ?thesis
    by (auto simp: StateVerifier_result_def zero_verification_def VerificationUnknown_def)
next
  case (Inr x)
  with assms have r: "r = x" "e = None" by (simp_all add: StateVerifier_result_def)
  from Inr show ?thesis unfolding r
    by (auto simp: NewVerificationResult_def zero_verification_def VerificationUnknown_def split: if_splits option.splits)
qed

definition conclusive :: "VerificationResult \<Rightarrow> bool" where
  "conclusive r \<longleftrightarrow> vr_status r = VerificationVerified \<or> vr_status r = VerificationUnsatisfied"

lemma not_conclusive: "StateVerifier_result VerificationInconclusive asOf ob reason = (r, e) \<Longrightarrow> \<not> conclusive r"
  using StateVerifier_result_cases [of VerificationInconclusive asOf ob reason r e]
  by (auto simp: conclusive_def status_defs)

lemma not_conclusive_with: "result_with VerificationInconclusive asOf ob reason x = (r, e) \<Longrightarrow> \<not> conclusive r"
  using not_conclusive [of asOf ob reason]
  by (auto simp: result_with_def conclusive_def zero_verification_def status_defs split: prod.splits if_splits)

definition verdict_of :: "bool \<Rightarrow> gtime \<Rightarrow> Observation \<Rightarrow> VerificationResult \<Rightarrow> err option \<Rightarrow> bool" where
  "verdict_of holds asOf b r e \<longleftrightarrow> e = None \<and> vr_status r = (if holds then VerificationVerified else VerificationUnsatisfied)
     \<and> vr_verifier r = stateVerifierID \<and> vr_checkedAt r = asOf \<and> vr_observationIDs r = [obs_id b]"

lemma conclusive_result:
  "StateVerifier_result VerificationVerified asOf (Some b) reason = (r, e) \<Longrightarrow> conclusive r \<Longrightarrow> verdict_of True asOf b r e"
  "StateVerifier_result VerificationUnsatisfied asOf (Some b) reason = (r, e) \<Longrightarrow> conclusive r \<Longrightarrow> verdict_of False asOf b r e"
  using StateVerifier_result_cases [of VerificationVerified asOf "Some b" reason r e]
    StateVerifier_result_cases [of VerificationUnsatisfied asOf "Some b" reason r e]
  by (auto simp: conclusive_def verdict_of_def status_defs)

text \<open>The effect the verifier looks for in a decoded state; \<^const>\<open>None\<close> when it cannot tell.\<close>

definition effect_shown :: "Action \<Rightarrow> ha_state \<Rightarrow> bool option" where
  "effect_shown action st =
    (if act_name action = ''turn_on'' then Some (hst_State st = ''on'')
     else if act_name action = ''turn_off'' then Some (hst_State st = ''off'')
     else if act_name action = ''set_temperature'' then
       (case (Decode_first (store_struct False desired_fields) (act_input action) '''',
              Option.bind (map_get (hst_Attributes st) ''temperature'') (\<lambda>raw. Decode_first store_number raw '''')) of
          (Some want, Some got) \<Rightarrow> if want = '''' \<or> got = '''' then None else Some (equalNumber want got)
        | _ \<Rightarrow> None)
     else None)"

lemma Decode_first_Nil [simp]: "Decode_first st [] x = None"
  by (simp add: Decode_first_def next_value_def)

lemma compareState_verdict:
  assumes "compareState got want asOf b = (r, e)" "conclusive r"
  shows "verdict_of (got = want) asOf b r e"
  using assms by (auto simp: compareState_def split: if_splits dest: conclusive_result)

lemma compareTemperature_verdict:
  assumes "compareTemperature jt input observed asOf b = (r, e)" "conclusive r"
  shows "\<exists>want got. Decode_first (store_struct False desired_fields) input '''' = Some want \<and> want \<noteq> ''''
    \<and> Decode_first store_number observed '''' = Some got \<and> got \<noteq> '''' \<and> verdict_of (equalNumber want got) asOf b r e"
proof -
  have nz: "\<not> conclusive zero_verification" by (simp add: conclusive_def zero_verification_def status_defs)
  show ?thesis
  proof (cases "Decode_first (store_struct False desired_fields) input ''''")
    case None
    with assms nz show ?thesis by (auto simp: compareTemperature_def)
  next
    case (Some want)
    show ?thesis
    proof (cases "Decode_first store_number observed ''''")
      case None
      with assms Some nz show ?thesis by (auto simp: compareTemperature_def split: if_splits dest: not_conclusive_with)
    next
      case got: (Some got)
      have "want \<noteq> ''''" "got \<noteq> ''''"
        using assms Some got nz by (auto simp: compareTemperature_def split: if_splits dest: not_conclusive_with)
      moreover from this have "verdict_of (equalNumber want got) asOf b r e"
        using assms Some got by (auto simp: compareTemperature_def split: if_splits dest: conclusive_result)
      ultimately show ?thesis using Some got by blast
    qed
  qed
qed

lemma verdict_sound:
  assumes "StateVerifier_Verify jt v action obs asOf = (r, e)" and "conclusive r"
  shows "\<exists>b st holds. freshest (act_target action) obs b
    \<and> 0 \<le> TimeSub asOf (obs_observedAt b) \<and> TimeSub asOf (obs_observedAt b) \<le> sv_maxAge v
    \<and> Unmarshal (store_struct False ha_state_fields) (obs_value b) zero_ha_state = Some st
    \<and> effect_shown action st = Some holds \<and> verdict_of holds asOf b r e"
proof -
  have sel: "select_observation (act_target action) obs None \<noteq> None"
    using assms by (auto simp: StateVerifier_Verify_def dest: not_conclusive split: option.splits)
  then obtain b where b: "select_observation (act_target action) obs None = Some b" by blast
  have age: "0 \<le> TimeSub asOf (obs_observedAt b)" "TimeSub asOf (obs_observedAt b) \<le> sv_maxAge v"
    and fresh: "verify_fresh jt action b asOf = (r, e)"
    using assms b by (auto simp: StateVerifier_Verify_def Let_def split: if_splits dest: not_conclusive)
  obtain st where st: "Unmarshal (store_struct False ha_state_fields) (obs_value b) zero_ha_state = Some st"
    using fresh assms(2) by (auto simp: verify_fresh_def split: option.splits dest: not_conclusive_with)
  have "\<exists>holds. effect_shown action st = Some holds \<and> verdict_of holds asOf b r e"
  proof (cases "act_name action = ''set_temperature''")
    case True
    then have "compareTemperature jt (act_input action)
        (case map_get (hst_Attributes st) ''temperature'' of None \<Rightarrow> [] | Some raw \<Rightarrow> raw) asOf b = (r, e)"
      using fresh st by (simp add: verify_fresh_def)
    from compareTemperature_verdict [OF this assms(2)] True show ?thesis
      by (auto simp: effect_shown_def split: option.splits)
  next
    case False
    then show ?thesis using fresh st assms(2)
      by (auto simp: verify_fresh_def effect_shown_def split: if_splits dest: not_conclusive compareState_verdict)
  qed
  with select_freshest [OF b] age st show ?thesis by blast
qed

text \<open>C38: a conclusive verdict rests on one observation: a freshest one of the action's target among those
  given, not in the future and no older than the window. It decodes as a state, the result names it, the
  verifier and the time asked for, and the verdict is verified exactly if that state shows the action's
  effect: the state the name stands for, or a temperature numerically equal to the desired one.\<close>

theorem verifier_verdict_sound:
  assumes "StateVerifier_Verify jt v action obs asOf = (r, e)" and "conclusive r"
  shows "\<exists>b st holds. freshest (act_target action) obs b
    \<and> 0 \<le> TimeSub asOf (obs_observedAt b) \<and> TimeSub asOf (obs_observedAt b) \<le> sv_maxAge v
    \<and> Unmarshal (store_struct False ha_state_fields) (obs_value b) zero_ha_state = Some st
    \<and> effect_shown action st = Some holds \<and> verdict_of holds asOf b r e"
  using assms by (rule verdict_sound)

lemma homeassistant_observation_sound_witness:
  "\<exists>rq wire. HA_Observe example_rt lamp_texts lamp_env lamp_clock lamp_provider example_action lamp_target =
      ([rq], [lamp_observation], None) \<and> rq_method rq = ''GET''
    \<and> Unmarshal (store_struct False wire_state_fields) lamp_state zero_wire_state = Some wire \<and> ws_EntityID wire = ''light.lamp''"
proof -
  obtain rq where o: "HA_Observe example_rt lamp_texts lamp_env lamp_clock lamp_provider example_action lamp_target =
      ([rq], [lamp_observation], None)" using lamp_observed by blast
  from homeassistant_observation_sound [OF o] have "rq_method rq = ''GET''"
    "\<exists>wire. Unmarshal (store_struct False wire_state_fields) (obs_value lamp_observation) zero_wire_state = Some wire
       \<and> ws_EntityID wire = ''light.lamp''"
    by (auto simp: lamp_target_def)
  with o show ?thesis by (auto simp: lamp_observation_def)
qed

lemma verifier_verdict_sound_witness:
  "\<exists>b st. freshest ''lamp'' [lamp_observation] b
    \<and> Unmarshal (store_struct False ha_state_fields) (obs_value b) zero_ha_state = Some st
    \<and> (\<exists>holds. effect_shown example_action st = Some holds
         \<and> verdict_of holds \<lparr>t_ns = 63924811200000000001, t_off = 0\<rparr> b lamp_verdict None)"
proof -
  have "conclusive lamp_verdict" by (simp add: conclusive_def lamp_verdict_def)
  from verifier_verdict_sound [OF lamp_verified this] show ?thesis by (simp add: example_action_def) blast
qed

end
