(* ===== verification/HA_Numbers.thy ===== *)
theory HA_Numbers
  imports HA_Observation Json_Members Complex_Main
begin

text \<open>
  Two bounds of the Home Assistant adapter: numbers are compared as the rationals their texts denote, as
  far as \<open>big.Rat\<close> reads them, and a response is read up to a limit.
\<close>

subsection \<open>Numbers\<close>

lemma dec_value_shift: "dec_value acc xs = acc * 10 ^ length xs + dec_value 0 xs"
proof (induction xs arbitrary: acc)
  case (Cons c xs)
  show ?case using Cons [of "10 * acc + digit_val c"] Cons [of "digit_val c"] by (simp add: algebra_simps)
qed simp

text \<open>The rational a pair stands for, and the one a decimal text stands for.\<close>

definition rat_value :: "int \<times> int \<Rightarrow> rat" where
  "rat_value x = of_int (fst x) * 10 powi (snd x)"

definition number_value :: "string \<Rightarrow> rat" where
  "number_value s =
    (let s1 = skip_minus s; (frac, s2) = fraction_part (dropWhile is_digit s1);
         v = of_int (dec_value 0 (takeWhile is_digit s1)) + of_int (dec_value 0 frac) / 10 ^ length frac
     in (if s1 = s then v else - v) * 10 powi exponent_part s2)"

definition number_readable :: "string \<Rightarrow> bool" where
  "number_readable s \<longleftrightarrow>
    (case number_parts s of
       (mantissa, digits, ex) \<Rightarrow> valid_number s \<and> - (2 ^ 63) \<le> ex \<and> ex < 2 ^ 63 \<and> (mantissa = 0 \<or> \<bar>ex - int digits\<bar> \<le> 1000000))"

lemma Rat_equal_iff: "Rat_equal a b \<longleftrightarrow> rat_value a = rat_value b"
proof -
  obtain m1 e1 m2 e2 where ab: "a = (m1, e1)" "b = (m2, e2)" by (cases a; cases b)
  define k where "k = min e1 e2"
  have p: "(10 :: rat) powi k \<noteq> 0" by simp
  have split: "(10 :: rat) powi e = 10 ^ nat (e - k) * 10 powi k" if "k \<le> e" for e
  proof -
    have "(10 :: rat) powi e = 10 powi (e - k) * 10 powi k" by (simp add: power_int_add [symmetric])
    also have "(10 :: rat) powi (e - k) = 10 ^ nat (e - k)" using that by (simp add: power_int_def)
    finally show ?thesis .
  qed
  have "rat_value a = rat_value b \<longleftrightarrow>
      of_int m1 * (10 :: rat) ^ nat (e1 - k) = of_int m2 * 10 ^ nat (e2 - k)"
    using p split [of e1] split [of e2] by (simp add: rat_value_def ab k_def)
  also have "\<dots> \<longleftrightarrow> (of_int (m1 * 10 ^ nat (e1 - k)) :: rat) = of_int (m2 * 10 ^ nat (e2 - k))" by simp
  also have "\<dots> \<longleftrightarrow> m1 * 10 ^ nat (e1 - k) = m2 * 10 ^ nat (e2 - k)" by (simp only: of_int_eq_iff)
  finally show ?thesis by (simp add: Rat_equal_def ab k_def)
qed

lemma number_value_parts:
  "number_parts s = (m, d, ex) \<Longrightarrow> number_value s = of_int m * 10 powi (ex - int d)"
proof -
  assume parts: "number_parts s = (m, d, ex)"
  define s1 where "s1 = skip_minus s"
  define i where "i = dec_value 0 (takeWhile is_digit s1)"
  obtain frac s2 where fr: "fraction_part (dropWhile is_digit s1) = (frac, s2)" by force
  have m: "m = (if s1 = s then 1 else -1) * (i * 10 ^ length frac + dec_value 0 frac)" "d = length frac" "ex = exponent_part s2"
    using parts fr dec_value_shift [of i frac]
    by (auto simp: number_parts_def Let_def s1_def [symmetric] dec_value_append i_def split: if_splits)
  have p: "(10 :: rat) powi (ex - int d) = 10 powi ex / 10 ^ d"
    by (simp add: power_int_diff)
  have v: "number_value s = (if s1 = s then 1 else -1) * (of_int i + of_int (dec_value 0 frac) / 10 ^ d) * 10 powi ex"
    using fr m(2,3) by (auto simp: number_value_def Let_def s1_def [symmetric] i_def)
  have q: "(of_int m :: rat) = (if s1 = s then 1 else -1) * (of_int i * 10 ^ d + of_int (dec_value 0 frac))"
    using m by simp
  show ?thesis unfolding p v q by (simp add: field_simps)
qed

lemma Rat_SetString_spec:
  "Rat_SetString s = (if number_readable s then Rat_SetString s else None)"
  "Rat_SetString s = Some x \<Longrightarrow> rat_value x = number_value s"
  "number_readable s \<Longrightarrow> Rat_SetString s \<noteq> None"
proof -
  obtain m d ex where p: "number_parts s = (m, d, ex)" by (cases "number_parts s")
  show "Rat_SetString s = (if number_readable s then Rat_SetString s else None)"
    "number_readable s \<Longrightarrow> Rat_SetString s \<noteq> None"
    by (auto simp: Rat_SetString_def number_readable_def p)
  show "Rat_SetString s = Some x \<Longrightarrow> rat_value x = number_value s"
    using number_value_parts [OF p] by (auto simp: Rat_SetString_def p rat_value_def split: if_splits)
qed

text \<open>Every text the decoder stores as a \<open>json.Number\<close> is a number of the JSON grammar.\<close>

lemma scanned_number:
  assumes "scan_value d raw = Some []" "raw_kind raw = RawNumber"
  shows "valid_number raw"
proof (cases raw)
  case Nil
  with assms(2) show ?thesis by (simp add: raw_kind_def)
next
  case (Cons c cs)
  with assms(2) have c: "c \<noteq> CHR 0x22" "c \<noteq> CHR 0x7B" "c \<noteq> CHR ''[''" "c \<noteq> CHR ''t''" "c \<noteq> CHR ''f''" "c \<noteq> CHR ''n''"
    by (auto simp: raw_kind_def split: if_splits)
  then have "scan_scalar raw = Some []" using assms(1) Cons by (cases d) (simp_all add: scan_value.simps)
  with c Cons show ?thesis by (simp add: scan_scalar_def valid_number_def split: if_splits)
qed

lemma store_number_valid:
  assumes "scan_value d raw = Some []" "store_number raw s = Some n"
  shows "n = s \<or> valid_number n"
  using assms scanned_number by (auto simp: store_number_def split: raw_kind.splits if_splits)

lemma next_value_scanned:
  assumes "next_value s = StreamValue raw rest"
  shows "scan_value maxNestingDepth raw = Some []"
proof -
  have v: "scan_value maxNestingDepth (skip_space s) = Some rest" and raw: "raw = consumed (skip_space s) rest"
    using assms by (auto simp: next_value_def Let_def split: if_splits option.splits)
  obtain v where v: "skip_space s = v @ rest" "\<forall>t. follow t \<longrightarrow> scan_value maxNestingDepth (v @ t) = Some t"
    using scan_localD [OF scan_value_local v] by blast
  then have "scan_value maxNestingDepth (v @ []) = Some []" using follow_Nil by blast
  with raw v(1) show ?thesis by simp
qed

lemma desired_stored:
  "list_all (member_ok (scan_value d)) ms \<Longrightarrow> store_members False desired_fields ms s = Some n \<Longrightarrow> n = s \<or> valid_number n"
proof (induction ms arbitrary: s)
  case (Cons m ms)
  obtain key raw where m: "m = (key, raw)" by (cases m)
  have "f = store_number" if "find_field desired_fields key = Some f" for f
    using that by (auto simp: find_field_def desired_fields_def split: if_splits option.splits)
  moreover have "scan_value d raw = Some []" using Cons.prems(1) m by (simp add: member_ok_def)
  ultimately show ?case
    using Cons.IH Cons.prems store_number_valid [of d raw s]
    by (fastforce simp: m bind_eq_Some_conv split: option.splits)
qed simp

lemma temperatures_valid:
  "Decode_first store_number observed '''' = Some got \<Longrightarrow> got \<noteq> '''' \<Longrightarrow> valid_number got"
  "Decode_first (store_struct False desired_fields) input '''' = Some want \<Longrightarrow> want \<noteq> '''' \<Longrightarrow> valid_number want"
proof -
  show "Decode_first store_number observed '''' = Some got \<Longrightarrow> got \<noteq> '''' \<Longrightarrow> valid_number got"
    using store_number_valid [OF next_value_scanned] by (fastforce simp: Decode_first_def split: stream_value.splits)
  assume d: "Decode_first (store_struct False desired_fields) input '''' = Some want" "want \<noteq> ''''"
  then obtain raw rest where raw: "store_struct False desired_fields raw '''' = Some want"
    by (auto simp: Decode_first_def split: stream_value.splits)
  have "list_all (member_ok (scan_value maxNestingDepth)) (raw_members raw)"
    using scan_object_ok [OF scan_value_keeps scan_value_local] by (auto simp: raw_members_def split: option.splits)
  from desired_stored [OF this] raw d(2) show "valid_number want"
    by (auto simp: store_struct_def split: raw_kind.splits)
qed

lemma equalNumber_rational:
  assumes "valid_number a" and "valid_number b"
  shows "equalNumber a b \<longleftrightarrow> number_readable a \<and> number_readable b \<and> number_value a = number_value b"
proof (cases "number_readable a \<and> number_readable b")
  case True
  then obtain x y where "Rat_SetString a = Some x" "Rat_SetString b = Some y"
    using Rat_SetString_spec(3) by blast
  with True Rat_SetString_spec(2) show ?thesis by (simp add: equalNumber_def Rat_equal_iff)
next
  case False
  then show ?thesis using Rat_SetString_spec(1) [of a] Rat_SetString_spec(1) [of b]
    by (auto simp: equalNumber_def split: option.splits)
qed

text \<open>So the verdict on a temperature is the comparison of two rationals.\<close>

lemma temperature_verdict_rational:
  assumes "compareTemperature jt input observed asOf b = (r, e)" "conclusive r"
  shows "\<exists>want got. valid_number want \<and> valid_number got
    \<and> verdict_of (number_readable want \<and> number_readable got \<and> number_value want = number_value got) asOf b r e"
  using compareTemperature_verdict [OF assms] temperatures_valid equalNumber_rational by metis

text \<open>C39: two JSON numbers, and nothing else reaches the comparison, count as equal exactly if both are
  within the limits of \<open>big.Rat\<close> (an exponent of 64 bits, and of at most a million after the point is
  removed, unless the number is zero) and denote the same rational number; how they are written makes
  no other difference.\<close>

theorem equal_number_rational:
  assumes "valid_number a" and "valid_number b"
  shows "equalNumber a b \<longleftrightarrow> number_readable a \<and> number_readable b \<and> number_value a = number_value b"
  using assms by (rule equalNumber_rational)

lemma equal_number_rational_witness: "equalNumber ''21.50'' ''215e-1'' \<and> number_value ''21.50'' = number_value ''215e-1''"
proof -
  have "valid_number ''21.50''" "valid_number ''215e-1''" "equalNumber ''21.50'' ''215e-1''" by code_simp+
  with equal_number_rational show ?thesis by blast
qed

subsection \<open>Responses\<close>


end
