(* ===== verification/Provider_Spec.thy ===== *)
theory Provider_Spec
  imports Execute_Properties Verify_Properties
begin

text \<open>
  The contracts of the ports of \<open>provider.go\<close> and \<open>verification.go\<close>, which their comments state, as
  locales, and what a use case guarantees over ports that keep them. The type \<open>'rq\<close> stands for the
  requests a port makes of the outside world.
\<close>

text \<open>The requests of a run, when \<open>send\<close> and \<open>read\<close> give those of one dispatch and one observation.\<close>

definition call_sends :: "(ExecutionAttempt \<Rightarrow> Action \<Rightarrow> ResolvedTarget \<Rightarrow> 'rq list) \<Rightarrow> call \<Rightarrow> 'rq list" where
  "call_sends send did = (case did of DidDispatch c t a g ans \<Rightarrow> send t a g | _ \<Rightarrow> [])"

definition run_sends :: "(ExecutionAttempt \<Rightarrow> Action \<Rightarrow> ResolvedTarget \<Rightarrow> 'rq list) \<Rightarrow> call list \<Rightarrow> 'rq list" where
  "run_sends send tr = concat (map (call_sends send) tr)"

definition call_reads :: "(Action \<Rightarrow> ResolvedTarget \<Rightarrow> 'rq list) \<Rightarrow> call \<Rightarrow> 'rq list" where
  "call_reads read did = (case did of DidObserve c a g ans \<Rightarrow> read a g | _ \<Rightarrow> [])"

definition run_reads :: "(Action \<Rightarrow> ResolvedTarget \<Rightarrow> 'rq list) \<Rightarrow> call list \<Rightarrow> 'rq list" where
  "run_reads read tr = concat (map (call_reads read) tr)"

lemma run_sends_simps [simp]:
  "run_sends send [] = []" "run_sends send (d # tr) = call_sends send d @ run_sends send tr"
  "run_sends send (tr @ tr') = run_sends send tr @ run_sends send tr'"
  by (simp_all add: run_sends_def)

lemma call_sends_quiet [simp]: "\<not> executes d \<Longrightarrow> call_sends send d = []"
  by (cases d) (simp_all add: call_sends_def)

lemma no_dispatch_no_sends: "dispatched tr = [] \<Longrightarrow> run_sends send tr = []"
proof (induction tr)
  case (Cons d tr)
  then show ?case by (cases d) (simp_all add: dispatched_def call_sends_def)
qed simp

lemma outcome_dispatch:
  "admission_valid a \<Longrightarrow> dispatch_valid d \<Longrightarrow> effect_valid e \<Longrightarrow> o_dispatch (outcome a d e) = d"
  by (simp add: outcome_def NewOutcome_def)

subsection \<open>Providers\<close>

text \<open>
  A provider rejects an attempt of another action and a target that was not resolved for the action
  before it sends anything; it sends at most one request, whose exchange determines the status of the
  result, and the result is admissible and names the provider and the attempt.
\<close>

locale physical_provider =
  fixes name :: string
    and resolve :: "Action \<Rightarrow> ResolvedTarget \<times> err option"
    and dispatch :: "gtime \<Rightarrow> ExecutionAttempt \<Rightarrow> Action \<Rightarrow> ResolvedTarget \<Rightarrow> 'rq list \<times> DispatchResult \<times> err option"
    and exchange :: "'rq \<Rightarrow> DispatchStatus"
  assumes resolved: "resolve a = (g, None) \<Longrightarrow> tgt_provider g = name"
    and any_time: "fst (dispatch now t a g) = fst (dispatch now' t a g)"
    and attempt_rejected: "att_actionID t \<noteq> act_id a \<Longrightarrow>
      fst (dispatch now t a g) = [] \<and> snd (snd (dispatch now t a g)) \<noteq> None"
    and target_rejected: "resolve a \<noteq> (g, None) \<Longrightarrow>
      fst (dispatch now t a g) = [] \<and> snd (snd (dispatch now t a g)) \<noteq> None"
    and answered: "text_ok (att_id t) \<Longrightarrow> \<not> IsZero now \<Longrightarrow> dispatch now t a g = (rqs, r, e) \<Longrightarrow>
      dispatch_ok r \<and> dr_provider r = name \<and> dr_attemptID r = att_id t
      \<and> (\<forall>rq rest. rqs = rq # rest \<longrightarrow> rest = [] \<and> dr_status r = exchange rq)"
begin

text \<open>The answers of a run are those of the provider.\<close>

definition answers :: "call \<Rightarrow> bool" where
  "answers did =
    (case did of
       DidDispatch c t a g ans \<Rightarrow> \<exists>now. \<not> IsZero now \<and> ans = snd (dispatch now t a g)
     | DidResolve c a ans \<Rightarrow> ans = resolve a
     | _ \<Rightarrow> True)"

definition sends :: "ExecutionAttempt \<Rightarrow> Action \<Rightarrow> ResolvedTarget \<Rightarrow> 'rq list" where
  "sends t a g = fst (dispatch zero_time t a g)"

lemma sends_at: "fst (dispatch now t a g) = sends t a g"
  unfolding sends_def by (rule any_time)

text \<open>Only the attempt of the action is sent, to the target resolved for it; what succeeds was for them too.\<close>

lemma sent_for_action: "rq \<in> set (sends t a g) \<Longrightarrow> att_actionID t = act_id a \<and> resolve a = (g, None)"
  using attempt_rejected [of t a zero_time g] target_rejected [of a g zero_time t]
  unfolding sends_def by (metis empty_iff empty_set)

lemma succeeded_for_action: "dispatch now t a g = (rqs, r, None) \<Longrightarrow> att_actionID t = act_id a \<and> resolve a = (g, None)"
  using attempt_rejected [of t a now g] target_rejected [of a g now t] by (metis snd_conv)

lemma answer_kept:
  assumes "text_ok (att_id t)" "\<not> IsZero now" "dispatch now t a g = (rqs, r, e)"
  shows "normalizeDispatch r name (att_id t) = (r, None)"
  using answered [OF assms] by (simp add: normalizeDispatch_def)

text \<open>An execution sends at most one request, for the claimed attempt, and the outcome tells its exchange.\<close>

lemma execute_sends_once:
  assumes "plays (execute rt (Some u) input auth) tr (r, e)" and "list_all answers tr"
  shows "run_sends sends tr = [] \<or>
    (\<exists>rq now t es g rest. run_sends sends tr = [rq]
       \<and> tr = [DidNow now, DidBegin CallerCtx (xi_Action input) t es (True, None),
               DidAdmit CallerCtx (xi_Action input) (AdmissionAdmitted, None)] @ rest
       \<and> attempt_ok t \<and> att_id t = xi_AttemptID input \<and> resolve (xi_Action input) = (g, None)
       \<and> sends t (xi_Action input) g = [rq] \<and> o_dispatch (er_Outcome r) = exchange rq)"
proof (cases "dispatched tr = []")
  case True
  then show ?thesis by (simp add: no_dispatch_no_sends)
next
  case False
  let ?a = "xi_Action input"
  from execute_order_outcome [OF assms(1) False] obtain now t es now' ev g ans rest where
    tr: "tr = [DidNow now, DidBegin CallerCtx ?a t es (True, None), DidAdmit CallerCtx ?a (AdmissionAdmitted, None),
      DidNow now', DidAppend (RecordCtx (ua_recordTimeout u)) [ev] None, DidResolve CallerCtx ?a (g, None),
      DidDispatch CallerCtx t ?a g ans] @ rest"
    and i: "att_id t = xi_AttemptID input" "attempt_ok t" and once: "dispatched tr = [xi_AttemptID input]"
    and out: "let st = dr_status (fst (normalizeDispatch (fst ans) (tgt_provider g) (att_id t)))
       in er_Outcome r = outcome AdmissionAdmitted st (dispatch_effect st)"
    by blast
  have quiet: "dispatched rest = []" using once unfolding tr by simp
  have g: "resolve ?a = (g, None)" using assms(2) unfolding tr by (simp add: answers_def)
  obtain now2 where now2: "\<not> IsZero now2" "ans = snd (dispatch now2 t ?a g)"
    using assms(2) unfolding tr by (auto simp: answers_def)
  obtain rqs d err where h: "dispatch now2 t ?a g = (rqs, d, err)" by (cases "dispatch now2 t ?a g")
  have ok: "text_ok (att_id t)" using i(2) by (simp add: attempt_ok_def)
  note d = answered [OF ok now2(1) h] answer_kept [OF ok now2(1) h]
  have rq: "run_sends sends tr = rqs"
    using no_dispatch_no_sends [OF quiet] sends_at [of now2 t ?a g] h unfolding tr by (simp add: call_sends_def)
  show ?thesis
  proof (cases rqs)
    case Nil
    with rq show ?thesis by simp
  next
    case (Cons rq0 rest0)
    with d(1) have st: "rest0 = []" "dr_status d = exchange rq0" by simp_all
    have "dispatch_valid (dr_status d)" using d(1) dispatch_ok_valid by simp
    then have "o_dispatch (er_Outcome r) = exchange rq0"
      using out resolved [OF g] d(2) now2(2) h st(2)
      by (simp add: Let_def outcome_dispatch admission_valid_iff dispatch_effect_def effect_valid_iff)
    moreover have "sends t ?a g = [rq0]" using sends_at [of now2 t ?a g] h Cons st(1) by simp
    ultimately show ?thesis using rq Cons st(1) tr i g by auto
  qed
qed

end

subsection \<open>Evidence\<close>

text \<open>
  An observer validates the target before it reads or labels anything, and what it returns is admissible
  evidence about the target of the action. A verifier cites only observations of that target it was given.
\<close>

locale evidence_source =
  fixes resolve :: "Action \<Rightarrow> ResolvedTarget \<times> err option"
    and observe :: "gtime \<Rightarrow> Action \<Rightarrow> ResolvedTarget \<Rightarrow> 'rq list \<times> Observation list \<times> err option"
    and verify :: "Action \<Rightarrow> Observation list \<Rightarrow> gtime \<Rightarrow> VerificationResult \<times> err option"
  assumes reads_any_time: "fst (observe now a g) = fst (observe now' a g)"
    and unresolved_unobserved: "resolve a \<noteq> (g, None) \<Longrightarrow> fst (observe now a g) = [] \<and> fst (snd (observe now a g)) = []"
    and observed: "observe now a g = (rqs, obs, e) \<Longrightarrow> \<forall>b\<in>set obs. observation_ok b \<and> obs_target b = act_target a"
    and cited: "verify a obs u = (v, e) \<Longrightarrow> i \<in> set (vr_observationIDs v) \<Longrightarrow>
      \<exists>b\<in>set obs. obs_id b = i \<and> obs_target b = act_target a"
begin

definition assesses :: "call \<Rightarrow> bool" where
  "assesses did =
    (case did of
       DidResolve c a ans \<Rightarrow> ans = resolve a
     | DidObserve c a g ans \<Rightarrow> \<exists>now. ans = snd (observe now a g)
     | DidVerify c a obs u ans \<Rightarrow> ans = verify a obs u
     | _ \<Rightarrow> True)"

definition reads :: "Action \<Rightarrow> ResolvedTarget \<Rightarrow> 'rq list" where
  "reads a g = fst (observe zero_time a g)"

text \<open>
  When an assessment records anything, it observed the target resolved for the action, the verdict was
  reached on exactly those observations, and every one it cites has its fact in the recorded group.
\<close>

lemma verify_evidence:
  assumes "plays (VerifyAttempt_Verify rt (Some u) input) tr (r, e)" and "list_all assesses tr" and "recorded tr \<noteq> []"
  shows "\<exists>g now oe asOf ve. resolve (vi_Action input) = (g, None) \<and> run_reads reads tr = reads (vi_Action input) g
    \<and> observe now (vi_Action input) g = (reads (vi_Action input) g, vo_Observations r, oe)
    \<and> verify (vi_Action input) (vo_Observations r) asOf = (vo_Verification r, ve)
    \<and> told (vi_Action input) (vi_AttemptID input) (recorded tr)
        (replicate (length (vo_Observations r)) EventObservationRecorded @ verdict_kinds (vo_Verification r))
    \<and> (\<forall>i\<in>set (vr_observationIDs (vo_Verification r)). \<exists>b\<in>set (vo_Observations r).
         obs_id b = i \<and> observation_ok b \<and> obs_target b = act_target (vi_Action input))"
proof -
  let ?a = "vi_Action input"
  from verify_calls [OF assms(1)] assms(3) obtain evs st g os oe now v ve facts where
    tr: "tr = [DidEvents CallerCtx (vi_AttemptID input) (evs, None), DidAction CallerCtx (act_id ?a) (st, True, None),
      DidResolve CallerCtx ?a (g, None), DidObserve CallerCtx ?a g (os, oe), DidNow now,
      DidVerify CallerCtx ?a os (UTC now) (v, ve), DidAppend (RecordCtx (va_recordTimeout u)) facts None]"
    and told: "told ?a (vi_AttemptID input) facts (replicate (length os) EventObservationRecorded @ verdict_kinds v)"
    and r: "vo_Observations r = os" "vo_Verification r = v"
    by blast
  have g: "resolve ?a = (g, None)" and v: "verify ?a os (UTC now) = (v, ve)"
    using assms(2) unfolding tr by (simp_all add: assesses_def)
  obtain now2 where "(os, oe) = snd (observe now2 ?a g)" using assms(2) unfolding tr by (auto simp: assesses_def)
  then have ob: "observe now2 ?a g = (reads ?a g, os, oe)"
    using reads_any_time [of now2 ?a g zero_time] by (cases "observe now2 ?a g") (simp add: reads_def)
  have "run_reads reads tr = reads ?a g" "recorded tr = facts"
    unfolding tr by (simp_all add: run_reads_def call_reads_def recorded_def)
  moreover have "\<exists>b\<in>set os. obs_id b = i \<and> observation_ok b \<and> obs_target b = act_target ?a"
    if "i \<in> set (vr_observationIDs v)" for i
    using cited [OF v that] observed [OF ob] by blast
  ultimately show ?thesis using g v ob told r by auto
qed

end

end
