(* ===== verification/HA_System.thy ===== *)
theory HA_System
  imports Provider_Spec HA_Observation System_Properties
begin

text \<open>
  The Home Assistant adapter keeps the contracts of Provider_Spec, and the use cases over it: the HTTP
  requests of a whole run, whatever the network, the journal, the admitter and the clock answer.
\<close>

subsection \<open>The provider\<close>

lemma requests_any_time:
  "fst (HA_Dispatch jt env now p t a g) = fst (HA_Dispatch jt env now' p t a g)"
  by (auto simp: HA_Dispatch_def split: sum.split prod.split)

text \<open>The requests of a run, and the answers of the provider in it.\<close>

definition run_requests :: "json_texts \<Rightarrow> http_env \<Rightarrow> Provider \<Rightarrow> call list \<Rightarrow> http_request list" where
  "run_requests jt env p = run_sends (\<lambda>t a g. fst (HA_Dispatch jt env zero_time p t a g))"

definition answered_by :: "json_texts \<Rightarrow> http_env \<Rightarrow> Provider \<Rightarrow> call \<Rightarrow> bool" where
  "answered_by jt env p did =
    (case did of
       DidDispatch c t a g ans \<Rightarrow> \<exists>now. \<not> IsZero now \<and> ans = snd (HA_Dispatch jt env now p t a g)
     | DidResolve c a ans \<Rightarrow> ans = HA_Resolve p a
     | _ \<Rightarrow> True)"

lemma HA_Resolve_provider: "HA_Resolve p a = (g, None) \<Longrightarrow> tgt_provider g = ProviderID"
  by (auto simp: HA_Resolve_def resolve_target_def NewResolvedTarget_def split: option.splits)

lemma entity_text:
  assumes "entity_ok e"
  shows "text_ok e"
proof -
  from assms obtain d ob where e: "e = d @ CHR ''.'' # ob" "validSegment d" "validSegment ob"
    by (auto simp: entity_ok_def)
  have "visible c" if "segment_char c" for c using that by (auto simp: segment_char_def visible_def code_def)
  with e show ?thesis by (intro visible_text_ok) (auto simp: validSegment_iff list_all_iff hd_append)
qed

text \<open>What the translator accepts as a target is what it resolves.\<close>

lemma entityFor_resolves:
  assumes "entityFor (pv_translator p) a g = Inr entity"
  shows "HA_Resolve p a = (g, None)"
proof -
  have g: "tgt_provider g = ProviderID" "map_of (tr_bindings (pv_translator p)) (act_target a) = Some (tgt_endpoint g)"
    "text_ok (tgt_endpoint g)" using assms entity_text by (auto simp: entityFor_Inr_iff)
  then show ?thesis
    by (cases g) (simp add: HA_Resolve_def resolve_target_def NewResolvedTarget_def)
qed

lemma dispatch_rejected:
  assumes "att_actionID t \<noteq> act_id a \<or> HA_Resolve p a \<noteq> (g, None)"
  shows "fst (HA_Dispatch jt env now p t a g) = [] \<and> snd (snd (HA_Dispatch jt env now p t a g)) \<noteq> None"
proof -
  have err: "snd (HA_result i st rc (Some x)) \<noteq> None" for i st rc x by (simp add: HA_result_def split: sum.split)
  have "\<exists>x. dispatchRequest jt (pv_translator p) a g = Inl x" if "HA_Resolve p a \<noteq> (g, None)"
    using that entityFor_resolves by (cases "entityFor (pv_translator p) a g") (auto simp: dispatchRequest_def)
  with assms err show ?thesis by (auto simp: HA_Dispatch_def)
qed

interpretation ha: physical_provider ProviderID "HA_Resolve p" "\<lambda>now. HA_Dispatch jt env now p" "exchange_status env"
  for p jt env
proof
  fix t now a g rqs r e
  assume a: "text_ok (att_id t)" "\<not> IsZero now" "HA_Dispatch jt env now p t a g = (rqs, r, e)"
  show "dispatch_ok r \<and> dr_provider r = ProviderID \<and> dr_attemptID r = att_id t
      \<and> (\<forall>rq rest. rqs = rq # rest \<longrightarrow> rest = [] \<and> dr_status r = exchange_status env rq)"
    using dispatch_exchange [OF a(3,1,2)]
    by (cases rule: HA_Dispatch_cases [OF a(3,1,2)]) (auto simp: HA_answer_def)
qed (rule HA_Resolve_provider requests_any_time, assumption | rule requests_any_time | rule dispatch_rejected, simp)+

lemma run_requests_sends: "run_requests jt env p = run_sends (physical_provider.sends (\<lambda>now. HA_Dispatch jt env now p))"
  by (simp add: run_requests_def ha.sends_def [abs_def])

lemma answered_by_answers: "answered_by jt env p = physical_provider.answers (HA_Resolve p) (\<lambda>now. HA_Dispatch jt env now p)"
  by (simp add: answered_by_def [abs_def] ha.answers_def [abs_def])

lemma execute_once:
  assumes "plays (execute rt (Some u) input auth) tr (r, e)"
    and "list_all (answered_by jt env p) tr"
  shows "run_requests jt env p tr = [] \<or>
    (\<exists>rq now t es rest. run_requests jt env p tr = [rq]
       \<and> tr = [DidNow now, DidBegin CallerCtx (xi_Action input) t es (True, None),
               DidAdmit CallerCtx (xi_Action input) (AdmissionAdmitted, None)] @ rest
       \<and> att_id t = xi_AttemptID input \<and> rq_method rq = ''POST''
       \<and> (\<exists>entity domain ob. map_of (tr_bindings (pv_translator p)) (act_target (xi_Action input)) = Some entity
            \<and> entity = domain @ CHR ''.'' # ob
            \<and> rq_url rq = (rc_baseURL (pv_client p))\<lparr>u_path := u_path (rc_baseURL (pv_client p))
                @ ''/api/services/'' @ domain @ ''/'' @ act_name (xi_Action input)\<rparr>)
       \<and> o_dispatch (er_Outcome r) = exchange_status env rq)"
  using ha.execute_sends_once [OF assms(1) assms(2) [unfolded answered_by_answers]]
proof (elim disjE exE conjE)
  fix rq now t es g rest
  let ?a = "xi_Action input" and ?now = "\<lparr>t_ns = 1, t_off = 0\<rparr>"
  assume one: "run_sends (physical_provider.sends (\<lambda>now. HA_Dispatch jt env now p)) tr = [rq]"
    and tr: "tr = [DidNow now, DidBegin CallerCtx ?a t es (True, None), DidAdmit CallerCtx ?a (AdmissionAdmitted, None)] @ rest"
    and t: "attempt_ok t" "att_id t = xi_AttemptID input" and out: "o_dispatch (er_Outcome r) = exchange_status env rq"
    and sent: "physical_provider.sends (\<lambda>now. HA_Dispatch jt env now p) t ?a g = [rq]"
  obtain d err where h: "HA_Dispatch jt env ?now p t ?a g = ([rq], d, err)"
    using sent ha.sends_at [of jt env ?now p t ?a g] by (cases "HA_Dispatch jt env ?now p t ?a g") simp
  have "text_ok (att_id t)" "\<not> IsZero ?now" using t(1) by (simp_all add: attempt_ok_def IsZero_def)
  from dispatch_request [OF h this, of rq] one tr t(2) out show ?thesis by (auto simp: run_requests_sends)
qed (simp add: run_requests_sends)

text \<open>One execution with the Home Assistant provider sends at most one HTTP request, whatever the network
  does. When it sends one, the attempt was claimed and admitted first, the request is the POST to the
  service of the bound entity, and the dispatch status of the outcome is unknown, dispatched or
  acknowledged exactly as the exchange went.\<close>

lemma homeassistant_execute_once:
  assumes "plays (execute rt (Some u) input auth) tr (r, e)"
    and "list_all (answered_by jt env p) tr"
  shows "run_requests jt env p tr = [] \<or>
    (\<exists>rq now t es rest. run_requests jt env p tr = [rq]
       \<and> tr = [DidNow now, DidBegin CallerCtx (xi_Action input) t es (True, None),
               DidAdmit CallerCtx (xi_Action input) (AdmissionAdmitted, None)] @ rest
       \<and> att_id t = xi_AttemptID input \<and> rq_method rq = ''POST''
       \<and> (\<exists>entity domain ob. map_of (tr_bindings (pv_translator p)) (act_target (xi_Action input)) = Some entity
            \<and> entity = domain @ CHR ''.'' # ob
            \<and> rq_url rq = (rc_baseURL (pv_client p))\<lparr>u_path := u_path (rc_baseURL (pv_client p))
                @ ''/api/services/'' @ domain @ ''/'' @ act_name (xi_Action input)\<rparr>)
       \<and> o_dispatch (er_Outcome r) = exchange_status env rq)"
  using assms by (rule execute_once)

subsection \<open>The lamp switched on\<close>

definition lamp_ports :: ports where
  "lamp_ports = example_ports\<lparr>pt_resolve := HA_Resolve lamp_provider example_action,
     pt_dispatch := snd (HA_Dispatch lamp_texts lamp_env lamp_clock lamp_provider lamp_attempt example_action lamp_target)\<rparr>"

lemma HA_Dispatch_attempt:
  assumes "att_id t = att_id t'" "att_actionID t = att_actionID t'"
  shows "HA_Dispatch jt env now p t a g = HA_Dispatch jt env now p t' a g"
  unfolding HA_Dispatch_def assms ..

lemma lamp_resolved: "HA_Resolve lamp_provider example_action = (lamp_target, None)"
  by (simp add: HA_Resolve_def resolve_target_def lamp_provider_def example_action_def NewResolvedTarget_def lamp_target_def)

definition lamp_run :: "call list \<times> ExecuteResult \<times> err option" where
  "lamp_run = run lamp_ports (Execute mirror_rt (Some example_use_case) example_input)"

lemma run_resolve_answer: "DidResolve c a ans \<in> set (fst (run w p)) \<Longrightarrow> ans = pt_resolve w"
  by (induction p) auto

lemma lamp_answer:
  "\<exists>rq d. HA_Dispatch lamp_texts lamp_env lamp_clock lamp_provider lamp_attempt example_action lamp_target = ([rq], d, None)
     \<and> dispatch_ok d \<and> printable_receipt d \<and> dr_provider d = ProviderID \<and> dr_attemptID d = ''t''
     \<and> pt_dispatch lamp_ports = (d, None)"
proof -
  obtain rq d where d: "HA_Dispatch lamp_texts lamp_env lamp_clock lamp_provider lamp_attempt example_action lamp_target = ([rq], d, None)"
    using lamp_dispatch by blast
  have a: "HA_answer ''t'' d" using d lamp_values
    by (cases rule: HA_Dispatch_cases) (simp_all add: lamp_attempt_def)
  have "printable_time (UTC \<lparr>t_ns = 2, t_off = 0\<rparr>)" by (rule example_time)
  then have "printable_receipt d" using dispatch_exchange [OF d lamp_values]
    by (auto simp: printable_receipt_def lamp_clock_def UTC_def split: option.splits)
  with a d show ?thesis by (auto simp: HA_answer_def lamp_ports_def)
qed

lemma lamp_played: "plays (execute mirror_rt (Some example_use_case) example_input None) (fst lamp_run) (snd lamp_run)"
  unfolding lamp_run_def Execute_def by (rule run_plays)

lemma lamp_once: "dispatched (fst lamp_run) = [''t'']"
proof -
  obtain d where "pt_dispatch lamp_ports = (d, None)" "dispatch_ok d" "printable_receipt d"
    "dr_provider d = tgt_provider lamp_target" "dr_attemptID d = ''t''"
    using lamp_answer by (auto simp: lamp_target_def)
  then show ?thesis
    using undisturbed_run [of example_action "''t''" lamp_ports lamp_target d None mirror_rt example_use_case]
      example_conditions(1-8) lamp_resolved
    by (simp add: lamp_run_def example_input_def lamp_ports_def split_beta)
qed

lemma lamp_calls: "c \<in> set (fst lamp_run) \<Longrightarrow> records_for example_action ''t'' c"
  using bspec [OF only_plays [OF lamp_played execute_own]] by (simp add: example_input_def)

lemma lamp_resolve_call: "DidResolve x a ans \<in> set (fst lamp_run) \<Longrightarrow> a = example_action \<and> ans = (lamp_target, None)"
  using lamp_calls [of "DidResolve x a ans"] run_resolve_answer [of x a ans lamp_ports] lamp_resolved
  by (auto simp: lamp_run_def lamp_ports_def)

lemma lamp_dispatch_call:
  assumes c: "DidDispatch x t a g ans \<in> set (fst lamp_run)"
  shows "a = example_action \<and> g = lamp_target
    \<and> HA_Dispatch jt env now p t a g = HA_Dispatch jt env now p lamp_attempt example_action lamp_target
    \<and> ans = snd (HA_Dispatch lamp_texts lamp_env lamp_clock lamp_provider lamp_attempt example_action lamp_target)"
proof -
  obtain u t' es u' ev g' ans' rest where tr: "fst lamp_run = [DidNow u, DidBegin CallerCtx example_action t' es (True, None),
      DidAdmit CallerCtx example_action (AdmissionAdmitted, None), DidNow u',
      DidAppend (RecordCtx (ua_recordTimeout example_use_case)) [ev] None, DidResolve CallerCtx example_action (g', None),
      DidDispatch CallerCtx t' example_action g' ans'] @ rest"
    using execute_order [of mirror_rt example_use_case example_input None "fst lamp_run" "fst (snd lamp_run)" "snd (snd lamp_run)"]
      lamp_played lamp_once by (auto simp: example_input_def)
  then have "g' = lamp_target" using lamp_resolve_call [of CallerCtx example_action "(g', None)"] by simp
  moreover have "DidDispatch x t a g ans \<notin> set rest" using lamp_once tr by (auto simp: dispatched_def)
  ultimately have "g = lamp_target" using c tr by auto
  moreover have "a = example_action" "att_id t = att_id lamp_attempt" "att_actionID t = att_actionID lamp_attempt"
    using lamp_calls [OF c] by (simp_all add: attempt_for_def lamp_attempt_def example_action_def)
  moreover from this(2,3) have "HA_Dispatch jt env now p t a g = HA_Dispatch jt env now p lamp_attempt a g"
    by (rule HA_Dispatch_attempt)
  moreover have "ans = pt_dispatch lamp_ports" using run_dispatch_answer [of x t a g ans lamp_ports] c by (simp add: lamp_run_def)
  ultimately show ?thesis by (simp add: lamp_ports_def)
qed

lemma lamp_run_answers: "list_all (answered_by lamp_texts lamp_env lamp_provider) (fst lamp_run)"
proof -
  have "answered_by lamp_texts lamp_env lamp_provider c" if c: "c \<in> set (fst lamp_run)" for c
  proof (cases c)
    case (DidResolve x a ans)
    with c lamp_resolve_call [of x a ans] lamp_resolved show ?thesis by (simp add: answered_by_def)
  next
    case (DidDispatch x t a g ans)
    with c lamp_dispatch_call [of x t a g ans lamp_texts lamp_env lamp_clock lamp_provider] lamp_values(2)
    show ?thesis by (auto simp: answered_by_def intro!: exI [of _ lamp_clock])
  qed (simp_all add: answered_by_def)
  then show ?thesis by (simp add: list_all_iff)
qed

lemma lamp_run_requests: "run_requests lamp_texts lamp_env lamp_provider (fst lamp_run) \<noteq> []"
proof -
  have "''t'' \<in> set (dispatched (fst lamp_run))" using lamp_once by simp
  then obtain c where c: "c \<in> set (fst lamp_run)" "''t'' \<in> set (dispatched_by c)" by (auto simp: dispatched_def)
  from c(2) obtain x t a g ans where d: "c = DidDispatch x t a g ans" by (cases c) simp_all
  have "call_sends (\<lambda>t a g. fst (HA_Dispatch lamp_texts lamp_env zero_time lamp_provider t a g)) c =
      fst (HA_Dispatch lamp_texts lamp_env zero_time lamp_provider lamp_attempt example_action lamp_target)"
    using lamp_dispatch_call [OF c(1) [unfolded d], of lamp_texts lamp_env zero_time lamp_provider] by (auto simp: d call_sends_def)
  also have "\<dots> \<noteq> []"
    using lamp_dispatch requests_any_time [of lamp_texts lamp_env zero_time lamp_provider lamp_attempt example_action lamp_target lamp_clock]
    by auto
  finally show ?thesis using c(1) by (auto simp: run_requests_def run_sends_def)
qed

lemma homeassistant_execute_once_witness:
  "\<exists>rq. run_requests lamp_texts lamp_env lamp_provider (fst lamp_run) = [rq] \<and> rq_method rq = ''POST''
     \<and> o_dispatch (er_Outcome (fst (snd lamp_run))) = DispatchAcknowledged"
proof -
  have "plays (execute mirror_rt (Some example_use_case) example_input None) (fst lamp_run) (fst (snd lamp_run), snd (snd lamp_run))"
    using lamp_played by simp
  from homeassistant_execute_once [OF this lamp_run_answers] lamp_run_requests obtain rq where
    "run_requests lamp_texts lamp_env lamp_provider (fst lamp_run) = [rq]" "rq_method rq = ''POST''"
    "o_dispatch (er_Outcome (fst (snd lamp_run))) = exchange_status lamp_env rq" by blast
  then show ?thesis by (auto simp: exchange_status_def lamp_env_def success_status_def)
qed

end
