(* ===== verification/HA_Evidence.thy ===== *)
theory HA_Evidence
  imports HA_System
begin

text \<open>
  The evidence side of the Home Assistant adapter keeps its contract, and an assessment over it: what a
  recorded verdict rests on, from the HTTP response to the facts in the journal.
\<close>

subsection \<open>The contract\<close>

lemma observe_any_time:
  "fst (HA_Observe rt jt env now p a g) = fst (HA_Observe rt jt env now' p a g)"
  by (auto simp: HA_Observe_def split: sum.split prod.split)

lemma observe_rejected:
  "HA_Resolve p a \<noteq> (g, None) \<Longrightarrow>
    fst (HA_Observe rt jt env now p a g) = [] \<and> fst (snd (HA_Observe rt jt env now p a g)) = []"
  using entityFor_resolves by (cases "entityFor (pv_translator p) a g") (auto simp: HA_Observe_def)

lemma observe_made:
  assumes "HA_Observe rt jt env now p a g = (rqs, obs, e)"
  shows "\<forall>b\<in>set obs. observation_ok b \<and> obs_target b = act_target a"
  using observation_sound [OF assms] by (cases "e = None") auto

text \<open>A result of the state verifier cites at most the observation that was selected.\<close>

lemma result_cites: "set (vr_observationIDs (fst (StateVerifier_result st asOf ob reason))) \<subseteq> obs_id ` set_option ob"
proof (cases "NewVerificationResult \<lparr>vs_Status = st, vs_Verifier = stateVerifierID, vs_CheckedAt = asOf,
       vs_ObservationIDs = (case ob of None \<Rightarrow> [] | Some b \<Rightarrow> [obs_id b]), vs_Reason = reason\<rparr>")
  case (Inl x)
  then show ?thesis by (simp add: StateVerifier_result_def zero_verification_def)
next
  case (Inr x)
  then show ?thesis
    by (cases ob)
       (auto simp: StateVerifier_result_def NewVerificationResult_def zero_verification_def split: if_splits option.splits)
qed

lemma result_with_cites: "set (vr_observationIDs (fst (result_with st asOf ob reason e))) \<subseteq> obs_id ` set_option ob"
  using result_cites [of st asOf ob reason] by (auto simp: result_with_def zero_verification_def split: prod.split)

lemma verify_fresh_cites: "set (vr_observationIDs (fst (verify_fresh jt a b asOf))) \<subseteq> {obs_id b}"
proof -
  have state: "set (vr_observationIDs (fst (compareState got want asOf b))) \<subseteq> {obs_id b}" for got want
    using result_cites [of _ asOf "Some b"] by (simp add: compareState_def)
  have temperature: "set (vr_observationIDs (fst (compareTemperature jt input raw asOf b))) \<subseteq> {obs_id b}" for input raw
    using result_cites [of _ asOf "Some b"] result_with_cites [of _ asOf "Some b"]
    by (simp add: compareTemperature_def Let_def zero_verification_def split: option.split)
  show ?thesis
    using state temperature result_cites [of _ asOf "Some b"] result_with_cites [of _ asOf "Some b"]
    by (simp add: verify_fresh_def split: option.split)
qed

lemma verifier_cites:
  assumes "StateVerifier_Verify jt v a obs asOf = (r, e)" "i \<in> set (vr_observationIDs r)"
  shows "\<exists>b\<in>set obs. obs_id b = i \<and> obs_target b = act_target a"
proof (cases "select_observation (act_target a) obs None")
  case None
  with result_cites [of VerificationInconclusive asOf None "''no matching observation''"] assms show ?thesis
    by (simp add: StateVerifier_Verify_def)
next
  case (Some b)
  have "set (vr_observationIDs (fst (StateVerifier_Verify jt v a obs asOf))) \<subseteq> {obs_id b}"
    using result_cites [of _ asOf "Some b"] verify_fresh_cites by (simp add: StateVerifier_Verify_def Some Let_def)
  with assms select_freshest [OF Some] show ?thesis by (auto simp: freshest_def)
qed

interpretation ha_evidence: evidence_source "HA_Resolve p" "\<lambda>now. HA_Observe rt jt env now p" "StateVerifier_Verify jt v"
  for p rt jt env v
  by unfold_locales (rule observe_any_time, rule observe_rejected, assumption, rule observe_made, assumption,
    rule verifier_cites)
subsection \<open>From the response to the verdict\<close>

text \<open>The requests of an assessment, and the answers of the adapter in it.\<close>

definition read_requests ::
    "go_runtime \<Rightarrow> json_texts \<Rightarrow> http_env \<Rightarrow> Provider \<Rightarrow> call list \<Rightarrow> http_request list" where
  "read_requests rt jt env p = run_reads (\<lambda>a g. fst (HA_Observe rt jt env zero_time p a g))"

definition assessed_by ::
    "go_runtime \<Rightarrow> json_texts \<Rightarrow> http_env \<Rightarrow> Provider \<Rightarrow> StateVerifier \<Rightarrow> call \<Rightarrow> bool" where
  "assessed_by rt jt env p v did =
    (case did of
       DidResolve c a ans \<Rightarrow> ans = HA_Resolve p a
     | DidObserve c a g ans \<Rightarrow> \<exists>now. ans = snd (HA_Observe rt jt env now p a g)
     | DidVerify c a obs u ans \<Rightarrow> ans = StateVerifier_Verify jt v a obs u
     | _ \<Rightarrow> True)"

lemma read_requests_reads:
  "read_requests rt jt env p = run_reads (evidence_source.reads (\<lambda>now. HA_Observe rt jt env now p))"
  by (simp add: read_requests_def ha_evidence.reads_def [abs_def])

lemma assessed_by_assesses: "assessed_by rt jt env p v =
    evidence_source.assesses (HA_Resolve p) (\<lambda>now. HA_Observe rt jt env now p) (StateVerifier_Verify jt v)"
  by (simp add: assessed_by_def [abs_def] ha_evidence.assesses_def [abs_def])

text \<open>The state \<open>b\<close> shows is the body of a complete success response to the request \<open>rq\<close> for the entity.\<close>

definition read_from :: "http_env \<Rightarrow> Provider \<Rightarrow> Action \<Rightarrow> http_request \<Rightarrow> Observation \<Rightarrow> bool" where
  "read_from env p a rq b \<longleftrightarrow> rq_method rq = ''GET''
     \<and> (\<exists>entity resp. map_of (tr_bindings (pv_translator p)) (act_target a) = Some entity
          \<and> rq_url rq = apiURL (pv_client p) [''states'', entity] \<and> he_do env rq = Inr resp
          \<and> success_status (hs_statusCode resp) \<and> hs_bodyErr resp = None \<and> obs_value b = hs_body resp)"

lemma verify_evidence_read:
  assumes played: "plays (VerifyAttempt_Verify rt (Some u) input) tr (r, e)" "list_all (assessed_by rt jt env p v) tr"
    and recorded: "recorded tr \<noteq> []" and verdict: "conclusive (vo_Verification r)"
  shows "\<exists>rq b st holds. read_requests rt jt env p tr = [rq] \<and> read_from env p (vi_Action input) rq b
    \<and> vo_Observations r = [b] \<and> vr_observationIDs (vo_Verification r) = [obs_id b]
    \<and> 0 \<le> TimeSub (vr_checkedAt (vo_Verification r)) (obs_observedAt b)
    \<and> TimeSub (vr_checkedAt (vo_Verification r)) (obs_observedAt b) \<le> sv_maxAge v
    \<and> Unmarshal (store_struct False ha_state_fields) (obs_value b) zero_ha_state = Some st
    \<and> effect_shown (vi_Action input) st = Some holds
    \<and> vr_status (vo_Verification r) = (if holds then VerificationVerified else VerificationUnsatisfied)
    \<and> told (vi_Action input) (vi_AttemptID input) (recorded tr)
        (EventObservationRecorded # verdict_kinds (vo_Verification r))"
proof -
  let ?a = "vi_Action input"
  from ha_evidence.verify_evidence [OF played(1) played(2) [unfolded assessed_by_assesses] recorded, folded read_requests_reads]
  obtain g now oe asOf ve where rqs: "read_requests rt jt env p tr = evidence_source.reads (\<lambda>now. HA_Observe rt jt env now p) ?a g"
    and ob: "HA_Observe rt jt env now p ?a g = (evidence_source.reads (\<lambda>now. HA_Observe rt jt env now p) ?a g, vo_Observations r, oe)"
    and v: "StateVerifier_Verify jt v ?a (vo_Observations r) asOf = (vo_Verification r, ve)"
    and told: "told ?a (vi_AttemptID input) (recorded tr)
        (replicate (length (vo_Observations r)) EventObservationRecorded @ verdict_kinds (vo_Verification r))"
    by blast
  from verdict_sound [OF v verdict] obtain b st holds where b: "freshest (act_target ?a) (vo_Observations r) b"
      "0 \<le> TimeSub asOf (obs_observedAt b)" "TimeSub asOf (obs_observedAt b) \<le> sv_maxAge v"
      "Unmarshal (store_struct False ha_state_fields) (obs_value b) zero_ha_state = Some st"
      "effect_shown ?a st = Some holds" "verdict_of holds asOf b (vo_Verification r) ve"
    by blast
  then have "vo_Observations r \<noteq> []" by (auto simp: freshest_def)
  with observation_sound [OF ob] obtain rq resp where o: "vo_Observations r = [b]"
      "read_requests rt jt env p tr = [rq]" "rq_method rq = ''GET''" "rq_url rq = apiURL (pv_client p) [''states'', tgt_endpoint g]"
      "he_do env rq = Inr resp" "success_status (hs_statusCode resp)" "hs_bodyErr resp = None" "obs_value b = hs_body resp"
      "map_of (tr_bindings (pv_translator p)) (act_target ?a) = Some (tgt_endpoint g)"
    using b(1) rqs by (auto simp: freshest_def split: if_splits)
  then have "read_from env p ?a rq b" by (simp add: read_from_def)
  with o(1,2) b told show ?thesis
    by (intro exI [of _ rq] exI [of _ b] exI [of _ st] exI [of _ holds]) (simp add: verdict_of_def)
qed

text \<open>C37: with the Home Assistant provider and the state verifier, an assessment that records a conclusive
  verdict made one request in its run, the GET of the state of the bound entity; the response was a
  complete success; its body, no older than the window at the time of the verdict, decodes to a state
  that shows or contradicts the effect of the action, and the verdict says which. The verdict cites that
  observation and nothing else, and both are recorded in one group, for this action and attempt.\<close>

theorem homeassistant_verify_evidence:
  assumes "plays (VerifyAttempt_Verify rt (Some u) input) tr (r, e)" "list_all (assessed_by rt jt env p v) tr"
    and "recorded tr \<noteq> []" and "conclusive (vo_Verification r)"
  shows "\<exists>rq b st holds. read_requests rt jt env p tr = [rq] \<and> read_from env p (vi_Action input) rq b
    \<and> vo_Observations r = [b] \<and> vr_observationIDs (vo_Verification r) = [obs_id b]
    \<and> 0 \<le> TimeSub (vr_checkedAt (vo_Verification r)) (obs_observedAt b)
    \<and> TimeSub (vr_checkedAt (vo_Verification r)) (obs_observedAt b) \<le> sv_maxAge v
    \<and> Unmarshal (store_struct False ha_state_fields) (obs_value b) zero_ha_state = Some st
    \<and> effect_shown (vi_Action input) st = Some holds
    \<and> vr_status (vo_Verification r) = (if holds then VerificationVerified else VerificationUnsatisfied)
    \<and> told (vi_Action input) (vi_AttemptID input) (recorded tr)
        (EventObservationRecorded # verdict_kinds (vo_Verification r))"
  using assms by (rule verify_evidence_read)

subsection \<open>The lamp assessed\<close>

definition checked_ports :: ports where
  "checked_ports = verify_ports\<lparr>pt_now := \<lparr>t_ns = 63924811200000000001, t_off = 0\<rparr>, pt_resolve := (lamp_target, None),
     pt_observe := ([lamp_observation], None), pt_verify := (lamp_verdict, None)\<rparr>"

definition checked_run :: "call list \<times> VerifyResult \<times> err option" where
  "checked_run = run checked_ports (VerifyAttempt_Verify example_rt
     (Some \<lparr>va_now = TimeNow, va_recordTimeout = defaultRecordTimeout\<rparr>)
     \<lparr>vi_Action = example_action, vi_AttemptID = ''t''\<rparr>)"

definition checked_trace :: "ExecutionEvent list \<Rightarrow> call list" where
  "checked_trace events = [DidEvents CallerCtx ''t'' ([example_fact ''1'' EventActionDispatched], None),
      DidAction CallerCtx ''a'' (example_action, True, None), DidResolve CallerCtx example_action (lamp_target, None),
      DidObserve CallerCtx example_action lamp_target ([lamp_observation], None),
      DidNow \<lparr>t_ns = 63924811200000000001, t_off = 0\<rparr>,
      DidVerify CallerCtx example_action [lamp_observation] \<lparr>t_ns = 63924811200000000001, t_off = 0\<rparr> (lamp_verdict, None),
      DidAppend (RecordCtx defaultRecordTimeout) events None]"

definition checked_result :: VerifyResult where
  "checked_result = \<lparr>vo_ActionID = ''a'', vo_AttemptID = ''t'', vo_Target = lamp_target, vo_Observations = [lamp_observation],
      vo_Verification = lamp_verdict\<rparr>"

lemma checked_facts: "\<exists>events. checked_run = (checked_trace events, checked_result, None) \<and> events \<noteq> []"
proof -
  have "local_year \<lparr>t_ns = 63924811200000000001, t_off = 0\<rparr> = 2026" "local_year \<lparr>t_ns = 63924811200000000000, t_off = 0\<rparr> = 2026"
    by code_simp+
  then have time: "printable_time \<lparr>t_ns = 63924811200000000001, t_off = 0\<rparr>" "printable_time \<lparr>t_ns = 63924811200000000000, t_off = 0\<rparr>"
    using printable_utc [of "\<lparr>t_ns = 63924811200000000001, t_off = 0\<rparr>"] printable_utc [of "\<lparr>t_ns = 63924811200000000000, t_off = 0\<rparr>"]
    by (simp_all add: UTC_def)
  have ok: "text_ok (act_id example_action)" "observation_ok lamp_observation"
    using lamp_observation_ok by (simp_all add: example_action_def observation_ok_def lamp_observation_def IsZero_def lamp_clock_def)
  obtain e1 where "observationEvent example_rt example_action ''t'' lamp_observation = Inr e1"
    using observationEvent_succeeds [of example_action "''t''" lamp_observation example_rt] ok time example_time
    by (auto simp: lamp_observation_def lamp_clock_def UTC_def)
  moreover obtain e2 where "verificationEvents example_rt example_action ''t'' lamp_verdict None
      \<lparr>t_ns = 63924811200000000001, t_off = 0\<rparr> = Inr e2"
    using verificationEvents_succeed [of example_action "''t''" "\<lparr>t_ns = 63924811200000000001, t_off = 0\<rparr>" lamp_verdict example_rt None]
      ok time by (auto simp: IsZero_def lamp_verdict_def)
  moreover have "act_id example_action = ''a''" "vr_status lamp_verdict \<noteq> VerificationUnknown"
    by (simp_all add: example_action_def lamp_verdict_def verification_status_defs)
  moreover have "ev_actionID (example_fact ''1'' EventActionDispatched) = ''a''" by (simp add: example_fact_def)
  ultimately show ?thesis
    by (simp add: checked_run_def VerifyAttempt_Verify_def checked_ports_def verify_ports_def example_ports_def
        verify_assess_def verify_record_def assessment_facts_def Let_def UTC_def zero_verify_result_def
        sameAction_def TimeEqual_def errorsJoin_def List.map_filter_def checked_trace_def checked_result_def)
qed

lemma checked_answers: "list_all (assessed_by example_rt lamp_texts lamp_env lamp_provider \<lparr>sv_maxAge = 5\<rparr>) (fst checked_run)"
proof -
  obtain events where c: "checked_run = (checked_trace events, checked_result, None)" using checked_facts by blast
  show ?thesis
    using lamp_resolved lamp_verified lamp_observed unfolding c
    by (auto simp: assessed_by_def checked_trace_def intro!: exI [of _ lamp_clock])
qed

lemma homeassistant_verify_evidence_witness:
  "\<exists>rq st. read_requests example_rt lamp_texts lamp_env lamp_provider (fst checked_run) = [rq]
    \<and> read_from lamp_env lamp_provider example_action rq lamp_observation
    \<and> effect_shown example_action st = Some True
    \<and> told example_action ''t'' (recorded (fst checked_run)) (EventObservationRecorded # verdict_kinds lamp_verdict)"
proof -
  have p: "plays (VerifyAttempt_Verify example_rt (Some \<lparr>va_now = TimeNow, va_recordTimeout = defaultRecordTimeout\<rparr>)
     \<lparr>vi_Action = example_action, vi_AttemptID = ''t''\<rparr>) (fst checked_run) (fst (snd checked_run), snd (snd checked_run))"
    unfolding checked_run_def using run_plays by (metis prod.collapse)
  have "recorded (fst checked_run) \<noteq> []" "vo_Verification (fst (snd checked_run)) = lamp_verdict"
    "vo_Observations (fst (snd checked_run)) = [lamp_observation]"
  proof -
    obtain events where c: "checked_run = (checked_trace events, checked_result, None)" "events \<noteq> []"
      using checked_facts by blast
    show "recorded (fst checked_run) \<noteq> []" "vo_Verification (fst (snd checked_run)) = lamp_verdict"
      "vo_Observations (fst (snd checked_run)) = [lamp_observation]"
      using c(2) unfolding c(1) by (simp_all add: recorded_def checked_trace_def checked_result_def)
  qed
  moreover have "conclusive lamp_verdict" by (simp add: conclusive_def lamp_verdict_def)
  ultimately show ?thesis
    using homeassistant_verify_evidence [OF p checked_answers]
    by (auto simp: lamp_verdict_def verification_status_defs split: if_splits)
qed

end
