(* ===== verification/Go_Net.thy ===== *)
theory Go_Net
  imports Go_Strings
begin

text \<open>
  What the server's configuration uses of the standard library: \<open>net.SplitHostPort\<close>, \<open>net.ParseIP\<close> with
  \<open>IP.IsLoopback\<close>, and \<open>time.ParseDuration\<close>. Callers of these functions only ask whether they failed, so
  a failure is \<^const>\<open>None\<close>. The fraction of a duration is rounded by float arithmetic, which is a
  parameter: the nanoseconds for a fraction's digits in a unit.
\<close>

subsection \<open>Host and port\<close>

text \<open>The text before and after the first occurrence, or the last one, of a character.\<close>

definition cut_first :: "char \<Rightarrow> string \<Rightarrow> (string \<times> string) option" where
  "cut_first c s = (if c \<in> set s then Some (takeWhile (\<lambda>x. x \<noteq> c) s, tl (dropWhile (\<lambda>x. x \<noteq> c) s)) else None)"

definition cut_last :: "char \<Rightarrow> string \<Rightarrow> (string \<times> string) option" where
  "cut_last c s = map_option (\<lambda>(a, b). (rev b, rev a)) (cut_first c (rev s))"

definition SplitHostPort :: "string \<Rightarrow> (string \<times> string) option" where
  "SplitHostPort hostport =
    (case cut_last CHR '':'' hostport of
       None \<Rightarrow> None
     | Some (lead, port) \<Rightarrow>
         if hd hostport = CHR ''['' then
           (case cut_first CHR '']'' hostport of
              None \<Rightarrow> None
            | Some (bracketed, rest) \<Rightarrow>
                if rest = CHR '':'' # port \<and> CHR ''['' \<notin> set (tl hostport) \<and> CHR '']'' \<notin> set rest
                then Some (tl bracketed, port) else None)
         else if CHR '':'' \<in> set lead \<or> CHR ''['' \<in> set hostport \<or> CHR '']'' \<in> set hostport then None
         else Some (lead, port))"

subsection \<open>Addresses\<close>

text \<open>The 16 bytes of an address; an IPv4 address is mapped into IPv6.\<close>

type_synonym ip = "nat list"

fun split_dots :: "string \<Rightarrow> string list" where
  "split_dots [] = [[]]"
| "split_dots (c # cs) =
    (if c = CHR ''.'' then [] # split_dots cs
     else (case split_dots cs of [] \<Rightarrow> [[c]] | p # ps \<Rightarrow> (c # p) # ps))"

definition octet :: "string \<Rightarrow> nat option" where
  "octet s =
    (if s = '''' \<or> \<not> list_all is_digit s \<or> (1 < length s \<and> hd s = CHR ''0'') \<or> 255 < dec_value 0 s then None
     else Some (nat (dec_value 0 s)))"

fun octets :: "string list \<Rightarrow> nat list option" where
  "octets [] = Some []"
| "octets (f # fs) =
    (case octet f of None \<Rightarrow> None | Some n \<Rightarrow> map_option (Cons n) (octets fs))"

definition parseIPv4Fields :: "string \<Rightarrow> nat list option" where
  "parseIPv4Fields s = (if length (split_dots s) \<noteq> 4 then None else octets (split_dots s))"

definition hex_value :: "char \<Rightarrow> nat option" where
  "hex_value c =
    (if is_digit c then Some (code c - 48)
     else if 97 \<le> code c \<and> code c \<le> 102 then Some (code c - 87)
     else if 65 \<le> code c \<and> code c \<le> 70 then Some (code c - 55)
     else None)"

definition is_hex :: "char \<Rightarrow> bool" where
  "is_hex c \<longleftrightarrow> hex_value c \<noteq> None"

definition hex_number :: "string \<Rightarrow> nat" where
  "hex_number s = foldl (\<lambda>acc c. 16 * acc + (case hex_value c of Some n \<Rightarrow> n | None \<Rightarrow> 0)) 0 s"

text \<open>
  The loop over the groups: the bytes so far, the place of the ellipsis, and what is left of the text when
  the loop ends.
\<close>

function ipv6_loop :: "string \<Rightarrow> nat list \<Rightarrow> nat option \<Rightarrow> (nat list \<times> nat option \<times> string) option" where
  "ipv6_loop s bytes ellipsis =
    (if 16 \<le> length bytes then Some (bytes, ellipsis, s)
     else
     (let digits = takeWhile is_hex s; rest = dropWhile is_hex s in
      if digits = [] \<or> 4 < length digits then None
      else if rest \<noteq> [] \<and> hd rest = CHR ''.'' then
        (if (ellipsis = None \<and> length bytes \<noteq> 12) \<or> 16 < length bytes + 4 then None
         else map_option (\<lambda>fs. (bytes @ fs, ellipsis, '''')) (parseIPv4Fields s))
      else
      (let bytes = bytes @ [hex_number digits div 256, hex_number digits mod 256] in
       case rest of
         [] \<Rightarrow> Some (bytes, ellipsis, '''')
       | c # cs \<Rightarrow>
           if c \<noteq> CHR '':'' \<or> cs = [] then None
           else if hd cs = CHR '':'' then
             (if ellipsis \<noteq> None then None
              else if tl cs = [] then Some (bytes, Some (length bytes), '''')
              else ipv6_loop (tl cs) bytes (Some (length bytes)))
           else ipv6_loop cs bytes ellipsis)))"
  by pat_completeness auto
termination
proof (relation "measure (\<lambda>(s, bytes, ellipsis). 16 - length bytes)")
qed auto

declare ipv6_loop.simps [simp del]

text \<open>The zone is cut off first, and must not be empty; \<open>net.ParseIP\<close> refuses one that is there.\<close>

definition parseIPv6 :: "string \<Rightarrow> (ip \<times> string) option" where
  "parseIPv6 s0 =
    (case (case cut_first CHR ''%'' s0 of None \<Rightarrow> Some (s0, '''')
           | Some (s, zone) \<Rightarrow> if zone = '''' then None else Some (s, zone)) of
       None \<Rightarrow> None
     | Some (s, zone) \<Rightarrow>
       let leading = (2 \<le> length s \<and> take 2 s = ''::'') in
       if leading \<and> length s = 2 then Some (replicate 16 0, zone)
       else
       (case (if leading then ipv6_loop (drop 2 s) [] (Some 0) else ipv6_loop s [] None) of
          None \<Rightarrow> None
        | Some (bytes, ellipsis, rest) \<Rightarrow>
            if rest \<noteq> '''' then None
            else if length bytes < 16 then
              (case ellipsis of
                 None \<Rightarrow> None
               | Some e \<Rightarrow> Some (take e bytes @ replicate (16 - length bytes) 0 @ drop e bytes, zone))
            else if ellipsis \<noteq> None then None
            else Some (bytes, zone)))"

definition v4_prefix :: ip where
  "v4_prefix = replicate 10 0 @ [255, 255]"

fun ParseAddr :: "string \<Rightarrow> string \<Rightarrow> (ip \<times> string) option" where
  "ParseAddr whole [] = None"
| "ParseAddr whole (c # cs) =
    (if c = CHR ''.'' then map_option (\<lambda>fs. (v4_prefix @ fs, '''')) (parseIPv4Fields whole)
     else if c = CHR '':'' then parseIPv6 whole
     else if c = CHR ''%'' then None
     else ParseAddr whole cs)"

definition ParseIP :: "string \<Rightarrow> ip option" where
  "ParseIP s =
    (case ParseAddr s s of Some (ip, zone) \<Rightarrow> if zone = '''' then Some ip else None | None \<Rightarrow> None)"

definition IsLoopback :: "ip \<Rightarrow> bool" where
  "IsLoopback ip \<longleftrightarrow>
    (if take 12 ip = v4_prefix then ip ! 12 = 127 else ip = replicate 15 0 @ [1])"

subsection \<open>Durations\<close>

definition unit_ns :: "string \<Rightarrow> int option" where
  "unit_ns u =
    (if u = ''ns'' then Some 1
     else if u = ''us'' \<or> u = [CHR 0xC2, CHR 0xB5, CHR ''s''] \<or> u = [CHR 0xCE, CHR 0xBC, CHR ''s''] then Some 1000
     else if u = ''ms'' then Some 1000000
     else if u = ''s'' then Some 1000000000
     else if u = ''m'' then Some 60000000000
     else if u = ''h'' then Some 3600000000000
     else None)"

definition digit_or_dot :: "char \<Rightarrow> bool" where
  "digit_or_dot c \<longleftrightarrow> c = CHR ''.'' \<or> is_digit c"

text \<open>\<open>leadingInt\<close>: the value of the leading digits, unless it exceeds \<open>2 ^ 63\<close>.\<close>

definition leadingInt :: "string \<Rightarrow> int option" where
  "leadingInt digits = (if 2 ^ 63 < dec_value 0 digits then None else Some (dec_value 0 digits))"

text \<open>The digits before and after the point, and the rest.\<close>

definition duration_number :: "string \<Rightarrow> string \<times> string \<times> string" where
  "duration_number s =
    (let pre = takeWhile is_digit s in
     case dropWhile is_digit s of
       [] \<Rightarrow> (pre, [], [])
     | c # cs \<Rightarrow> if c = CHR ''.'' then (pre, takeWhile is_digit cs, dropWhile is_digit cs)
                else (pre, [], c # cs))"

text \<open>One number with its unit: the nanoseconds and the rest.\<close>

definition duration_part :: "(string \<Rightarrow> int \<Rightarrow> int) \<Rightarrow> string \<Rightarrow> (int \<times> string) option" where
  "duration_part fraction s =
    (case duration_number s of
       (pre, post, s2) \<Rightarrow>
         (case (leadingInt pre, unit_ns (takeWhile (\<lambda>c. \<not> digit_or_dot c) s2)) of
            (Some v, Some n) \<Rightarrow>
              if pre = [] \<and> post = [] then None
              else if 2 ^ 63 div n < v then None
              else (let w = v * n + (if dec_value 0 post = 0 then 0 else fraction post n)
                    in if 2 ^ 63 < w then None else Some (w, dropWhile (\<lambda>c. \<not> digit_or_dot c) s2))
          | _ \<Rightarrow> None))"

text \<open>Every part of a duration takes at least one character of the text.\<close>

lemma duration_number_shorter:
  assumes "duration_number s = (pre, post, s2)"
  shows "length s2 \<le> length s"
proof (cases "dropWhile is_digit s")
  case Nil
  with assms show ?thesis by (simp add: duration_number_def Let_def)
next
  case (Cons c cs)
  then have "Suc (length cs) \<le> length s" using length_dropWhile_le [of is_digit s] by simp
  with Cons assms length_dropWhile_le [of is_digit cs] length_dropWhile_le [of is_digit s] show ?thesis
    by (auto simp: duration_number_def Let_def intro: length_dropWhile_le split: if_splits)
qed

lemma duration_part_shorter:
  assumes "duration_part fraction s = Some (w, rest)"
  shows "length rest < length s"
proof -
  obtain pre post s2 where n: "duration_number s = (pre, post, s2)" using prod_cases3 by blast
  let ?u = "takeWhile (\<lambda>c. \<not> digit_or_dot c) s2"
  have "unit_ns ?u \<noteq> None" and rest: "rest = dropWhile (\<lambda>c. \<not> digit_or_dot c) s2"
    using assms n by (auto simp: duration_part_def Let_def split: option.splits if_splits)
  then have "0 < length ?u" by (auto simp: unit_ns_def)
  moreover have "length s2 = length ?u + length rest"
    unfolding rest by (metis length_append takeWhile_dropWhile_id)
  ultimately show ?thesis using duration_number_shorter [OF n] by linarith
qed

text \<open>The sum is a \<open>uint64\<close>.\<close>

function duration_parts :: "(string \<Rightarrow> int \<Rightarrow> int) \<Rightarrow> string \<Rightarrow> int \<Rightarrow> int option" where
  "duration_parts fraction s d =
    (if s = [] then Some d
     else
     (case duration_part fraction s of
        None \<Rightarrow> None
      | Some (w, rest) \<Rightarrow>
          (let sum = (d + w) mod 2 ^ 64
           in if 2 ^ 63 < sum then None else duration_parts fraction rest sum)))"
  by pat_completeness auto
termination by (relation "measure (\<lambda>(f, s, d). length s)") (auto dest: duration_part_shorter)

declare duration_parts.simps [simp del]

definition ParseDuration :: "(string \<Rightarrow> int \<Rightarrow> int) \<Rightarrow> string \<Rightarrow> int option" where
  "ParseDuration fraction s0 =
    (let neg = (s0 \<noteq> [] \<and> hd s0 = CHR ''-'');
         s = (if s0 \<noteq> [] \<and> (hd s0 = CHR ''-'' \<or> hd s0 = CHR ''+'') then tl s0 else s0) in
     if s = ''0'' then Some 0
     else if s = [] then None
     else (case duration_parts fraction s 0 of
             None \<Rightarrow> None
           | Some d \<Rightarrow> if neg then Some (- d) else if 2 ^ 63 - 1 < d then None else Some d))"

end
