(* ===== verification/Http_Mux.thy ===== *)
theory Http_Mux
  imports Go_Net
begin

text \<open>
  What the program uses of \<open>http.ServeMux\<close>: patterns of a method and a path whose segments are literals
  or one named wildcard. A path is cleaned first; a request whose escaped path is not clean is
  redirected, one whose path matches under other methods only is refused as such. Two patterns of the
  program never match the same request, so the most specific match is the first one.
\<close>

type_synonym path = string

subsection \<open>Escaped paths\<close>

text \<open>\<open>url.PathUnescape\<close>; a malformed escape is an error.\<close>

fun PathUnescape :: "string \<Rightarrow> string option" where
  "PathUnescape [] = Some []"
| "PathUnescape (c # cs) =
    (if c = CHR ''%'' then
       (case cs of
          a # b # r \<Rightarrow>
            (case (hex_value a, hex_value b) of
               (Some m, Some n) \<Rightarrow> map_option (Cons (byte (16 * m + n))) (PathUnescape r)
             | _ \<Rightarrow> None)
        | _ \<Rightarrow> None)
     else map_option (Cons c) (PathUnescape cs))"

text \<open>\<open>pathUnescape\<close> of the mux keeps a text that cannot be unescaped.\<close>

definition mux_unescape :: "string \<Rightarrow> string" where
  "mux_unescape s = (case PathUnescape s of None \<Rightarrow> s | Some t \<Rightarrow> t)"

subsection \<open>Cleaning\<close>

text \<open>\<open>strings.Split(s, "/")\<close>.\<close>

fun split_slash :: "string \<Rightarrow> string list" where
  "split_slash [] = [[]]"
| "split_slash (c # cs) =
    (if c = CHR ''/'' then [] # split_slash cs
     else (case split_slash cs of [] \<Rightarrow> [[c]] | p # ps \<Rightarrow> (c # p) # ps))"

fun clean_elements :: "string list \<Rightarrow> string list \<Rightarrow> string list" where
  "clean_elements done [] = done"
| "clean_elements done (e # es) =
    (if e = '''' \<or> e = ''.'' then clean_elements done es
     else if e = ''..'' then clean_elements (butlast done) es
     else clean_elements (done @ [e]) es)"

text \<open>\<open>path.Clean\<close> of a rooted path.\<close>

definition Clean_rooted :: "path \<Rightarrow> path" where
  "Clean_rooted p =
    (case clean_elements [] (split_slash p) of
       [] \<Rightarrow> ''/''
     | es \<Rightarrow> concat (map (\<lambda>e. CHR ''/'' # e) es))"

definition cleanPath :: "path \<Rightarrow> path" where
  "cleanPath p0 =
    (if p0 = '''' then ''/''
     else
     (let p = (if hd p0 = CHR ''/'' then p0 else CHR ''/'' # p0); np = Clean_rooted p
      in if last p = CHR ''/'' \<and> np \<noteq> ''/'' then np @ ''/'' else np))"

subsection \<open>Matching\<close>

text \<open>The segments of a path, each unescaped; a trailing slash is a segment of its own.\<close>

function path_segments :: "path \<Rightarrow> string list" where
  "path_segments p =
    (if p = '''' then []
     else if p = ''/'' then [''/'']
     else mux_unescape (takeWhile (\<lambda>c. c \<noteq> CHR ''/'') (tl p))
            # path_segments (dropWhile (\<lambda>c. c \<noteq> CHR ''/'') (tl p)))"
  by pat_completeness auto
termination
proof (relation "measure length")
  fix p :: path
  assume "p \<noteq> ''''" "p \<noteq> ''/''"
  have "length (dropWhile (\<lambda>c. c \<noteq> CHR ''/'') (tl p)) \<le> length (tl p)" by (rule length_dropWhile_le)
  also have "\<dots> < length p" using \<open>p \<noteq> ''''\<close> by (cases p) simp_all
  finally show "(dropWhile (\<lambda>c. c \<noteq> CHR ''/'') (tl p), p) \<in> measure length" by simp
qed simp

declare path_segments.simps [simp del]

datatype segment = Lit string | Wild

type_synonym 'h pattern = "string \<times> segment list \<times> 'h"

text \<open>The values of the wildcards, when the segments match.\<close>

fun match_segments :: "segment list \<Rightarrow> string list \<Rightarrow> string list option" where
  "match_segments [] [] = Some []"
| "match_segments (Lit l # ps) (s # ss) = (if s = l then match_segments ps ss else None)"
| "match_segments (Wild # ps) (s # ss) = (if s = ''/'' then None else map_option (Cons s) (match_segments ps ss))"
| "match_segments _ _ = None"

fun match_patterns :: "'h pattern list \<Rightarrow> string \<Rightarrow> string list \<Rightarrow> ('h \<times> string list) option" where
  "match_patterns [] m ss = None"
| "match_patterns ((pm, ps, h) # pats) m ss =
    (if pm = m then
       (case match_segments ps ss of Some ws \<Rightarrow> Some (h, ws) | None \<Rightarrow> match_patterns pats m ss)
     else match_patterns pats m ss)"

datatype 'h route =
    Handle 'h "string list"
  | BadRequest
  | Redirected
  | MethodNotAllowed
  | NotFound

definition route_path :: "'h pattern list \<Rightarrow> string \<Rightarrow> path \<Rightarrow> ('h \<times> string list) option" where
  "route_path pats m path =
    (case match_patterns pats m (path_segments path) of
       Some r \<Rightarrow> Some r
     | None \<Rightarrow> if m = ''HEAD'' then match_patterns pats ''GET'' (path_segments path) else None)"

text \<open>\<open>(*ServeMux).ServeHTTP\<close> up to the handler, from the method and the escaped path of the request.\<close>

definition ServeMux_route :: "'h pattern list \<Rightarrow> string \<Rightarrow> path \<Rightarrow> 'h route" where
  "ServeMux_route pats m escaped =
    (if escaped = ''*'' then BadRequest
     else
     (let path = (if m = ''CONNECT'' then escaped else cleanPath escaped) in
      if path \<noteq> escaped then Redirected
      else
      (case route_path pats m path of
         Some (h, ws) \<Rightarrow> Handle h ws
       | None \<Rightarrow>
           if list_ex (\<lambda>(_, ps, _). match_segments ps (path_segments path) \<noteq> None) pats
           then MethodNotAllowed else NotFound)))"

end
