(* ===== verification/Http_Handler.thy ===== *)
theory Http_Handler
  imports Http_Mux Json_Decode Recover_Attempt Verify_Attempt Query
begin

text \<open>
  \<open>adapter/httpapi/handler.go\<close>: the HTTP API over the use cases. A handler is a program of the calls its
  use case makes that ends with the response; the response is what \<open>writeJSON\<close> writes, or an answer of
  the multiplexer itself (only its status code is modelled). The body of a request delivers its bytes
  and then ends, or fails by a read of its own. The texts of decoding errors are a parameter.
\<close>

definition maxRequestSize :: nat where
  "maxRequestSize = 1048576"

text \<open>An incoming request: \<open>in_path\<close> is \<open>URL.EscapedPath()\<close>, \<open>in_authorization\<close> the header of that name.\<close>

record incoming =
  in_method :: string
  in_path :: path
  in_authorization :: string
  in_body :: bytes
  in_bodyErr :: "err option"

definition URL_Path :: "incoming \<Rightarrow> string" where
  "URL_Path r = mux_unescape (in_path r)"

type_synonym decode_texts = "bytes \<Rightarrow> err option \<Rightarrow> string"

datatype reply = JSONReply int string | MuxReply int

primrec reply_status :: "reply \<Rightarrow> int" where
  "reply_status (JSONReply status body) = status"
| "reply_status (MuxReply status) = status"

definition writeJSON :: "int \<Rightarrow> json \<Rightarrow> reply" where
  "writeJSON status val =
    JSONReply status (case json_marshal val of Inl _ \<Rightarrow> [] | Inr s \<Rightarrow> s @ [CHR 0x0A])"

text \<open>A Go map is printed with its keys in order.\<close>

definition json_map :: "(string \<times> json) list \<Rightarrow> json" where
  "json_map kvs = JObject (map_put_all kvs [])"

subsection \<open>Configuration\<close>

record HttpConfig =
  ht_Executor :: "(ExecuteInput \<Rightarrow> execution) option"
  ht_Verifier :: "(VerifyInput \<Rightarrow> assessment) option"
  ht_Recoverer :: "(RecoverInput \<Rightarrow> execution) option"
  ht_GetAttempt :: "(AttemptID \<Rightarrow> (AttemptView \<times> err option) prog) option"
  ht_Scanner :: "(IncompleteAttempt list \<times> err option) prog option"
  ht_APIToken :: string

record Handler =
  hd_executor :: "ExecuteInput \<Rightarrow> execution"
  hd_verifier :: "VerifyInput \<Rightarrow> assessment"
  hd_recoverer :: "RecoverInput \<Rightarrow> execution"
  hd_getAttempt :: "AttemptID \<Rightarrow> (AttemptView \<times> err option) prog"
  hd_scanner :: "(IncompleteAttempt list \<times> err option) prog"
  hd_apiToken :: string

definition Http_New :: "HttpConfig \<Rightarrow> err + Handler" where
  "Http_New config =
    (case (ht_Executor config, ht_Verifier config, ht_Recoverer config, ht_GetAttempt config, ht_Scanner config) of
       (Some executor, Some verifier, Some recoverer, Some getAttempt, Some scanner) \<Rightarrow>
         Inr \<lparr>hd_executor = executor, hd_verifier = verifier, hd_recoverer = recoverer,
              hd_getAttempt = getAttempt, hd_scanner = scanner, hd_apiToken = ht_APIToken config\<rparr>
     | _ \<Rightarrow> Inl (Message ''atoha http api: all use cases are required''))"

datatype endpoint =
  ExecuteEndpoint | VerifyEndpoint | RecoverEndpoint | GetEndpoint | ScanEndpoint | HealthEndpoint

definition Http_patterns :: "endpoint pattern list" where
  "Http_patterns =
    [(''POST'', [Lit ''v1'', Lit ''actions'', Lit ''execute''], ExecuteEndpoint),
     (''POST'', [Lit ''v1'', Lit ''actions'', Lit ''verify''], VerifyEndpoint),
     (''POST'', [Lit ''v1'', Lit ''actions'', Lit ''recover''], RecoverEndpoint),
     (''GET'', [Lit ''v1'', Lit ''attempts'', Wild], GetEndpoint),
     (''GET'', [Lit ''v1'', Lit ''recovery'', Lit ''incomplete''], ScanEndpoint),
     (''GET'', [Lit ''healthz''], HealthEndpoint)]"

subsection \<open>Requests\<close>

record actionRequest =
  aq_ID :: ActionID
  aq_Target :: string
  aq_Name :: string
  aq_Input :: bytes
  aq_RequestedAt :: gtime

definition zero_actionRequest :: actionRequest where
  "zero_actionRequest =
    \<lparr>aq_ID = [], aq_Target = [], aq_Name = [], aq_Input = [], aq_RequestedAt = zero_time\<rparr>"

definition request_action :: "actionRequest \<Rightarrow> err + Action" where
  "request_action r =
    NewAction \<lparr>as_ID = aq_ID r, as_Target = aq_Target r, as_Name = aq_Name r, as_Input = aq_Input r,
               as_RequestedAt = aq_RequestedAt r\<rparr>"

definition action_fields :: "(string \<times> actionRequest store) list" where
  "action_fields =
    [(''id'', field aq_ID aq_ID_update store_string),
     (''target'', field aq_Target aq_Target_update store_string),
     (''name'', field aq_Name aq_Name_update store_string),
     (''input'', field aq_Input aq_Input_update store_raw),
     (''requested_at'', field aq_RequestedAt aq_RequestedAt_update store_time)]"

record executeRequest =
  xq_Action :: actionRequest
  xq_AttemptID :: AttemptID

definition zero_executeRequest :: executeRequest where
  "zero_executeRequest = \<lparr>xq_Action = zero_actionRequest, xq_AttemptID = []\<rparr>"

definition execute_fields :: "(string \<times> executeRequest store) list" where
  "execute_fields =
    [(''action'', field xq_Action xq_Action_update (store_struct True action_fields)),
     (''attempt_id'', field xq_AttemptID xq_AttemptID_update store_string)]"

record recoverRequest =
  cq_Action :: actionRequest
  cq_AttemptID :: AttemptID
  cq_Previous :: AttemptID
  cq_AuthorizedBy :: string
  cq_AuthorizedAt :: gtime
  cq_Reason :: string

definition zero_recoverRequest :: recoverRequest where
  "zero_recoverRequest =
    \<lparr>cq_Action = zero_actionRequest, cq_AttemptID = [], cq_Previous = [], cq_AuthorizedBy = [],
     cq_AuthorizedAt = zero_time, cq_Reason = []\<rparr>"

definition recover_fields :: "(string \<times> recoverRequest store) list" where
  "recover_fields =
    [(''action'', field cq_Action cq_Action_update (store_struct True action_fields)),
     (''attempt_id'', field cq_AttemptID cq_AttemptID_update store_string),
     (''previous_attempt_id'', field cq_Previous cq_Previous_update store_string),
     (''authorized_by'', field cq_AuthorizedBy cq_AuthorizedBy_update store_string),
     (''authorized_at'', field cq_AuthorizedAt cq_AuthorizedAt_update store_time),
     (''reason'', field cq_Reason cq_Reason_update store_string)]"

text \<open>\<open>http.MaxBytesReader\<close>: what lies behind the limit is never seen, but it makes the reader fail.\<close>

definition MaxBytes_read :: "bytes \<Rightarrow> err option \<Rightarrow> bytes \<times> err option" where
  "MaxBytes_read content failure =
    (if maxRequestSize < length content
     then (take maxRequestSize content, Some (Message ''http: request body too large''))
     else (content, failure))"

text \<open>
  The next value of a decoder whose reader delivers \<open>content\<close> and then ends or fails. An object or an
  array is complete at its last bracket; any other value needs one byte more, or the end.
\<close>

definition Decoder_next :: "bytes \<Rightarrow> err option \<Rightarrow> stream_value" where
  "Decoder_next content failure =
    (case next_value content of
       StreamEOF \<Rightarrow> if failure = None then StreamEOF else StreamError
     | StreamError \<Rightarrow> StreamError
     | StreamValue raw rest \<Rightarrow>
         if rest = [] \<and> failure \<noteq> None \<and> raw_kind raw \<noteq> RawObject \<and> raw_kind raw \<noteq> RawArray
         then StreamError else StreamValue raw rest)"

text \<open>\<open>decode\<close>: the request, or the message of the refusal.\<close>

definition decode_body :: "decode_texts \<Rightarrow> 'r store \<Rightarrow> incoming \<Rightarrow> 'r \<Rightarrow> string + 'r" where
  "decode_body dt store r destination =
    (let (content, failure) = MaxBytes_read (in_body r) (in_bodyErr r);
         invalid = Inl (''invalid JSON request: '' @ dt content failure) in
     case Decoder_next content failure of
       StreamValue raw rest \<Rightarrow>
         (case store raw destination of
            None \<Rightarrow> invalid
          | Some request \<Rightarrow>
              (case Decoder_next rest failure of
                 StreamEOF \<Rightarrow> Inr request
               | _ \<Rightarrow> Inl ''request must contain one JSON value''))
     | _ \<Rightarrow> invalid)"

definition error_reply :: "int \<Rightarrow> string \<Rightarrow> reply" where
  "error_reply status message = writeJSON status (JObject [(''error'', JString message)])"

subsection \<open>Responses\<close>

text \<open>The switch of \<open>writeUseCaseError\<close>.\<close>

definition error_status :: "err option \<Rightarrow> int" where
  "error_status err =
    (if error_is err ErrInvalidInput \<or> error_is err ErrRecoveryNotAuthorized \<or> error_is err ErrInvalidAction then 400
     else if error_is err ErrAttemptNotFound then 404
     else if error_is err ErrAttemptAlreadyStarted \<or> error_is err ErrActionMismatch
             \<or> error_is err ErrActionIdentityConflict then 409
     else 500)"

definition writeUseCaseError :: "go_runtime \<Rightarrow> err option \<Rightarrow> reply" where
  "writeUseCaseError rt err =
    (let status = error_status err;
         message = (if err \<noteq> None \<and> status \<noteq> 500 then errorText rt err else ''internal error'')
     in error_reply status message)"

record executeResponse =
  xp_ActionID :: ActionID
  xp_AttemptID :: AttemptID
  xp_RecoveryOf :: AttemptID
  xp_Admission :: string
  xp_Dispatch :: string
  xp_Effect :: string
  xp_Provider :: string
  xp_OperationError :: string

text \<open>What \<open>json.Marshal\<close> makes of it by its tags.\<close>

definition marshal_executeResponse :: "executeResponse \<Rightarrow> json" where
  "marshal_executeResponse r =
    JObject
     ([(''action_id'', JString (xp_ActionID r)), (''attempt_id'', JString (xp_AttemptID r))]
      @ omit_string ''recovery_of'' (xp_RecoveryOf r)
      @ [(''admission'', JString (xp_Admission r)), (''dispatch'', JString (xp_Dispatch r)),
         (''effect'', JString (xp_Effect r))]
      @ omit_string ''provider'' (xp_Provider r)
      @ omit_string ''operation_error'' (xp_OperationError r))"

definition execute_response :: "go_runtime \<Rightarrow> ExecuteResult \<Rightarrow> err option \<Rightarrow> json" where
  "execute_response rt result err =
    (let (previous, ok) = RecoveryOf (er_Attempt result) in
     marshal_executeResponse
      \<lparr>xp_ActionID = act_id (er_Action result), xp_AttemptID = att_id (er_Attempt result),
       xp_RecoveryOf = (if ok then previous else []),
       xp_Admission = admission_String (o_admission (er_Outcome result)),
       xp_Dispatch = dispatch_String (o_dispatch (er_Outcome result)),
       xp_Effect = effect_String (o_effect (er_Outcome result)), xp_Provider = dr_provider (er_Dispatch result),
       xp_OperationError = errorText rt err\<rparr>)"

definition execution_refused :: "ExecuteResult \<Rightarrow> err option \<Rightarrow> bool" where
  "execution_refused result err \<longleftrightarrow>
    att_id (er_Attempt result) = '''' \<or> error_is err ErrAttemptAlreadyStarted
    \<or> error_is err ErrRecoveryNotAuthorized \<or> error_is err ErrActionMismatch
    \<or> error_is err ErrActionIdentityConflict"

definition writeExecution :: "go_runtime \<Rightarrow> ExecuteResult \<Rightarrow> err option \<Rightarrow> reply" where
  "writeExecution rt result err =
    (if execution_refused result err then writeUseCaseError rt err
     else writeJSON 200 (execute_response rt result err))"

record verifyResponse =
  vp_ActionID :: ActionID
  vp_AttemptID :: AttemptID
  vp_Status :: string
  vp_Verifier :: string
  vp_ObservationIDs :: "ObservationID list"
  vp_Reason :: string
  vp_OperationError :: string

definition marshal_verifyResponse :: "verifyResponse \<Rightarrow> json" where
  "marshal_verifyResponse r =
    JObject
     ([(''action_id'', JString (vp_ActionID r)), (''attempt_id'', JString (vp_AttemptID r)),
       (''status'', JString (vp_Status r))]
      @ omit_string ''verifier'' (vp_Verifier r)
      @ omit_strings ''observation_ids'' (vp_ObservationIDs r)
      @ omit_string ''reason'' (vp_Reason r)
      @ omit_string ''operation_error'' (vp_OperationError r))"

definition verify_response :: "go_runtime \<Rightarrow> VerifyResult \<Rightarrow> err option \<Rightarrow> json" where
  "verify_response rt result err =
    marshal_verifyResponse
     \<lparr>vp_ActionID = vo_ActionID result, vp_AttemptID = vo_AttemptID result,
      vp_Status = verification_String (vr_status (vo_Verification result)),
      vp_Verifier = vr_verifier (vo_Verification result),
      vp_ObservationIDs = vr_observationIDs (vo_Verification result),
      vp_Reason = vr_reason (vo_Verification result), vp_OperationError = errorText rt err\<rparr>"

definition writeVerification :: "go_runtime \<Rightarrow> VerifyResult \<Rightarrow> err option \<Rightarrow> reply" where
  "writeVerification rt result operationErr =
    (if vo_AttemptID result = '''' \<or> error_is operationErr ErrActionIdentityConflict
     then writeUseCaseError rt operationErr
     else writeJSON 200 (verify_response rt result operationErr))"

definition writeView :: "go_runtime \<Rightarrow> AttemptView \<Rightarrow> err option \<Rightarrow> reply" where
  "writeView rt view err =
    (if err \<noteq> None then writeUseCaseError rt err
     else writeJSON 200 (json_map
       [(''action_id'', JString (av_ActionID view)), (''attempt_id'', JString (av_AttemptID view)),
        (''admission'', JString (admission_String (o_admission (av_Outcome view)))),
        (''dispatch'', JString (dispatch_String (o_dispatch (av_Outcome view)))),
        (''effect'', JString (effect_String (o_effect (av_Outcome view)))),
        (''verification'', JString (verification_String (av_Verification view))),
        (''conflicts'', json_map
          [(''admission'', JBool (av_AdmissionConflicted view)), (''dispatch'', JBool (av_DispatchConflicted view)),
           (''effect'', JBool (av_EffectConflicted view))])]))"

definition writeIncomplete :: "go_runtime \<Rightarrow> IncompleteAttempt list \<Rightarrow> err option \<Rightarrow> reply" where
  "writeIncomplete rt items err =
    (if err \<noteq> None then writeUseCaseError rt err
     else writeJSON 200 (json_map
       [(''attempts'', JArray (map (\<lambda>i. JObject [(''action_id'', JString (ia_ActionID i)),
                                               (''attempt_id'', JString (ia_AttemptID i))]) items))]))"

subsection \<open>Handlers\<close>

definition Http_execute :: "go_runtime \<Rightarrow> decode_texts \<Rightarrow> Handler \<Rightarrow> incoming \<Rightarrow> reply prog" where
  "Http_execute rt dt h r =
    (case decode_body dt (store_struct True execute_fields) r zero_executeRequest of
       Inl message \<Rightarrow> Done (error_reply 400 message)
     | Inr request \<Rightarrow>
       (case request_action (xq_Action request) of
          Inl err \<Rightarrow> Done (error_reply 400 (err_text rt err))
        | Inr action \<Rightarrow>
            map_prog (\<lambda>(result, operationErr). writeExecution rt result operationErr)
              (hd_executor h \<lparr>xi_Action = action, xi_AttemptID = xq_AttemptID request\<rparr>)))"

definition Http_recover :: "go_runtime \<Rightarrow> decode_texts \<Rightarrow> Handler \<Rightarrow> incoming \<Rightarrow> reply prog" where
  "Http_recover rt dt h r =
    (case decode_body dt (store_struct True recover_fields) r zero_recoverRequest of
       Inl message \<Rightarrow> Done (error_reply 400 message)
     | Inr request \<Rightarrow>
       (case request_action (cq_Action request) of
          Inl err \<Rightarrow> Done (error_reply 400 (err_text rt err))
        | Inr action \<Rightarrow>
          (case NewRecoveryAuthorization
                  \<lparr>us_ActionID = act_id action, us_PreviousAttemptID = cq_Previous request,
                   us_AuthorizedBy = cq_AuthorizedBy request, us_AuthorizedAt = cq_AuthorizedAt request,
                   us_Reason = cq_Reason request\<rparr> of
             Inl err \<Rightarrow> Done (error_reply 400 (err_text rt err))
           | Inr authorization \<Rightarrow>
               map_prog (\<lambda>(result, operationErr). writeExecution rt result operationErr)
                 (hd_recoverer h \<lparr>ri_Action = action, ri_AttemptID = cq_AttemptID request,
                                  ri_Authorization = authorization\<rparr>))))"

definition Http_verify :: "go_runtime \<Rightarrow> decode_texts \<Rightarrow> Handler \<Rightarrow> incoming \<Rightarrow> reply prog" where
  "Http_verify rt dt h r =
    (case decode_body dt (store_struct True execute_fields) r zero_executeRequest of
       Inl message \<Rightarrow> Done (error_reply 400 message)
     | Inr request \<Rightarrow>
       (case request_action (xq_Action request) of
          Inl err \<Rightarrow> Done (error_reply 400 (err_text rt err))
        | Inr action \<Rightarrow>
            map_prog (\<lambda>(result, operationErr). writeVerification rt result operationErr)
              (hd_verifier h \<lparr>vi_Action = action, vi_AttemptID = xq_AttemptID request\<rparr>)))"

definition Http_get :: "go_runtime \<Rightarrow> Handler \<Rightarrow> AttemptID \<Rightarrow> reply prog" where
  "Http_get rt h attemptID = map_prog (\<lambda>(view, err). writeView rt view err) (hd_getAttempt h attemptID)"

definition Http_scan :: "go_runtime \<Rightarrow> Handler \<Rightarrow> reply prog" where
  "Http_scan rt h = map_prog (\<lambda>(items, err). writeIncomplete rt items err) (hd_scanner h)"

definition Http_healthz :: reply where
  "Http_healthz = writeJSON 200 (json_map [(''status'', JString ''ok'')])"

definition serve_endpoint ::
    "go_runtime \<Rightarrow> decode_texts \<Rightarrow> Handler \<Rightarrow> incoming \<Rightarrow> endpoint \<Rightarrow> string list \<Rightarrow> reply prog" where
  "serve_endpoint rt dt h r e ws =
    (case e of
       ExecuteEndpoint \<Rightarrow> Http_execute rt dt h r
     | VerifyEndpoint \<Rightarrow> Http_verify rt dt h r
     | RecoverEndpoint \<Rightarrow> Http_recover rt dt h r
     | GetEndpoint \<Rightarrow> Http_get rt h (case ws of [] \<Rightarrow> [] | w # _ \<Rightarrow> w)
     | ScanEndpoint \<Rightarrow> Http_scan rt h
     | HealthEndpoint \<Rightarrow> Done Http_healthz)"

definition serve_mux :: "go_runtime \<Rightarrow> decode_texts \<Rightarrow> Handler \<Rightarrow> incoming \<Rightarrow> reply prog" where
  "serve_mux rt dt h r =
    (case ServeMux_route Http_patterns (in_method r) (in_path r) of
       Handle e ws \<Rightarrow> serve_endpoint rt dt h r e ws
     | BadRequest \<Rightarrow> Done (MuxReply 400)
     | Redirected \<Rightarrow> Done (MuxReply 301)
     | MethodNotAllowed \<Rightarrow> Done (MuxReply 405)
     | NotFound \<Rightarrow> Done (MuxReply 404))"

text \<open>\<open>subtle.ConstantTimeCompare\<close> of two byte slices gives 1 exactly for equal ones.\<close>

definition sameToken :: "string \<Rightarrow> string \<Rightarrow> bool" where
  [simp]: "sameToken got want \<longleftrightarrow> got = want"

definition ServeHTTP :: "go_runtime \<Rightarrow> decode_texts \<Rightarrow> Handler \<Rightarrow> incoming \<Rightarrow> reply prog" where
  "ServeHTTP rt dt h r =
    (if hd_apiToken h \<noteq> '''' \<and> URL_Path r \<noteq> ''/healthz''
        \<and> \<not> sameToken (in_authorization r) (''Bearer '' @ hd_apiToken h)
     then Done (error_reply 401 ''unauthorized'')
     else serve_mux rt dt h r)"

end
