(* ===== verification/Http_Roundtrip.thy ===== *)
theory Http_Roundtrip
  imports Http_Handler Json_Members Exec_Event_Laws
begin

text \<open>
  What a client sends and what the HTTP adapter makes of it: the JSON text of a request to execute, as the
  tags of the request types name its members, and its strict decoding.
\<close>

subsection \<open>Texts a member can hold\<close>

lemma json_string_ok: "raw_ok (scan_value d) (json_string s)"
proof -
  have "scan_scalar (json_string s) = Some []"
    using scan_json_string [of s "[]"] by (simp add: scan_scalar_def json_string_def)
  then have "scan_value d (json_string s) = Some []" using scan_value_mono [of 0 d "json_string s" "[]"] by simp
  then show ?thesis by (rule raw_ok_local [OF scan_value_local]) (simp add: json_string_def json_space_def)
qed

lemma stored_string:
  assumes "utf8_ok s"
  shows "store_string (json_string s) x = Some s"
proof -
  have "raw_kind (json_string s) = RawString" by (simp add: raw_kind_def json_string_def)
  moreover have "unquote (json_string s) = s"
    using unquote_json_string [OF assms] by (simp add: unquote_def json_string_def)
  ultimately show ?thesis by (simp add: store_string_def)
qed

text \<open>A printed time has only digits and separators, so its JSON text is the time between quotes.\<close>

definition time_char :: "char \<Rightarrow> bool" where
  "time_char c \<longleftrightarrow> is_digit c \<or> c \<in> set ''-:TZ.+''"

lemma time_char_plain: "time_char c \<Longrightarrow> code c < 128 \<and> html_safe (code c)"
  by (auto simp: time_char_def is_digit_def html_safe_def code_def)

lemma digits_time: "list_all is_digit s \<Longrightarrow> list_all time_char s"
  by (auto simp: list_all_iff time_char_def)

lemma dec_nat_digits: "0 \<le> n \<Longrightarrow> list_all is_digit (dec_nat n)"
proof (induction n rule: dec_nat.induct)
  case (1 n)
  then show ?case by (cases "n < 10") (simp_all add: dec_nat.simps [of n])
qed

lemma dec_pad_digits: "0 \<le> n \<Longrightarrow> list_all time_char (dec_pad w n)"
  by (simp add: dec_pad_def digits_time dec_fixed_digits dec_nat_digits)

lemma fraction_chars: "list_all time_char (format_fraction n)"
proof -
  have "set (strip_zeros ds) \<subseteq> set ds" for ds
    by (auto simp: strip_zeros_def dest: set_dropWhileD)
  then have "list_all time_char (strip_zeros (dec_fixed 9 n))"
    using digits_time [OF dec_fixed_digits [of 9 n]] unfolding list_all_iff by blast
  then show ?thesis by (auto simp: format_fraction_def time_char_def split: list.split)
qed

lemma printed_time_chars:
  assumes "t_off t = 0" "0 \<le> local_year t"
  shows "list_all time_char (FormatRFC3339Nano t)"
proof -
  obtain y m d where date: "date_of_day (local_day t) = (y, m, d)" by (metis surj_pair)
  with assms(2) have y: "0 \<le> y" by (simp add: local_year_def)
  have d: "1 \<le> d" using date_of_day_spec [OF date] by simp
  have seps: "time_char CHR ''-''" "time_char CHR ''T''" "time_char CHR '':''" "time_char CHR ''Z''"
    by (simp_all add: time_char_def)
  show ?thesis
    using y d by (simp add: FormatRFC3339Nano_def date Let_def appendInt_def format_zone_def assms(1)
        dec_pad_digits fraction_chars seps)
qed

lemma stored_time:
  assumes "t_off t = 0" "0 \<le> local_year t" "local_year t \<le> 9999"
  shows "store_time (json_string (FormatRFC3339Nano t)) x = Some t"
proof -
  have "json_string_body (FormatRFC3339Nano t) = FormatRFC3339Nano t"
    using printed_time_chars [OF assms(1,2)] time_char_plain
    by (intro json_string_body_plain) (auto simp: list_all_iff)
  moreover have "raw_kind (json_string (FormatRFC3339Nano t)) = RawString" by (simp add: raw_kind_def json_string_def)
  ultimately show ?thesis
    using parse_format_utc [OF assms] by (simp add: store_time_def json_string_def butlast_append)
qed

subsection \<open>Requests\<close>

text \<open>The text of an action; an empty input is left out, another one is a JSON text of its own.\<close>

definition client_action :: "Action \<Rightarrow> string" where
  "client_action a = object_text
    ([(''id'', json_string (act_id a)), (''target'', json_string (act_target a)), (''name'', json_string (act_name a))]
     @ (if act_input a = [] then [] else [(''input'', act_input a)])
     @ [(''requested_at'', json_string (FormatRFC3339Nano (act_requestedAt a)))])"

definition client_execute :: "Action \<Rightarrow> AttemptID \<Rightarrow> string" where
  "client_execute a i = object_text [(''action'', client_action a), (''attempt_id'', json_string i)]"

text \<open>What a client can send and a server can accept: UTF-8 texts, an input that is one JSON text, a UTC time.\<close>

definition sendable :: "Action \<Rightarrow> AttemptID \<Rightarrow> bool" where
  "sendable a i \<longleftrightarrow> utf8_ok (act_id a) \<and> utf8_ok (act_target a) \<and> utf8_ok (act_name a) \<and> utf8_ok i
     \<and> (act_input a = [] \<or> raw_ok (scan_value 9998) (act_input a))
     \<and> t_off (act_requestedAt a) = 0 \<and> 0 \<le> local_year (act_requestedAt a) \<and> local_year (act_requestedAt a) \<le> 9999"

lemma names_utf8 [simp]:
  "utf8_ok ''id''" "utf8_ok ''target''" "utf8_ok ''name''" "utf8_ok ''input''" "utf8_ok ''requested_at''"
  "utf8_ok ''action''" "utf8_ok ''attempt_id''"
  by (rule ascii_utf8; simp add: code_def)+

lemma action_members_ok:
  assumes "sendable a i"
  shows "list_all (entry_ok (scan_value 9998))
    ([(''id'', json_string (act_id a)), (''target'', json_string (act_target a)), (''name'', json_string (act_name a))]
     @ (if act_input a = [] then [] else [(''input'', act_input a)])
     @ [(''requested_at'', json_string (FormatRFC3339Nano (act_requestedAt a)))])"
  using assms json_string_ok by (auto simp: entry_ok_def sendable_def)

lemma action_fields_found:
  "find_field action_fields ''id'' = Some (field aq_ID aq_ID_update store_string)"
  "find_field action_fields ''target'' = Some (field aq_Target aq_Target_update store_string)"
  "find_field action_fields ''name'' = Some (field aq_Name aq_Name_update store_string)"
  "find_field action_fields ''input'' = Some (field aq_Input aq_Input_update store_raw)"
  "find_field action_fields ''requested_at'' = Some (field aq_RequestedAt aq_RequestedAt_update store_time)"
  by (simp_all add: find_field_def action_fields_def)

lemma execute_fields_found:
  "find_field execute_fields ''action'' = Some (field xq_Action xq_Action_update (store_struct True action_fields))"
  "find_field execute_fields ''attempt_id'' = Some (field xq_AttemptID xq_AttemptID_update store_string)"
  by (simp_all add: find_field_def execute_fields_def)

definition request_of :: "Action \<Rightarrow> actionRequest" where
  "request_of a = \<lparr>aq_ID = act_id a, aq_Target = act_target a, aq_Name = act_name a, aq_Input = act_input a,
     aq_RequestedAt = act_requestedAt a\<rparr>"

lemma action_stored:
  assumes "sendable a i"
  shows "store_struct True action_fields (client_action a) zero_actionRequest = Some (request_of a)"
proof -
  have ok: "list_all (entry_ok (scan_value 9999))
    ([(''id'', json_string (act_id a)), (''target'', json_string (act_target a)), (''name'', json_string (act_name a))]
     @ (if act_input a = [] then [] else [(''input'', act_input a)])
     @ [(''requested_at'', json_string (FormatRFC3339Nano (act_requestedAt a)))])"
    using action_members_ok [OF assms] raw_ok_mono [of 9998 9999] by (simp add: list_all_iff entry_ok_def)
  note d = object_text_decodes(3,4) [OF ok, folded client_action_def]
  show ?thesis
    using assms unfolding sendable_def
    by (simp add: store_struct_def d action_fields_found field_def stored_string stored_time store_raw_def
        zero_actionRequest_def request_of_def)
qed

lemma client_execute_decodes:
  assumes "sendable a i"
  shows "next_value (client_execute a i) = StreamValue (client_execute a i) []"
    and "store_struct True execute_fields (client_execute a i) zero_executeRequest =
      Some \<lparr>xq_Action = request_of a, xq_AttemptID = i\<rparr>"
proof -
  have "raw_ok (scan_value 9999) (client_action a)"
    using object_text_ok [OF action_members_ok [OF assms]] by (simp add: client_action_def)
  then have "list_all (entry_ok (scan_value 9999)) [(''action'', client_action a), (''attempt_id'', json_string i)]"
    using json_string_ok by (simp add: entry_ok_def)
  note d = object_text_decodes [OF this, folded client_execute_def]
  obtain cs where c: "client_execute a i = CHR 0x7B # cs" by (simp add: client_execute_def object_text_def)
  then have "skip_space (client_execute a i) = client_execute a i" by (simp add: json_space_def)
  with d(1) [of "[]"] c show "next_value (client_execute a i) = StreamValue (client_execute a i) []"
    using consumed_append [of "client_execute a i" "[]"] by (simp add: next_value_def)
  have "utf8_ok i" using assms by (simp add: sendable_def)
  with action_stored [OF assms] show "store_struct True execute_fields (client_execute a i) zero_executeRequest =
      Some \<lparr>xq_Action = request_of a, xq_AttemptID = i\<rparr>"
    by (simp add: store_struct_def d execute_fields_found field_def stored_string zero_executeRequest_def)
qed

lemma decoded_request:
  assumes "action_ok a" and "sendable a i"
    and "in_body r = client_execute a i" and "in_bodyErr r = None" and "length (client_execute a i) \<le> maxRequestSize"
  shows "\<exists>request. decode_body dt (store_struct True execute_fields) r zero_executeRequest = Inr request
    \<and> request_action (xq_Action request) = Inr a \<and> xq_AttemptID request = i"
proof -
  have read: "MaxBytes_read (in_body r) (in_bodyErr r) = (client_execute a i, None)"
    using assms(3-5) by (simp add: MaxBytes_read_def)
  have "next_value [] = StreamEOF" by (simp add: next_value_def)
  then have dec: "Decoder_next (client_execute a i) None = StreamValue (client_execute a i) []"
    "Decoder_next [] None = StreamEOF"
    using client_execute_decodes(1) [OF assms(2)] by (simp_all add: Decoder_next_def)
  have "decode_body dt (store_struct True execute_fields) r zero_executeRequest
      = Inr \<lparr>xq_Action = request_of a, xq_AttemptID = i\<rparr>"
    by (simp add: decode_body_def read dec client_execute_decodes(2) [OF assms(2)])
  moreover have "request_action (request_of a) = Inr a"
    using assms(1) by (simp add: request_action_def NewAction_Inr_iff request_of_def)
  ultimately show ?thesis by simp
qed

text \<open>C32: a request within the size limit whose body is the JSON text of an action and an attempt identity,
  with UTF-8 texts, JSON as input and a time in UTC, decodes to exactly them, and the action is accepted when it is valid: what the use case is given is
  what the client wrote.\<close>

theorem http_execute_request_roundtrip:
  assumes "sendable a i" and "action_ok a"
    and "in_body r = client_execute a i" and "in_bodyErr r = None" and "length (client_execute a i) \<le> maxRequestSize"
  shows "\<exists>request. decode_body dt (store_struct True execute_fields) r zero_executeRequest = Inr request
    \<and> request_action (xq_Action request) = Inr a \<and> xq_AttemptID request = i"
  using assms(1,3-5) by (rule decoded_request [OF assms(2)])

end
