(* ===== verification/Server.thy ===== *)
theory Server
  imports Go_Net Http_Handler HA_Verifier Sqlite_Log
begin

text \<open>
  \<open>cmd/atoha-server/main.go\<close>: the configuration from the environment and the composition of the running
  program. \<open>os.Getenv\<close> is a parameter that gives the empty text for an unset variable; the listener and the
  signals are process input and output, of which only the way they end the program is kept.
\<close>

record server_config =
  sc_listenAddress :: string
  sc_databasePath :: string
  sc_apiToken :: string
  sc_homeAssistantURL :: string
  sc_homeAssistantToken :: string
  sc_bindings :: "string gomap"
  sc_providerTimeout :: int
  sc_verificationMaxAge :: int

definition envOr :: "(string \<Rightarrow> string) \<Rightarrow> string \<Rightarrow> string \<Rightarrow> string" where
  "envOr getenv name fallback = (if getenv name \<noteq> '''' then getenv name else fallback)"

definition loopbackAddress :: "string \<Rightarrow> bool" where
  "loopbackAddress address =
    (case SplitHostPort address of
       None \<Rightarrow> False
     | Some (host, _) \<Rightarrow>
         if host = ''localhost'' then True
         else (case ParseIP host of None \<Rightarrow> False | Some ip \<Rightarrow> IsLoopback ip))"

text \<open>An optional duration that must be positive when it is set.\<close>

definition positive_duration :: "(string \<Rightarrow> int \<Rightarrow> int) \<Rightarrow> string \<Rightarrow> string \<Rightarrow> int \<Rightarrow> err + int" where
  "positive_duration fraction name val fallback =
    (if val = '''' then Inr fallback
     else (case ParseDuration fraction val of
             None \<Rightarrow> Inl (Message (name @ '' must be a positive duration''))
           | Some d \<Rightarrow> if d \<le> 0 then Inl (Message (name @ '' must be a positive duration'')) else Inr d))"

definition loadConfig ::
    "json_texts \<Rightarrow> (string \<Rightarrow> int \<Rightarrow> int) \<Rightarrow> (string \<Rightarrow> string) \<Rightarrow> err + server_config" where
  "loadConfig jt fraction getenv =
    (let listen = envOr getenv ''ATOHA_LISTEN'' ''127.0.0.1:8080'';
         token = getenv ''ATOHA_API_TOKEN'';
         haURL = getenv ''ATOHA_HOME_ASSISTANT_URL'';
         haToken = getenv ''ATOHA_HOME_ASSISTANT_TOKEN'';
         source = getenv ''ATOHA_HOME_ASSISTANT_BINDINGS'';
         decoded = Unmarshal (store_map [] store_string) source None
     in if haURL = '''' \<or> haToken = ''''
        then Inl (Message ''ATOHA_HOME_ASSISTANT_URL and ATOHA_HOME_ASSISTANT_TOKEN are required'')
        else
        (case decoded of
           None \<Rightarrow> Inl (Errorf [T ''ATOHA_HOME_ASSISTANT_BINDINGS must be a non-empty JSON object: '',
                               W (Message (jt ''map[string]string'' source))])
         | Some bindings \<Rightarrow>
           if bindings = None \<or> bindings = Some []
           then Inl (Message ''ATOHA_HOME_ASSISTANT_BINDINGS must be a non-empty JSON object: %!w(<nil>)'')
           else
           result_bind (positive_duration fraction ''ATOHA_PROVIDER_TIMEOUT'' (getenv ''ATOHA_PROVIDER_TIMEOUT'')
                          (10 * 1000000000)) (\<lambda>timeout.
           result_bind (positive_duration fraction ''ATOHA_VERIFICATION_MAX_AGE''
                          (getenv ''ATOHA_VERIFICATION_MAX_AGE'') (30 * 1000000000)) (\<lambda>maxAge.
           if token = '''' \<and> \<not> loopbackAddress listen
           then Inl (Message ''ATOHA_API_TOKEN is required when ATOHA_LISTEN is not loopback'')
           else Inr \<lparr>sc_listenAddress = listen,
                     sc_databasePath = envOr getenv ''ATOHA_DATABASE'' ''atoha.db'',
                     sc_apiToken = token, sc_homeAssistantURL = haURL, sc_homeAssistantToken = haToken,
                     sc_bindings = bindings, sc_providerTimeout = timeout,
                     sc_verificationMaxAge = maxAge\<rparr>))))"

subsection \<open>Composition\<close>

definition allowAll_Admit :: "Action \<Rightarrow> AdmissionStatus \<times> err option" where
  "allowAll_Admit action = (AdmissionAdmitted, None)"

text \<open>
  What \<open>run\<close> builds before it listens: the provider and the verifier that answer the calls of the use
  cases, the opened log, and the handler over them. The order of the constructors is the order in
  which their errors end the program; the errors of \<open>NewGetAttempt\<close> and \<open>NewScanIncompleteAttempts\<close> are
  ignored.
\<close>

record server =
  srv_provider :: Provider
  srv_verifier :: StateVerifier
  srv_journal :: SqliteLog
  srv_handler :: Handler

definition run_setup ::
    "go_runtime \<Rightarrow> http_env \<Rightarrow> db_env \<Rightarrow> DB \<Rightarrow> server_config \<Rightarrow> err + server" where
  "run_setup rt env dbenv stored config =
    result_bind (HA_New env \<lparr>hc_BaseURL = sc_homeAssistantURL config, hc_Token = sc_homeAssistantToken config,
                             hc_Bindings = (case sc_bindings config of None \<Rightarrow> [] | Some l \<Rightarrow> l),
                             hc_Client = True, hc_Now = False\<rparr>) (\<lambda>provider.
    result_bind (sqlite_Open dbenv (sc_databasePath config) stored) (\<lambda>journal.
    result_bind (NewStateVerifier (sc_verificationMaxAge config)) (\<lambda>verifier.
    result_bind (NewExecuteAction \<lparr>ec_Admitter = True, ec_Resolver = True, ec_Provider = True, ec_Journal = True,
                                   ec_Now = False, ec_RecordTimeout = 0\<rparr>) (\<lambda>executor.
    result_bind (NewVerifyAttempt \<lparr>vc_Resolver = True, vc_Observer = True, vc_Verifier = True, vc_Journal = True,
                                   vc_Reader = True, vc_Actions = True, vc_Now = False, vc_RecordTimeout = 0\<rparr>)
      (\<lambda>verify.
    result_bind (NewRecoverAttempt (Some executor) True) (\<lambda>recoverer.
    result_bind (Http_New
      \<lparr>ht_Executor = Some (Execute rt (Some executor)),
       ht_Verifier = Some (VerifyAttempt_Verify rt (Some verify)),
       ht_Recoverer = Some (Recover rt (Some recoverer)),
       ht_GetAttempt = Some (GetAttempt_Get True),
       ht_Scanner = Some (ScanIncompleteAttempts_Scan True),
       ht_APIToken = sc_apiToken config\<rparr>) (\<lambda>handler.
    Inr \<lparr>srv_provider = provider, srv_verifier = verifier, srv_journal = journal, srv_handler = handler\<rparr>)))))))"
subsection \<open>The end of the program\<close>

text \<open>
  What ends a running server: \<open>ListenAndServe\<close> returns, with \<open>http.ErrServerClosed\<close> or another error, or
  a signal arrives and \<open>Shutdown\<close> returns its own error. The deferred \<open>Close\<close> of the log is ignored.
\<close>

datatype server_end = ListenReturned bool err | Interrupted "err option"

primrec serve_end :: "server_end \<Rightarrow> err option" where
  "serve_end (ListenReturned serverClosed e) = (if \<not> serverClosed then Some e else None)"
| "serve_end (Interrupted shutdown) = shutdown"

text \<open>\<open>run\<close>: the error the program ends with, when the server that was built ends as \<open>over\<close> says.\<close>

definition server_run ::
    "json_texts \<Rightarrow> (string \<Rightarrow> int \<Rightarrow> int) \<Rightarrow> (string \<Rightarrow> string) \<Rightarrow> go_runtime \<Rightarrow> http_env \<Rightarrow> db_env \<Rightarrow> DB
     \<Rightarrow> (server \<Rightarrow> server_end) \<Rightarrow> err option"
where
  "server_run jt fraction getenv rt env dbenv stored over =
    (case loadConfig jt fraction getenv of
       Inl err \<Rightarrow> Some err
     | Inr config \<Rightarrow>
         (case run_setup rt env dbenv stored config of
            Inl err \<Rightarrow> Some err
          | Inr s \<Rightarrow> serve_end (over s)))"

text \<open>\<open>main\<close>: the exit code of the process, and what \<open>log.Fatal\<close> prints (after the time stamp).\<close>

definition server_main :: "go_runtime \<Rightarrow> err option \<Rightarrow> int \<times> string option" where
  "server_main rt ended = (case ended of None \<Rightarrow> (0, None) | Some err \<Rightarrow> (1, Some (err_text rt err)))"

end
