(* ===== verification/Http_Properties.thy ===== *)
theory Http_Properties
  imports Http_Handler Exec_Errors
begin

text \<open>
  Properties of the HTTP adapter: what reaches a use case at all, and how the answer of a use case
  becomes a status code.
\<close>

subsection \<open>A program with its result mapped\<close>

lemma advance_map_prog: "advance (map_prog f p) did = map_option (map_prog f) (advance p did)"
  by (cases p; cases did) (simp_all add: advance_def)

lemma plays_map_prog: "plays (map_prog f p) tr w \<longleftrightarrow> (\<exists>v. plays p tr v \<and> w = f v)"
proof (induction tr arbitrary: p)
  case Nil
  then show ?case by (cases p) auto
next
  case (Cons did tr)
  then show ?case by (auto simp: plays_Cons advance_map_prog)
qed

subsection \<open>Routes\<close>

lemma match_patterns_method:
  "match_patterns pats m ss = Some (h, ws) \<Longrightarrow> \<exists>ps. (m, ps, h) \<in> set pats \<and> match_segments ps ss = Some ws"
  by (induction pats m ss rule: match_patterns.induct) (auto split: if_splits option.splits)

lemma Http_pattern_methods: "(m, ps, e) \<in> set Http_patterns \<Longrightarrow> m = ''POST'' \<or> m = ''GET''"
  by (auto simp: Http_patterns_def)

text \<open>A handled request has a clean path, and a pattern of its method, or \<open>GET\<close> for \<open>HEAD\<close>, matches it.\<close>

lemma ServeMux_Handle:
  assumes "ServeMux_route Http_patterns m path = Handle e ws"
  shows "cleanPath path = path \<and> m \<noteq> ''CONNECT''
    \<and> (\<exists>ps m'. (m' = m \<or> m = ''HEAD'' \<and> m' = ''GET'') \<and> (m', ps, e) \<in> set Http_patterns
         \<and> match_segments ps (path_segments path) = Some ws)"
proof -
  let ?path = "if m = ''CONNECT'' then path else cleanPath path"
  have clean: "?path = path" and r: "route_path Http_patterns m path = Some (e, ws)"
    using assms by (auto simp: ServeMux_route_def Let_def split: if_splits option.splits)
  from r obtain ps m' where ps: "m' = m \<or> m = ''HEAD'' \<and> m' = ''GET''" "(m', ps, e) \<in> set Http_patterns"
    "match_segments ps (path_segments path) = Some ws"
    using match_patterns_method [of Http_patterns m "path_segments path" e ws]
      match_patterns_method [of Http_patterns "''GET''" "path_segments path" e ws]
    by (auto simp: route_path_def split: option.splits if_splits)
  then have "m \<noteq> ''CONNECT''" using Http_pattern_methods [of m' ps e] by auto
  with clean ps show ?thesis by auto
qed

subsection \<open>Authentication\<close>

lemma PathUnescape_slash: "PathUnescape s = Some t \<Longrightarrow> CHR ''/'' \<in> set s \<Longrightarrow> CHR ''/'' \<in> set t"
proof (induction s arbitrary: t rule: PathUnescape.induct)
  case (2 c cs)
  show ?case
  proof (cases "c = CHR ''%''")
    case True
    with 2(3) obtain a b r m n t' where cs: "cs = a # b # r" "hex_value a = Some m" "hex_value b = Some n"
      "PathUnescape r = Some t'" "t = byte (16 * m + n) # t'"
      by (auto split: list.splits option.splits)
    have "a \<noteq> CHR ''/''" "b \<noteq> CHR ''/''" using cs(2,3) by (auto simp: hex_value_def is_digit_def code_def)
    with 2(1) [OF True cs(1) refl refl cs(2,3) cs(4)] 2(4) True cs show ?thesis by auto
  next
    case False
    with 2(2-4) show ?thesis by auto
  qed
qed simp

text \<open>A request for the path \<open>/healthz\<close> reaches no other endpoint, however the path is escaped.\<close>

lemma cleanPath_hd: "path \<noteq> [] \<Longrightarrow> cleanPath path = path \<Longrightarrow> hd path = CHR ''/''"
proof -
  assume a: "path \<noteq> []" "cleanPath path = path"
  have "hd (Clean_rooted p) = CHR ''/'' \<and> Clean_rooted p \<noteq> []" for p
    by (auto simp: Clean_rooted_def split: list.splits)
  then have "hd (cleanPath path) = CHR ''/''" using a(1) by (auto simp: cleanPath_def Let_def hd_append)
  with a(2) show ?thesis by simp
qed

lemma health_route:
  assumes "mux_unescape path = ''/healthz''" "ServeMux_route Http_patterns m path = Handle e ws"
  shows "e = HealthEndpoint"
proof -
  from ServeMux_Handle [OF assms(2)] obtain ps m' where clean: "cleanPath path = path"
    and ps: "(m', ps, e) \<in> set Http_patterns" "match_segments ps (path_segments path) = Some ws" by blast
  have "path \<noteq> []" using assms(1) by (auto simp: mux_unescape_def)
  with cleanPath_hd [OF this clean] obtain rest where path: "path = CHR ''/'' # rest" by (cases path) auto
  have un: "PathUnescape rest = Some ''healthz''"
    using assms(1) path by (auto simp: mux_unescape_def split: option.splits)
  then have "CHR ''/'' \<notin> set rest" using PathUnescape_slash by fastforce
  then have tw: "takeWhile (\<lambda>c. c \<noteq> CHR ''/'') rest = rest" "dropWhile (\<lambda>c. c \<noteq> CHR ''/'') rest = []"
    by (auto simp: takeWhile_eq_all_conv)
  have "rest \<noteq> []" using un by auto
  then have "path_segments path = [mux_unescape rest]"
    by (simp add: path path_segments.simps [of "CHR ''/'' # rest"] path_segments.simps [of "[]"] tw)
  then have "path_segments path = [''healthz'']" using un by (simp add: mux_unescape_def)
  with ps show ?thesis by (auto simp: Http_patterns_def)
qed

lemma unauthorized_quiet:
  assumes "hd_apiToken h \<noteq> ''''" and "in_authorization r \<noteq> ''Bearer '' @ hd_apiToken h"
    and "plays (ServeHTTP rt dt h r) tr reply"
  shows "tr = [] \<and> (if URL_Path r \<noteq> ''/healthz'' then reply = error_reply 401 ''unauthorized''
                   else reply = Http_healthz \<or> (\<exists>status. reply = MuxReply status))"
proof (cases "URL_Path r = ''/healthz''")
  case False
  with assms show ?thesis by (simp add: ServeHTTP_def)
next
  case True
  then have "plays (serve_mux rt dt h r) tr reply" using assms(3) by (simp add: ServeHTTP_def)
  with True show ?thesis
    using health_route [of "in_path r" "in_method r"]
    by (auto simp: serve_mux_def URL_Path_def serve_endpoint_def split: route.splits endpoint.splits)
qed

text \<open>C28: with a token configured, a request that does not present it makes no call of any use case, whatever
  its method, path and body. Unless its path is \<open>/healthz\<close>, the answer is 401; for that path it is the
  liveness answer or one of the multiplexer.\<close>

theorem http_unauthorized_calls_nothing:
  assumes "hd_apiToken h \<noteq> ''''" and "in_authorization r \<noteq> ''Bearer '' @ hd_apiToken h"
    and "plays (ServeHTTP rt dt h r) tr reply"
  shows "tr = [] \<and> (if URL_Path r \<noteq> ''/healthz'' then reply = error_reply 401 ''unauthorized''
                   else reply = Http_healthz \<or> (\<exists>status. reply = MuxReply status))"
  using assms by (rule unauthorized_quiet)

subsection \<open>What a status code says of an execution\<close>

text \<open>The claim of the attempt was not granted: it was taken, or the action's identity was.\<close>

definition claim_conflict :: "call \<Rightarrow> bool" where
  "claim_conflict did =
    (case did of
       DidBegin c a t es ans \<Rightarrow> ans = (False, None) \<or> error_is (snd ans) ErrActionIdentityConflict
     | _ \<Rightarrow> False)"

definition only_clock :: "call list \<Rightarrow> bool" where
  "only_clock tr \<longleftrightarrow> list_all (\<lambda>did. \<exists>now. did = DidNow now) tr"

lemma plain_accepted: "plain e \<Longrightarrow> att_id (er_Attempt r) \<noteq> '''' \<Longrightarrow> \<not> execution_refused r e"
  by (auto simp: plain_def api_sentinels_def execution_refused_def)

lemma reply_status_simps [simp]:
  "reply_status (writeJSON st v) = st" "reply_status (error_reply st m) = st"
  "reply_status (writeUseCaseError rt e) = error_status e"
  by (simp_all add: writeJSON_def error_reply_def writeUseCaseError_def Let_def)

text \<open>What the response to an execution is, by how the execution went.\<close>

definition told_status :: "call list \<Rightarrow> int \<Rightarrow> bool" where
  "told_status tr st \<longleftrightarrow>
     (st = 409 \<longleftrightarrow> list_ex claim_conflict tr) \<and> (st = 400 \<longrightarrow> only_clock tr) \<and> st \<in> {200, 400, 409}
     \<and> (dispatched tr \<noteq> [] \<longrightarrow> st = 200)"

lemma refused_claim:
  assumes "port_plain (DidBegin c a t es ans)" "ans \<noteq> (True, None)" "att_id (er_Attempt r) \<noteq> ''''"
    and e: "e = (if snd ans = None then Some (StageError StageValidate (Sentinel ErrAttemptAlreadyStarted))
                 else stageError StageRecord (snd ans))"
  shows "if claim_conflict (DidBegin c a t es ans) then execution_refused r e \<and> error_status e = 409
         else \<not> execution_refused r e"
  using assms
  by (cases ans) (auto simp: claim_conflict_def execution_refused_def error_status_def port_plain_def api_sentinels_def)

lemma execution_told:
  assumes "plays (execute rt (Some u) input auth) tr (r, e)" "list_all port_plain tr"
  shows "told_status tr (reply_status (writeExecution rt r e))
    \<and> (reply_status (writeExecution rt r e) = 200 \<longrightarrow> writeExecution rt r e = writeJSON 200 (execute_response rt r e))"
proof -
  note cases = execute_errors [OF assms]
  have resp: "writeExecution rt r e = writeJSON 200 (execute_response rt r e)" if "\<not> execution_refused r e"
    using that by (simp add: writeExecution_def)
  have refused: "reply_status (writeExecution rt r e) = error_status e" if "execution_refused r e"
    using that by (simp add: writeExecution_def)
  from cases show ?thesis
  proof (elim disjE conjE exE)
    fix now
    assume "tr = [DidNow now]" "r = zero_result" "error_is e ErrInvalidInput"
    then show ?thesis
      by (simp add: writeExecution_def execution_refused_def zero_result_def zero_attempt_def error_status_def
          told_status_def claim_conflict_def only_clock_def)
  next
    fix now
    assume "tr = [DidNow now]" "plain e" "att_id (er_Attempt r) = xi_AttemptID input" "xi_AttemptID input \<noteq> ''''"
    with plain_accepted [of e r] resp show ?thesis by (simp add: told_status_def claim_conflict_def)
  next
    fix now a t es ans
    assume tr: "tr = [DidNow now, DidBegin CallerCtx a t es ans]" and ans: "ans \<noteq> (True, None)"
      and e: "e = (if snd ans = None then Some (StageError StageValidate (Sentinel ErrAttemptAlreadyStarted))
               else stageError StageRecord (snd ans))"
      and i: "att_id (er_Attempt r) = xi_AttemptID input" "xi_AttemptID input \<noteq> ''''"
    have "port_plain (DidBegin CallerCtx a t es ans)" using assms(2) tr by simp
    note claim = refused_claim [OF this ans _ e, of r]
    show ?thesis
    proof (cases "claim_conflict (DidBegin CallerCtx a t es ans)")
      case True
      then have "claim_conflict (DidBegin CallerCtx a t es ans) \<and> reply_status (writeExecution rt r e) = 409"
        using claim i refused by simp
      then show ?thesis using tr by (simp add: told_status_def claim_conflict_def [of "DidNow now"])
    next
      case False
      then have "\<not> execution_refused r e" using claim i by simp
      with resp False tr show ?thesis by (simp add: told_status_def claim_conflict_def [of "DidNow now"])
    qed
  next
    fix now a t es rest
    assume tr: "tr = [DidNow now, DidBegin CallerCtx a t es (True, None)] @ rest" and "plain e"
      and quiet: "list_all (\<lambda>did. \<not> claims_call did) rest"
      and "att_id (er_Attempt r) = xi_AttemptID input" "xi_AttemptID input \<noteq> ''''"
    then have "\<not> execution_refused r e" using plain_accepted by metis
    moreover have "\<not> claim_conflict did" if "\<not> claims_call did" for did
      using that by (cases did) (auto simp: claim_conflict_def)
    then have "\<not> list_ex claim_conflict tr"
      using quiet tr by (auto simp: list_ex_iff list_all_iff claim_conflict_def [of "DidNow now"]
          claim_conflict_def [of "DidBegin CallerCtx a t es (True, None)"])
    ultimately show ?thesis using resp by (simp add: told_status_def)
  qed
qed

text \<open>C29: over ports whose errors do not wrap the sentinels of the API, and a journal that reports at most
  a conflict of action identities, a request to execute is answered 200, 400 or 409: 409 exactly when the
  claim was refused because the attempt, or another action, holds the identity; 400 only for a request
  that caused no call but a reading of the clock; 200 whenever the provider was called. A 200 carries the
  outcome of one run of the use case on the decoded action, whose calls are those of the request.\<close>

theorem http_execute_status:
  assumes "plays (Http_execute rt dt h r) tr reply" and "hd_executor h = Execute rt (Some u)"
    and "list_all port_plain tr"
  shows "told_status tr (reply_status reply)
    \<and> (reply_status reply = 200 \<longrightarrow>
        (\<exists>request action result err. decode_body dt (store_struct True execute_fields) r zero_executeRequest = Inr request
           \<and> request_action (xq_Action request) = Inr action
           \<and> plays (Execute rt (Some u) \<lparr>xi_Action = action, xi_AttemptID = xq_AttemptID request\<rparr>) tr (result, err)
           \<and> reply = writeJSON 200 (execute_response rt result err)))"
proof -
  have refused: ?thesis if "tr = []" "reply = error_reply 400 m" for m
    using that by (simp add: told_status_def only_clock_def)
  show ?thesis
  proof (cases "decode_body dt (store_struct True execute_fields) r zero_executeRequest")
    case (Inl m)
    with assms(1) refused show ?thesis by (simp add: Http_execute_def)
  next
    case request: (Inr request)
    show ?thesis
    proof (cases "request_action (xq_Action request)")
      case (Inl err)
      with assms(1) request refused show ?thesis by (simp add: Http_execute_def)
    next
      case (Inr action)
      with assms(1,2) request obtain result err where
        p: "plays (Execute rt (Some u) \<lparr>xi_Action = action, xi_AttemptID = xq_AttemptID request\<rparr>) tr (result, err)"
        and reply: "reply = writeExecution rt result err"
        by (auto simp: Http_execute_def plays_map_prog)
      from execution_told [OF p [unfolded Execute_def] assms(3)] reply request Inr p show ?thesis by blast
    qed
  qed
qed

subsection \<open>An attempt that does not exist\<close>

text \<open>For an attempt without facts the query answers 404, while the assessment answers 200 with the same error
  inside: its result already carries the identity of the attempt.\<close>

lemma missing_attempt_verified:
  assumes "vi_AttemptID input \<noteq> []" "act_id (vi_Action input) \<noteq> []"
    and "plays (VerifyAttempt_Verify rt (Some v) input) [DidEvents CallerCtx (vi_AttemptID input) ([], None)] (vr, e)"
  shows "error_is e ErrAttemptNotFound \<and> reply_status (writeVerification rt vr e) = 200"
  using assms(3,1,2) unfolding VerifyAttempt_Verify_def Let_def option.case plays_simps
  by (auto simp: writeVerification_def error_is_def zero_verify_result_def)

lemma missing_attempt_read:
  assumes "attemptID \<noteq> []" and "plays (GetAttempt_Get True attemptID) [DidEvents CallerCtx attemptID ([], None)] (view, e)"
  shows "error_is e ErrAttemptNotFound \<and> reply_status (writeView rt view e) = 404"
  using assms(2,1) unfolding GetAttempt_Get_def plays_simps
  by (auto simp: attempt_view_def writeView_def writeUseCaseError_def error_status_def Let_def)

end
