(* ===== verification/Server_Properties.thy ===== *)
theory Server_Properties
  imports Server HA_System Http_Properties Recover_Properties Exec_System
begin

text \<open>
  Properties of the composed program: who can reach the use cases, and what one HTTP request can do to
  the world behind the provider.
\<close>

subsection \<open>What the composition root builds\<close>

lemma run_setup_handler:
  assumes "run_setup rt env dbenv stored config = Inr s"
  shows "\<exists>u v rv. srv_handler s = \<lparr>hd_executor = Execute rt (Some u), hd_verifier = VerifyAttempt_Verify rt (Some v),
      hd_recoverer = Recover rt (Some rv), hd_getAttempt = GetAttempt_Get True,
      hd_scanner = ScanIncompleteAttempts_Scan True, hd_apiToken = sc_apiToken config\<rparr>"
  using assms by (auto simp: run_setup_def Http_New_def)

lemma HA_New_bindings:
  "HA_New env config = Inr p \<Longrightarrow> map_of (tr_bindings (pv_translator p)) = map_of (rev (hc_Bindings config))"
  by (auto simp: HA_New_def Let_def newTranslator_Inr_iff map_of_map_put_all split: sum.splits if_splits)

lemma run_setup_bindings:
  assumes "run_setup rt env dbenv stored config = Inr s"
    and "map_of (tr_bindings (pv_translator (srv_provider s))) l = Some e"
  shows "\<exists>bs. sc_bindings config = Some bs \<and> (l, e) \<in> set bs"
proof -
  from assms(1) obtain c where "HA_New env c = Inr (srv_provider s)"
    and c: "hc_Bindings c = (case sc_bindings config of None \<Rightarrow> [] | Some l \<Rightarrow> l)"
    by (fastforce simp: run_setup_def)
  from HA_New_bindings [OF this(1)] assms(2) have "map_of (rev (hc_Bindings c)) l = Some e" by simp
  with c show ?thesis by (auto dest!: map_of_SomeD split: option.splits)
qed

subsection \<open>Exposure\<close>

lemma loadConfig_token:
  assumes "loadConfig jt fraction getenv = Inr config"
  shows "sc_apiToken config = getenv ''ATOHA_API_TOKEN''"
    "sc_apiToken config = '''' \<Longrightarrow> loopbackAddress (sc_listenAddress config)"
  using assms by (auto simp: loadConfig_def Let_def split: if_splits option.splits)

lemma loopback_host:
  "loopbackAddress address \<Longrightarrow> \<exists>host port. SplitHostPort address = Some (host, port)
     \<and> (host = ''localhost'' \<or> (\<exists>ip. ParseIP host = Some ip \<and> IsLoopback ip))"
  by (auto simp: loopbackAddress_def split: option.splits if_splits)

text \<open>C27: a server whose configuration was accepted either listens on \<open>localhost\<close> or a loopback address, or
  answers every request that does not present the configured token without any call of a use case: 401,
  or for the path \<open>/healthz\<close> the liveness answer or one of the multiplexer.\<close>

theorem server_exposure:
  assumes "loadConfig jt fraction getenv = Inr config" and "run_setup rt env dbenv stored config = Inr s"
    and "plays (ServeHTTP rt dt (srv_handler s) r) tr reply"
    and "in_authorization r \<noteq> ''Bearer '' @ getenv ''ATOHA_API_TOKEN''"
  shows "(\<exists>host port. SplitHostPort (sc_listenAddress config) = Some (host, port)
       \<and> (host = ''localhost'' \<or> (\<exists>ip. ParseIP host = Some ip \<and> IsLoopback ip)))
    \<or> tr = [] \<and> (if URL_Path r \<noteq> ''/healthz'' then reply_status reply = 401
                 else reply = Http_healthz \<or> (\<exists>status. reply = MuxReply status))"
proof (cases "sc_apiToken config = ''''")
  case True
  then show ?thesis using loadConfig_token [OF assms(1)] loopback_host by blast
next
  case False
  then have "hd_apiToken (srv_handler s) \<noteq> ''''" "in_authorization r \<noteq> ''Bearer '' @ hd_apiToken (srv_handler s)"
    using run_setup_handler [OF assms(2)] loadConfig_token(1) [OF assms(1)] assms(4) by auto
  from unauthorized_quiet [OF this assms(3)] show ?thesis by (auto split: if_splits)
qed

subsection \<open>One request, one dispatch\<close>

text \<open>
  The run sent one service call: the attempt of the input was claimed, then admitted, the call is the POST
  for the bound entity, and the status tells how the exchange went.
\<close>

definition sent_for ::
    "json_texts \<Rightarrow> http_env \<Rightarrow> Provider \<Rightarrow> Action \<Rightarrow> AttemptID \<Rightarrow> call list \<Rightarrow> DispatchStatus \<Rightarrow> bool" where
  "sent_for jt env p action attemptID tr st \<longleftrightarrow>
    (\<exists>rq before now t es after. run_requests jt env p tr = [rq]
       \<and> tr = before @ [DidNow now, DidBegin CallerCtx action t es (True, None),
                         DidAdmit CallerCtx action (AdmissionAdmitted, None)] @ after
       \<and> list_all (\<lambda>did. \<not> executes did) before \<and> att_id t = attemptID \<and> rq_method rq = ''POST''
       \<and> (\<exists>entity domain ob. map_of (tr_bindings (pv_translator p)) (act_target action) = Some entity
            \<and> entity = domain @ CHR ''.'' # ob
            \<and> rq_url rq = (rc_baseURL (pv_client p))\<lparr>u_path := u_path (rc_baseURL (pv_client p))
                @ ''/api/services/'' @ domain @ ''/'' @ act_name action\<rparr>)
       \<and> st = exchange_status env rq)"

lemma not_executing_quiet: "list_all (\<lambda>did. \<not> executes did) tr \<Longrightarrow> run_requests jt env p tr = []"
  by (induction tr) (simp_all add: run_requests_def)

lemma never_executes_quiet:
  "plays q tr w \<Longrightarrow> only (\<lambda>c. \<not> executes c) q \<Longrightarrow> run_requests jt env p tr = []"
  using only_plays [of q tr w "\<lambda>c. \<not> executes c"] by (auto simp: list_all_iff intro!: not_executing_quiet)

lemma execute_sent:
  assumes "plays (execute rt (Some u) input auth) tr (r, e)" "list_all (answered_by jt env p) tr"
    and "run_requests jt env p tr \<noteq> []" "list_all (\<lambda>did. \<not> executes did) before"
  shows "sent_for jt env p (xi_Action input) (xi_AttemptID input) (before @ tr) (o_dispatch (er_Outcome r))"
proof -
  have "run_requests jt env p (before @ tr) = run_requests jt env p tr"
    using not_executing_quiet [OF assms(4), of jt env p] by (simp add: run_requests_def)
  with execute_once [OF assms(1,2)] assms(3,4) show ?thesis
    unfolding sent_for_def by (metis append_assoc)
qed

lemma recover_sent:
  assumes "plays (Recover rt (Some rv) input) tr (r, e)" "list_all (answered_by jt env p) tr"
    and "run_requests jt env p tr \<noteq> []"
  shows "sent_for jt env p (ri_Action input) (ri_AttemptID input) tr (o_dispatch (er_Outcome r))"
proof -
  have empty: "run_requests jt env p [] = []" by (simp add: run_requests_def)
  have quiet: "run_requests jt env p (DidEvents c i a # rest) = run_requests jt env p rest"
    "run_requests jt env p (DidAction c i b # rest) = run_requests jt env p rest" for c i a b rest
    by (simp_all add: run_requests_def)
  from assms(1,3) obtain prev st tr2 where tr: "tr = DidEvents CallerCtx (ra_previousAttemptID (ri_Authorization input)) prev
      # DidAction CallerCtx (act_id (ri_Action input)) st # tr2"
    and p: "plays (execute rt (Some (rv_executor rv)) \<lparr>xi_Action = ri_Action input, xi_AttemptID = ri_AttemptID input\<rparr>
        (Some (ri_Authorization input))) tr2 (r, e)"
    unfolding recover_plays Let_def by (auto simp: empty quiet split: if_splits)
  have "run_requests jt env p tr2 \<noteq> []" "list_all (answered_by jt env p) tr2" using assms(2,3) tr quiet by simp_all
  from execute_sent [OF p this(2,1), of "[DidEvents CallerCtx (ra_previousAttemptID (ri_Authorization input)) prev,
      DidAction CallerCtx (act_id (ri_Action input)) st]"]
  show ?thesis using tr by simp
qed

lemma server_calls:
  assumes built: "run_setup rt env dbenv stored config = Inr s"
    and played: "plays (ServeHTTP rt dt (srv_handler s) r) tr reply"
    and answers: "list_all (answered_by jt env (srv_provider s)) tr"
    and sent: "run_requests jt env (srv_provider s) tr \<noteq> []"
  shows "(sc_apiToken config = '''' \<or> in_authorization r = ''Bearer '' @ sc_apiToken config)
    \<and> in_method r = ''POST''
    \<and> (\<exists>action attemptID result err.
         ((\<exists>request. decode_body dt (store_struct True execute_fields) r zero_executeRequest = Inr request
             \<and> path_segments (in_path r) = [''v1'', ''actions'', ''execute'']
             \<and> request_action (xq_Action request) = Inr action \<and> xq_AttemptID request = attemptID)
          \<or> (\<exists>request. decode_body dt (store_struct True recover_fields) r zero_recoverRequest = Inr request
             \<and> path_segments (in_path r) = [''v1'', ''actions'', ''recover'']
             \<and> request_action (cq_Action request) = Inr action \<and> cq_AttemptID request = attemptID))
         \<and> sent_for jt env (srv_provider s) action attemptID tr (o_dispatch (er_Outcome result))
         \<and> reply = writeExecution rt result err)"
proof -
  let ?h = "srv_handler s" and ?p = "srv_provider s"
  obtain u v rv where h: "?h = \<lparr>hd_executor = Execute rt (Some u), hd_verifier = VerifyAttempt_Verify rt (Some v),
      hd_recoverer = Recover rt (Some rv), hd_getAttempt = GetAttempt_Get True,
      hd_scanner = ScanIncompleteAttempts_Scan True, hd_apiToken = sc_apiToken config\<rparr>"
    using run_setup_handler [OF built] by blast
  have empty: "tr \<noteq> []" using sent by (auto simp: run_requests_def)
  have token: "sc_apiToken config = '''' \<or> in_authorization r = ''Bearer '' @ sc_apiToken config"
    using unauthorized_quiet [of ?h r rt dt tr reply] played empty h by auto
  have mux: "plays (serve_mux rt dt ?h r) tr reply"
    using played empty by (auto simp: ServeHTTP_def split: if_splits)
  with empty obtain e ws where route: "ServeMux_route Http_patterns (in_method r) (in_path r) = Handle e ws"
    and served: "plays (serve_endpoint rt dt ?h r e ws) tr reply"
    by (auto simp: serve_mux_def split: route.splits)
  from ServeMux_Handle [OF route] obtain ps m' where
    ps: "m' = in_method r \<or> in_method r = ''HEAD'' \<and> m' = ''GET''" "(m', ps, e) \<in> set Http_patterns"
      "match_segments ps (path_segments (in_path r)) = Some ws" by blast
  have quiet: False if "plays (map_prog f q) tr reply" "only (\<lambda>c. \<not> executes c) q" for f :: "'z \<Rightarrow> reply" and q
    using that sent never_executes_quiet [of q tr] by (auto simp: plays_map_prog)
  have lits: "match_segments (map Lit ls) ss = Some ws \<Longrightarrow> ss = ls" for ls ss
    by (induction ls ss arbitrary: ws rule: list_induct2') (auto split: if_splits)
  show ?thesis
  proof (cases e)
    case ExecuteEndpoint
    then have "m' = ''POST''" "ps = map Lit [''v1'', ''actions'', ''execute'']" using ps(2) by (auto simp: Http_patterns_def)
    then have post: "in_method r = ''POST''" "path_segments (in_path r) = [''v1'', ''actions'', ''execute'']"
      using ps lits by auto
    from served ExecuteEndpoint h empty obtain request action result err where
      d: "decode_body dt (store_struct True execute_fields) r zero_executeRequest = Inr request"
        "request_action (xq_Action request) = Inr action"
      and p: "plays (Execute rt (Some u) \<lparr>xi_Action = action, xi_AttemptID = xq_AttemptID request\<rparr>) tr (result, err)"
      and reply: "reply = writeExecution rt result err"
      by (auto simp: serve_endpoint_def Http_execute_def plays_map_prog split: sum.splits)
    from execute_sent [OF p [unfolded Execute_def] answers sent, of "[]"]
    have "sent_for jt env ?p action (xq_AttemptID request) tr (o_dispatch (er_Outcome result))" by simp
    with token post d reply show ?thesis by blast
  next
    case RecoverEndpoint
    then have "m' = ''POST''" "ps = map Lit [''v1'', ''actions'', ''recover'']" using ps(2) by (auto simp: Http_patterns_def)
    then have post: "in_method r = ''POST''" "path_segments (in_path r) = [''v1'', ''actions'', ''recover'']"
      using ps lits by auto
    from served RecoverEndpoint h empty obtain request action authorization result err where
      d: "decode_body dt (store_struct True recover_fields) r zero_recoverRequest = Inr request"
        "request_action (cq_Action request) = Inr action"
      and p: "plays (Recover rt (Some rv) \<lparr>ri_Action = action, ri_AttemptID = cq_AttemptID request,
                ri_Authorization = authorization\<rparr>) tr (result, err)"
      and reply: "reply = writeExecution rt result err"
      by (auto simp: serve_endpoint_def Http_recover_def plays_map_prog split: sum.splits)
    from recover_sent [OF p answers sent]
    have "sent_for jt env ?p action (cq_AttemptID request) tr (o_dispatch (er_Outcome result))" by simp
    with token post d reply show ?thesis by blast
  next
    case VerifyEndpoint
    with served h empty quiet [OF _ verify_never_executes] show ?thesis
      by (fastforce simp: serve_endpoint_def Http_verify_def split: sum.splits)
  next
    case GetEndpoint
    with served h quiet [OF _ queries_never_execute(1)] show ?thesis
      by (fastforce simp: serve_endpoint_def Http_get_def)
  next
    case ScanEndpoint
    with served h quiet [OF _ queries_never_execute(2)] show ?thesis
      by (fastforce simp: serve_endpoint_def Http_scan_def)
  next
    case HealthEndpoint
    with served empty show ?thesis by (simp add: serve_endpoint_def)
  qed
qed

text \<open>C25: one HTTP request to the composed server causes at most one service call of Home Assistant, whatever
  the network, the database and the clock do. When it causes one, the request presented the token (if
  one is configured), was a POST to execute or recover whose body decodes to the action; the attempt was
  claimed and the action admitted before; the call is the POST to the service of the bound entity; and
  the response is written from a result whose dispatch status tells how that exchange went.\<close>

theorem server_dispatches_once:
  assumes "run_setup rt env dbenv stored config = Inr s"
    and "plays (ServeHTTP rt dt (srv_handler s) r) tr reply"
    and "list_all (answered_by jt env (srv_provider s)) tr"
  shows "run_requests jt env (srv_provider s) tr = [] \<or>
    (sc_apiToken config = '''' \<or> in_authorization r = ''Bearer '' @ sc_apiToken config)
    \<and> in_method r = ''POST''
    \<and> (\<exists>action attemptID result err.
         ((\<exists>request. decode_body dt (store_struct True execute_fields) r zero_executeRequest = Inr request
             \<and> path_segments (in_path r) = [''v1'', ''actions'', ''execute'']
             \<and> request_action (xq_Action request) = Inr action \<and> xq_AttemptID request = attemptID)
          \<or> (\<exists>request. decode_body dt (store_struct True recover_fields) r zero_recoverRequest = Inr request
             \<and> path_segments (in_path r) = [''v1'', ''actions'', ''recover'']
             \<and> request_action (cq_Action request) = Inr action \<and> cq_AttemptID request = attemptID))
         \<and> sent_for jt env (srv_provider s) action attemptID tr (o_dispatch (er_Outcome result))
         \<and> reply = writeExecution rt result err)"
  using server_calls [OF assms] by blast

end
