(* ===== verification/Http_Examples.thy ===== *)
theory Http_Examples
  imports Http_Roundtrip Server_Properties
begin

text \<open>
  One server, built from an environment that binds one lamp, and the requests of the witnesses of the HTTP
  adapter and of the composed program.
\<close>

definition served_bindings :: string where
  "served_bindings = object_text [(''lamp'', json_string ''light.lamp'')]"

definition served_env :: "string \<Rightarrow> string" where
  "served_env name =
    (if name = ''ATOHA_LISTEN'' then ''0.0.0.0:8080''
     else if name = ''ATOHA_API_TOKEN'' then ''secret''
     else if name = ''ATOHA_HOME_ASSISTANT_URL'' then ''http://ha''
     else if name = ''ATOHA_HOME_ASSISTANT_TOKEN'' then ''secret''
     else if name = ''ATOHA_HOME_ASSISTANT_BINDINGS'' then served_bindings else '''')"

definition served_config :: server_config where
  "served_config = \<lparr>sc_listenAddress = ''0.0.0.0:8080'', sc_databasePath = ''atoha.db'', sc_apiToken = ''secret'',
     sc_homeAssistantURL = ''http://ha'', sc_homeAssistantToken = ''secret'',
     sc_bindings = Some [(''lamp'', ''light.lamp'')], sc_providerTimeout = 10000000000,
     sc_verificationMaxAge = 30000000000\<rparr>"

lemma served_bindings_decoded:
  "Unmarshal (store_map [] store_string) served_bindings None = Some (Some [(''lamp'', ''light.lamp'')])"
proof -
  have "list_all (entry_ok (scan_value 9999)) [(''lamp'', json_string ''light.lamp'')]"
    by (simp add: entry_ok_def json_string_ok ascii_utf8 code_def)
  note d = object_text_decodes [OF this]
  show ?thesis
    unfolding served_bindings_def
    by (simp add: Unmarshal_def d store_map_def stored_string ascii_utf8 code_def)
qed

lemma served_loaded: "loadConfig lamp_texts (\<lambda>_ _. 0) served_env = Inr served_config"
  by (simp add: loadConfig_def served_env_def served_config_def envOr_def positive_duration_def served_bindings_decoded Let_def)

definition lamp_server :: server where
  "lamp_server = \<lparr>srv_provider = lamp_provider, srv_verifier = \<lparr>sv_maxAge = 30000000000\<rparr>, srv_journal = Some empty_db,
     srv_handler = \<lparr>hd_executor = Execute mirror_rt (Some example_use_case),
       hd_verifier = VerifyAttempt_Verify mirror_rt (Some \<lparr>va_now = TimeNow, va_recordTimeout = defaultRecordTimeout\<rparr>),
       hd_recoverer = Recover mirror_rt (Some \<lparr>rv_executor = example_use_case\<rparr>),
       hd_getAttempt = GetAttempt_Get True, hd_scanner = ScanIncompleteAttempts_Scan True, hd_apiToken = ''secret''\<rparr>\<rparr>"

lemma served_built: "run_setup mirror_rt lamp_env quiet_db empty_db served_config = Inr lamp_server"
proof -
  have trim: "TrimSpace t = t" if "text_ok t" for t using that by (simp add: text_ok_def)
  have ok: "text_ok ''atoha.db''" "text_ok ''secret''" by (rule visible_text_ok; simp add: visible_def code_def)+
  have "newTranslator [(''lamp'', ''light.lamp'')] = Inr \<lparr>tr_bindings = [(''lamp'', ''light.lamp'')]\<rparr>"
    by (simp add: newTranslator_def trim lamp_entity)
  then have "HA_New lamp_env \<lparr>hc_BaseURL = ''http://ha'', hc_Token = ''secret'', hc_Bindings = [(''lamp'', ''light.lamp'')],
      hc_Client = True, hc_Now = False\<rparr> = Inr lamp_provider"
    by (simp add: HA_New_def lamp_env_def lamp_url_def lamp_provider_def trim ok TrimRight_slash_def)
  moreover have "sqlite_Open quiet_db ''atoha.db'' empty_db = Inr (Some empty_db)"
    by (simp add: sqlite_Open_def trim ok sqlite_initialize_def upt_rec)
  ultimately show ?thesis
    by (simp add: run_setup_def served_config_def NewStateVerifier_def NewExecuteAction_def NewVerifyAttempt_def
        NewRecoverAttempt_def Http_New_def lamp_server_def example_use_case_def)
qed

definition lamp_request :: incoming where
  "lamp_request = \<lparr>in_method = ''POST'', in_path = ''/v1/actions/execute'', in_authorization = ''Bearer secret'',
     in_body = client_execute example_action ''t'', in_bodyErr = None\<rparr>"

lemma lamp_route: "ServeMux_route Http_patterns ''POST'' ''/v1/actions/execute'' = Handle ExecuteEndpoint []"
  by code_simp

lemma lamp_year: "local_year \<lparr>t_ns = 1, t_off = 0\<rparr> = 1"
  by code_simp

lemma lamp_time_text: "FormatRFC3339Nano \<lparr>t_ns = 1, t_off = 0\<rparr> = ''0001-01-01T00:00:00.000000001Z''"
  by code_simp

lemma lamp_sendable: "sendable example_action ''t''"
  by (simp add: sendable_def example_action_def lamp_year ascii_utf8 code_def)

lemma lamp_body_length: "length (client_execute example_action ''t'') \<le> maxRequestSize"
  by (simp add: client_execute_def client_action_def example_action_def lamp_time_text object_text_def raw_entry_def
      json_string_def json_string_body_plain html_safe_def code_def maxRequestSize_def del: json_string_body.simps)
subsection \<open>The lamp switched on over HTTP\<close>

definition lamp_decode :: decode_texts where
  "lamp_decode = (\<lambda>_ _. ''error'')"

lemma lamp_request_decoded:
  "\<exists>request. decode_body dt (store_struct True execute_fields) lamp_request zero_executeRequest = Inr request
    \<and> request_action (xq_Action request) = Inr example_action \<and> xq_AttemptID request = ''t''"
  using decoded_request [OF example_values(1) lamp_sendable, of lamp_request] lamp_body_length
  by (simp add: lamp_request_def)

definition lamp_reply :: reply where
  "lamp_reply = writeExecution mirror_rt (fst (snd lamp_run)) (snd (snd lamp_run))"

lemma lamp_executed:
  "plays (Http_execute mirror_rt dt (srv_handler lamp_server) lamp_request) (fst lamp_run) lamp_reply"
proof -
  obtain request where d: "decode_body dt (store_struct True execute_fields) lamp_request zero_executeRequest = Inr request"
    "request_action (xq_Action request) = Inr example_action" "xq_AttemptID request = ''t''"
    using lamp_request_decoded by blast
  obtain tr result err where lamp: "lamp_run = (tr, result, err)" by (metis surj_pair)
  have "plays (Execute mirror_rt (Some example_use_case) example_input) tr (result, err)"
    using lamp_played unfolding lamp Execute_def by simp
  then show ?thesis
    unfolding example_input_def
    by (simp add: Http_execute_def d lamp_server_def plays_map_prog lamp_reply_def lamp) blast
qed

lemma lamp_served: "plays (ServeHTTP mirror_rt dt (srv_handler lamp_server) lamp_request) (fst lamp_run) lamp_reply"
  using lamp_executed lamp_route
  by (simp add: ServeHTTP_def serve_mux_def serve_endpoint_def lamp_request_def lamp_server_def)

lemma run_port_plain:
  assumes "plain (snd (pt_begin w))" "plain (pt_append w)" "plain (snd (pt_admit w))" "plain (snd (pt_resolve w))"
    "plain (snd (pt_dispatch w))"
  shows "list_all port_plain (fst (run w p))"
  using assms by (induction p) (auto simp: port_plain_def plain_def)

lemma lamp_plain: "list_all port_plain (fst lamp_run)"
  unfolding lamp_run_def
  using lamp_answer by (intro run_port_plain) (auto simp: lamp_ports_def example_ports_def lamp_resolved)

subsection \<open>Witnesses\<close>

lemma http_execute_request_roundtrip_witness:
  "\<exists>request. decode_body lamp_decode (store_struct True execute_fields) lamp_request zero_executeRequest = Inr request
    \<and> request_action (xq_Action request) = Inr example_action \<and> xq_AttemptID request = ''t''"
  using http_execute_request_roundtrip [OF lamp_sendable example_values(1), of lamp_request] lamp_body_length
  by (simp add: lamp_request_def)

lemma http_execute_status_witness: "dispatched (fst lamp_run) = [''t''] \<and> reply_status lamp_reply = 200"
proof -
  have "hd_executor (srv_handler lamp_server) = Execute mirror_rt (Some example_use_case)" by (simp add: lamp_server_def)
  from http_execute_status [OF lamp_executed [of lamp_decode] this lamp_plain] lamp_once
  show ?thesis by (simp add: told_status_def)
qed

definition stranger_request :: incoming where
  "stranger_request = lamp_request\<lparr>in_authorization := ''Bearer guess''\<rparr>"

lemma stranger_served:
  "plays (ServeHTTP mirror_rt lamp_decode (srv_handler lamp_server) stranger_request)
    (fst (run lamp_ports (ServeHTTP mirror_rt lamp_decode (srv_handler lamp_server) stranger_request)))
    (snd (run lamp_ports (ServeHTTP mirror_rt lamp_decode (srv_handler lamp_server) stranger_request)))"
  by (rule run_plays)

lemma stranger_path: "URL_Path stranger_request \<noteq> ''/healthz''"
  by (simp add: URL_Path_def stranger_request_def lamp_request_def mux_unescape_def)

lemma http_unauthorized_calls_nothing_witness:
  "run lamp_ports (ServeHTTP mirror_rt lamp_decode (srv_handler lamp_server) stranger_request)
    = ([], error_reply 401 ''unauthorized'')"
proof -
  have "hd_apiToken (srv_handler lamp_server) = ''secret''" by (simp add: lamp_server_def)
  with http_unauthorized_calls_nothing [OF _ _ stranger_served] stranger_path show ?thesis
    by (simp add: stranger_request_def prod_eq_iff)
qed

lemma served_everywhere: "SplitHostPort ''0.0.0.0:8080'' = Some (''0.0.0.0'', ''8080'')"
    "map_option IsLoopback (ParseIP ''0.0.0.0'') = Some False"
  by code_simp+

lemma server_exposure_witness:
  "fst (run lamp_ports (ServeHTTP mirror_rt lamp_decode (srv_handler lamp_server) stranger_request)) = []"
proof -
  have "in_authorization stranger_request \<noteq> ''Bearer '' @ served_env ''ATOHA_API_TOKEN''"
    by (simp add: stranger_request_def served_env_def)
  from server_exposure [OF served_loaded served_built stranger_served this] served_everywhere
  show ?thesis by (auto simp: served_config_def)
qed

lemma server_dispatches_once_witness:
  "\<exists>rq. run_requests lamp_texts lamp_env lamp_provider (fst lamp_run) = [rq] \<and> rq_method rq = ''POST''
    \<and> plays (ServeHTTP mirror_rt lamp_decode (srv_handler lamp_server) lamp_request) (fst lamp_run) lamp_reply"
proof -
  have "srv_provider lamp_server = lamp_provider" by (simp add: lamp_server_def)
  with server_dispatches_once [OF served_built lamp_served [of lamp_decode], of lamp_texts]
    lamp_run_answers lamp_run_requests lamp_served
  show ?thesis by (auto simp: sent_for_def)
qed

end
