(* ===== verification/Http_Responses.thy ===== *)
theory Http_Responses
  imports Http_Roundtrip Exec_Types Exec_Examples
begin

text \<open>
  What a client reads in a response: the JSON text of an object of strings gives back its members, so the
  body of an execution tells its result.
\<close>

subsection \<open>Objects of strings\<close>

definition json_texts_of :: "(string \<times> string) list \<Rightarrow> json" where
  "json_texts_of kss = JObject (map (\<lambda>(k, s). (k, JString s)) kss)"

definition printed_members :: "(string \<times> string) list \<Rightarrow> (string \<times> string) list" where
  "printed_members = map (\<lambda>(k, s). (k, json_string s))"

lemma json_texts_marshal: "json_marshal (json_texts_of kss) = Inr (object_text (printed_members kss))"
proof -
  have "json_fields (map (\<lambda>(k, s). (k, JString s)) kss) = Inr (map raw_entry (printed_members kss))"
    by (induction kss) (auto simp: printed_members_def raw_entry_def)
  then show ?thesis by (simp add: json_texts_of_def object_text_def)
qed

text \<open>How a client reads the body: one JSON object, its members with their strings unquoted.\<close>

definition body_texts :: "string \<Rightarrow> (string \<times> string) list option" where
  "body_texts body =
    (case whole_value body of
       None \<Rightarrow> None
     | Some raw \<Rightarrow>
         if raw_kind raw = RawObject then Some (map (\<lambda>(k, v). (k, unquote v)) (raw_members raw)) else None)"

lemma body_texts_read:
  assumes "\<forall>(k, s)\<in>set kss. utf8_ok k \<and> utf8_ok s"
  shows "body_texts (object_text (printed_members kss) @ [CHR 0x0A]) = Some kss"
proof -
  let ?t = "object_text (printed_members kss)"
  have ok: "list_all (entry_ok (scan_value 9999)) (printed_members kss)"
    using assms json_string_ok by (auto simp: printed_members_def list_all_iff entry_ok_def)
  note d = object_text_decodes [OF ok]
  have sp: "skip_space (?t @ x) = ?t @ x" for x by (simp add: object_text_def json_space_def)
  have "skip_space [CHR 0x0A] = []" by code_simp
  then have "whole_value (?t @ [CHR 0x0A]) = Some ?t"
    using d(1) [of "[CHR 0x0A]"] sp consumed_append [of ?t "[CHR 0x0A]"] by (simp add: whole_value_def)
  moreover have "map (\<lambda>(k, v). (k, unquote v)) (printed_members kss) = kss"
    using assms unquote_json_string
    by (induction kss) (auto simp: printed_members_def unquote_def json_string_def)
  ultimately show ?thesis by (simp add: body_texts_def d(3,4))
qed

subsection \<open>Executions\<close>

definition response_texts :: "go_runtime \<Rightarrow> ExecuteResult \<Rightarrow> err option \<Rightarrow> (string \<times> string) list" where
  "response_texts rt r e =
    [(''action_id'', act_id (er_Action r)), (''attempt_id'', att_id (er_Attempt r))]
    @ (if att_recoveryOf (er_Attempt r) = [] then [] else [(''recovery_of'', att_recoveryOf (er_Attempt r))])
    @ [(''admission'', admission_String (o_admission (er_Outcome r))), (''dispatch'', dispatch_String (o_dispatch (er_Outcome r))),
       (''effect'', effect_String (o_effect (er_Outcome r)))]
    @ (if dr_provider (er_Dispatch r) = [] then [] else [(''provider'', dr_provider (er_Dispatch r))])
    @ (if errorText rt e = [] then [] else [(''operation_error'', errorText rt e)])"

lemma execute_response_texts: "execute_response rt r e = json_texts_of (response_texts rt r e)"
  by (simp add: execute_response_def marshal_executeResponse_def json_texts_of_def response_texts_def omit_string_def RecoveryOf_def)

text \<open>The statuses by their texts.\<close>

definition client_outcome :: "(string \<times> string) list \<Rightarrow> Outcome option" where
  "client_outcome texts =
    (case (find (\<lambda>s. map_of texts ''admission'' = Some (admission_String s)) [AdmissionUnknown, AdmissionRejected, AdmissionAdmitted],
           find (\<lambda>s. map_of texts ''dispatch'' = Some (dispatch_String s))
             [DispatchUnknown, DispatchNotDispatched, DispatchDispatched, DispatchAcknowledged],
           find (\<lambda>s. map_of texts ''effect'' = Some (effect_String s))
             [EffectUnknown, EffectUnverified, EffectObservedSatisfied, EffectObservedUnsatisfied]) of
       (Some a, Some d, Some e) \<Rightarrow> Some \<lparr>o_admission = a, o_dispatch = d, o_effect = e\<rparr>
     | _ \<Rightarrow> None)"

lemma status_texts_utf8:
  "admission_valid a \<Longrightarrow> utf8_ok (admission_String a)" "dispatch_valid d \<Longrightarrow> utf8_ok (dispatch_String d)"
  "effect_valid e \<Longrightarrow> utf8_ok (effect_String e)"
  unfolding admission_valid_iff dispatch_valid_iff effect_valid_iff
  by (elim disjE; rule ascii_utf8; simp add: admission_String_def dispatch_String_def effect_String_def status_defs code_def)+

lemma status_read:
  "admission_valid a \<Longrightarrow> find (\<lambda>s. Some (admission_String a) = Some (admission_String s))
     [AdmissionUnknown, AdmissionRejected, AdmissionAdmitted] = Some a"
  "dispatch_valid d \<Longrightarrow> find (\<lambda>s. Some (dispatch_String d) = Some (dispatch_String s))
     [DispatchUnknown, DispatchNotDispatched, DispatchDispatched, DispatchAcknowledged] = Some d"
  "effect_valid e \<Longrightarrow> find (\<lambda>s. Some (effect_String e) = Some (effect_String s))
     [EffectUnknown, EffectUnverified, EffectObservedSatisfied, EffectObservedUnsatisfied] = Some e"
  unfolding admission_valid_iff dispatch_valid_iff effect_valid_iff
  by (elim disjE; simp add: admission_String_def dispatch_String_def effect_String_def status_defs)+

lemma response_lookup:
  "map_of (response_texts rt r e) ''action_id'' = Some (act_id (er_Action r))"
  "map_of (response_texts rt r e) ''attempt_id'' = Some (att_id (er_Attempt r))"
  "map_of (response_texts rt r e) ''admission'' = Some (admission_String (o_admission (er_Outcome r)))"
  "map_of (response_texts rt r e) ''dispatch'' = Some (dispatch_String (o_dispatch (er_Outcome r)))"
  "map_of (response_texts rt r e) ''effect'' = Some (effect_String (o_effect (er_Outcome r)))"
  "map_of (response_texts rt r e) ''operation_error'' = (if errorText rt e = [] then None else Some (errorText rt e))"
  by (simp_all add: response_texts_def)

lemma client_outcome_read:
  assumes "outcome_ok (er_Outcome r)"
  shows "client_outcome (response_texts rt r e) = Some (er_Outcome r)"
  using assms unfolding client_outcome_def response_lookup outcome_ok_def by (simp only: status_read) simp

text \<open>C34: a client can read the response to an execution whose statuses are declared ones and whose
  identities and error text are UTF-8: the body is one JSON object whose strings are the
  identities of the action and the attempt, the texts of the three statuses, which determine the outcome
  of the run, and the text of the error, absent when there is none.\<close>

theorem http_execution_readable:
  assumes "outcome_ok (er_Outcome result)"
    and "list_all utf8_ok [act_id (er_Action result), att_id (er_Attempt result), att_recoveryOf (er_Attempt result),
      dr_provider (er_Dispatch result), errorText rt err]"
  shows "\<exists>body texts. writeJSON 200 (execute_response rt result err) = JSONReply 200 body \<and> body_texts body = Some texts
    \<and> map_of texts ''action_id'' = Some (act_id (er_Action result))
    \<and> map_of texts ''attempt_id'' = Some (att_id (er_Attempt result))
    \<and> map_of texts ''operation_error'' = (if errorText rt err = [] then None else Some (errorText rt err))
    \<and> client_outcome texts = Some (er_Outcome result)"
proof -
  have keys: "utf8_ok ''action_id''" "utf8_ok ''recovery_of''" "utf8_ok ''admission''" "utf8_ok ''dispatch''"
    "utf8_ok ''effect''" "utf8_ok ''provider''" "utf8_ok ''operation_error''"
    by (rule ascii_utf8; simp add: code_def)+
  have "\<forall>(k, s)\<in>set (response_texts rt result err). utf8_ok k \<and> utf8_ok s"
    using assms status_texts_utf8 keys by (auto simp: response_texts_def outcome_ok_def)
  from body_texts_read [OF this] response_lookup [of rt result err] client_outcome_read [OF assms(1), of rt err]
  show ?thesis
    by (intro exI [of _ "object_text (printed_members (response_texts rt result err)) @ [CHR 0x0A]"]
        exI [of _ "response_texts rt result err"])
       (simp add: writeJSON_def execute_response_texts json_texts_marshal)
qed

definition example_result :: ExecuteResult where
  "example_result = zero_result\<lparr>er_Action := example_action, er_Attempt := example_attempt,
     er_Outcome := \<lparr>o_admission = AdmissionAdmitted, o_dispatch = DispatchUnknown, o_effect = EffectUnknown\<rparr>,
     er_Dispatch := example_dispatch\<rparr>"

lemma http_execution_readable_witness:
  "\<exists>body texts. writeJSON 200 (execute_response example_rt example_result (Some (Message ''timeout''))) = JSONReply 200 body
    \<and> body_texts body = Some texts \<and> map_of texts ''operation_error'' = Some ''timeout''
    \<and> client_outcome texts = Some (er_Outcome example_result)"
proof -
  have "utf8_ok ''a''" "utf8_ok ''t''" "utf8_ok ''ha''" "utf8_ok ''timeout''"
    by (rule ascii_utf8; simp add: code_def)+
  moreover have "outcome_ok (er_Outcome example_result)"
    by (simp add: example_result_def outcome_ok_def admission_valid_iff dispatch_valid_iff effect_valid_iff)
  ultimately show ?thesis
    using http_execution_readable [of example_result example_rt "Some (Message ''timeout'')"]
    by (auto simp: example_result_def example_action_def example_attempt_def example_dispatch_def zero_result_def errorText_def)
qed

end
