(* ===== verification/Http_Paths.thy ===== *)
theory Http_Paths
  imports Http_Properties
begin

text \<open>
  Identities in paths: what a client that builds the path of an attempt with \<open>url.PathEscape\<close> reaches.
\<close>

subsection \<open>Escaping\<close>

text \<open>\<open>url.PathEscape\<close>: letters, digits and the marks a segment may hold stay, other bytes are escaped.\<close>

definition path_char :: "char \<Rightarrow> bool" where
  "path_char c \<longleftrightarrow> 48 \<le> code c \<and> code c \<le> 57 \<or> 65 \<le> code c \<and> code c \<le> 90 \<or> 97 \<le> code c \<and> code c \<le> 122
     \<or> c \<in> {CHR ''-'', CHR ''_'', CHR ''.'', CHR ''~'', CHR ''$'', CHR ''&'', CHR ''+'', CHR '':'', CHR ''='', CHR ''@''}"

definition upper_hex :: "nat \<Rightarrow> char" where
  "upper_hex n = byte (if n < 10 then 48 + n else 55 + n)"

fun PathEscape :: "string \<Rightarrow> string" where
  "PathEscape [] = []"
| "PathEscape (c # cs) =
    (if path_char c then c # PathEscape cs
     else CHR ''%'' # upper_hex (code c div 16) # upper_hex (code c mod 16) # PathEscape cs)"

lemma path_char_marks: "path_char c \<Longrightarrow> c \<noteq> CHR ''%'' \<and> c \<noteq> CHR ''/''"
  by (auto simp: path_char_def code_def)

lemma hex_value_upper: "n < 16 \<Longrightarrow> hex_value (upper_hex n) = Some n"
  by (auto simp: hex_value_def upper_hex_def is_digit_def)

lemma upper_hex_slash: "n < 16 \<Longrightarrow> upper_hex n \<noteq> CHR ''/''"
  using hex_value_upper [of n] by (auto simp: hex_value_def is_digit_def code_def)

lemma nibbles: "code c div 16 < 16" "code c mod 16 < 16"
  using code_less [of c] by (simp_all add: less_mult_imp_div_less del: code_less)

lemma PathUnescape_escape: "PathUnescape (PathEscape s) = Some s"
proof (induction s)
  case (Cons c s)
  then show ?case using Cons path_char_marks [of c] nibbles [of c] by (auto simp: hex_value_upper)
qed simp

lemma PathEscape_slash: "CHR ''/'' \<notin> set (PathEscape s)"
proof (induction s)
  case (Cons c s)
  then show ?case using Cons path_char_marks [of c] upper_hex_slash [OF nibbles(1) [of c]] upper_hex_slash [OF nibbles(2) [of c]] by auto
qed simp

lemma PathEscape_dots:
  "PathEscape s = [] \<longleftrightarrow> s = []" "PathEscape s = ''.'' \<longleftrightarrow> s = ''.''" "PathEscape s = ''..'' \<longleftrightarrow> s = ''..''"
proof -
  have dot: "path_char CHR ''.''" by (simp add: path_char_def)
  have nil: "PathEscape t = [] \<longleftrightarrow> t = []" for t by (cases t) simp_all
  have one: "PathEscape t = CHR ''.'' # u \<longleftrightarrow> (\<exists>t'. t = CHR ''.'' # t' \<and> PathEscape t' = u)" for t u
    using dot by (cases t) auto
  show "PathEscape s = [] \<longleftrightarrow> s = []" "PathEscape s = ''.'' \<longleftrightarrow> s = ''.''" "PathEscape s = ''..'' \<longleftrightarrow> s = ''..''"
    by (simp_all add: one nil)
qed

subsection \<open>The route of an attempt\<close>

definition attempt_path :: "AttemptID \<Rightarrow> path" where
  "attempt_path i = ''/v1/attempts/'' @ PathEscape i"

lemma split_slash_segment: "CHR ''/'' \<notin> set e \<Longrightarrow> split_slash e = [e]"
  by (induction e) auto

lemma attempt_split: "split_slash (attempt_path i) = ['''', ''v1'', ''attempts'', PathEscape i]"
  by (simp add: attempt_path_def split_slash_segment [OF PathEscape_slash])

lemma last_attempt_path: "last (attempt_path i) = CHR ''/'' \<longleftrightarrow> i = []"
proof (cases "i = []")
  case False
  then have "PathEscape i \<noteq> []" by (simp add: PathEscape_dots)
  then have "last (attempt_path i) \<in> set (PathEscape i)" by (simp add: attempt_path_def)
  with False show ?thesis using PathEscape_slash by metis
qed (simp add: attempt_path_def)

lemma attempt_clean: "cleanPath (attempt_path i) = attempt_path i \<longleftrightarrow> i \<noteq> ''.'' \<and> i \<noteq> ''..''"
proof -
  have clean: "Clean_rooted (attempt_path i) =
      (if i = [] \<or> i = ''.'' then ''/v1/attempts'' else if i = ''..'' then ''/v1'' else attempt_path i)"
    by (simp add: Clean_rooted_def attempt_split PathEscape_dots) (simp add: attempt_path_def PathEscape_dots)
  have "attempt_path i \<noteq> ''/v1/attempts''" "attempt_path i \<noteq> ''/v1''" by (simp_all add: attempt_path_def)
  then show ?thesis
    using last_attempt_path [of i] clean by (auto simp: cleanPath_def Let_def attempt_path_def)
qed

lemma attempt_segments:
  "path_segments (attempt_path i) = [''v1'', ''attempts'', if i = [] then ''/'' else i]"
proof -
  let ?P = "\<lambda>c. c \<noteq> CHR ''/''"
  have e: "takeWhile ?P (PathEscape i) = PathEscape i" "dropWhile ?P (PathEscape i) = []"
    using PathEscape_slash [of i] by (auto simp: takeWhile_eq_all_conv)
  have "path_segments (CHR ''/'' # PathEscape i) = [if i = [] then ''/'' else i]"
    by (simp add: path_segments.simps [of "CHR ''/'' # PathEscape i"] path_segments.simps [of "[]"] e PathEscape_dots
        mux_unescape_def PathUnescape_escape)
  then show ?thesis
    by (simp add: attempt_path_def path_segments.simps [of "CHR ''/'' # CHR ''v'' # _"]
        path_segments.simps [of "CHR ''/'' # CHR ''a'' # _"] mux_unescape_def)
qed

lemma attempt_route_all:
  "ServeMux_route Http_patterns ''GET'' (attempt_path i) =
    (if i = '''' \<or> i = ''/'' then NotFound
     else if i = ''.'' \<or> i = ''..'' then Redirected
     else Handle GetEndpoint [i])"
proof (cases "i = ''.'' \<or> i = ''..''")
  case True
  then show ?thesis using attempt_clean [of i] by (auto simp: ServeMux_route_def attempt_path_def)
next
  case False
  then show ?thesis
    using attempt_clean [of i] attempt_segments [of i]
    by (auto simp: ServeMux_route_def attempt_path_def route_path_def Http_patterns_def)
qed

text \<open>C33: \<open>GET /v1/attempts/\<close> followed by the escaped identity of an attempt is routed to the query of
  exactly that attempt, with four exceptions: no request is routed for the empty identity and for a
  slash, and the paths of one and of two dots are redirected away, since escaping keeps dots.\<close>

theorem attempt_route_exact:
  "ServeMux_route Http_patterns ''GET'' (attempt_path i) =
    (if i = '''' \<or> i = ''/'' then NotFound
     else if i = ''.'' \<or> i = ''..'' then Redirected
     else Handle GetEndpoint [i])"
  by (rule attempt_route_all)

end
