(* ===== verification/Sqlite_Reads.thy ===== *)
theory Sqlite_Reads
  imports Sqlite_World
begin

text \<open>
  Reading an attempt back from the SQLite log: rows written by a use case can be read, so the query of an
  attempt without unreadable rows answers all of its facts.
\<close>

definition readable_attempt :: "AttemptID \<Rightarrow> SqliteLog \<Rightarrow> bool" where
  "readable_attempt i l \<longleftrightarrow>
    (\<exists>db. l = Some db \<and> (\<forall>row\<in>set (db_events db). re_attempt_id row = i \<longrightarrow> event_of_row row \<noteq> None))"

lemma event_of_row_attempt: "event_of_row row = Some e \<Longrightarrow> ev_attemptID e = re_attempt_id row"
  by (simp add: event_of_row_iff [of _ _ quiet_db] readEvent_Inr_iff)

lemma read_events_readable:
  "\<forall>row\<in>set rows. event_of_row row \<noteq> None \<Longrightarrow>
    read_events env rows acc = Inr (acc @ List.map_filter event_of_row rows)"
proof (induction rows arbitrary: acc)
  case (Cons row rows)
  then obtain e where e: "event_of_row row = Some e" by auto
  then have "readEvent env row = Inr e" by (simp add: event_of_row_iff [of _ _ env])
  with Cons e show ?case by simp
qed simp

lemma filter_facts_rows:
  "filter (\<lambda>n. ev_attemptID n = i) (List.map_filter event_of_row rows)
    = List.map_filter event_of_row (filter (\<lambda>row. re_attempt_id row = i) rows)"
  by (induction rows) (auto simp: event_of_row_attempt split: option.splits)

lemma readable_query:
  assumes "readable_attempt i l"
  shows "sqlite_EventsByAttempt quiet_db i l = (filter (\<lambda>n. ev_attemptID n = i) (sqlite_facts l), None)"
proof -
  obtain db where l: "l = Some db" and r: "\<forall>row\<in>set (db_events db). re_attempt_id row = i \<longrightarrow> event_of_row row \<noteq> None"
    using assms by (auto simp: readable_attempt_def)
  from r have "read_events quiet_db (filter (\<lambda>row. re_attempt_id row = i) (db_events db)) []
      = Inr ([] @ List.map_filter event_of_row (filter (\<lambda>row. re_attempt_id row = i) (db_events db)))"
    by (intro read_events_readable) simp
  then show ?thesis by (simp add: l sqlite_EventsByAttempt_def delivered_def sqlite_facts_def filter_facts_rows)
qed

text \<open>No row of the attempt at all.\<close>

lemma readable_fresh:
  "\<forall>row\<in>set (db_events db). re_attempt_id row \<noteq> i \<Longrightarrow>
    readable_attempt i (Some db) \<and> (\<forall>n\<in>set (sqlite_facts (Some db)). ev_attemptID n \<noteq> i)"
  using event_of_row_attempt by (fastforce simp: readable_attempt_def sqlite_facts_def List.map_filter_def)

lemma appendEvents_readable:
  assumes "appendEvents env n es db = Inr db'" "list_all storable_fact es" "readable_attempt i (Some db)"
  shows "readable_attempt i (Some db')"
proof -
  obtain new where new: "db_events db' = db_events db @ map event_to_row new" "set new \<subseteq> set es"
    using appendEvents_rows [OF assms(1)] by blast
  have "event_of_row (event_to_row x) \<noteq> None" if "x \<in> set new" for x
    using that new(2) assms(2) event_of_stored [of x] by (auto simp: list_all_iff)
  with assms(3) new(1) show ?thesis by (auto simp: readable_attempt_def)
qed

lemma begin_readable:
  assumes "sqlite_BeginAttempt env a t es l = (r, l')" "list_all storable_fact es" "readable_attempt i l"
  shows "readable_attempt i l'"
proof (cases "fst r")
  case False
  then show ?thesis using sqlite_begin_lost [of env a t es l "snd r" l'] assms by (cases r) simp
next
  case True
  then obtain er where "sqlite_BeginAttempt env a t es l = ((True, er), l')" using assms(1) by (cases r) simp
  then obtain db db' where l: "l = Some db" "l' = Some db'" and tx: "begin_tx env a t es db = Inr (Some db')"
    by (elim sqlite_begin_Some)
  from tx obtain n db1 db2 where "insert_action (action_to_row a) db = (n, db1)"
    and "db2 = db1\<lparr>db_attempts := db_attempts db @ [attempt_to_row t]\<rparr>"
    and app: "appendEvents env 0 es db2 = Inr db'"
    by (elim begin_tx_Some)
  with insert_action_cases have "db_events db2 = db_events db" by fastforce
  then have "readable_attempt i (Some db2)" using assms(3) l by (simp add: readable_attempt_def)
  from appendEvents_readable [OF app assms(2) this] l show ?thesis by simp
qed

lemma append_readable:
  assumes "sqlite_AppendAll env es l = (e, l')" "list_all storable_fact es" "readable_attempt i l"
  shows "readable_attempt i l'"
proof (cases e)
  case (Some cause)
  then show ?thesis using sqlite_append_failed assms by metis
next
  case None
  then obtain db db' where "l = Some db" "l' = Some db'" "appendEvents env 0 es db = Inr db'"
    using assms(1) by (metis sqlite_append_Some)
  then show ?thesis using appendEvents_readable assms(2,3) by simp
qed

lemma follows_readable:
  assumes "follows sqlite_BeginAttempt sqlite_AppendAll l tr l'"
    and "\<forall>d\<in>set tr. offers_storable d" and "readable_attempt i l"
  shows "readable_attempt i l'"
  using assms
proof (induction rule: follows.induct)
  case (begin_attempt x a t es s r s1 tr s')
  then show ?case using begin_readable [OF begin_attempt.hyps(1), of i] by simp
next
  case (append_all x es s e s1 tr s')
  then show ?case using append_readable [OF append_all.hyps(1), of i] by simp
qed simp_all

text \<open>After an execution, whichever calls to the database failed, the query of its attempt answers its facts.\<close>

lemma execute_readable:
  assumes "plays (execute rt use_case input auth) tr w" and "\<forall>n. DidNow n \<in> set tr \<longrightarrow> time_storable n"
    and "time_storable (act_requestedAt (xi_Action input))"
    and "\<And>au. auth = Some au \<Longrightarrow> time_storable (ra_authorizedAt au)"
    and "follows sqlite_BeginAttempt sqlite_AppendAll l tr l'" and "readable_attempt i l"
  shows "sqlite_EventsByAttempt quiet_db i l' = (filter (\<lambda>n. ev_attemptID n = i) (sqlite_facts l'), None)"
proof -
  have "\<forall>d\<in>set tr. offers_storable d \<or> (\<exists>n. d = DidNow n)"
    using timely_plays [OF assms(1) execute_timely [OF assms(3,4)]] assms(2) by simp
  then have "\<forall>d\<in>set tr. offers_storable d" by fastforce
  from readable_query [OF follows_readable [OF assms(5) this assms(6)]] show ?thesis .
qed

end
