(* ===== verification/Http_Session.thy ===== *)
theory Http_Session
  imports Http_Paths Http_Responses Server_Properties Sqlite_Reads
begin

text \<open>
  A session of two requests with the composed server: a client posts an action, reads the response, and asks
  for the attempt.
\<close>

subsection \<open>Reading members\<close>

lemma body_texts_members:
  assumes "list_all (entry_ok (scan_value 9999)) ms"
  shows "body_texts (object_text ms @ [CHR 0x0A]) = Some (map (\<lambda>(k, v). (k, unquote v)) ms)"
proof -
  let ?t = "object_text ms"
  note d = object_text_decodes [OF assms]
  have sp: "skip_space (?t @ x) = ?t @ x" for x by (simp add: object_text_def json_space_def)
  have "skip_space [CHR 0x0A] = []" by code_simp
  then have "whole_value (?t @ [CHR 0x0A]) = Some ?t"
    using d(1) [of "[CHR 0x0A]"] sp consumed_append [of ?t "[CHR 0x0A]"] by (simp add: whole_value_def)
  then show ?thesis by (simp add: body_texts_def d(3,4))
qed

lemma unquote_utf8 [simp]: "utf8_ok s \<Longrightarrow> unquote (json_string s) = s"
  by (simp add: unquote_def json_string_def unquote_json_string)

lemma raw_ok_literal: "raw_ok (scan_value d) ''true''" "raw_ok (scan_value d) ''false''"
  by (cases d; simp add: raw_ok_def json_space_def scan_value_Cons scan_scalar_def scan_word_def is_digit_def code_def)+

subsection \<open>The response to an execution, whatever its texts\<close>

definition read_response :: "go_runtime \<Rightarrow> ExecuteResult \<Rightarrow> err option \<Rightarrow> (string \<times> string) list" where
  "read_response rt r e = map (\<lambda>(k, s). (k, unquote (json_string s))) (response_texts rt r e)"

lemma response_body:
  "writeJSON 200 (execute_response rt r e) = JSONReply 200 (object_text (printed_members (response_texts rt r e)) @ [CHR 0x0A])"
  by (simp add: writeJSON_def execute_response_texts json_texts_marshal)

lemma response_body_read:
  "body_texts (object_text (printed_members (response_texts rt r e)) @ [CHR 0x0A]) = Some (read_response rt r e)"
proof -
  have "utf8_ok ''action_id''" "utf8_ok ''recovery_of''" "utf8_ok ''admission''" "utf8_ok ''dispatch''"
    "utf8_ok ''effect''" "utf8_ok ''provider''" "utf8_ok ''operation_error''"
    by (rule ascii_utf8; simp add: code_def)+
  then have "list_all (entry_ok (scan_value 9999)) (printed_members (response_texts rt r e))"
    using json_string_ok by (auto simp: printed_members_def response_texts_def entry_ok_def)
  from body_texts_members [OF this] show ?thesis
    by (simp add: read_response_def printed_members_def case_prod_unfold comp_def)
qed

lemma read_response_lookup:
  "map_of (read_response rt r e) k = map_option (\<lambda>s. unquote (json_string s)) (map_of (response_texts rt r e) k)"
  by (simp add: read_response_def map_of_map)

lemma read_response_outcome:
  assumes "outcome_ok (er_Outcome r)"
  shows "client_outcome (read_response rt r e) = Some (er_Outcome r)"
proof -
  have "utf8_ok (admission_String (o_admission (er_Outcome r)))" "utf8_ok (dispatch_String (o_dispatch (er_Outcome r)))"
    "utf8_ok (effect_String (o_effect (er_Outcome r)))"
    using assms status_texts_utf8 by (auto simp: outcome_ok_def)
  then have "client_outcome (read_response rt r e) = client_outcome (response_texts rt r e)"
    by (simp add: client_outcome_def read_response_lookup response_lookup)
  then show ?thesis using client_outcome_read [OF assms] by simp
qed

text \<open>An error of a stage is not the empty text.\<close>

lemma join_lines_text: "t \<in> set ts \<Longrightarrow> t \<noteq> [] \<Longrightarrow> join_lines ts \<noteq> []"
  by (induction ts rule: join_lines.induct) auto

lemma stage_text_shown:
  "at_stage st x \<Longrightarrow> err_text rt x \<noteq> []" "part_at_stage st p \<Longrightarrow> part_text rt p \<noteq> []"
proof (induction st x and st p rule: at_stage_part_at_stage.induct)
  case (4 s es)
  then obtain x where x: "x \<in> set es" "at_stage s x" by (auto simp: list_ex_iff)
  with 4 have "err_text rt x \<noteq> []" by blast
  with x(1) join_lines_text [of "err_text rt x" "map (err_text rt) es"] show ?case by simp
qed (auto simp: list_ex_iff)

lemma no_text_no_stage: "errorText rt e = [] \<Longrightarrow> \<not> has_stage st e"
  using stage_text_shown(1) by (auto simp: errorText_def has_stage_def split: option.splits)

lemma no_operation_error:
  assumes "map_of (read_response rt r e) ''operation_error'' = None"
  shows "\<not> has_stage st e"
  using assms no_text_no_stage [of rt e st]
  by (auto simp: read_response_lookup response_lookup split: if_splits)

subsection \<open>The response to a query\<close>

definition bool_text :: "bool \<Rightarrow> string" where
  "bool_text b = (if b then ''true'' else ''false'')"

definition view_members :: "AttemptView \<Rightarrow> (string \<times> string) list" where
  "view_members v =
    [(''action_id'', json_string (av_ActionID v)),
     (''admission'', json_string (admission_String (o_admission (av_Outcome v)))),
     (''attempt_id'', json_string (av_AttemptID v)),
     (''conflicts'', object_text
        [(''admission'', bool_text (av_AdmissionConflicted v)), (''dispatch'', bool_text (av_DispatchConflicted v)),
         (''effect'', bool_text (av_EffectConflicted v))]),
     (''dispatch'', json_string (dispatch_String (o_dispatch (av_Outcome v)))),
     (''effect'', json_string (effect_String (o_effect (av_Outcome v)))),
     (''verification'', json_string (verification_String (av_Verification v)))]"

lemma view_body: "writeView rt v None = JSONReply 200 (object_text (view_members v) @ [CHR 0x0A])"
  by (simp add: writeView_def writeJSON_def json_map_def map_put_all_def code_def view_members_def object_text_def
      raw_entry_def bool_text_def)

definition read_view :: "AttemptView \<Rightarrow> (string \<times> string) list" where
  "read_view v = map (\<lambda>(k, t). (k, unquote t)) (view_members v)"

lemma view_body_read: "body_texts (object_text (view_members v) @ [CHR 0x0A]) = Some (read_view v)"
proof -
  have keys: "utf8_ok ''action_id''" "utf8_ok ''attempt_id''" "utf8_ok ''admission''" "utf8_ok ''dispatch''"
    "utf8_ok ''effect''" "utf8_ok ''verification''" "utf8_ok ''conflicts''"
    by (rule ascii_utf8; simp add: code_def)+
  have "raw_ok (scan_value 9998) (bool_text b)" for b using raw_ok_literal by (simp add: bool_text_def)
  then have "raw_ok (scan_value (Suc 9998)) (object_text
        [(''admission'', bool_text (av_AdmissionConflicted v)), (''dispatch'', bool_text (av_DispatchConflicted v)),
         (''effect'', bool_text (av_EffectConflicted v))])"
    by (intro object_text_ok) (simp add: entry_ok_def keys)
  then have "list_all (entry_ok (scan_value 9999)) (view_members v)"
    using keys json_string_ok by (simp add: view_members_def entry_ok_def)
  from body_texts_members [OF this] show ?thesis by (simp add: read_view_def)
qed

lemma read_view_outcome:
  assumes "outcome_ok (av_Outcome v)"
  shows "client_outcome (read_view v) = Some (av_Outcome v)"
proof -
  have "utf8_ok (admission_String (o_admission (av_Outcome v)))" "utf8_ok (dispatch_String (o_dispatch (av_Outcome v)))"
    "utf8_ok (effect_String (o_effect (av_Outcome v)))"
    using assms status_texts_utf8 by (auto simp: outcome_ok_def)
  then have "map_of (read_view v) ''admission'' = Some (admission_String (o_admission (av_Outcome v)))"
    "map_of (read_view v) ''dispatch'' = Some (dispatch_String (o_dispatch (av_Outcome v)))"
    "map_of (read_view v) ''effect'' = Some (effect_String (o_effect (av_Outcome v)))"
    by (simp_all add: read_view_def view_members_def)
  with assms show ?thesis unfolding client_outcome_def outcome_ok_def by (simp only: status_read) simp
qed

subsection \<open>Two requests\<close>

lemma execute_route: "ServeMux_route Http_patterns ''POST'' ''/v1/actions/execute'' = Handle ExecuteEndpoint []"
  by code_simp

text \<open>What a client sends: an execution as JSON, and the query of an attempt.\<close>

definition posts :: "Action \<Rightarrow> AttemptID \<Rightarrow> incoming \<Rightarrow> bool" where
  "posts a i r \<longleftrightarrow> in_method r = ''POST'' \<and> in_path r = ''/v1/actions/execute'' \<and> in_body r = client_execute a i
     \<and> in_bodyErr r = None \<and> length (client_execute a i) \<le> maxRequestSize"

definition gets :: "AttemptID \<Rightarrow> incoming \<Rightarrow> bool" where
  "gets i r \<longleftrightarrow> in_method r = ''GET'' \<and> in_path r = attempt_path i"

lemma posts_path: "posts a i r \<Longrightarrow> URL_Path r \<noteq> ''/healthz''"
  by (simp add: posts_def URL_Path_def mux_unescape_def)

text \<open>A 200 for a posted execution: it was run, and its result written.\<close>

lemma posted_execution:
  assumes "hd_executor h = Execute rt (Some u)" and "posts a i r" and "sendable a i" and "action_ok a"
    and "plays (ServeHTTP rt dt h r) tr (JSONReply 200 body)"
  obtains res e where "plays (execute rt (Some u) \<lparr>xi_Action = a, xi_AttemptID = i\<rparr> None) tr (res, e)"
    and "JSONReply 200 body = writeJSON 200 (execute_response rt res e)" and "\<not> execution_refused res e"
    and "hd_apiToken h = '''' \<or> in_authorization r = ''Bearer '' @ hd_apiToken h"
proof -
  have "error_reply 401 m \<noteq> JSONReply 200 body" for m by (simp add: error_reply_def writeJSON_def)
  then have token: "hd_apiToken h = '''' \<or> in_authorization r = ''Bearer '' @ hd_apiToken h"
    and mux: "plays (serve_mux rt dt h r) tr (JSONReply 200 body)"
    using assms(5) posts_path [OF assms(2)] by (auto simp: ServeHTTP_def split: if_splits)
  have req: "in_body r = client_execute a i" "in_bodyErr r = None" "length (client_execute a i) \<le> maxRequestSize"
    and route: "ServeMux_route Http_patterns (in_method r) (in_path r) = Handle ExecuteEndpoint []"
    using assms(2) execute_route by (simp_all add: posts_def)
  obtain request where d: "decode_body dt (store_struct True execute_fields) r zero_executeRequest = Inr request"
    "request_action (xq_Action request) = Inr a" "xq_AttemptID request = i"
    using decoded_request [OF assms(4,3) req] by blast
  from mux obtain res e where p: "plays (execute rt (Some u) \<lparr>xi_Action = a, xi_AttemptID = i\<rparr> None) tr (res, e)"
    and w: "JSONReply 200 body = writeExecution rt res e"
    using d by (auto simp: serve_mux_def route serve_endpoint_def Http_execute_def assms(1) plays_map_prog Execute_def)
  have "error_status e \<noteq> 200" by (simp add: error_status_def)
  then have "writeUseCaseError rt e \<noteq> JSONReply 200 body" using reply_status_simps(3) [of rt e] by (metis reply_status.simps(1))
  with w have "\<not> execution_refused res e" "JSONReply 200 body = writeJSON 200 (execute_response rt res e)"
    by (auto simp: writeExecution_def split: if_splits)
  with that p token show thesis by blast
qed

text \<open>The query of an attempt, whose facts are read, shows their view.\<close>

lemma queried_attempt:
  assumes "hd_getAttempt h = GetAttempt_Get True" and "gets i r" and "i \<notin> {'''', ''.'', ''..'', ''/''}"
    and "hd_apiToken h = '''' \<or> in_authorization r = ''Bearer '' @ hd_apiToken h"
    and "attempt_view i es = (v, None)"
  shows "plays (ServeHTTP rt dt h r) [DidEvents CallerCtx i (es, None)] reply \<longleftrightarrow> reply = writeView rt v None"
proof -
  have route: "ServeMux_route Http_patterns (in_method r) (in_path r) = Handle GetEndpoint [i]"
    using assms(2,3) attempt_route_all [of i] by (simp add: gets_def)
  have "ServeHTTP rt dt h r = Http_get rt h i"
    using assms(4) by (auto simp: ServeHTTP_def serve_mux_def route serve_endpoint_def)
  then show ?thesis
    using assms(3,5) by (auto simp: Http_get_def assms(1) plays_map_prog GetAttempt_Get_def plays_calls)
qed

text \<open>The answers of the Home Assistant provider to an execution are admissible.\<close>

lemma homeassistant_answers_ok:
  assumes "plays (execute rt (Some u) input auth) tr w" and "list_all (answered_by jt env p) tr"
  shows "dispatch_answers_ok tr"
  unfolding dispatch_answers_ok_def
proof (intro allI impI)
  fix c t a g d e
  assume d: "DidDispatch c t a g (d, e) \<in> set tr"
  have "records_for (xi_Action input) (xi_AttemptID input) (DidDispatch c t a g (d, e))"
    using only_plays [OF assms(1) execute_own] d by blast
  then have "text_ok (att_id t)" by (auto simp: attempt_for_def attempt_ok_def)
  moreover have "answered_by jt env p (DidDispatch c t a g (d, e))" using assms(2) d by (simp add: list_all_iff)
  then obtain now where "\<not> IsZero now" "(d, e) = snd (HA_Dispatch jt env now p t a g)" by (auto simp: answered_by_def)
  ultimately show "dispatch_ok d"
    using ha.answered [of t now jt env p a g "fst (HA_Dispatch jt env now p t a g)" d e] by (metis prod.collapse)
qed

lemma posted_result:
  assumes "plays (execute rt (Some u) input auth) tr (r, e)" and "dispatch_answers_ok tr" and "\<not> execution_refused r e"
  shows "result_made (xi_Action input) (xi_AttemptID input) r"
proof -
  have "provider_made d" if "d \<in> set tr" for d
    using assms(2) that unfolding provider_made_def dispatch_answers_ok_def
    by (cases d; simp) (metis prod.collapse)
  then have "r = zero_result \<or> result_made (xi_Action input) (xi_AttemptID input) r"
    using yields_plays [OF assms(1) execute_made] by (auto simp: list_all_iff)
  with assms(3) show ?thesis by (auto simp: execution_refused_def zero_result_def zero_attempt_def)
qed

lemma run_setup_journal: "run_setup rt env dbenv stored config = Inr s \<Longrightarrow> srv_journal s = Some stored"
  by (auto simp: run_setup_def sqlite_Open_def split: if_splits)

lemma sendable_time: "sendable a i \<Longrightarrow> time_storable (act_requestedAt a)"
  by (cases "act_requestedAt a") (auto simp: sendable_def time_storable_def UTC_def)

lemma session:
  assumes built: "run_setup rt env dbenv stored config = Inr s" and ok: "db_ok stored"
    and fresh: "\<forall>row\<in>set (db_events stored). re_attempt_id row \<noteq> i"
    and action: "sendable a i" "action_ok a"
    and post: "posts a i p" "plays (ServeHTTP rt dt (srv_handler s) p) tr (JSONReply 200 body)"
    and world: "list_all (answered_by jt env (srv_provider s)) tr" "\<forall>n. DidNow n \<in> set tr \<longrightarrow> time_storable n"
      "follows sqlite_BeginAttempt sqlite_AppendAll (srv_journal s) tr l"
    and quiet: "body_texts body = Some texts" "map_of texts ''operation_error'' = None"
    and get: "gets i g" "in_authorization g = in_authorization p" "i \<notin> {''.'', ''..'', ''/''}"
  shows "\<exists>v body' texts'.
      (\<forall>reply. plays (ServeHTTP rt dt (srv_handler s) g) [DidEvents CallerCtx i (sqlite_EventsByAttempt quiet_db i l)] reply
         \<longleftrightarrow> reply = JSONReply 200 body')
      \<and> JSONReply 200 body' = writeView rt v None \<and> body_texts body' = Some texts'
      \<and> map_of texts ''action_id'' = Some (act_id a) \<and> map_of texts' ''action_id'' = Some (act_id a)
      \<and> map_of texts ''attempt_id'' = Some i \<and> map_of texts' ''attempt_id'' = Some i
      \<and> client_outcome texts = Some (av_Outcome v) \<and> client_outcome texts' = Some (av_Outcome v)
      \<and> av_Verification v = VerificationUnknown
      \<and> \<not> av_AdmissionConflicted v \<and> \<not> av_DispatchConflicted v \<and> \<not> av_EffectConflicted v"
proof -
  let ?in = "\<lparr>xi_Action = a, xi_AttemptID = i\<rparr>"
  obtain u where h: "hd_executor (srv_handler s) = Execute rt (Some u)" "hd_getAttempt (srv_handler s) = GetAttempt_Get True"
    using run_setup_handler [OF built] by auto
  obtain r e where p: "plays (execute rt (Some u) ?in None) tr (r, e)"
    and w: "JSONReply 200 body = writeJSON 200 (execute_response rt r e)" and acc: "\<not> execution_refused r e"
    and token: "hd_apiToken (srv_handler s) = '''' \<or> in_authorization p = ''Bearer '' @ hd_apiToken (srv_handler s)"
    using posted_execution [OF h(1) post(1) action post(2)] by metis
  note ans = homeassistant_answers_ok [OF p world(1)]
  have made: "result_made a i r" using posted_result [OF p ans acc] by simp
  have texts: "texts = read_response rt r e" using w quiet(1) by (simp add: response_body response_body_read)
  have none: "\<not> has_stage st e" for st using no_operation_error quiet(2) unfolding texts by blast
  have journal: "srv_journal s = Some stored" using run_setup_journal [OF built] .
  have inv: "sqlite_inv (srv_journal s)" using ok by (simp add: journal sqlite_inv_def)
  note empty = readable_fresh [OF fresh, folded journal]
  have time: "time_storable (act_requestedAt (xi_Action ?in))" using sendable_time [OF action(1)] by simp
  have stored: "list_all storable_fact (recorded tr)" by (rule execute_storable [OF p world(2) time]) simp
  have facts: "sqlite_EventsByAttempt quiet_db i l = (filter (\<lambda>n. ev_attemptID n = i) (sqlite_facts l), None)"
    by (rule execute_readable [OF p world(2) time _ world(3)]) (use empty in simp_all)
  define v where "v = \<lparr>av_ActionID = act_id a, av_AttemptID = i, av_Outcome = er_Outcome r, av_Verification = VerificationUnknown,
    av_AdmissionConflicted = False, av_DispatchConflicted = False, av_EffectConflicted = False\<rparr>"
  have view: "attempt_view i (filter (\<lambda>n. ev_attemptID n = i) (sqlite_facts l)) = (v, None)"
    using sqlite.execute_view [OF inv _ p none none ans world(3) stored] empty by (simp add: v_def)
  have "text_ok i" using made by (auto simp: result_made_def attempt_for_def attempt_ok_def)
  then have i: "i \<notin> {'''', ''.'', ''..'', ''/''}" using get(3) by auto
  have "hd_apiToken (srv_handler s) = '''' \<or> in_authorization g = ''Bearer '' @ hd_apiToken (srv_handler s)"
    using token get(2) by simp
  note shown = queried_attempt [OF h(2) get(1) i this view, folded facts, of rt dt]
  have utf8: "utf8_ok (act_id a)" "utf8_ok i" using action(1) by (simp_all add: sendable_def)
  have out: "outcome_ok (er_Outcome r)" using made by (simp add: result_made_def)
  have mine: "er_Action r = a" "att_id (er_Attempt r) = i" using made by (auto simp: result_made_def attempt_for_def)
  have read: "map_of texts ''action_id'' = Some (act_id a)" "map_of texts ''attempt_id'' = Some i"
      "client_outcome texts = Some (er_Outcome r)"
    using mine utf8 by (simp_all add: texts read_response_lookup response_lookup read_response_outcome [OF out])
  have "map_of (read_view v) ''action_id'' = Some (act_id a)" "map_of (read_view v) ''attempt_id'' = Some i"
    using utf8 by (simp_all add: read_view_def view_members_def v_def)
  with read read_view_outcome [of v] out shown show ?thesis
    by (intro exI [of _ v] exI [of _ "object_text (view_members v) @ [CHR 0x0A]"] exI [of _ "read_view v"])
      (simp add: view_body view_body_read, simp add: v_def)
qed

text \<open>C26: a client that posts an action to the composed server and gets a 200 without an operation error can
  read the attempt back: whatever the network and the database did meanwhile, asking for the attempt,
  when the database answers, gives a 200 whose body shows the same action, the same attempt and the
  same outcome as the response to the post, no verification and no conflict. The database held no row
  of the attempt before, the years of the clock have four digits, and the identity is none of the
  three that a path cannot carry.\<close>

theorem server_reads_back:
  assumes "run_setup rt env dbenv stored config = Inr s" and "db_ok stored"
    and "\<forall>row\<in>set (db_events stored). re_attempt_id row \<noteq> i"
    and "sendable a i" and "action_ok a"
    and "posts a i p" and "plays (ServeHTTP rt dt (srv_handler s) p) tr (JSONReply 200 body)"
    and "list_all (answered_by jt env (srv_provider s)) tr" and "\<forall>n. DidNow n \<in> set tr \<longrightarrow> time_storable n"
    and "follows sqlite_BeginAttempt sqlite_AppendAll (srv_journal s) tr l"
    and "body_texts body = Some texts" and "map_of texts ''operation_error'' = None"
    and "gets i g" and "in_authorization g = in_authorization p" and "i \<notin> {''.'', ''..'', ''/''}"
  shows "\<exists>v body' texts'.
      (\<forall>reply. plays (ServeHTTP rt dt (srv_handler s) g) [DidEvents CallerCtx i (sqlite_EventsByAttempt quiet_db i l)] reply
         \<longleftrightarrow> reply = JSONReply 200 body')
      \<and> JSONReply 200 body' = writeView rt v None \<and> body_texts body' = Some texts'
      \<and> map_of texts ''action_id'' = Some (act_id a) \<and> map_of texts' ''action_id'' = Some (act_id a)
      \<and> map_of texts ''attempt_id'' = Some i \<and> map_of texts' ''attempt_id'' = Some i
      \<and> client_outcome texts = Some (av_Outcome v) \<and> client_outcome texts' = Some (av_Outcome v)
      \<and> av_Verification v = VerificationUnknown
      \<and> \<not> av_AdmissionConflicted v \<and> \<not> av_DispatchConflicted v \<and> \<not> av_EffectConflicted v"
  using assms by (rule session)

end
