(* ===== verification/Session_Examples.thy ===== *)
theory Session_Examples
  imports Http_Session Http_Examples
begin

text \<open>
  A session with the server of Http_Examples over an empty database: the lamp is switched on, and the attempt
  is asked for.
\<close>

definition lamp_query :: incoming where
  "lamp_query = \<lparr>in_method = ''GET'', in_path = ''/v1/attempts/t'', in_authorization = ''Bearer secret'',
     in_body = [], in_bodyErr = None\<rparr>"

lemma lamp_result:
  "\<exists>d. dispatch_ok d \<and> snd (snd lamp_run) = None
     \<and> er_Outcome (fst (snd lamp_run)) = \<lparr>o_admission = AdmissionAdmitted, o_dispatch = dr_status d, o_effect = dispatch_effect (dr_status d)\<rparr>"
proof -
  obtain d where "pt_dispatch lamp_ports = (d, None)" "dispatch_ok d" "printable_receipt d"
    "dr_provider d = tgt_provider lamp_target" "dr_attemptID d = ''t''"
    using lamp_answer by (auto simp: lamp_target_def)
  then show ?thesis
    using undisturbed_run [of example_action "''t''" lamp_ports lamp_target d None mirror_rt example_use_case]
      example_conditions(1-8) lamp_resolved
    by (intro exI [of _ d])
      (simp add: lamp_run_def example_input_def lamp_ports_def split_beta errorsJoin_def List.map_filter_def)
qed

lemma lamp_clock_read: "DidNow n \<in> set (fst lamp_run) \<Longrightarrow> time_storable n"
  using run_now_answer [of n lamp_ports] example_clock by (auto simp: lamp_run_def lamp_ports_def example_ports_def)

lemma lamp_dispatch_answers: "dispatch_answers_ok (fst lamp_run)"
  using homeassistant_answers_ok [OF lamp_played lamp_run_answers] .

lemma lamp_followed: "\<exists>l. follows sqlite_BeginAttempt sqlite_AppendAll (Some empty_db) (fst lamp_run) l"
proof -
  have e: "snd (snd lamp_run) = None" using lamp_result by blast
  have pl: "plays (execute mirror_rt (Some example_use_case) example_input None) (fst lamp_run) (fst (snd lamp_run), None)"
    using lamp_played e by (metis prod.collapse)
  have none: "\<not> has_stage StageRecord None" "\<not> has_stage StageValidate None" by (simp_all add: has_stage_def)
  have req: "time_storable (act_requestedAt (xi_Action example_input))" by (simp add: example_input_def example_action_def)
  have append: "pt_append lamp_ports = None" by (simp add: lamp_ports_def example_ports_def)
  have "accepts New_Log (fst lamp_run)"
    by (rule undisturbed_accepts [OF pl _ append _ none lamp_dispatch_answers])
      (use lamp_once mirror_collision_free log_inv_New in \<open>simp_all add: lamp_run_def example_input_def New_Log_def\<close>)
  moreover have "list_all storable_fact (recorded (fst lamp_run))"
    by (rule execute_storable [OF pl _ req]) (use lamp_clock_read in auto)
  moreover have "\<forall>c a t es r. DidBegin c a t es r \<in> set (fst lamp_run) \<longrightarrow> storable_intent a"
    using only_plays [OF pl execute_claims_for] example_action_storable by (fastforce simp: example_input_def)
  ultimately show ?thesis using accepts_simulated [OF _ logs_related_new] by blast
qed

lemma lamp_accepted: "lamp_reply = writeJSON 200 (execute_response mirror_rt (fst (snd lamp_run)) None)"
proof -
  have e: "snd (snd lamp_run) = None" using lamp_result by blast
  have p: "plays (execute mirror_rt (Some example_use_case) example_input None) (fst lamp_run) (fst (snd lamp_run), snd (snd lamp_run))"
    using lamp_played by simp
  show ?thesis
    using execution_told [OF p lamp_plain] lamp_once e by (simp add: told_status_def lamp_reply_def)
qed

lemma server_reads_back_witness:
  "\<exists>tr body texts l body' texts'.
     plays (ServeHTTP mirror_rt lamp_decode (srv_handler lamp_server) lamp_request) tr (JSONReply 200 body)
     \<and> dispatched tr = [''t''] \<and> body_texts body = Some texts
     \<and> plays (ServeHTTP mirror_rt lamp_decode (srv_handler lamp_server) lamp_query)
         [DidEvents CallerCtx ''t'' (sqlite_EventsByAttempt quiet_db ''t'' l)] (JSONReply 200 body')
     \<and> body_texts body' = Some texts' \<and> client_outcome texts' = client_outcome texts
     \<and> map_option o_admission (client_outcome texts') = Some AdmissionAdmitted"
proof -
  let ?r = "fst (snd lamp_run)"
  let ?body = "object_text (printed_members (response_texts mirror_rt ?r None)) @ [CHR 0x0A]"
  obtain l where fol: "follows sqlite_BeginAttempt sqlite_AppendAll (srv_journal lamp_server) (fst lamp_run) l"
    using lamp_followed by (auto simp: lamp_server_def)
  have served: "plays (ServeHTTP mirror_rt lamp_decode (srv_handler lamp_server) lamp_request) (fst lamp_run) (JSONReply 200 ?body)"
    using lamp_served [of lamp_decode] unfolding lamp_accepted response_body .
  have posted: "posts example_action ''t'' lamp_request" using lamp_body_length by (simp add: posts_def lamp_request_def)
  have asked: "gets ''t'' lamp_query" by (simp add: gets_def lamp_query_def attempt_path_def path_char_def code_def)
  have auth: "in_authorization lamp_query = in_authorization lamp_request" by (simp add: lamp_query_def lamp_request_def)
  have answers: "list_all (answered_by lamp_texts lamp_env (srv_provider lamp_server)) (fst lamp_run)"
    using lamp_run_answers by (simp add: lamp_server_def)
  have quiet: "map_of (read_response mirror_rt ?r None) ''operation_error'' = None"
    by (simp add: read_response_lookup response_lookup errorText_def)
  have fresh: "\<forall>row\<in>set (db_events empty_db). re_attempt_id row \<noteq> ''t''" by (simp add: empty_db_def)
  have now: "\<forall>n. DidNow n \<in> set (fst lamp_run) \<longrightarrow> time_storable n" using lamp_clock_read by blast
  have id: "''t'' \<notin> {''.'', ''..'', ''/''}" by simp
  have out: "client_outcome (read_response mirror_rt ?r None) = Some (er_Outcome ?r)"
    using lamp_result dispatch_ok_valid
    by (intro read_response_outcome) (auto simp: outcome_ok_def admission_valid_iff dispatch_effect_def effect_valid_iff)
  from server_reads_back [OF served_built db_ok_empty fresh lamp_sendable example_values(1) posted served answers now
      fol response_body_read quiet asked auth id]
  obtain v :: AttemptView and body' texts' where
    shown: "\<forall>reply. plays (ServeHTTP mirror_rt lamp_decode (srv_handler lamp_server) lamp_query)
       [DidEvents CallerCtx ''t'' (sqlite_EventsByAttempt quiet_db ''t'' l)] reply \<longleftrightarrow> reply = JSONReply 200 body'"
    and read: "body_texts body' = Some texts'" "client_outcome (read_response mirror_rt ?r None) = Some (av_Outcome v)"
      "client_outcome texts' = Some (av_Outcome v)"
    by blast
  have "plays (ServeHTTP mirror_rt lamp_decode (srv_handler lamp_server) lamp_query)
       [DidEvents CallerCtx ''t'' (sqlite_EventsByAttempt quiet_db ''t'' l)] (JSONReply 200 body')"
    using shown by simp
  moreover have "o_admission (er_Outcome ?r) = AdmissionAdmitted" using lamp_result by auto
  ultimately show ?thesis
    using served lamp_once response_body_read [of mirror_rt ?r None] out read
    by (intro exI [of _ "fst lamp_run"] exI [of _ ?body] exI [of _ "read_response mirror_rt ?r None"] exI [of _ l]
        exI [of _ body'] exI [of _ texts']) simp
qed

end
