(* ===== verification/Http_Statuses.thy ===== *)
theory Http_Statuses
  imports Http_Properties Verify_Properties Recover_Properties Memory_World
begin

text \<open>
  What the status codes of an assessment and of a recovery say, over ports whose errors wrap none of the
  sentinels the transport tells apart.
\<close>

definition reads_plain :: "call \<Rightarrow> bool" where
  "reads_plain did =
    (case did of
       DidEvents c i ans \<Rightarrow> plain (snd ans)
     | DidAction c i ans \<Rightarrow> plain (snd (snd ans))
     | DidObserve c a g ans \<Rightarrow> plain (snd ans)
     | DidVerify c a os u ans \<Rightarrow> plain (snd ans)
     | _ \<Rightarrow> port_plain did)"

subsection \<open>Assessments\<close>

text \<open>The journal answered with an intent under the identity of the action that is not the action.\<close>

definition intent_differs :: "Action \<Rightarrow> call \<Rightarrow> bool" where
  "intent_differs a did =
    (case did of DidAction c i ans \<Rightarrow> snd ans = (True, None) \<and> \<not> sameAction (fst ans) a | _ \<Rightarrow> False)"

lemma observation_facts_plain:
  "plain (snd acc) \<Longrightarrow> plain (snd (observation_facts rt a i os acc))"
  by (induction rt a i os acc rule: observation_facts.induct)
     (auto simp: observationEvent_def dest: marshalPayload_plain newEvent_plain split: sum.split)

lemma assessment_facts_plain: "plain (snd (assessment_facts rt a i os v ve now))"
proof -
  have "plain (snd (go_pair [] (verificationEvents rt a i v ve now)))"
    by (cases "verificationEvents rt a i v ve now")
      (auto simp: verificationEvents_def Let_def split_beta dest: marshalPayload_plain newEvent_plain split: if_splits)
  then show ?thesis
    using observation_facts_plain [of "([], None)" rt a i os] by (simp add: assessment_facts_def Let_def split_beta)
qed


lemma assess_yields:
  "yields reads_plain (\<lambda>w. vo_AttemptID (fst w) = vo_AttemptID res \<and> plain (snd w)) (verify_assess rt u input res)"
proof -
  have unknown: "plain (Some (Sentinel ErrVerificationUnknown))" by (simp add: plain_def api_sentinels_def)
  have recorded: "yields reads_plain (\<lambda>w. vo_AttemptID (fst w) = vo_AttemptID res' \<and> plain (snd w))
      (verify_record rt u input oe ve now res')" if "plain oe" "plain ve" for oe ve now res'
    using that assessment_facts_plain
    by (simp add: verify_record_def Let_def split_beta yields_branch reads_plain_def port_plain_def)
  have verified: "yields reads_plain (\<lambda>w. vo_AttemptID (fst w) = vo_AttemptID res \<and> plain (snd w))
      (verify_record rt u input oe (if unknown \<and> ve = None then Some (Sentinel ErrVerificationUnknown) else ve) now
        (res\<lparr>vo_Target := g, vo_Observations := os, vo_Verification := vr\<rparr>))"
    if "plain oe" "plain ve" for oe ve now g os vr unknown
    using recorded [OF that(1), where ve = "if unknown \<and> ve = None then Some (Sentinel ErrVerificationUnknown) else ve"
        and now = now and res' = "res\<lparr>vo_Target := g, vo_Observations := os, vo_Verification := vr\<rparr>"] that(2) unknown by simp
  show ?thesis
    unfolding verify_assess_def Let_def split_beta yields.simps yields_branch(1)
  proof (intro allI impI)
    fix ans :: "ResolvedTarget \<times> err option"
    assume "reads_plain (DidResolve CallerCtx (vi_Action input) ans)"
    then have "plain (snd ans)" by (simp add: reads_plain_def port_plain_def)
    then show "if snd ans \<noteq> None
       then vo_AttemptID (fst (res\<lparr>vo_Target := fst ans\<rparr>, stageError StageResolve (snd ans))) = vo_AttemptID res
          \<and> plain (snd (res\<lparr>vo_Target := fst ans\<rparr>, stageError StageResolve (snd ans)))
       else \<forall>obs. reads_plain (DidObserve CallerCtx (vi_Action input) (fst ans) obs) \<longrightarrow>
          (\<forall>now. reads_plain (DidNow now) \<longrightarrow>
            (\<forall>ver. reads_plain (DidVerify CallerCtx (vi_Action input) (fst obs) (UTC now) ver) \<longrightarrow>
              yields reads_plain (\<lambda>w. vo_AttemptID (fst w) = vo_AttemptID res \<and> plain (snd w))
               (verify_record rt u input (snd obs)
                 (if vr_status (fst ver) = VerificationUnknown \<and> snd ver = None
                  then Some (Sentinel ErrVerificationUnknown) else snd ver) (UTC now)
                 (res\<lparr>vo_Target := fst ans, vo_Observations := fst obs, vo_Verification := fst ver\<rparr>))))"
      using verified by (simp add: reads_plain_def)
  qed
qed

lemma assess_reads_no_intent: "only (\<lambda>did. \<not> intent_differs a did) (verify_assess rt u input res)"
  by (simp add: verify_assess_def verify_record_def Let_def split_beta only_branch intent_differs_def)

text \<open>An assessment of an attempt stops after its first read, or asks for the intent too.\<close>

lemma verify_reads:
  assumes "plays (VerifyAttempt_Verify rt (Some v) \<lparr>vi_Action = a, vi_AttemptID = i\<rparr>) tr (r, e)"
    and "list_all reads_plain tr" and "i \<noteq> []" "act_id a \<noteq> []"
  obtains (first) evs where "tr = [DidEvents CallerCtx i evs]" "vo_AttemptID r = i" "\<not> error_is e ErrActionIdentityConflict"
    | (intent) evs st tr2 where "tr = DidEvents CallerCtx i evs # DidAction CallerCtx (act_id a) st # tr2" "snd evs = None"
        "let res = zero_verify_result\<lparr>vo_ActionID := act_id a, vo_AttemptID := i\<rparr> in
         if snd (snd st) \<noteq> None then tr2 = [] \<and> (r, e) = (res, stageError StageRecord (snd (snd st)))
         else if \<not> fst (snd st) then tr2 = [] \<and> (r, e) = (res, stageError StageValidate (Some (Sentinel ErrAttemptNotFound)))
         else if \<not> sameAction (fst st) a
         then tr2 = [] \<and> (r, e) = (res, stageError StageValidate (Some (Sentinel ErrActionIdentityConflict)))
         else plays (verify_assess rt v \<lparr>vi_Action = a, vi_AttemptID = i\<rparr> res) tr2 (r, e)"
proof -
  let ?res = "zero_verify_result\<lparr>vo_ActionID := act_id a, vo_AttemptID := i\<rparr>"
  let ?other = "\<lambda>evs. list_ex (\<lambda>event. ev_actionID event \<noteq> act_id a) (fst evs)"
  have valid: "\<not> (i = [] \<or> act_id a = [])" using assms(3,4) by simp
  obtain evs tr1 where tr: "tr = DidEvents CallerCtx i evs # tr1" and rest:
    "if snd evs \<noteq> None then tr1 = [] \<and> (r, e) = (?res, stageError StageRecord (snd evs))
     else if fst evs = [] then tr1 = [] \<and> (r, e) = (?res, stageError StageValidate (Some (Sentinel ErrAttemptNotFound)))
     else if ?other evs then tr1 = [] \<and> (r, e) = (?res, stageError StageValidate (Some (Sentinel ErrActionMismatch)))
     else \<exists>st tr2. tr1 = DidAction CallerCtx (act_id a) st # tr2 \<and>
       (if snd (snd st) \<noteq> None then tr2 = [] \<and> (r, e) = (?res, stageError StageRecord (snd (snd st)))
        else if \<not> fst (snd st) then tr2 = [] \<and> (r, e) = (?res, stageError StageValidate (Some (Sentinel ErrAttemptNotFound)))
        else if \<not> sameAction (fst st) a
        then tr2 = [] \<and> (r, e) = (?res, stageError StageValidate (Some (Sentinel ErrActionIdentityConflict)))
        else plays (verify_assess rt v \<lparr>vi_Action = a, vi_AttemptID = i\<rparr> ?res) tr2 (r, e))"
    using assms(1) unfolding verify_plays Let_def VerifyInput.select_convs if_not_P [OF valid] by blast
  have "plain (snd evs)" using assms(2) unfolding tr by (simp add: reads_plain_def)
  then have "snd evs \<noteq> None \<or> fst evs = [] \<or> ?other evs \<Longrightarrow> thesis"
    using rest tr first [of evs] by (simp add: plain_def api_sentinels_def split: if_splits)
  moreover have "\<not> (snd evs \<noteq> None \<or> fst evs = [] \<or> ?other evs) \<Longrightarrow> thesis"
    using rest tr intent [of evs] unfolding Let_def by (simp only: de_Morgan_disj if_False simp_thms) blast
  ultimately show thesis by blast
qed

lemma verify_told:
  assumes "plays (VerifyAttempt_Verify rt (Some v) \<lparr>vi_Action = a, vi_AttemptID = i\<rparr>) tr (r, e)"
    and "list_all reads_plain tr" and "act_id a \<noteq> ''''"
  shows "reply_status (writeVerification rt r e) = (if tr = [] then 400 else if list_ex (intent_differs a) tr then 409 else 200)"
proof (cases "i = []")
  case True
  then show ?thesis
    using assms(1) by (simp add: verify_plays writeVerification_def zero_verify_result_def error_status_def)
next
  case False
  let ?res = "zero_verify_result\<lparr>vo_ActionID := act_id a, vo_AttemptID := i\<rparr>"
  have res: "vo_AttemptID ?res = i" by simp
  have kept: "reply_status (writeVerification rt r' e') = 200"
    if "vo_AttemptID r' = i" "plain e'" for r' e'
    using that False by (simp add: writeVerification_def plain_def api_sentinels_def)
  have head: "\<not> intent_differs a (DidEvents CallerCtx i evs)" for evs by (simp add: intent_differs_def)
  have other: "reply_status (writeVerification rt ?res (stageError StageValidate (Some (Sentinel s)))) = 200"
    if "s \<noteq> ErrActionIdentityConflict" for s using that False by (simp add: writeVerification_def)
  from assms(1,2) False assms(3) show ?thesis
  proof (cases rule: verify_reads)
    case (first evs)
    with head False show ?thesis by (simp add: writeVerification_def)
  next
    case (intent evs st tr2)
    have st: "plain (snd (snd st))" using assms(2) unfolding intent(1) by (simp add: reads_plain_def)
    let ?d = "intent_differs a (DidAction CallerCtx (act_id a) st)"
    consider "snd (snd st) \<noteq> None" | "snd (snd st) = None" "\<not> fst (snd st)"
      | "snd (snd st) = None" "fst (snd st)" "\<not> sameAction (fst st) a"
      | "snd (snd st) = None" "fst (snd st)" "sameAction (fst st) a" by blast
    then show ?thesis
    proof cases
      case 1
      then have "\<not> ?d" by (auto simp: intent_differs_def)
      with 1 intent(3) kept [of ?res e] st intent(1) head show ?thesis by simp
    next
      case 2
      then have "\<not> ?d" by (auto simp: intent_differs_def)
      with 2 intent(3) other intent(1) head show ?thesis by simp
    next
      case 3
      then have "?d" by (cases st) (auto simp: intent_differs_def)
      with 3 intent(3,1) show ?thesis
        by (simp add: writeVerification_def error_status_def)
    next
      case 4
      then have p: "plays (verify_assess rt v \<lparr>vi_Action = a, vi_AttemptID = i\<rparr> ?res) tr2 (r, e)" using intent(3) by simp
      have "list_all reads_plain tr2" using assms(2) unfolding intent(1) by simp
      with yields_plays [OF p assess_yields] have "vo_AttemptID r = i" "plain e" by simp_all
      moreover have "\<not> list_ex (intent_differs a) tr2"
        using only_plays [OF p assess_reads_no_intent] by (auto simp: list_ex_iff)
      moreover have "\<not> ?d" using 4 by (auto simp: intent_differs_def)
      ultimately show ?thesis using kept intent(1) head by simp
    qed
  qed
qed

text \<open>C30: over ports whose errors wrap none of the transport's sentinels, a request to verify is answered 400 exactly
  when no port was called, that is for a body, an action or an attempt identity that is not acceptable;
  otherwise it is answered 409 exactly when the journal holds another intent under the identity of the
  decoded action, and 200 in every other case, an attempt that does not exist included.\<close>

theorem http_verify_status:
  assumes "plays (Http_verify rt dt h r) tr reply" and "hd_verifier h = VerifyAttempt_Verify rt (Some v)"
    and "list_all reads_plain tr"
  shows "(reply_status reply = 400 \<longleftrightarrow> tr = []) \<and>
    (tr = [] \<or> (\<exists>request action. decode_body dt (store_struct True execute_fields) r zero_executeRequest = Inr request
       \<and> request_action (xq_Action request) = Inr action
       \<and> reply_status reply = (if list_ex (intent_differs action) tr then 409 else 200)))"
proof (cases "\<exists>request action. decode_body dt (store_struct True execute_fields) r zero_executeRequest = Inr request
       \<and> request_action (xq_Action request) = Inr action")
  case False
  then show ?thesis using assms(1) by (auto simp: Http_verify_def split: sum.splits)
next
  case True
  then obtain request action where d: "decode_body dt (store_struct True execute_fields) r zero_executeRequest = Inr request"
    "request_action (xq_Action request) = Inr action" by blast
  then obtain w e where p: "plays (VerifyAttempt_Verify rt (Some v) \<lparr>vi_Action = action, vi_AttemptID = xq_AttemptID request\<rparr>) tr (w, e)"
    and reply: "reply = writeVerification rt w e"
    using assms(1,2) by (auto simp: Http_verify_def plays_map_prog)
  have "act_id action \<noteq> ''''" using d(2) by (auto simp: request_action_def NewAction_Inr_iff action_ok_def)
  from verify_told [OF p assms(3) this] d reply show ?thesis by auto
qed

subsection \<open>Recoveries\<close>

definition read_failed :: "call \<Rightarrow> bool" where
  "read_failed did =
    (case did of DidEvents c i ans \<Rightarrow> snd ans \<noteq> None | DidAction c i ans \<Rightarrow> snd (snd ans) \<noteq> None | _ \<Rightarrow> False)"

definition evidence_read :: "call \<Rightarrow> bool" where
  "evidence_read did = (case did of DidEvents c i ans \<Rightarrow> True | DidAction c i ans \<Rightarrow> True | _ \<Rightarrow> False)"

text \<open>
  The evidence a recovery of the action \<open>a\<close> rests on was read and agrees with it: the previous attempt has
  facts, all of them of that action, and the journal holds that very intent under its identity.
\<close>

fun evidence_agrees :: "Action \<Rightarrow> AttemptID \<Rightarrow> call list \<Rightarrow> bool" where
  "evidence_agrees a previous (DidEvents c i (evs, None) # DidAction c' j (stored, True, None) # tr) \<longleftrightarrow>
     i = previous \<and> evs \<noteq> [] \<and> list_all (\<lambda>event. ev_actionID event = act_id a) evs \<and> j = act_id a \<and> sameAction stored a"
| "evidence_agrees a previous tr \<longleftrightarrow> False"

text \<open>What the response to a recovery is, by how the recovery went.\<close>

definition recovery_status :: "Action \<Rightarrow> AttemptID \<Rightarrow> call list \<Rightarrow> int \<Rightarrow> bool" where
  "recovery_status a previous tr st \<longleftrightarrow>
    (if list_ex read_failed tr then st = 500 \<and> list_all evidence_read tr
     else if evidence_agrees a previous tr
     then st \<in> {200, 400, 409} \<and> (st = 409 \<longleftrightarrow> list_ex claim_conflict tr)
       \<and> (st = 400 \<longrightarrow> list_all (\<lambda>did. \<not> claims_call did) tr) \<and> (dispatched tr \<noteq> [] \<longrightarrow> st = 200)
     else st = 400 \<and> list_all evidence_read tr)"

lemma failed_recovery:
  "reply_status (writeExecution rt zero_result (stageError StageRecover e)) = error_status e"
proof -
  have "execution_refused zero_result x" for x by (simp add: execution_refused_def zero_result_def zero_attempt_def)
  then show ?thesis by (simp add: writeExecution_def error_status_def)
qed

lemma plain_status: "plain e \<Longrightarrow> error_status e = 500"
  by (simp add: plain_def api_sentinels_def error_status_def)

lemma executed_recovery:
  assumes "plays (execute rt (Some u) input auth) tr (r, e)" "list_all reads_plain tr"
    and "list_all (\<lambda>did. \<not> read_failed did \<and> \<not> claim_conflict did \<and> \<not> claims_call did) before" "dispatched before = []"
    and "evidence_agrees a previous (before @ tr)"
  shows "recovery_status a previous (before @ tr) (reply_status (writeExecution rt r e))"
proof -
  have "port_plain d" if "reads_plain d" for d using that by (cases d) (simp_all add: reads_plain_def port_plain_def)
  then have "list_all port_plain tr" using assms(2) by (auto simp: list_all_iff)
  then have told: "told_status tr (reply_status (writeExecution rt r e))" using execution_told [OF assms(1)] by blast
  have "\<forall>d\<in>set tr. claims_for (xi_Action input) (xi_AttemptID input) d" using only_plays [OF assms(1) execute_claims_for] .
  then have "\<not> list_ex read_failed tr" by (auto simp: list_ex_iff read_failed_def split: call.splits)
  moreover have "only_clock tr \<Longrightarrow> list_all (\<lambda>did. \<not> claims_call did) tr" by (auto simp: only_clock_def list_all_iff)
  ultimately show ?thesis
    using told assms(3-5) by (auto simp: told_status_def recovery_status_def list_all_iff list_ex_iff)
qed

text \<open>A recovery stops with an error after it read the evidence, or starts an execution when that agrees.\<close>

lemma recover_reads:
  assumes "plays (Recover rt (Some u) \<lparr>ri_Action = a, ri_AttemptID = i, ri_Authorization = au\<rparr>) tr (r, e)"
    and "list_all reads_plain tr"
  obtains (stopped) s where "r = zero_result" "e = stageError StageRecover s" "list_all evidence_read tr"
      "\<not> evidence_agrees a (ra_previousAttemptID au) tr" "error_status s = (if list_ex read_failed tr then 500 else 400)"
    | (started) evs stored tr2
      where "tr = [DidEvents CallerCtx (ra_previousAttemptID au) (evs, None), DidAction CallerCtx (act_id a) (stored, True, None)] @ tr2"
        "evidence_agrees a (ra_previousAttemptID au) tr"
        "plays (execute rt (Some (rv_executor u)) \<lparr>xi_Action = a, xi_AttemptID = i\<rparr> (Some au)) tr2 (r, e)"
proof (cases "ra_actionID au \<noteq> act_id a \<or> ra_previousAttemptID au = []")
  case True
  then show thesis using assms(1) stopped [of "Some (Sentinel ErrRecoveryNotAuthorized)"]
    by (simp add: recover_plays Let_def error_status_def)
next
  case guard: False
  have refused: "error_status (errorsJoin [Some (Sentinel s), Some (Sentinel ErrRecoveryNotAuthorized)]) = 400" for s
    by (simp add: error_status_def)
  let ?foreign = "\<lambda>evs. list_ex (\<lambda>event. ev_actionID event \<noteq> act_id a) evs"
  obtain prev tr1 where "tr = DidEvents CallerCtx (ra_previousAttemptID au) prev # tr1" and
    "if snd prev \<noteq> None then tr1 = [] \<and> (r, e) = (zero_result, stageError StageRecover (snd prev))
     else if fst prev = [] then tr1 = [] \<and> (r, e) = (zero_result, stageError StageRecover
            (errorsJoin [Some (Sentinel ErrAttemptNotFound), Some (Sentinel ErrRecoveryNotAuthorized)]))
     else if ?foreign (fst prev) then tr1 = [] \<and> (r, e) = (zero_result, stageError StageRecover
            (errorsJoin [Some (Sentinel ErrActionMismatch), Some (Sentinel ErrRecoveryNotAuthorized)]))
     else \<exists>st tr2. tr1 = DidAction CallerCtx (act_id a) st # tr2 \<and>
       (if snd (snd st) \<noteq> None then tr2 = [] \<and> (r, e) = (zero_result, stageError StageRecover (snd (snd st)))
        else if \<not> fst (snd st) \<or> \<not> sameAction (fst st) a
        then tr2 = [] \<and> (r, e) = (zero_result, stageError StageRecover
               (errorsJoin [Some (Sentinel ErrActionIdentityConflict), Some (Sentinel ErrRecoveryNotAuthorized)]))
        else plays (execute rt (Some (rv_executor u)) \<lparr>xi_Action = a, xi_AttemptID = i\<rparr> (Some au)) tr2 (r, e))"
    using assms(1) unfolding recover_plays Let_def RecoverInput.select_convs if_not_P [OF guard] by blast
  moreover obtain evs er where "prev = (evs, er)" by (cases prev)
  ultimately have tr: "tr = DidEvents CallerCtx (ra_previousAttemptID au) (evs, er) # tr1" and rest:
    "if er \<noteq> None then tr1 = [] \<and> (r, e) = (zero_result, stageError StageRecover er)
     else if evs = [] then tr1 = [] \<and> (r, e) = (zero_result, stageError StageRecover
            (errorsJoin [Some (Sentinel ErrAttemptNotFound), Some (Sentinel ErrRecoveryNotAuthorized)]))
     else if ?foreign evs then tr1 = [] \<and> (r, e) = (zero_result, stageError StageRecover
            (errorsJoin [Some (Sentinel ErrActionMismatch), Some (Sentinel ErrRecoveryNotAuthorized)]))
     else \<exists>st tr2. tr1 = DidAction CallerCtx (act_id a) st # tr2 \<and>
       (if snd (snd st) \<noteq> None then tr2 = [] \<and> (r, e) = (zero_result, stageError StageRecover (snd (snd st)))
        else if \<not> fst (snd st) \<or> \<not> sameAction (fst st) a
        then tr2 = [] \<and> (r, e) = (zero_result, stageError StageRecover
               (errorsJoin [Some (Sentinel ErrActionIdentityConflict), Some (Sentinel ErrRecoveryNotAuthorized)]))
        else plays (execute rt (Some (rv_executor u)) \<lparr>xi_Action = a, xi_AttemptID = i\<rparr> (Some au)) tr2 (r, e))"
    by (simp_all only: fst_conv snd_conv)
  have "plain er" using assms(2) unfolding tr by (simp add: reads_plain_def)
  then have failed: "thesis" if "er \<noteq> None"
    using that rest stopped [of er] tr plain_status [of er] by (auto simp: evidence_read_def read_failed_def)
  have early: thesis if "er = None" "tr1 = []" "(r, e) = (zero_result, stageError StageRecover (errorsJoin [Some (Sentinel s), Some (Sentinel ErrRecoveryNotAuthorized)]))" for s
    using that stopped [of "errorsJoin [Some (Sentinel s), Some (Sentinel ErrRecoveryNotAuthorized)]"] refused [of s] tr
    by (simp add: evidence_read_def read_failed_def)
  show thesis
  proof (cases "er = None \<and> evs \<noteq> [] \<and> \<not> ?foreign evs")
    case False
    then show thesis using failed early rest by (auto split: if_splits)
  next
    case True
    then have none: "\<not> er \<noteq> None" "evs \<noteq> []" "\<not> ?foreign evs" by simp_all
    obtain stored found er2 tr2 where tr1: "tr1 = DidAction CallerCtx (act_id a) (stored, found, er2) # tr2" and last:
      "if er2 \<noteq> None then tr2 = [] \<and> (r, e) = (zero_result, stageError StageRecover er2)
       else if \<not> found \<or> \<not> sameAction stored a
       then tr2 = [] \<and> (r, e) = (zero_result, stageError StageRecover
              (errorsJoin [Some (Sentinel ErrActionIdentityConflict), Some (Sentinel ErrRecoveryNotAuthorized)]))
       else plays (execute rt (Some (rv_executor u)) \<lparr>xi_Action = a, xi_AttemptID = i\<rparr> (Some au)) tr2 (r, e)"
      using rest unfolding if_not_P [OF none(1)] if_not_P [OF none(2)] if_not_P [OF none(3)] split_paired_Ex fst_conv snd_conv by blast
    have "plain er2" using assms(2) unfolding tr tr1 by (simp add: reads_plain_def)
    then show thesis
      using last stopped [of er2]
        stopped [of "errorsJoin [Some (Sentinel ErrActionIdentityConflict), Some (Sentinel ErrRecoveryNotAuthorized)]"]
        refused [of ErrActionIdentityConflict] started [of evs stored tr2] True plain_status [of er2]
      by (cases found) (auto simp: tr tr1 evidence_read_def read_failed_def list_all_iff list_ex_iff split: if_splits)
  qed
qed

lemma recover_told:
  assumes "plays (Recover rt (Some u) \<lparr>ri_Action = a, ri_AttemptID = i, ri_Authorization = au\<rparr>) tr (r, e)"
    and "list_all reads_plain tr"
  shows "recovery_status a (ra_previousAttemptID au) tr (reply_status (writeExecution rt r e))"
  using assms
proof (cases rule: recover_reads)
  case (stopped s)
  then show ?thesis by (simp add: recovery_status_def failed_recovery)
next
  case (started evs stored tr2)
  then show ?thesis
    using executed_recovery [of rt "rv_executor u" "\<lparr>xi_Action = a, xi_AttemptID = i\<rparr>" "Some au" tr2 r e
        "[DidEvents CallerCtx (ra_previousAttemptID au) (evs, None), DidAction CallerCtx (act_id a) (stored, True, None)]" a
        "ra_previousAttemptID au"] assms(2)
    by (simp add: read_failed_def claim_conflict_def)
qed

text \<open>C31: over such ports the status of a request to recover is determined by the evidence. A body, an action or
  an authorization that is not acceptable is a 400 and calls nothing. When a read of the evidence failed
  the answer is 500. Otherwise, unless the previous attempt has facts, all of the decoded action, and the
  journal holds that intent under the action's identity, the answer is 400 and nothing but reads was
  called: missing evidence is no 404 and another intent no 409, as they are for other requests. With
  evidence that agrees the answer is 409 exactly when the claim of the new attempt was refused, 400 only
  if nothing was claimed, and 200 otherwise, whenever the provider was called in particular.\<close>

theorem http_recover_status:
  assumes "plays (Http_recover rt dt h r) tr reply" and "hd_recoverer h = Recover rt (Some u)"
    and "list_all reads_plain tr"
  shows "case decode_body dt (store_struct True recover_fields) r zero_recoverRequest of
      Inl message \<Rightarrow> tr = [] \<and> reply_status reply = 400
    | Inr request \<Rightarrow>
        (case request_action (cq_Action request) of
           Inl err \<Rightarrow> tr = [] \<and> reply_status reply = 400
         | Inr action \<Rightarrow> recovery_status action (cq_Previous request) tr (reply_status reply))"
proof (cases "decode_body dt (store_struct True recover_fields) r zero_recoverRequest")
  case (Inl message)
  with assms(1) show ?thesis by (simp add: Http_recover_def)
next
  case request: (Inr request)
  show ?thesis
  proof (cases "request_action (cq_Action request)")
    case (Inl err)
    with request assms(1) show ?thesis by (simp add: Http_recover_def)
  next
    case action: (Inr action)
    let ?spec = "\<lparr>us_ActionID = act_id action, us_PreviousAttemptID = cq_Previous request,
       us_AuthorizedBy = cq_AuthorizedBy request, us_AuthorizedAt = cq_AuthorizedAt request, us_Reason = cq_Reason request\<rparr>"
    show ?thesis
    proof (cases "NewRecoveryAuthorization ?spec")
      case (Inl err)
      with request action assms(1) show ?thesis by (simp add: Http_recover_def recovery_status_def)
    next
      case (Inr au)
      then have previous: "ra_previousAttemptID au = cq_Previous request" by (simp add: NewRecoveryAuthorization_Inr_iff)
      obtain w e where "plays (Recover rt (Some u)
          \<lparr>ri_Action = action, ri_AttemptID = cq_AttemptID request, ri_Authorization = au\<rparr>) tr (w, e)"
        "reply = writeExecution rt w e"
        using assms(1,2) request action Inr by (auto simp: Http_recover_def plays_map_prog)
      with recover_told [OF this(1) assms(3)] previous request action show ?thesis by simp
    qed
  qed
qed

end
