(* ===== verification/Http_Recovery_Text.thy ===== *)
theory Http_Recovery_Text
  imports Http_Roundtrip Exec_Examples
begin

text \<open>
  The JSON text of a request to recover, and that its strict decoding gives back the action, the identity of
  the new attempt and the authorization the client wrote.
\<close>

definition recovery_members :: "Action \<Rightarrow> AttemptID \<Rightarrow> RecoveryAuthorization \<Rightarrow> (string \<times> string) list" where
  "recovery_members a i au =
    [(''action'', client_action a), (''attempt_id'', json_string i),
     (''previous_attempt_id'', json_string (ra_previousAttemptID au)),
     (''authorized_by'', json_string (ra_authorizedBy au)),
     (''authorized_at'', json_string (FormatRFC3339Nano (ra_authorizedAt au))),
     (''reason'', json_string (ra_reason au))]"

definition client_recover :: "Action \<Rightarrow> AttemptID \<Rightarrow> RecoveryAuthorization \<Rightarrow> string" where
  "client_recover a i au = object_text (recovery_members a i au)"

definition sendable_authorization :: "RecoveryAuthorization \<Rightarrow> bool" where
  "sendable_authorization au \<longleftrightarrow> utf8_ok (ra_previousAttemptID au) \<and> utf8_ok (ra_authorizedBy au) \<and> utf8_ok (ra_reason au)
     \<and> t_off (ra_authorizedAt au) = 0 \<and> 0 \<le> local_year (ra_authorizedAt au) \<and> local_year (ra_authorizedAt au) \<le> 9999"

text \<open>The request a recovery decodes to, and the authorization the handler makes of it.\<close>

definition recovery_request :: "Action \<Rightarrow> AttemptID \<Rightarrow> RecoveryAuthorization \<Rightarrow> recoverRequest" where
  "recovery_request a i au = \<lparr>cq_Action = request_of a, cq_AttemptID = i, cq_Previous = ra_previousAttemptID au,
     cq_AuthorizedBy = ra_authorizedBy au, cq_AuthorizedAt = ra_authorizedAt au, cq_Reason = ra_reason au\<rparr>"

lemma recovery_names_utf8 [simp]:
  "utf8_ok ''previous_attempt_id''" "utf8_ok ''authorized_by''" "utf8_ok ''authorized_at''" "utf8_ok ''reason''"
  by (rule ascii_utf8; simp add: code_def)+

lemma recovery_members_ok:
  assumes "sendable a i"
  shows "list_all (entry_ok (scan_value 9999)) (recovery_members a i au)"
proof -
  have "raw_ok (scan_value 9999) (client_action a)"
    using object_text_ok [OF action_members_ok [OF assms]] by (simp add: client_action_def)
  then show ?thesis using json_string_ok by (simp add: recovery_members_def entry_ok_def)
qed

lemma recover_fields_found:
  "find_field recover_fields ''action'' = Some (field cq_Action cq_Action_update (store_struct True action_fields))"
  "find_field recover_fields ''attempt_id'' = Some (field cq_AttemptID cq_AttemptID_update store_string)"
  "find_field recover_fields ''previous_attempt_id'' = Some (field cq_Previous cq_Previous_update store_string)"
  "find_field recover_fields ''authorized_by'' = Some (field cq_AuthorizedBy cq_AuthorizedBy_update store_string)"
  "find_field recover_fields ''authorized_at'' = Some (field cq_AuthorizedAt cq_AuthorizedAt_update store_time)"
  "find_field recover_fields ''reason'' = Some (field cq_Reason cq_Reason_update store_string)"
  by (simp_all add: find_field_def recover_fields_def)

lemma recovery_stored:
  assumes "sendable a i" "sendable_authorization au"
  shows "store_struct True recover_fields (client_recover a i au) zero_recoverRequest = Some (recovery_request a i au)"
proof -
  note d = object_text_decodes(3,4) [OF recovery_members_ok [OF assms(1)], of au, folded client_recover_def]
  have "utf8_ok i" using assms(1) by (simp add: sendable_def)
  with assms(2) action_stored [OF assms(1)] show ?thesis
    unfolding sendable_authorization_def
    by (simp add: store_struct_def d recovery_members_def recover_fields_found field_def stored_string stored_time
        zero_recoverRequest_def zero_executeRequest_def recovery_request_def)
qed

text \<open>A body that is one object text within the limit decodes to what its members are stored as.\<close>

lemma decoded_object:
  assumes "list_all (entry_ok (scan_value 9999)) ms" and "store (object_text ms) zero = Some request"
    and "in_body r = object_text ms" "in_bodyErr r = None" "length (object_text ms) \<le> maxRequestSize"
  shows "decode_body dt store r zero = Inr request"
proof -
  obtain cs where c: "object_text ms = CHR 0x7B # cs" by (simp add: object_text_def)
  then have "skip_space (object_text ms) = object_text ms" by (simp add: json_space_def)
  with object_text_decodes(1) [OF assms(1), of "[]"] c
  have "next_value (object_text ms) = StreamValue (object_text ms) []"
    using consumed_append [of "object_text ms" "[]"] by (simp add: next_value_def)
  then show ?thesis
    using assms by (simp add: decode_body_def MaxBytes_read_def Decoder_next_def next_value_def)
qed

lemma decoded_recovery:
  assumes "action_ok a" "authorization_ok au" "ra_actionID au = act_id a"
    and "sendable a i" "sendable_authorization au"
    and "in_body r = client_recover a i au" "in_bodyErr r = None" "length (client_recover a i au) \<le> maxRequestSize"
  shows "\<exists>request. decode_body dt (store_struct True recover_fields) r zero_recoverRequest = Inr request
    \<and> request_action (cq_Action request) = Inr a \<and> cq_AttemptID request = i
    \<and> NewRecoveryAuthorization \<lparr>us_ActionID = act_id a, us_PreviousAttemptID = cq_Previous request,
         us_AuthorizedBy = cq_AuthorizedBy request, us_AuthorizedAt = cq_AuthorizedAt request,
         us_Reason = cq_Reason request\<rparr> = Inr au"
proof -
  have "decode_body dt (store_struct True recover_fields) r zero_recoverRequest = Inr (recovery_request a i au)"
    using recovery_stored [OF assms(4,5)] assms(6-8)
    by (intro decoded_object [OF recovery_members_ok [OF assms(4), of au]]) (simp_all add: client_recover_def)
  moreover have "request_action (request_of a) = Inr a"
    using assms(1) by (simp add: request_action_def NewAction_Inr_iff request_of_def)
  moreover have "NewRecoveryAuthorization \<lparr>us_ActionID = act_id a, us_PreviousAttemptID = ra_previousAttemptID au,
         us_AuthorizedBy = ra_authorizedBy au, us_AuthorizedAt = ra_authorizedAt au, us_Reason = ra_reason au\<rparr> = Inr au"
    using assms(2,3) by (cases au) (simp add: NewRecoveryAuthorization_Inr_iff)
  ultimately show ?thesis by (simp add: recovery_request_def)
qed

end
