(* ===== verification/Status_Examples.thy ===== *)
theory Status_Examples
  imports Http_Statuses Http_Recovery_Text Http_Examples
begin

text \<open>
  Two requests to the server of Http_Examples that are refused for what the journal answers: an assessment
  of an action whose identity was claimed with another intent, and a recovery without evidence.
\<close>

definition lamp_handler :: Handler where
  "lamp_handler = srv_handler lamp_server"

definition other_intent :: Action where
  "other_intent = example_action\<lparr>act_name := ''turn_off''\<rparr>"

definition conflict_run :: "call list" where
  "conflict_run = [DidEvents CallerCtx ''t'' ([example_fact ''1'' EventAttemptStarted], None),
     DidAction CallerCtx ''a'' (other_intent, True, None)]"

definition conflict_reply :: reply where
  "conflict_reply = writeVerification mirror_rt (zero_verify_result\<lparr>vo_ActionID := ''a'', vo_AttemptID := ''t''\<rparr>)
     (stageError StageValidate (Some (Sentinel ErrActionIdentityConflict)))"

lemma conflict_served: "plays (Http_verify mirror_rt dt lamp_handler lamp_request) conflict_run conflict_reply"
proof -
  obtain request where d: "decode_body dt (store_struct True execute_fields) lamp_request zero_executeRequest = Inr request"
    "request_action (xq_Action request) = Inr example_action" "xq_AttemptID request = ''t''"
    using lamp_request_decoded by blast
  have "plays (VerifyAttempt_Verify mirror_rt (Some \<lparr>va_now = TimeNow, va_recordTimeout = defaultRecordTimeout\<rparr>)
      \<lparr>vi_Action = example_action, vi_AttemptID = ''t''\<rparr>) conflict_run
      (zero_verify_result\<lparr>vo_ActionID := ''a'', vo_AttemptID := ''t''\<rparr>, stageError StageValidate (Some (Sentinel ErrActionIdentityConflict)))"
    by (simp add: verify_plays conflict_run_def example_action_def example_fact_def other_intent_def sameAction_def)
  then show ?thesis
    by (simp add: Http_verify_def d lamp_handler_def lamp_server_def plays_map_prog conflict_reply_def) blast
qed

lemma http_verify_status_witness: "reply_status conflict_reply = 409 \<and> conflict_run \<noteq> []"
proof -
  have h: "hd_verifier lamp_handler = VerifyAttempt_Verify mirror_rt (Some \<lparr>va_now = TimeNow, va_recordTimeout = defaultRecordTimeout\<rparr>)"
    by (simp add: lamp_handler_def lamp_server_def)
  have plain: "list_all reads_plain conflict_run" by (simp add: conflict_run_def reads_plain_def)
  obtain request where d: "decode_body lamp_decode (store_struct True execute_fields) lamp_request zero_executeRequest = Inr request"
    "request_action (xq_Action request) = Inr example_action" "xq_AttemptID request = ''t''"
    using lamp_request_decoded by blast
  have "list_ex (intent_differs example_action) conflict_run"
    by (simp add: conflict_run_def intent_differs_def other_intent_def sameAction_def example_action_def)
  with http_verify_status [OF conflict_served [of lamp_decode] h plain] d show ?thesis
    by (auto simp: conflict_run_def)
qed

subsection \<open>A recovery without evidence\<close>

definition recovery_posted :: incoming where
  "recovery_posted = \<lparr>in_method = ''POST'', in_path = ''/v1/actions/recover'', in_authorization = ''Bearer secret'',
     in_body = client_recover example_action ''s'' example_authorization, in_bodyErr = None\<rparr>"

lemma recovery_length: "length (client_recover example_action ''s'' example_authorization) \<le> maxRequestSize"
  by (simp add: client_recover_def recovery_members_def client_action_def example_action_def example_authorization_def
      lamp_time_text object_text_def raw_entry_def json_string_def json_string_body_plain html_safe_def code_def
      maxRequestSize_def del: json_string_body.simps)

lemma recovery_authorized: "authorization_ok example_authorization" "sendable_authorization example_authorization"
    "sendable example_action ''s''"
proof -
  have "text_ok ''a''" "text_ok ''t''" "text_ok ''ha''" "text_ok ''lamp''"
    by (rule visible_text_ok; simp add: visible_def code_def)+
  then show "authorization_ok example_authorization"
    by (simp add: authorization_ok_def example_authorization_def IsZero_def)
  show "sendable_authorization example_authorization"
    by (simp add: sendable_authorization_def example_authorization_def lamp_year ascii_utf8 code_def)
  show "sendable example_action ''s''"
    by (simp add: sendable_def example_action_def lamp_year ascii_utf8 code_def)
qed

definition lost_run :: "call list" where
  "lost_run = [DidEvents CallerCtx ''t'' ([], None)]"

definition lost_reply :: reply where
  "lost_reply = writeExecution mirror_rt zero_result
     (stageError StageRecover (errorsJoin [Some (Sentinel ErrAttemptNotFound), Some (Sentinel ErrRecoveryNotAuthorized)]))"

lemma lost_served: "plays (Http_recover mirror_rt dt lamp_handler recovery_posted) lost_run lost_reply"
proof -
  have id: "ra_actionID example_authorization = act_id example_action"
    by (simp add: example_authorization_def example_action_def)
  obtain request where d: "decode_body dt (store_struct True recover_fields) recovery_posted zero_recoverRequest = Inr request"
    "request_action (cq_Action request) = Inr example_action" "cq_AttemptID request = ''s''"
    "NewRecoveryAuthorization \<lparr>us_ActionID = act_id example_action, us_PreviousAttemptID = cq_Previous request,
         us_AuthorizedBy = cq_AuthorizedBy request, us_AuthorizedAt = cq_AuthorizedAt request,
         us_Reason = cq_Reason request\<rparr> = Inr example_authorization"
    using decoded_recovery [OF example_values(1) recovery_authorized(1) id recovery_authorized(3,2), of recovery_posted dt]
      recovery_length by (auto simp: recovery_posted_def)
  have "plays (Recover mirror_rt (Some \<lparr>rv_executor = example_use_case\<rparr>)
      \<lparr>ri_Action = example_action, ri_AttemptID = ''s'', ri_Authorization = example_authorization\<rparr>) lost_run
      (zero_result, stageError StageRecover (errorsJoin [Some (Sentinel ErrAttemptNotFound), Some (Sentinel ErrRecoveryNotAuthorized)]))"
    using id by (simp add: recover_plays lost_run_def) (simp add: example_authorization_def)
  then show ?thesis
    by (simp add: Http_recover_def d lamp_handler_def lamp_server_def plays_map_prog lost_reply_def) blast
qed

lemma http_recover_status_witness: "reply_status lost_reply = 400 \<and> lost_run \<noteq> []"
proof -
  have h: "hd_recoverer lamp_handler = Recover mirror_rt (Some \<lparr>rv_executor = example_use_case\<rparr>)"
    by (simp add: lamp_handler_def lamp_server_def)
  have plain: "list_all reads_plain lost_run" by (simp add: lost_run_def reads_plain_def)
  have "\<not> list_ex read_failed lost_run" "\<not> evidence_agrees a i lost_run" for a i
    by (simp_all add: lost_run_def read_failed_def)
  with http_recover_status [OF lost_served [of lamp_decode] h plain] show ?thesis
    by (auto simp: recovery_status_def lost_run_def split: sum.splits)
qed

end
