(* ===== verification/Spec2Isabelle.thy ===== *)
theory Spec2Isabelle
  imports Memory_Log Sqlite_Properties Execute_Properties Verify_Properties Recover_Properties Query_Properties
    System_Properties Identity_Properties Exec_Types Exec_Bounds Core_Memory HA_Numbers HA_Evidence Http_Examples Http_Responses
    Session_Examples Status_Examples
begin

text \<open>
  A model of Atoha in Isabelle/HOL: the core values, the projection, both event logs, the use cases, the
  Home Assistant adapter, the HTTP adapter and the composition root, with the theorems that make them
  correct. File names below are under \<open>src/\<close>.

  \<^bold>\<open>The program.\<close> A client asks the server to execute an action: an intent with an identity of its own and a
  logical target. An \<^emph>\<open>attempt\<close> is one try. The use case \<open>Execute\<close> claims the attempt in a journal together
  with its first facts, asks a policy for admission, resolves the target, hands the attempt to a provider
  and records after each step what is now known. Nothing is retried. What is known is a triple of
  independent statuses (admission, dispatch, effect), each of which may be unknown. \<open>Verify\<close> looks at the
  world and records a verdict, \<open>Recover\<close> starts another attempt on explicit authorization, \<open>Get\<close> replays the
  facts of an attempt to a view, \<open>Scan\<close> lists attempts that stopped half-way. The journal is an append-only
  log of facts with two implementations, in memory and over SQLite tables.

  \<^bold>\<open>How effects are modelled.\<close> A use case is a value of the type \<open>prog\<close> (theory Exec_Program): its next call
  to a port (clock, journal, admitter, resolver, provider, observer, verifier) and what it does with the
  answer. \<open>plays p tr v\<close> says that \<open>p\<close> makes the calls of \<open>tr\<close>, gets the answers recorded there and returns
  \<open>v\<close>; nothing is assumed of the answers, so a theorem about all plays holds for every implementation of
  the ports, faulty ones included. Journals are state transformers; the provider is a function from its
  arguments to the HTTP requests it sends and its answer; the HTTP handler is a program over the same
  calls. Errors are values of the type \<open>err\<close> with \<open>errors.Is\<close>, \<open>errors.Join\<close> and the text of \<open>Error()\<close>
  (theory Go_Errors); a Go pair of value and error is a sum, or a pair where the source returns both.

  \<^bold>\<open>Theories and files.\<close>
  \<^item> Atoha_Prelude: byte strings, results, hexadecimal and decimal digits, shared by all.
  \<^item> Go_Errors, Go_Strings, Go_Time, Go_Net, Json_Encode, Json_Scan, Json_Decode, Http_Mux: what the program
    uses of the Go standard library. Times are nanoseconds with an offset; RFC 3339 is printed and parsed as
    Go does; JSON is scanned byte by byte, with Go's limits, escapes, case folding of member names and
    treatment of invalid UTF-8; the multiplexer cleans, splits and unescapes paths as \<open>http.ServeMux\<close> does.
  \<^item> Core_Action, Core_Outcome, Core_Evidence, Core_Event, Core_Provider: \<open>action.go\<close>, \<open>outcome.go\<close>,
    \<open>observation.go\<close> and \<open>verification.go\<close>, \<open>event.go\<close>, \<open>provider.go\<close>. Each struct is a record, each
    constructor a function into a sum, each getter a selector. Core_Memory justifies that byte slices
    are modelled as values: over a store with aliasing, \<open>cloneBytes\<close> keeps constructed values unchanged. The
    slice of observation identities that \<open>NewVerificationResult\<close> copies is not covered there.
  \<^item> Projection: \<open>projection/attempt.go\<close>.
  \<^item> Memory_Log: \<open>eventlog/memory/log.go\<close>, every method an atomic transformer, as under its mutex.
  \<^item> Sqlite_Log: \<open>eventlog/sqlite/log.go\<close>. Tables are lists of rows, a statement is the function of the tables
    that its SQL text describes, and every call of the driver may fail as the record \<open>db_env\<close> says.
  \<^item> Exec_Program, Exec_Events, Execute, Recover_Attempt, Verify_Attempt, Query: \<open>execution/journal.go\<close>,
    \<open>events.go\<close> with \<open>payload.go\<close> and \<open>errors.go\<close>, \<open>execute.go\<close>, \<open>recovery.go\<close>, \<open>verify.go\<close>, \<open>query.go\<close>.
  \<^item> HA_Translator, HA_Client, HA_Provider, HA_Verifier: the files of \<open>provider/homeassistant\<close>.
  \<^item> Http_Handler: \<open>adapter/httpapi/handler.go\<close>. Server: \<open>cmd/atoha-server/main.go\<close>, from the configuration
    to the exit code of \<open>main\<close>.

  \<^bold>\<open>Contracts.\<close> The locale \<open>journal\<close> (theory Journal_Spec) states what the comments of \<open>execution/journal.go\<close>
  promise: claims are granted once, facts only grow, groups are stored whole. Both logs interpret it, and
  the theorems about executions over a log (Exec_Journal, Memory_World, Sqlite_World, System_Properties)
  rest on its facts. Journal_Refinement is a simulation between the two logs. The locales
  \<open>physical_provider\<close> and \<open>evidence_source\<close> (theory Provider_Spec) state what the comments of \<open>provider.go\<close> and
  \<open>verification.go\<close> ask of a provider, an observer and a verifier; HA_System and HA_Evidence interpret them
  on the Home Assistant adapter. \<open>knowledge_dimension\<close> (theory Projection) is what the three statuses of a
  view have in common.

  \<^bold>\<open>What the theorems show.\<close>
  \<^item> Execute_Theorems, Execute_Properties: at most one hand-over, after claim, admission and resolution in
    this order; the facts the journal accepted replay to exactly the outcome that was returned; an
    undisturbed run succeeds.
  \<^item> Exec_System, System_Properties: the same under any interleaving of use cases over one log, database
    failures included; what \<open>Get\<close> shows after an execution.
  \<^item> Recover_Properties, Verify_Properties, Query_Properties: what must agree before a recovery claims and an
    assessment records; which attempts a scan reports; a scan of the memory log that a run cut off after the
    hand-over left behind reports its attempt.
  \<^item> Exec_Types, Exec_Bounds: with ports that answer zero values or constructed ones, values handed over or
    returned are zero or constructed too and belong to the input, reads included; every use case returns
    after a fixed number of calls.
  \<^item> Projection, Identity_Properties: the view is a function of the set of claims; conflicts stay; when
    event identities are injective, and the executions that are refused where they are not.
  \<^item> Memory_Log, Sqlite_Properties: claims, atomic groups, idempotence, row round trips, the two logs as equal.
  \<^item> HA_Properties, HA_Observation, HA_Numbers, HA_System, HA_Evidence: requests are the translated actions,
    statuses follow from the exchange, one execution sends at most one request, and a recorded verdict
    rests on a fresh response of the same run; only JSON numbers reach the comparison of temperatures, and
    it compares them as rationals.
  \<^item> Http_Properties, Http_Statuses, Http_Paths, Http_Roundtrip, Http_Recovery_Text, Http_Responses: requests
    without the token reach nothing; what the status codes of executions and assessments say, and that of
    a recovery by the evidence it found;
    which paths reach the query of an attempt; what a client writes is what the use case gets, and what it
    reads is the outcome.
  \<^item> Server_Properties, Sqlite_Reads, Http_Session: who can reach a configured server; that one HTTP request
    causes at most one service call, end to end; that a client which posts an execution and asks for the
    attempt afterwards reads the same outcome twice, over the tables the execution left.
  \<^item> Json_Laws, Json_Roundtrip, Json_Compact, Json_Members, Exec_Event_Laws, Exec_Errors: the lemmas these rest
    on. Exec_Examples, HA_Examples, Http_Examples, Session_Examples, Status_Examples: concrete inputs, at which
    the theorems with hypotheses are applied (the theorems named \<open>_witness\<close>).

  \<^bold>\<open>Bounds and fuel.\<close> JSON nests at most 10000 deep, as in Go (\<open>maxNestingDepth\<close>); the loops over members and
  elements have the length of the input as fuel, and Json_Laws proves that more changes nothing. Requests
  are read up to 1 MiB, responses of Home Assistant up to theirs (\<open>maxRequestSize\<close>, \<open>maxResponseSize\<close>).
  Statuses are 8-bit words, durations saturate at 64 bits; sequence numbers of rows are not bounded.

  \<^bold>\<open>Parameters.\<close> \<open>go_runtime\<close>: SHA-256 and \<open>strconv.IsPrint\<close>. \<open>db_env\<close>: which calls of the driver fail, how
  many rows arrive, the text of time errors. \<open>http_env\<close>: \<open>url.Parse\<close>, \<open>http.NewRequest\<close> and \<open>Client.Do\<close>.
  \<open>json_texts\<close>, \<open>decode_texts\<close>: the texts of decoding errors. \<open>loadConfig\<close>: the environment and the rounding of
  fractions in \<open>time.ParseDuration\<close>. Every clock reading and every answer of a port is arbitrary.

  \<^bold>\<open>Not modelled.\<close> The SQL engine, the network and the listener with its timeouts and signals; how they end
  \<open>run\<close> is an argument of the model, and its log line on starting is left out. Contexts are told apart (the caller's or the one of the record path), cancellation
  is an answer of the port that noticed it. Response headers and the bodies the multiplexer writes itself.
  \<open>doc.go\<close> has no code. Concurrency is interleaving of calls to ports: each method of a log is atomic, as
  its mutex or transaction makes it.
\<close>

end
